(* ===== verification/Prelude.thy ===== *)
theory Prelude
  imports Main "HOL-Library.Word" "HOL-Library.Monad_Syntax"
begin

text \<open>
  Shared vocabulary of the EdgeCore kernel model: Rust's machine integers, the checked
  arithmetic and indexing of a debug build, loops over ranges, little- and big-endian
  byte views of words, and byte-addressed memory.

  A computation that can panic returns an \<open>option\<close>. The kernel's panic handler
  (\<open>src/src/main.rs\<close>, \<open>panic\<close>) ignores its argument and halts for ever, so every panic
  has the same observable outcome, and \<open>None\<close> stands for it. The kernel is built with the
  debug profile (README, \<open>cargo build\<close> without \<open>--release\<close>), in which integer overflow
  panics.
\<close>

unbundle bit_operations_syntax

section \<open>Types\<close>

type_synonym u8 = "8 word"
type_synonym u16 = "16 word"
type_synonym u32 = "32 word"
type_synonym u64 = "64 word"

text \<open>\<open>usize\<close> is a natural number whose operations check the 64-bit bound; \<open>i32\<close> an
  integer whose operations check (or wrap at) the signed 32-bit bound.\<close>

type_synonym usize = nat
type_synonym i32 = int

named_theorems rust_defs \<open>definitions of the checked primitives\<close>
named_theorems layout \<open>lengths and positions in byte layouts\<close>

section \<open>Checked arithmetic\<close>

definition uadd :: "usize \<Rightarrow> usize \<Rightarrow> usize option" where
  [rust_defs]: "uadd a b = (if a + b < 2 ^ 64 then Some (a + b) else None)"

definition usub :: "usize \<Rightarrow> usize \<Rightarrow> usize option" where
  [rust_defs]: "usub a b = (if b \<le> a then Some (a - b) else None)"

definition umul :: "usize \<Rightarrow> usize \<Rightarrow> usize option" where
  [rust_defs]: "umul a b = (if a * b < 2 ^ 64 then Some (a * b) else None)"

definition wadd :: "'a::len word \<Rightarrow> 'a word \<Rightarrow> 'a word option" where
  [rust_defs]: "wadd a b = (if unat a + unat b < 2 ^ LENGTH('a) then Some (a + b) else None)"

definition wsub :: "'a::len word \<Rightarrow> 'a word \<Rightarrow> 'a word option" where
  [rust_defs]: "wsub a b = (if b \<le> a then Some (a - b) else None)"

definition wmul :: "'a::len word \<Rightarrow> 'a word \<Rightarrow> 'a word option" where
  [rust_defs]: "wmul a b = (if unat a * unat b < 2 ^ LENGTH('a) then Some (a * b) else None)"

definition in_i32 :: "int \<Rightarrow> bool" where
  [rust_defs]: "in_i32 x \<longleftrightarrow> - (2 ^ 31) \<le> x \<and> x < 2 ^ 31"

definition iadd :: "i32 \<Rightarrow> i32 \<Rightarrow> i32 option" where
  [rust_defs]: "iadd a b = (if in_i32 (a + b) then Some (a + b) else None)"

definition isub :: "i32 \<Rightarrow> i32 \<Rightarrow> i32 option" where
  [rust_defs]: "isub a b = (if in_i32 (a - b) then Some (a - b) else None)"

lemma uadd_Some_iff [simp]: "uadd a b = Some c \<longleftrightarrow> a + b < 2 ^ 64 \<and> c = a + b"
  by (auto simp: uadd_def)

lemma usub_Some_iff [simp]: "usub a b = Some c \<longleftrightarrow> b \<le> a \<and> c = a - b"
  by (auto simp: usub_def)

lemma umul_Some_iff [simp]: "umul a b = Some c \<longleftrightarrow> a * b < 2 ^ 64 \<and> c = a * b"
  by (auto simp: umul_def)

lemma wadd_Some_unat:
  fixes a b c :: "'a::len word"
  assumes "wadd a b = Some c"
  shows "unat c = unat a + unat b"
  using assms by (auto simp: wadd_def unat_word_ariths split: if_splits)

lemma wmul_Some_unat:
  fixes a b c :: "'a::len word"
  assumes "wmul a b = Some c"
  shows "unat c = unat a * unat b"
  using assms by (auto simp: wmul_def unat_word_ariths split: if_splits)

section \<open>Checked indexing\<close>

definition nth_chk :: "'a list \<Rightarrow> usize \<Rightarrow> 'a option" where
  [rust_defs]: "nth_chk xs i = (if i < length xs then Some (xs ! i) else None)"

definition upd_chk :: "'a list \<Rightarrow> usize \<Rightarrow> 'a \<Rightarrow> 'a list option" where
  [rust_defs]: "upd_chk xs i v = (if i < length xs then Some (xs[i := v]) else None)"

definition slice_chk :: "'a list \<Rightarrow> usize \<Rightarrow> usize \<Rightarrow> 'a list option" where
  [rust_defs]: "slice_chk xs lo hi =
     (if lo \<le> hi \<and> hi \<le> length xs then Some (take (hi - lo) (drop lo xs)) else None)"

text \<open>\<open>xs[lo..hi].copy_from_slice(src)\<close> panics on a range out of bounds and on a length
  mismatch.\<close>

definition copy_chk :: "'a list \<Rightarrow> usize \<Rightarrow> usize \<Rightarrow> 'a list \<Rightarrow> 'a list option" where
  [rust_defs]: "copy_chk xs lo hi src =
     (if lo \<le> hi \<and> hi \<le> length xs \<and> length src = hi - lo
      then Some (take lo xs @ src @ drop hi xs) else None)"

lemma nth_chk_Some_iff [simp]: "nth_chk xs i = Some v \<longleftrightarrow> i < length xs \<and> v = xs ! i"
  by (auto simp: nth_chk_def)

lemma upd_chk_Some_iff [simp]: "upd_chk xs i v = Some ys \<longleftrightarrow> i < length xs \<and> ys = xs[i := v]"
  by (auto simp: upd_chk_def)

section \<open>Loops\<close>

text \<open>A \<open>for\<close> loop is a fold that stops at the first panic.\<close>

fun foldM :: "('a \<Rightarrow> 's \<Rightarrow> 's option) \<Rightarrow> 'a list \<Rightarrow> 's \<Rightarrow> 's option" where
  "foldM f [] s = Some s"
| "foldM f (x # xs) s = (case f x s of None \<Rightarrow> None | Some s' \<Rightarrow> foldM f xs s')"

lemma foldM_append: "foldM f (xs @ ys) s = Option.bind (foldM f xs s) (foldM f ys)"
  by (induction xs arbitrary: s) (auto split: option.splits)

lemma foldM_inv:
  assumes "foldM f xs s = Some s'" and "P s"
    and "\<And>x s s'. x \<in> set xs \<Longrightarrow> P s \<Longrightarrow> f x s = Some s' \<Longrightarrow> P s'"
  shows "P s'"
  using assms
proof (induction xs arbitrary: s)
  case (Cons x xs)
  then obtain t where t: "f x s = Some t" "foldM f xs t = Some s'"
    by (auto split: option.splits)
  then have "P t" using Cons.prems by auto
  then show ?case using Cons.IH [OF t(2)] Cons.prems(3) by auto
qed auto

lemma foldM_total:
  assumes "P s" and "\<And>x s. x \<in> set xs \<Longrightarrow> P s \<Longrightarrow> \<exists>s'. f x s = Some s' \<and> P s'"
  shows "\<exists>s'. foldM f xs s = Some s' \<and> P s'"
  using assms
proof (induction xs arbitrary: s)
  case (Cons x xs)
  from Cons.prems(2) [of x s] Cons.prems(1) obtain t where t: "f x s = Some t" "P t"
    by auto
  from Cons.IH [OF t(2)] Cons.prems(2) show ?case by (simp add: t(1))
qed auto

lemma foldM_Some_fold:
  assumes "\<And>x s. x \<in> set xs \<Longrightarrow> f x s = Some (g x s)"
  shows "foldM f xs s = Some (fold g xs s)"
  using assms by (induction xs arbitrary: s) auto

lemma foldM_map: "foldM f (map g xs) s = foldM (\<lambda>x. f (g x)) xs s"
  by (induction xs arbitrary: s) (auto split: option.splits)

lemma foldM_cong [fundef_cong]:
  assumes "xs = ys" and "s = t" and "\<And>x s. x \<in> set ys \<Longrightarrow> f x s = g x s"
  shows "foldM f xs s = foldM g ys t"
  using assms(3) unfolding assms(1,2)
  by (induction ys arbitrary: t) (auto split: option.splits)

section \<open>Byte views of words\<close>

fun of_le :: "u8 list \<Rightarrow> 'a::len word" where
  "of_le [] = 0"
| "of_le (b # bs) = ucast b OR push_bit 8 (of_le bs)"

definition of_be :: "u8 list \<Rightarrow> 'a::len word" where
  "of_be bs = of_le (rev bs)"

definition to_le :: "nat \<Rightarrow> 'a::len word \<Rightarrow> u8 list" where
  "to_le n w = map (\<lambda>i. ucast (drop_bit (8 * i) w)) [0..<n]"

definition to_be :: "nat \<Rightarrow> 'a::len word \<Rightarrow> u8 list" where
  "to_be n w = rev (to_le n w)"

lemma length_to_le [simp, layout]: "length (to_le n w) = n"
  by (simp add: to_le_def)

lemma to_le_Nil_iff [simp]: "to_le n w = [] \<longleftrightarrow> n = 0"
  by (simp add: to_le_def)

lemma length_to_be [simp, layout]: "length (to_be n w) = n"
  by (simp add: to_be_def)

lemma bit_of_le:
  "bit (of_le bs :: 'a::len word) n \<longleftrightarrow>
     n < LENGTH('a) \<and> n div 8 < length bs \<and> bit (bs ! (n div 8)) (n mod 8)"
proof (induction bs arbitrary: n)
  case Nil
  then show ?case by simp
next
  case (Cons b bs)
  show ?case
  proof (cases "n < 8")
    case True
    then show ?thesis by (auto simp: bit_simps)
  next
    case False
    then have n: "n div 8 = Suc ((n - 8) div 8)" "n mod 8 = (n - 8) mod 8"
      by (simp_all add: div_if mod_if)
    from False have "\<not> bit b n" by (auto dest: bit_imp_le_length)
    with False have "bit (of_le (b # bs) :: 'a word) n
        \<longleftrightarrow> n < LENGTH('a) \<and> bit (of_le bs :: 'a word) (n - 8)"
      by (auto simp: bit_or_iff bit_push_bit_iff bit_unsigned_iff dest: bit_imp_le_length)
    also have "\<dots> \<longleftrightarrow> n < LENGTH('a) \<and> n div 8 < length (b # bs)
        \<and> bit ((b # bs) ! (n div 8)) (n mod 8)"
      unfolding n Cons.IH by auto
    finally show ?thesis .
  qed
qed

lemma of_le_to_le [simp]:
  fixes w :: "'a::len word"
  assumes "LENGTH('a) \<le> 8 * n"
  shows "of_le (to_le n w) = w"
proof (rule bit_word_eqI)
  fix k assume "k < LENGTH('a)"
  with assms have "k div 8 < n" by (simp add: div_less_iff_less_mult mult.commute)
  with \<open>k < LENGTH('a)\<close> show "bit (of_le (to_le n w) :: 'a word) k = bit w k"
    by (simp add: bit_of_le to_le_def bit_simps)
qed

lemma of_be_to_be [simp]:
  fixes w :: "'a::len word"
  assumes "LENGTH('a) \<le> 8 * n"
  shows "of_be (to_be n w) = w"
  using assms by (simp add: of_be_def to_be_def)

lemma to_le_of_le:
  assumes "8 * length bs \<le> LENGTH('a)"
  shows "to_le (length bs) (of_le bs :: 'a::len word) = bs"
proof (rule nth_equalityI)
  fix i assume i: "i < length (to_le (length bs) (of_le bs :: 'a word))"
  have "bit (to_le (length bs) (of_le bs :: 'a word) ! i) k = bit (bs ! i) k" if "k < 8" for k
    using that i assms by (auto simp: to_le_def bit_simps bit_of_le)
  then show "to_le (length bs) (of_le bs :: 'a word) ! i = bs ! i"
    by (intro bit_word_eqI) simp
qed simp

lemma to_be_of_be:
  assumes "8 * length bs \<le> LENGTH('a)"
  shows "to_be (length bs) (of_be bs :: 'a::len word) = bs"
  using to_le_of_le [of "rev bs", where 'a = 'a] assms by (simp add: to_be_def of_be_def)

text \<open>The bytes of a field of a packed structure laid over a byte string.\<close>

definition field :: "u8 list \<Rightarrow> nat \<Rightarrow> nat \<Rightarrow> u8 list" where
  "field bs off n = take n (drop off bs)"

lemma length_field: "length (field f off n) = min n (length f - off)"
  by (simp add: field_def)

section \<open>Testing a bit\<close>

lemma bit_test: "(w AND push_bit n 1 \<noteq> 0) \<longleftrightarrow> bit (w :: 'a::len word) n"
  if "n < LENGTH('a)"
proof -
  have "w AND push_bit n 1 = of_bool (bit w n) * push_bit n 1"
    using that by (intro bit_word_eqI) (auto simp: bit_simps)
  with that show ?thesis by auto
qed

section \<open>Byte-addressed memory\<close>

type_synonym memory = "u64 \<Rightarrow> u8"

definition load_bytes :: "memory \<Rightarrow> u64 \<Rightarrow> nat \<Rightarrow> u8 list" where
  "load_bytes m a n = map (\<lambda>i. m (a + of_nat i)) [0..<n]"

definition store_bytes :: "memory \<Rightarrow> u64 \<Rightarrow> u8 list \<Rightarrow> memory" where
  "store_bytes m a bs = (\<lambda>x. if unat (x - a) < length bs then bs ! unat (x - a) else m x)"

text \<open>Two byte ranges do not meet.\<close>

definition apart :: "u64 \<Rightarrow> nat \<Rightarrow> u64 \<Rightarrow> nat \<Rightarrow> bool" where
  "apart a n b k \<longleftrightarrow> n \<le> unat (b - a) \<and> k \<le> unat (a - b)"

definition load_le :: "memory \<Rightarrow> u64 \<Rightarrow> nat \<Rightarrow> 'a::len word" where
  "load_le m a n = of_le (load_bytes m a n)"

definition store_le :: "memory \<Rightarrow> u64 \<Rightarrow> nat \<Rightarrow> 'a::len word \<Rightarrow> memory" where
  "store_le m a n w = store_bytes m a (to_le n w)"

lemma length_load_bytes [simp, layout]: "length (load_bytes m a n) = n"
  by (simp add: load_bytes_def)

lemma load_store_bytes_same [simp]:
  assumes "length bs \<le> 2 ^ 64"
  shows "load_bytes (store_bytes m a bs) a (length bs) = bs"
proof (rule nth_equalityI)
  fix i assume "i < length (load_bytes (store_bytes m a bs) a (length bs))"
  with assms show "load_bytes (store_bytes m a bs) a (length bs) ! i = bs ! i"
    by (simp add: load_bytes_def store_bytes_def unat_of_nat)
qed simp

lemma unat_sub_add:
  fixes a b :: u64
  assumes "k \<le> unat (a - b)" and "i < k"
  shows "unat (b + of_nat i - a) = unat (b - a) + i"
proof -
  have "unat (b - a) + i < 2 ^ 64"
    using assms unsigned_less [of a, where ?'a = nat] unsigned_less [of b, where ?'a = nat]
    by (auto simp: unat_sub_if_size word_size split: if_splits)
  moreover have "b + of_nat i - a = of_nat (unat (b - a) + i)" by simp
  ultimately show ?thesis by (simp only: unat_of_nat) simp
qed

lemma apart_load [simp]:
  assumes "apart a (length bs) b k"
  shows "load_bytes (store_bytes m a bs) b k = load_bytes m b k"
proof (rule nth_equalityI)
  fix i assume "i < length (load_bytes (store_bytes m a bs) b k)"
  then have i: "i < k" by simp
  from assms i have "unat (b + of_nat i - a) = unat (b - a) + i"
    by (intro unat_sub_add) (auto simp: apart_def)
  with assms have "length bs \<le> unat (b + of_nat i - a)" by (simp add: apart_def)
  with i show "load_bytes (store_bytes m a bs) b k ! i = load_bytes m b k ! i"
    by (simp add: load_bytes_def store_bytes_def)
qed simp

lemma load_le_store_le_same [simp]:
  assumes "LENGTH('a) \<le> 8 * n" and "n \<le> 2 ^ 64"
  shows "load_le (store_le m a n (w :: 'a::len word)) a n = w"
  using assms load_store_bytes_same [of "to_le n w" m a]
  by (simp add: load_le_def store_le_def)

lemma load_le_store_le_apart [simp]:
  assumes "apart a n b k"
  shows "(load_le (store_le m a n (w :: 'a::len word)) b k :: 'b::len word) = load_le m b k"
  using assms by (simp add: load_le_def store_le_def)

lemma load_le_store_bytes_apart [simp]:
  assumes "apart a (length bs) b k"
  shows "load_le (store_bytes m a bs) b k = load_le m b k"
  using assms by (simp add: load_le_def)

lemma load_bytes_store_le_apart [simp]:
  assumes "apart a n b k"
  shows "load_bytes (store_le m a n (w :: 'a::len word)) b k = load_bytes m b k"
  using assms by (simp add: store_le_def)

lemma apart_sym: "apart a n b k \<longleftrightarrow> apart b k a n"
  by (auto simp: apart_def)

lemma store_bytes_outside: "length bs \<le> unat (x - a) \<Longrightarrow> store_bytes m a bs x = m x"
  by (simp add: store_bytes_def)

text \<open>Parts of a byte range.\<close>

lemma load_bytes_field:
  assumes "load_bytes m a n = bs" and "i + k \<le> n"
  shows "load_bytes m (a + of_nat i) k = field bs i k"
proof (rule nth_equalityI)
  fix j assume "j < length (load_bytes m (a + of_nat i) k)"
  then show "load_bytes m (a + of_nat i) k ! j = field bs i k ! j"
    using assms by (auto simp: load_bytes_def field_def add.assoc)
qed (use assms in \<open>auto simp: length_field\<close>)

lemma load_bytes_add: "load_bytes m a (n + k) = load_bytes m a n @ load_bytes m (a + of_nat n) k"
proof (rule nth_equalityI)
  fix j assume "j < length (load_bytes m a (n + k))"
  then show "load_bytes m a (n + k) ! j = (load_bytes m a n @ load_bytes m (a + of_nat n) k) ! j"
    by (auto simp: load_bytes_def nth_append add.assoc simp flip: of_nat_add)
qed simp

lemma load_bytes_append:
  "load_bytes m a (length (xs @ ys)) = xs @ ys \<longleftrightarrow>
     load_bytes m a (length xs) = xs \<and> load_bytes m (a + of_nat (length xs)) (length ys) = ys"
  by (simp add: load_bytes_add)

text \<open>Two adjacent stores are one.\<close>

lemma store_bytes_append:
  assumes "length xs + length ys \<le> 2 ^ 64"
  shows "store_bytes (store_bytes m a xs) (a + of_nat (length xs)) ys = store_bytes m a (xs @ ys)"
proof
  fix x
  define d where "d = unat (x - a)"
  have eq: "x - (a + of_nat (length xs)) = (x - a) - of_nat (length xs)" by simp
  show "store_bytes (store_bytes m a xs) (a + of_nat (length xs)) ys x = store_bytes m a (xs @ ys) x"
  proof (cases "length xs \<le> d")
    case True
    then have "length xs < 2 ^ 64" using unsigned_less [of "x - a", where ?'a = nat] by (simp add: d_def)
    with True have "unat (x - (a + of_nat (length xs))) = d - length xs"
      unfolding eq by (simp add: unat_sub_if_size unat_of_nat take_bit_nat_eq_self_iff d_def)
    with True show ?thesis by (auto simp: store_bytes_def d_def [symmetric] nth_append)
  next
    case False
    show ?thesis
    proof (cases "length ys = 0")
      case True
      then show ?thesis by (simp add: store_bytes_def)
    next
      case ne: False
      then have l: "length xs < 2 ^ 64" using assms by linarith
      with False have "unat (x - (a + of_nat (length xs))) = 2 ^ 64 + d - length xs"
        unfolding eq by (simp add: unat_sub_if_size unat_of_nat take_bit_nat_eq_self_iff d_def word_size)
      with False assms show ?thesis by (auto simp: store_bytes_def d_def [symmetric] nth_append)
    qed
  qed
qed

end
