(* ===== verification/ArpCache.thy ===== *)
theory ArpCache
  imports Prelude "HOL-Library.Multiset"
begin

text \<open>
  The ARP cache of the network driver (\<open>src/src/e1000.rs\<close>, \<open>ArpCache\<close>): a fixed array of
  sixteen entries. It is a bounded map from IP addresses to MAC addresses; the contract of
  such a map is the locale \<open>bounded_map\<close>.
\<close>

type_synonym ip_addr = "u8 list"
type_synonym mac_addr = "u8 list"

record arp_entry =
  arp_ip :: ip_addr
  arp_mac :: mac_addr
  arp_active :: bool

type_synonym arp_cache = "arp_entry list"

definition arp_new :: arp_cache where
  "arp_new = replicate 16 \<lparr>arp_ip = replicate 4 0, arp_mac = replicate 6 0, arp_active = False\<rparr>"

text \<open>The two loops of \<open>insert\<close>: refresh the entry of a known address, else claim the first
  inactive entry; with neither the table stays as it is.\<close>

fun arp_refresh :: "ip_addr \<Rightarrow> mac_addr \<Rightarrow> arp_cache \<Rightarrow> arp_cache option" where
  "arp_refresh ip mac [] = None"
| "arp_refresh ip mac (e # es) =
     (if arp_active e \<and> arp_ip e = ip then Some (e\<lparr>arp_mac := mac\<rparr> # es)
      else map_option (Cons e) (arp_refresh ip mac es))"

fun arp_claim :: "ip_addr \<Rightarrow> mac_addr \<Rightarrow> arp_cache \<Rightarrow> arp_cache" where
  "arp_claim ip mac [] = []"
| "arp_claim ip mac (e # es) =
     (if \<not> arp_active e then e\<lparr>arp_ip := ip, arp_mac := mac, arp_active := True\<rparr> # es
      else e # arp_claim ip mac es)"

definition arp_insert :: "ip_addr \<Rightarrow> mac_addr \<Rightarrow> arp_cache \<Rightarrow> arp_cache" where
  "arp_insert ip mac es =
     (case arp_refresh ip mac es of Some es' \<Rightarrow> es' | None \<Rightarrow> arp_claim ip mac es)"

fun arp_lookup :: "arp_cache \<Rightarrow> ip_addr \<Rightarrow> mac_addr option" where
  "arp_lookup [] ip = None"
| "arp_lookup (e # es) ip =
     (if arp_active e \<and> arp_ip e = ip then Some (arp_mac e) else arp_lookup es ip)"

section \<open>The contract of a bounded map\<close>

locale bounded_map =
  fixes lookup :: "'t \<Rightarrow> 'k \<Rightarrow> 'v option"
    and insert :: "'k \<Rightarrow> 'v \<Rightarrow> 't \<Rightarrow> 't"
    and inv :: "'t \<Rightarrow> bool"
    and used :: "'t \<Rightarrow> nat"
    and cap :: nat
  assumes insert_inv: "inv t \<Longrightarrow> inv (insert k v t)"
    and lookup_other: "inv t \<Longrightarrow> k' \<noteq> k \<Longrightarrow> lookup (insert k v t) k' = lookup t k'"
    and lookup_same: "inv t \<Longrightarrow> lookup t k \<noteq> None \<or> used t < cap \<Longrightarrow> lookup (insert k v t) k = Some v"
    and insert_full: "inv t \<Longrightarrow> lookup t k = None \<Longrightarrow> used t = cap \<Longrightarrow> insert k v t = t"
    and used_insert: "inv t \<Longrightarrow>
      used (insert k v t) = (if lookup t k = None \<and> used t < cap then Suc (used t) else used t)"
begin

lemma lookup_insert:
  assumes "inv t" and "lookup t k \<noteq> None \<or> used t < cap"
  shows "lookup (insert k v t) = (lookup t)(k \<mapsto> v)"
  using assms lookup_same lookup_other by (intro ext) auto

text \<open>As long as the addresses fit, a run of insertions behaves like a map.\<close>

lemma lookup_inserts:
  assumes "inv t" and "used t + length kvs \<le> cap"
  shows "lookup (fold (\<lambda>(k, v). insert k v) kvs t) = lookup t ++ map_of (rev kvs)"
  using assms
proof (induction kvs arbitrary: t)
  case (Cons kv kvs)
  obtain k v where kv: "kv = (k, v)" by (cases kv)
  have "used (insert k v t) \<le> Suc (used t)" using used_insert [OF Cons.prems(1)] by simp
  then have "lookup (fold (\<lambda>(k, v). insert k v) kvs (insert k v t))
      = lookup (insert k v t) ++ map_of (rev kvs)"
    using Cons.prems insert_inv by (intro Cons.IH) auto
  also have "lookup (insert k v t) = lookup t ++ [k \<mapsto> v]"
    using Cons.prems lookup_insert [of t k v] by simp
  finally show ?case by (simp add: kv map_of_append map_add_assoc del: map_add_upd)
qed simp

end

section \<open>The cache is a bounded map\<close>

definition arp_ips :: "arp_cache \<Rightarrow> ip_addr list" where
  "arp_ips es = map arp_ip (filter arp_active es)"

definition arp_ok :: "arp_cache \<Rightarrow> bool" where
  "arp_ok es \<longleftrightarrow> length es = 16 \<and> distinct (arp_ips es)"

definition arp_used :: "arp_cache \<Rightarrow> nat" where
  "arp_used es = length (arp_ips es)"

lemma arp_ips_simps [simp]:
  "arp_ips [] = []" "arp_ips (e # es) = (if arp_active e then [arp_ip e] else []) @ arp_ips es"
  by (simp_all add: arp_ips_def)

lemma arp_lookup_None_iff: "arp_lookup es ip = None \<longleftrightarrow> ip \<notin> set (arp_ips es)"
  by (induction es) auto

lemma arp_refresh_None_iff: "arp_refresh ip mac es = None \<longleftrightarrow> ip \<notin> set (arp_ips es)"
  by (induction es) auto

lemma arp_refresh_ips: "arp_refresh ip mac es = Some es' \<Longrightarrow> arp_ips es' = arp_ips es \<and> length es' = length es"
  by (induction es arbitrary: es') (auto split: if_splits)

lemma arp_refresh_lookup:
  "arp_refresh ip mac es = Some es' \<Longrightarrow> arp_lookup es' = (arp_lookup es)(ip \<mapsto> mac)"
  by (induction es arbitrary: es') (fastforce split: if_splits)+

lemma arp_claim_full: "length (arp_ips es) = length es \<Longrightarrow> arp_claim ip mac es = es"
proof (induction es)
  case (Cons e es)
  have "length (arp_ips es) \<le> length es" by (simp add: arp_ips_def)
  with Cons show ?case by (auto split: if_splits)
qed simp

lemma arp_claim_room:
  assumes "ip \<notin> set (arp_ips es)" and "length (arp_ips es) < length es"
  shows "arp_lookup (arp_claim ip mac es) = (arp_lookup es)(ip \<mapsto> mac)
    \<and> mset (arp_ips (arp_claim ip mac es)) = add_mset ip (mset (arp_ips es))"
  using assms by (induction es) auto

lemma length_arp_claim [simp]: "length (arp_claim ip mac es) = length es"
  by (induction es) auto

lemma arp_insert_cases:
  assumes "length es = 16"
  obtains (known) "ip \<in> set (arp_ips es)" "arp_ips (arp_insert ip mac es) = arp_ips es"
      "arp_lookup (arp_insert ip mac es) = (arp_lookup es)(ip \<mapsto> mac)"
  | (room) "ip \<notin> set (arp_ips es)" "arp_used es < 16"
      "mset (arp_ips (arp_insert ip mac es)) = add_mset ip (mset (arp_ips es))"
      "arp_lookup (arp_insert ip mac es) = (arp_lookup es)(ip \<mapsto> mac)"
  | (full) "ip \<notin> set (arp_ips es)" "arp_used es = 16" "arp_insert ip mac es = es"
proof (cases "arp_refresh ip mac es")
  case (Some es')
  then have "ip \<in> set (arp_ips es)" using arp_refresh_None_iff [of ip mac es] by auto
  with Some known show thesis
    by (simp add: arp_insert_def arp_refresh_ips arp_refresh_lookup)
next
  case None
  then have ip: "ip \<notin> set (arp_ips es)" by (simp add: arp_refresh_None_iff)
  have "length (arp_ips es) \<le> length es" by (simp add: arp_ips_def)
  with None ip assms room full arp_claim_room [OF ip] arp_claim_full [of es]
  show thesis by (cases "length (arp_ips es) = 16") (auto simp: arp_insert_def arp_used_def)
qed

lemma length_arp_insert [simp]: "length (arp_insert ip mac es) = length es"
  by (auto simp: arp_insert_def dest: arp_refresh_ips split: option.splits)

lemma arp_insert_ok: "arp_ok es \<Longrightarrow> arp_ok (arp_insert ip mac es)"
proof -
  assume ok: "arp_ok es"
  then have "length es = 16" by (simp add: arp_ok_def)
  then show ?thesis
  proof (cases rule: arp_insert_cases [of es ip mac])
    case room
    from room(3) have "distinct (arp_ips (arp_insert ip mac es)) \<longleftrightarrow> distinct (ip # arp_ips es)"
      by (metis mset.simps(2) mset_eq_imp_distinct_iff)
    with ok room(1) show ?thesis by (simp add: arp_ok_def)
  qed (use ok in \<open>auto simp: arp_ok_def\<close>)
qed

interpretation arp: bounded_map arp_lookup arp_insert arp_ok arp_used 16
proof
  fix t k v assume ok: "arp_ok t"
  then have len: "length t = 16" by (simp add: arp_ok_def)
  show "arp_ok (arp_insert k v t)" by (rule arp_insert_ok [OF ok])
  show "arp_lookup (arp_insert k v t) k' = arp_lookup t k'" if "k' \<noteq> k" for k'
    using len that by (cases rule: arp_insert_cases [of t k v]) auto
  show "arp_lookup (arp_insert k v t) k = Some v" if "arp_lookup t k \<noteq> None \<or> arp_used t < 16"
    using len that by (cases rule: arp_insert_cases [of t k v]) (auto simp: arp_lookup_None_iff)
  show "arp_insert k v t = t" if "arp_lookup t k = None" "arp_used t = 16"
    using len that by (cases rule: arp_insert_cases [of t k v]) (auto simp: arp_lookup_None_iff)
  show "arp_used (arp_insert k v t) =
      (if arp_lookup t k = None \<and> arp_used t < 16 then Suc (arp_used t) else arp_used t)"
    using len
  proof (cases rule: arp_insert_cases [of t k v])
    case room
    then show ?thesis using mset_eq_length [of "arp_ips (arp_insert k v t)" "k # arp_ips t"]
      by (simp add: arp_used_def arp_lookup_None_iff)
  qed (auto simp: arp_used_def arp_lookup_None_iff)
qed

lemma arp_new_ok: "arp_ok arp_new" "arp_used arp_new = 0" "arp_lookup arp_new ip = None"
  by (simp_all add: arp_ok_def arp_new_def arp_used_def arp_lookup_None_iff numeral_eq_Suc)

section \<open>Properties\<close>

text \<open>C24. The ARP cache refines a map of at most sixteen addresses: after
  any run of insertions into a well-formed table with room for them, a lookup gives the MAC
  address inserted last for the IP address, or what the table held before; and the table stays
  well formed.\<close>

theorem arp_cache_refines_map:
  assumes "arp_ok t" and "arp_used t + length kvs \<le> 16"
  shows "arp_lookup (fold (\<lambda>(ip, mac). arp_insert ip mac) kvs t) = arp_lookup t ++ map_of (rev kvs)
    \<and> arp_ok (fold (\<lambda>(ip, mac). arp_insert ip mac) kvs t)"
proof
  show "arp_lookup (fold (\<lambda>(ip, mac). arp_insert ip mac) kvs t) = arp_lookup t ++ map_of (rev kvs)"
    by (rule arp.lookup_inserts [OF assms])
  show "arp_ok (fold (\<lambda>(ip, mac). arp_insert ip mac) kvs t)"
    using assms(1) by (induction kvs arbitrary: t) (auto intro: arp_insert_ok)
qed

theorem arp_cache_refines_map_witness:
  "arp_lookup (fold (\<lambda>(ip, mac). arp_insert ip mac)
      [([10, 0, 2, 2], [1]), ([10, 0, 2, 3], [2]), ([10, 0, 2, 2], [3])] arp_new) [10, 0, 2, 2] = Some [3]"
  using arp_cache_refines_map [OF arp_new_ok(1),
      of "[([10, 0, 2, 2], [1]), ([10, 0, 2, 3], [2]), ([10, 0, 2, 2], [3])]"]
  by (simp add: arp_new_ok(2))

text \<open>When all sixteen entries are in use, an unknown address is dropped and
  the table does not change; no entry is ever evicted.\<close>

lemma arp_cache_full:
  assumes "arp_ok t" and "arp_lookup t ip = None" and "arp_used t = 16"
  shows "arp_insert ip mac t = t"
  by (rule arp.insert_full [OF assms])

definition full_cache :: arp_cache where
  "full_cache = map (\<lambda>i. \<lparr>arp_ip = [of_nat i], arp_mac = [], arp_active = True\<rparr>) [0..<16]"

end
