(* ===== verification/RustText.thy ===== *)
theory RustText
  imports Prelude
begin

text \<open>
  What the kernel uses of Rust's strings: UTF-8 validation and decoding
  (\<open>core::str::from_utf8\<close>, \<open>str::chars\<close>), \<open>char::to_ascii_uppercase\<close>, and the number
  formats \<open>{}\<close> and \<open>{:04X}\<close> of \<open>alloc::format!\<close>. A \<open>&str\<close> is the list of its
  UTF-8 bytes, a \<open>char\<close> its code point.
\<close>

type_synonym rchar = nat
type_synonym rstr = "u8 list"

definition lit :: "string \<Rightarrow> rstr" where
  "lit cs = map of_char cs"

lemma length_lit [simp, layout]: "length (lit cs) = length cs"
  by (simp add: lit_def)

section \<open>UTF-8\<close>

definition utf8_cont :: "u8 \<Rightarrow> bool" where
  "utf8_cont b \<longleftrightarrow> 0x80 \<le> b \<and> b \<le> 0xBF"

text \<open>The second byte's range rules out overlong forms, surrogates and code points past
  U+10FFFF.\<close>

definition utf8_second :: "u8 \<Rightarrow> u8 \<Rightarrow> bool" where
  "utf8_second b c \<longleftrightarrow>
     (if b = 0xE0 then 0xA0 \<le> c \<and> c \<le> 0xBF
      else if b = 0xED then 0x80 \<le> c \<and> c \<le> 0x9F
      else if b = 0xF0 then 0x90 \<le> c \<and> c \<le> 0xBF
      else if b = 0xF4 then 0x80 \<le> c \<and> c \<le> 0x8F
      else utf8_cont c)"

fun utf8_chars :: "rstr \<Rightarrow> rchar list option" where
  "utf8_chars [] = Some []"
| "utf8_chars (b # bs) =
     (if b < 0x80 then map_option (Cons (unat b)) (utf8_chars bs)
      else case bs of [] \<Rightarrow> None | c1 # bs1 \<Rightarrow>
        if 0xC2 \<le> b \<and> b \<le> 0xDF then
          (if utf8_cont c1
           then map_option (Cons ((unat b - 0xC0) * 64 + (unat c1 - 0x80))) (utf8_chars bs1)
           else None)
        else case bs1 of [] \<Rightarrow> None | c2 # bs2 \<Rightarrow>
          if 0xE0 \<le> b \<and> b \<le> 0xEF then
            (if utf8_second b c1 \<and> utf8_cont c2
             then map_option (Cons ((unat b - 0xE0) * 4096 + (unat c1 - 0x80) * 64
                    + (unat c2 - 0x80))) (utf8_chars bs2)
             else None)
          else case bs2 of [] \<Rightarrow> None | c3 # bs3 \<Rightarrow>
            if 0xF0 \<le> b \<and> b \<le> 0xF4 \<and> utf8_second b c1 \<and> utf8_cont c2 \<and> utf8_cont c3
            then map_option (Cons ((unat b - 0xF0) * 262144 + (unat c1 - 0x80) * 4096
                   + (unat c2 - 0x80) * 64 + (unat c3 - 0x80))) (utf8_chars bs3)
            else None)"

definition from_utf8 :: "u8 list \<Rightarrow> rstr option" where
  "from_utf8 bs = (if utf8_chars bs = None then None else Some bs)"

definition chars :: "rstr \<Rightarrow> rchar list" where
  "chars s = (case utf8_chars s of None \<Rightarrow> [] | Some cs \<Rightarrow> cs)"

definition to_ascii_uppercase :: "rchar \<Rightarrow> rchar" where
  "to_ascii_uppercase c = (if 97 \<le> c \<and> c \<le> 122 then c - 32 else c)"

lemma utf8_chars_ascii:
  assumes "\<And>b. b \<in> set bs \<Longrightarrow> b < 0x80"
  shows "utf8_chars bs = Some (map unat bs)"
  using assms by (induction bs) auto

lemma chars_ascii: "(\<And>b. b \<in> set bs \<Longrightarrow> b < 0x80) \<Longrightarrow> chars bs = map unat bs"
  by (simp add: chars_def utf8_chars_ascii)

lemma from_utf8_ascii: "(\<And>b. b \<in> set bs \<Longrightarrow> b < 0x80) \<Longrightarrow> from_utf8 bs = Some bs"
  by (simp add: from_utf8_def utf8_chars_ascii)

section \<open>Number formats\<close>

fun dec_digits :: "nat \<Rightarrow> rstr" where
  "dec_digits n = (if n < 10 then [of_nat (48 + n)]
                   else dec_digits (n div 10) @ [of_nat (48 + n mod 10)])"

declare dec_digits.simps [simp del]

definition dec_int :: "int \<Rightarrow> rstr" where
  "dec_int i = (if i < 0 then 45 # dec_digits (nat (- i)) else dec_digits (nat i))"

definition hex_digit :: "nat \<Rightarrow> u8" where
  "hex_digit d = (if d < 10 then of_nat (48 + d) else of_nat (55 + d))"

definition hex4 :: "u16 \<Rightarrow> rstr" where
  "hex4 w = map (\<lambda>i. hex_digit (unat w div 16 ^ i mod 16)) [3, 2, 1, 0]"

end
