(* ===== verification/Machine.thy ===== *)
theory Machine
  imports RustText
begin

text \<open>
  The machine the kernel runs on. Memory and memory-mapped device registers share one
  byte-addressed space, as \<open>read_volatile\<close> and \<open>write_volatile\<close> see them; every volatile
  register write and port write is also recorded in order, because a device reacts to the
  write itself and not only to the value left behind.

  What is not the kernel's code is a parameter, gathered in the record \<open>env\<close>: \<open>hw\<close> is what
  the devices do to the machine before a volatile read of the driver, \<open>port_in\<close> the value
  an \<open>in\<close> instruction yields, and \<open>galloc\<close> the global allocator (the crate
  \<open>linked_list_allocator\<close>), which picks an address for a block of a given size and
  alignment, given the blocks that are live, or 0 when it has none.
\<close>

datatype io =
    Mmio8 u64 u8
  | Mmio16 u64 u16
  | Mmio32 u64 u32
  | Mmio64 u64 u64
  | PortOut u16 u8

type_synonym block = "u64 \<times> nat"

record machine =
  mem :: memory
  io_trace :: "io list"
  live :: "block list"

record 's env =
  hw :: "'s \<Rightarrow> 's"
  port_in :: "u16 \<Rightarrow> 's \<Rightarrow> u8 \<times> 's"
  galloc :: "nat \<Rightarrow> nat \<Rightarrow> block list \<Rightarrow> u64"

section \<open>Volatile accesses\<close>

definition volatile_read8 :: "('a machine_scheme) env \<Rightarrow> u64 \<Rightarrow> 'a machine_scheme \<Rightarrow> u8 \<times> 'a machine_scheme" where
  "volatile_read8 e a s = (let s' = hw e s in (load_le (mem s') a 1, s'))"

definition volatile_read16 :: "('a machine_scheme) env \<Rightarrow> u64 \<Rightarrow> 'a machine_scheme \<Rightarrow> u16 \<times> 'a machine_scheme" where
  "volatile_read16 e a s = (let s' = hw e s in (load_le (mem s') a 2, s'))"

definition volatile_read32 :: "('a machine_scheme) env \<Rightarrow> u64 \<Rightarrow> 'a machine_scheme \<Rightarrow> u32 \<times> 'a machine_scheme" where
  "volatile_read32 e a s = (let s' = hw e s in (load_le (mem s') a 4, s'))"

definition volatile_write8 :: "u64 \<Rightarrow> u8 \<Rightarrow> 'a machine_scheme \<Rightarrow> 'a machine_scheme" where
  "volatile_write8 a v s = s\<lparr>mem := store_le (mem s) a 1 v, io_trace := io_trace s @ [Mmio8 a v]\<rparr>"

definition volatile_write16 :: "u64 \<Rightarrow> u16 \<Rightarrow> 'a machine_scheme \<Rightarrow> 'a machine_scheme" where
  "volatile_write16 a v s = s\<lparr>mem := store_le (mem s) a 2 v, io_trace := io_trace s @ [Mmio16 a v]\<rparr>"

definition volatile_write32 :: "u64 \<Rightarrow> u32 \<Rightarrow> 'a machine_scheme \<Rightarrow> 'a machine_scheme" where
  "volatile_write32 a v s = s\<lparr>mem := store_le (mem s) a 4 v, io_trace := io_trace s @ [Mmio32 a v]\<rparr>"

definition volatile_write64 :: "u64 \<Rightarrow> u64 \<Rightarrow> 'a machine_scheme \<Rightarrow> 'a machine_scheme" where
  "volatile_write64 a v s = s\<lparr>mem := store_le (mem s) a 8 v, io_trace := io_trace s @ [Mmio64 a v]\<rparr>"

definition port_write :: "u16 \<Rightarrow> u8 \<Rightarrow> 'a machine_scheme \<Rightarrow> 'a machine_scheme" where
  "port_write p v s = s\<lparr>io_trace := io_trace s @ [PortOut p v]\<rparr>"

lemmas volatile_defs = volatile_read8_def volatile_read16_def volatile_read32_def
  volatile_write8_def volatile_write16_def volatile_write32_def volatile_write64_def

text \<open>\<open>slice::from_raw_parts\<close> checks in a debug build that the pointer is not null.\<close>

definition raw_parts :: "u64 \<Rightarrow> u64 option" where
  "raw_parts p = (if p = 0 then None else Some p)"

text \<open>A bounded busy-wait: \<open>while !test { timeout += 1; if timeout > n { give up } }\<close>. The test
  runs at most \<open>n + 1\<close> times; the result tells whether it succeeded.\<close>

fun spin :: "nat \<Rightarrow> ('s \<Rightarrow> bool \<times> 's) \<Rightarrow> 's \<Rightarrow> bool \<times> 's" where
  "spin 0 test s = test s"
| "spin (Suc n) test s = (case test s of (True, s') \<Rightarrow> (True, s') | (False, s') \<Rightarrow> spin n test s')"

lemma spin_done: "test s = (True, s') \<Longrightarrow> spin n test s = (True, s')"
  by (cases n) simp_all

lemma spin_inv:
  assumes "spin n test s = (ok, s')" and "P s" and "\<And>s ok s'. P s \<Longrightarrow> test s = (ok, s') \<Longrightarrow> P s'"
  shows "P s'"
  using assms(1,2) by (induction n arbitrary: s) (auto split: prod.splits bool.splits dest: assms(3))

lemma spin_timeout:
  assumes "P s" and "\<And>s. P s \<Longrightarrow> \<not> fst (test s) \<and> P (snd (test s))"
  shows "\<not> fst (spin n test s) \<and> P (snd (spin n test s))"
  using assms(1)
proof (induction n arbitrary: s)
  case (Suc n)
  then show ?case using assms(2) [of s] by (cases "test s") (auto split: bool.splits)
qed (use assms(2) in simp)

section \<open>The heap\<close>

text \<open>\<open>alloc_zeroed\<close> returns a null pointer when the allocator fails; a \<open>Vec\<close> or \<open>Box\<close>
  panics instead.\<close>

definition alloc_zeroed :: "('a machine_scheme) env \<Rightarrow> nat \<Rightarrow> nat \<Rightarrow> 'a machine_scheme \<Rightarrow> u64 \<times> 'a machine_scheme" where
  "alloc_zeroed e sz align s =
     (let p = galloc e sz align (live s) in
      if p = 0 then (0, s)
      else (p, s\<lparr>mem := store_bytes (mem s) p (replicate sz 0), live := (p, sz) # live s\<rparr>))"

definition leak_bytes :: "('a machine_scheme) env \<Rightarrow> nat \<Rightarrow> u8 list \<Rightarrow> 'a machine_scheme \<Rightarrow> (u64 \<times> 'a machine_scheme) option" where
  "leak_bytes e align bs s =
     (let p = galloc e (length bs) align (live s) in
      if p = 0 then None
      else Some (p, s\<lparr>mem := store_bytes (mem s) p bs, live := (p, length bs) # live s\<rparr>))"

text \<open>\<open>Vec::with_capacity\<close> reserves a block without writing it.\<close>

definition alloc_raw :: "('a machine_scheme) env \<Rightarrow> nat \<Rightarrow> nat \<Rightarrow> 'a machine_scheme \<Rightarrow> (u64 \<times> 'a machine_scheme) option" where
  "alloc_raw e align sz s =
     (let p = galloc e sz align (live s) in
      if p = 0 then None else Some (p, s\<lparr>live := (p, sz) # live s\<rparr>))"

text \<open>What the kernel relies on of the allocator. A list of live blocks is \<open>built\<close> when the
  allocator produced it. \<open>heap_ok e base size\<close>: on such a list, as long as the blocks and the
  request, with at most a page of padding each, fit the heap, the allocator answers with a
  block inside the heap that meets no live block.\<close>

fun built :: "('a machine_scheme) env \<Rightarrow> block list \<Rightarrow> bool" where
  "built e [] \<longleftrightarrow> True"
| "built e ((p, n) # ls) \<longleftrightarrow> (\<exists>al \<le> 4096. p = galloc e n al ls) \<and> built e ls"

definition heap_used :: "block list \<Rightarrow> nat" where
  "heap_used ls = sum_list (map (\<lambda>(p, n). n + 4096) ls)"

lemma heap_used_simps [simp]: "heap_used [] = 0" "heap_used ((p, n) # ls) = n + 4096 + heap_used ls"
  by (simp_all add: heap_used_def)

definition in_heap :: "nat \<Rightarrow> nat \<Rightarrow> block \<Rightarrow> bool" where
  "in_heap base sz = (\<lambda>(p, n). base \<le> unat p \<and> unat p + n \<le> base + sz)"

definition heap_ok :: "('a machine_scheme) env \<Rightarrow> nat \<Rightarrow> nat \<Rightarrow> bool" where
  "heap_ok e base sz \<longleftrightarrow> 0 < base \<and> base + sz < 2 ^ 64 \<and>
     (\<forall>ls n al. built e ls \<and> al \<le> 4096 \<and> heap_used ls + n + 4096 \<le> sz \<longrightarrow>
        in_heap base sz (galloc e n al ls, n) \<and> (\<forall>(b, k)\<in>set ls. apart (galloc e n al ls) n b k))"

text \<open>The devices act on memory only.\<close>

definition hw_mem_only :: "('a machine_scheme) env \<Rightarrow> bool" where
  "hw_mem_only e \<longleftrightarrow> (\<forall>s. hw e s = s\<lparr>mem := mem (hw e s)\<rparr>)"

text \<open>A heap state: its blocks are built and lie apart in the heap.\<close>

definition heap_inv :: "('a machine_scheme) env \<Rightarrow> nat \<Rightarrow> nat \<Rightarrow> block list \<Rightarrow> bool" where
  "heap_inv e base sz ls \<longleftrightarrow> built e ls \<and> (\<forall>b\<in>set ls. in_heap base sz b)
     \<and> sorted_wrt (\<lambda>(b, k) (c, l). apart b k c l) ls"

lemma heap_extend:
  assumes "heap_ok e base sz" and "heap_inv e base sz ls" and "heap_used ls + n + 4096 \<le> sz" and "al \<le> 4096"
  shows "galloc e n al ls \<noteq> 0" and "heap_inv e base sz ((galloc e n al ls, n) # ls)"
    and "\<forall>(b, k)\<in>set ls. apart (galloc e n al ls) n b k"
proof -
  let ?p = "galloc e n al ls"
  have *: "in_heap base sz (?p, n) \<and> (\<forall>(b, k)\<in>set ls. apart ?p n b k)"
    using assms by (auto simp: heap_ok_def heap_inv_def)
  then show "?p \<noteq> 0" using assms(1) by (auto simp: in_heap_def heap_ok_def)
  show "\<forall>(b, k)\<in>set ls. apart ?p n b k" using * by blast
  show "heap_inv e base sz ((?p, n) # ls)"
    using assms(2,4) * by (auto simp: heap_inv_def)
qed

lemma leak_bytes_ok:
  assumes "heap_ok e base sz" and "heap_inv e base sz (live s)"
    and "heap_used (live s) + length bs + 4096 \<le> sz" and "al \<le> 4096"
  shows "\<exists>p. leak_bytes e al bs s = Some (p, s\<lparr>mem := store_bytes (mem s) p bs, live := (p, length bs) # live s\<rparr>)
    \<and> p \<noteq> 0 \<and> heap_inv e base sz ((p, length bs) # live s) \<and> (\<forall>(b, k)\<in>set (live s). apart p (length bs) b k)"
  using heap_extend [OF assms] by (simp add: leak_bytes_def Let_def)

text \<open>A range outside the heap meets no block of it.\<close>

definition off_heap :: "nat \<Rightarrow> nat \<Rightarrow> u64 \<Rightarrow> nat \<Rightarrow> bool" where
  "off_heap base sz a n \<longleftrightarrow> unat a + n \<le> base \<or> (base + sz \<le> unat a \<and> unat a + n \<le> 2 ^ 64)"

lemma ranges_apart:
  assumes "unat a + n \<le> unat b" and "unat b + k \<le> 2 ^ 64" and "0 < n"
  shows "apart a n b k"
proof -
  have "n \<le> unat (b - a)" using assms(1) by (simp add: unat_sub_if_size)
  moreover have "k \<le> unat (a - b)"
    using assms unsigned_less [of b, where ?'a = nat] by (auto simp: unat_sub_if_size word_size)
  ultimately show ?thesis by (simp add: apart_def)
qed

lemma off_heap_apart:
  assumes "off_heap base sz a n" and "in_heap base sz (b, k)" and "base + sz < 2 ^ 64"
    and "0 < n" and "0 < k"
  shows "apart a n b k"
  using assms ranges_apart [of a n b k] ranges_apart [of b k a n] apart_sym [of a n b k]
  by (auto simp: off_heap_def in_heap_def)

text \<open>Parts of separate ranges are separate.\<close>

lemma apart_sub:
  assumes "apart a n b k" and "i + l \<le> k" and "0 < l"
  shows "apart a n (b + of_nat i) l"
proof -
  have i: "i < k" using assms by simp
  with assms(1) have "unat (b + of_nat i - a) = unat (b - a) + i"
    by (intro unat_sub_add) (auto simp: apart_def)
  moreover have "unat (a - (b + of_nat i)) = unat (a - b) - i"
  proof -
    have "i \<le> unat (a - b)" using i assms(1) by (simp add: apart_def)
    moreover have "i < 2 ^ 64" using calculation unsigned_less [of "a - b", where ?'a = nat] by simp
    moreover have "a - (b + of_nat i) = (a - b) - of_nat i" by simp
    ultimately show ?thesis by (simp only: unat_sub_if_size unat_of_nat) (simp add: take_bit_nat_eq_self_iff)
  qed
  ultimately show ?thesis using assms(1,2) by (auto simp: apart_def)
qed

text \<open>Two parts of one range.\<close>

lemma apart_offsets:
  assumes "i + n \<le> j" and "j + k \<le> i + 2 ^ 64" and "0 < n" and "0 < k"
  shows "apart ((a :: u64) + of_nat i) n (a + of_nat j) k"
proof -
  define d where "d = j - i"
  have d: "n \<le> d" "d + k \<le> 2 ^ 64" "0 < d" "d < 2 ^ 64" using assms by (auto simp: d_def)
  have "(of_nat j :: u64) = of_nat (i + d)" using assms(1) by (simp add: d_def)
  then have e: "a + of_nat j - (a + of_nat i) = of_nat d" "a + of_nat i - (a + of_nat j) = 0 - of_nat d"
    by simp_all
  have u: "unat (of_nat d :: u64) = d" using d(4) by (simp add: unat_of_nat take_bit_nat_eq_self_iff)
  have "unat (0 - (of_nat d :: u64)) = 2 ^ 64 - d"
    unfolding unat_sub_if_size u using d(3) by (simp add: word_size)
  then show ?thesis unfolding apart_def e u using d by simp
qed

lemma heap_inv_apart:
  assumes "heap_inv e base sz ls" and "(a, n) \<in> set ls" and "(b, k) \<in> set ls" and "(a, n) \<noteq> (b, k)"
  shows "apart a n b k"
proof -
  have "sorted_wrt (\<lambda>(b, k) (c, l). apart b k c l) ls" using assms(1) by (simp add: heap_inv_def)
  then show ?thesis using assms(2-4)
    by (induction ls) (auto simp: apart_sym [of a n b k])
qed

lemma wadd_small:
  assumes "unat (a :: u64) + n < 2 ^ 64"
  shows "wadd a (of_nat n) = Some (a + of_nat n)"
proof -
  have "unat (of_nat n :: u64) = n"
    using assms by (simp add: unat_of_nat take_bit_nat_eq_self_iff)
  with assms show ?thesis by (simp add: wadd_def)
qed

lemma unat_add_small:
  assumes "unat (a :: u64) + n < 2 ^ 64"
  shows "unat (a + of_nat n) = unat a + n"
  using wadd_Some_unat [OF wadd_small [OF assms]] assms
  by (simp add: unat_of_nat take_bit_nat_eq_self_iff)

text \<open>A device's register window: it does not wrap around and lies outside the heap.\<close>

definition mmio_region :: "nat \<Rightarrow> nat \<Rightarrow> u64 \<Rightarrow> nat \<Rightarrow> bool" where
  "mmio_region base sz a n \<longleftrightarrow> unat a + n < 2 ^ 64 \<and> off_heap base sz a n"

lemma mmio_addr:
  assumes "mmio_region base sz a n" and "off + k \<le> n"
  shows "wadd a (of_nat off) = Some (a + of_nat off)" and "off_heap base sz (a + of_nat off) k"
  using assms wadd_small [of a off] unat_add_small [of a off]
  by (auto simp: mmio_region_def off_heap_def)

lemma mmio_keeps:
  assumes "mmio_region base sz a n" and "off + length bs \<le> n" and "bs \<noteq> []" and "in_heap base sz (b, k)"
    and "base + sz < 2 ^ 64" and "i + l \<le> k" and "0 < l"
  shows "load_bytes (store_bytes m (a + of_nat off) bs) (b + of_nat i) l = load_bytes m (b + of_nat i) l"
proof -
  have "apart (a + of_nat off) (length bs) b k"
    using off_heap_apart [OF mmio_addr(2) [OF assms(1,2)] assms(4,5)] assms(3,6,7) by simp
  from apart_sub [OF this assms(6,7)] show ?thesis by (rule apart_load)
qed

section \<open>A concrete environment\<close>

text \<open>A bump allocator on page boundaries over two megabytes, with idle devices: the
  assumptions on the environment can be met.\<close>

definition bump :: "block list \<Rightarrow> nat" where
  "bump ls = sum_list (map (\<lambda>(p, n). 4096 * (n div 4096 + 1)) ls)"

definition bump_env :: "'s env" where
  "bump_env = \<lparr>hw = (\<lambda>s. s), port_in = (\<lambda>p s. (0, s)),
     galloc = (\<lambda>n al ls. if bump ls + n \<le> 0x200000 then of_nat (0x100000 + bump ls) else 0)\<rparr>"

lemma bump_simps [simp]: "bump [] = 0" "bump ((p, n) # ls) = 4096 * (n div 4096 + 1) + bump ls"
  by (simp_all add: bump_def)

lemma bump_le_used: "bump ls \<le> heap_used ls"
  by (induction ls) auto

lemma bump_addr:
  assumes "bump ls + n \<le> 0x200000"
  shows "unat (galloc bump_env n al ls) = 0x100000 + bump ls"
proof -
  have "0x100000 + bump ls < 2 ^ 64" using assms by simp
  then have "unat (of_nat (0x100000 + bump ls) :: u64) = 0x100000 + bump ls" by (simp only: unat_of_nat) simp
  with assms show ?thesis by (simp add: bump_env_def)
qed

lemma bump_blocks:
  assumes "built bump_env ls" and "heap_used ls \<le> 0x200000" and "(b, k) \<in> set ls"
  shows "0x100000 \<le> unat b \<and> unat b + 4096 * (k div 4096 + 1) \<le> 0x100000 + bump ls"
  using assms
proof (induction ls)
  case (Cons x ls)
  obtain p n where x: "x = (p, n)" by (cases x)
  have "bump ls + n \<le> 0x200000" using Cons.prems(2) bump_le_used [of ls] by (simp add: x)
  then have "unat p = 0x100000 + bump ls" using Cons.prems(1) bump_addr by (auto simp: x)
  moreover have "0x100000 \<le> unat b \<and> unat b + 4096 * (k div 4096 + 1) \<le> 0x100000 + bump ls" if "(b, k) \<in> set ls"
    using that Cons x by auto
  ultimately show ?case using Cons.prems(3) by (auto simp: x)
qed simp

lemma bump_heap_ok: "heap_ok (bump_env :: ('a machine_scheme) env) 0x100000 0x200000"
  unfolding heap_ok_def
proof (intro conjI allI impI)
  let ?e = "bump_env :: ('a machine_scheme) env"
  fix ls :: "block list" and n al :: nat
  assume a: "built ?e ls \<and> al \<le> 4096 \<and> heap_used ls + n + 4096 \<le> 0x200000"
  then have u: "unat (galloc ?e n al ls) = 0x100000 + bump ls"
    using bump_le_used [of ls] by (intro bump_addr) simp
  then show "in_heap 0x100000 0x200000 (galloc ?e n al ls, n)"
    using a bump_le_used [of ls] by (simp add: in_heap_def)
  show "\<forall>(b, k)\<in>set ls. apart (galloc ?e n al ls) n b k"
  proof safe
    fix b k assume "(b, k) \<in> set ls"
    with a have bk: "unat b + 4096 * (k div 4096 + 1) \<le> 0x100000 + bump ls"
      using bump_blocks [where ls = ls and b = b and k = k and ?'a = 'a] by simp
    then have "apart b (4096 * (k div 4096 + 1)) (galloc ?e n al ls) n"
      using u a bump_le_used [of ls] by (intro ranges_apart) simp_all
    moreover have "k \<le> 4096 * (k div 4096 + 1)" by simp
    ultimately show "apart (galloc ?e n al ls) n b k" by (auto simp: apart_def)
  qed
qed simp_all

lemma bump_hw: "hw_mem_only bump_env"
  by (simp add: hw_mem_only_def bump_env_def)

lemma built_hw: "built (e\<lparr>hw := h\<rparr>) ls = built e ls"
  by (induction ls) auto

lemma heap_hw:
  "heap_ok (e\<lparr>hw := h\<rparr>) base sz = heap_ok e base sz" "heap_inv (e\<lparr>hw := h\<rparr>) base sz ls = heap_inv e base sz ls"
  by (simp_all add: heap_ok_def heap_inv_def built_hw)

end
