(* ===== verification/BootTypes.thy ===== *)
theory BootTypes
  imports RustText
begin

text \<open>
  The structures the bootloader hands to the kernel (\<open>src/src/main.rs\<close>, \<open>BootInfo\<close> and
  \<open>UefiMemoryDescriptor\<close>). Both are \<open>repr(C)\<close>; the descriptor is read from raw memory
  with the offsets that representation fixes.
\<close>

record boot_info =
  framebuffer_base :: u64
  framebuffer_size :: usize
  bi_width :: usize
  bi_height :: usize
  bi_stride :: usize
  memory_map_size :: usize
  acpi2_rsdp_addr :: u64
  memory_map_addr :: u64
  memory_map_desc_size :: usize

record uefi_memory_descriptor =
  desc_ty :: u32
  pad :: u32
  physical_start :: u64
  virtual_start :: u64
  number_of_pages :: u64
  attribute :: u64

definition read_descriptor :: "memory \<Rightarrow> u64 \<Rightarrow> uefi_memory_descriptor" where
  "read_descriptor m a =
     \<lparr>desc_ty = load_le m a 4, pad = load_le m (a + 4) 4, physical_start = load_le m (a + 8) 8,
      virtual_start = load_le m (a + 16) 8, number_of_pages = load_le m (a + 24) 8,
      attribute = load_le m (a + 32) 8\<rparr>"

end
