(* ===== verification/Compositor.thy ===== *)
theory Compositor
  imports Machine BootTypes
begin

text \<open>
  The 2D compositor (\<open>src/src/compositor.rs\<close>): off-screen canvases, the framebuffer, the
  bitmap font, the terminal emulator and window drawing.

  The framebuffer is device memory of its own; it is modelled as the function \<open>vram\<close> from
  pixel offsets (in units of \<open>u32\<close> from \<open>SERVER.framebuffer\<close>) to pixels. Writes through raw
  pointers are not bounds-checked by the code, so an offset may lie beyond the visible area.
\<close>

section \<open>Canvases\<close>

record canvas =
  cv_x :: usize
  cv_y :: usize
  cv_width :: usize
  cv_height :: usize
  cv_pixels :: "u32 list"

definition canvas_new :: "usize \<Rightarrow> usize \<Rightarrow> usize \<Rightarrow> usize \<Rightarrow> u32 \<Rightarrow> canvas option" where
  "canvas_new x y w h bg_color = do {
     n \<leftarrow> umul w h;
     Some \<lparr>cv_x = x, cv_y = y, cv_width = w, cv_height = h, cv_pixels = replicate n bg_color\<rparr>
   }"

definition canvas_draw_pixel :: "usize \<Rightarrow> usize \<Rightarrow> u32 \<Rightarrow> canvas \<Rightarrow> canvas option" where
  "canvas_draw_pixel px py color cv =
     (if px < cv_width cv \<and> py < cv_height cv then do {
        row \<leftarrow> umul py (cv_width cv);
        i \<leftarrow> uadd row px;
        ps \<leftarrow> upd_chk (cv_pixels cv) i color;
        Some (cv\<lparr>cv_pixels := ps\<rparr>)
      } else Some cv)"

text \<open>The loops of both \<open>fill_rect\<close> functions, over the \<open>draw_pixel\<close> they call. The upper
  bound of the inner range is computed anew for each row.\<close>

definition rect_fill ::
  "(usize \<Rightarrow> usize \<Rightarrow> u32 \<Rightarrow> 's \<Rightarrow> 's option) \<Rightarrow> usize \<Rightarrow> usize \<Rightarrow> usize \<Rightarrow> usize \<Rightarrow> u32 \<Rightarrow> 's \<Rightarrow> 's option" where
  "rect_fill put start_x start_y w h color s = do {
     end_y \<leftarrow> uadd start_y h;
     foldM (\<lambda>y s. do {
       end_x \<leftarrow> uadd start_x w;
       foldM (\<lambda>x. put x y color) [start_x..<end_x] s
     }) [start_y..<end_y] s
   }"

definition canvas_fill_rect :: "usize \<Rightarrow> usize \<Rightarrow> usize \<Rightarrow> usize \<Rightarrow> u32 \<Rightarrow> canvas \<Rightarrow> canvas option" where
  "canvas_fill_rect = rect_fill canvas_draw_pixel"

definition scroll_up :: "usize \<Rightarrow> u32 \<Rightarrow> canvas \<Rightarrow> canvas option" where
  "scroll_up shift_y bg_color cv = do {
     pixel_shift \<leftarrow> umul shift_y (cv_width cv);
     let ps = cv_pixels cv;
     let len = length ps;
     if pixel_shift \<ge> len then Some (cv\<lparr>cv_pixels := replicate len bg_color\<rparr>)
     else do {
       let moved = drop pixel_shift ps @ drop (len - pixel_shift) ps;
       lo \<leftarrow> usub len pixel_shift;
       Some (cv\<lparr>cv_pixels := take lo moved @ replicate (len - lo) bg_color\<rparr>)
     }
   }"

section \<open>The framebuffer\<close>

type_synonym vram = "usize \<Rightarrow> u32"

record compositor =
  framebuffer :: u64
  sv_width :: usize
  sv_height :: usize
  sv_stride :: usize
  terminal_layer :: "canvas option"

record gfx = machine +
  server :: compositor
  term_x :: usize
  term_y :: usize
  vram :: vram

definition SERVER :: compositor where
  "SERVER = \<lparr>framebuffer = 0, sv_width = 0, sv_height = 0, sv_stride = 0, terminal_layer = None\<rparr>"

definition compositor_init :: "boot_info \<Rightarrow> 'a gfx_scheme \<Rightarrow> 'a gfx_scheme option" where
  "compositor_init info s = do {
     h \<leftarrow> usub (bi_height info) 40;
     cv \<leftarrow> canvas_new 0 40 (bi_width info) h 0xFFFFFF;
     Some (s\<lparr>server := \<lparr>framebuffer = framebuffer_base info, sv_width = bi_width info,
       sv_height = bi_height info, sv_stride = bi_stride info, terminal_layer = Some cv\<rparr>\<rparr>)
   }"

text \<open>One row of \<open>blit_canvas\<close>: \<open>copy_nonoverlapping\<close> of \<open>width\<close> pixels.\<close>

definition copy_row :: "u32 list \<Rightarrow> usize \<Rightarrow> usize \<Rightarrow> usize \<Rightarrow> vram \<Rightarrow> vram" where
  "copy_row ps src dst n v = (\<lambda>i. if dst \<le> i \<and> i < dst + n then ps ! (src + (i - dst)) else v i)"

fun blit_rows :: "compositor \<Rightarrow> canvas \<Rightarrow> usize list \<Rightarrow> vram \<Rightarrow> vram option" where
  "blit_rows sv cv [] v = Some v"
| "blit_rows sv cv (cy # cys) v = do {
     screen_y \<leftarrow> uadd (cv_y cv) cy;
     if screen_y \<ge> sv_height sv then Some v
     else do {
       src_offset \<leftarrow> umul cy (cv_width cv);
       line \<leftarrow> umul screen_y (sv_stride sv);
       dst_offset \<leftarrow> uadd line (cv_x cv);
       blit_rows sv cv cys (copy_row (cv_pixels cv) src_offset dst_offset (cv_width cv) v)
     }
   }"

definition blit_canvas :: "canvas \<Rightarrow> 'a gfx_scheme \<Rightarrow> 'a gfx_scheme option" where
  "blit_canvas cv s = do {
     v \<leftarrow> blit_rows (server s) cv [0..<cv_height cv] (vram s);
     Some (s\<lparr>vram := v\<rparr>)
   }"

definition screen_draw_pixel :: "compositor \<Rightarrow> usize \<Rightarrow> usize \<Rightarrow> u32 \<Rightarrow> vram \<Rightarrow> vram option" where
  "screen_draw_pixel sv x y color v =
     (if x \<ge> sv_width sv \<or> y \<ge> sv_height sv then Some v
      else do {
        line \<leftarrow> umul y (sv_stride sv);
        offset \<leftarrow> uadd line x;
        bytes \<leftarrow> umul offset 4;
        ptr \<leftarrow> uadd (unat (framebuffer sv)) bytes;
        Some (v(offset := color))
      })"

definition screen_fill_rect ::
  "compositor \<Rightarrow> usize \<Rightarrow> usize \<Rightarrow> usize \<Rightarrow> usize \<Rightarrow> u32 \<Rightarrow> vram \<Rightarrow> vram option" where
  "screen_fill_rect sv = rect_fill (screen_draw_pixel sv)"

definition clear_screen :: "compositor \<Rightarrow> u32 \<Rightarrow> vram \<Rightarrow> vram option" where
  "clear_screen sv color = screen_fill_rect sv 0 0 (sv_width sv) (sv_height sv) color"

section \<open>Text\<close>

text \<open>The font, by code point: the letters, \<open>0\<close>, \<open>1\<close> and the punctuation the kernel draws.\<close>

definition font :: "(rchar \<times> u8 list) list" where
  "font =
     [(65, [0x18, 0x24, 0x42, 0x42, 0x7E, 0x42, 0x42, 0x00]),
      (66, [0x3C, 0x22, 0x22, 0x3C, 0x22, 0x22, 0x3C, 0x00]),
      (67, [0x3C, 0x42, 0x40, 0x40, 0x40, 0x42, 0x3C, 0x00]),
      (68, [0x38, 0x24, 0x22, 0x22, 0x22, 0x24, 0x38, 0x00]),
      (69, [0x7E, 0x40, 0x40, 0x78, 0x40, 0x40, 0x7E, 0x00]),
      (70, [0x7E, 0x40, 0x40, 0x78, 0x40, 0x40, 0x40, 0x00]),
      (71, [0x3C, 0x42, 0x40, 0x4E, 0x42, 0x42, 0x3C, 0x00]),
      (72, [0x42, 0x42, 0x42, 0x7E, 0x42, 0x42, 0x42, 0x00]),
      (73, [0x3E, 0x08, 0x08, 0x08, 0x08, 0x08, 0x3E, 0x00]),
      (74, [0x0E, 0x04, 0x04, 0x04, 0x04, 0x44, 0x38, 0x00]),
      (75, [0x44, 0x48, 0x50, 0x60, 0x50, 0x48, 0x44, 0x00]),
      (76, [0x40, 0x40, 0x40, 0x40, 0x40, 0x40, 0x7E, 0x00]),
      (77, [0x42, 0x66, 0x5A, 0x42, 0x42, 0x42, 0x42, 0x00]),
      (78, [0x42, 0x62, 0x52, 0x4A, 0x46, 0x42, 0x42, 0x00]),
      (79, [0x3C, 0x42, 0x42, 0x42, 0x42, 0x42, 0x3C, 0x00]),
      (80, [0x3C, 0x42, 0x42, 0x3C, 0x40, 0x40, 0x40, 0x00]),
      (81, [0x3C, 0x42, 0x42, 0x42, 0x4A, 0x44, 0x3A, 0x00]),
      (82, [0x3C, 0x22, 0x22, 0x3C, 0x24, 0x22, 0x42, 0x00]),
      (83, [0x3C, 0x42, 0x40, 0x3C, 0x02, 0x42, 0x3C, 0x00]),
      (84, [0x7E, 0x18, 0x18, 0x18, 0x18, 0x18, 0x18, 0x00]),
      (85, [0x42, 0x42, 0x42, 0x42, 0x42, 0x42, 0x3C, 0x00]),
      (86, [0x42, 0x42, 0x42, 0x42, 0x24, 0x24, 0x18, 0x00]),
      (87, [0x42, 0x42, 0x42, 0x42, 0x5A, 0x66, 0x42, 0x00]),
      (88, [0x42, 0x24, 0x18, 0x18, 0x24, 0x42, 0x42, 0x00]),
      (89, [0x42, 0x42, 0x24, 0x18, 0x18, 0x18, 0x18, 0x00]),
      (90, [0x7E, 0x04, 0x08, 0x10, 0x20, 0x40, 0x7E, 0x00]),
      (48, [0x3C, 0x46, 0x4A, 0x52, 0x62, 0x42, 0x3C, 0x00]),
      (49, [0x18, 0x28, 0x08, 0x08, 0x08, 0x08, 0x3E, 0x00]),
      (32, [0x00, 0x00, 0x00, 0x00, 0x00, 0x00, 0x00, 0x00]),
      (58, [0x00, 0x18, 0x18, 0x00, 0x18, 0x18, 0x00, 0x00]),
      (45, [0x00, 0x00, 0x00, 0x3C, 0x00, 0x00, 0x00, 0x00]),
      (62, [0x00, 0x08, 0x04, 0x02, 0x04, 0x08, 0x00, 0x00]),
      (40, [0x08, 0x10, 0x20, 0x20, 0x20, 0x10, 0x08, 0x00]),
      (41, [0x20, 0x10, 0x08, 0x08, 0x08, 0x10, 0x20, 0x00]),
      (46, [0x00, 0x00, 0x00, 0x00, 0x00, 0x18, 0x18, 0x00]),
      (33, [0x18, 0x18, 0x18, 0x18, 0x00, 0x18, 0x18, 0x00])]"

definition get_char_bitmap :: "rchar \<Rightarrow> u8 list" where
  "get_char_bitmap c = (case map_of font c of Some b \<Rightarrow> b | None \<Rightarrow> replicate 8 0xFF)"

text \<open>The two inner loops of \<open>draw_string\<close> and \<open>terminal_print\<close>, over the \<open>fill_rect\<close> they
  call.\<close>

definition draw_glyph ::
  "(usize \<Rightarrow> usize \<Rightarrow> usize \<Rightarrow> usize \<Rightarrow> u32 \<Rightarrow> 's \<Rightarrow> 's option) \<Rightarrow> u8 list \<Rightarrow> usize \<Rightarrow> usize \<Rightarrow> usize
     \<Rightarrow> u32 \<Rightarrow> 's \<Rightarrow> 's option" where
  "draw_glyph fill bmap x y scale color =
     foldM (\<lambda>row. foldM (\<lambda>col s. do {
       b \<leftarrow> nth_chk bmap row;
       if b AND push_bit (7 - col) 1 \<noteq> 0 then do {
         dx \<leftarrow> umul col scale;
         x' \<leftarrow> uadd x dx;
         dy \<leftarrow> umul row scale;
         y' \<leftarrow> uadd y dy;
         fill x' y' scale scale color s
       } else Some s
     }) [0..<8]) [0..<8]"

fun screen_draw_string ::
  "compositor \<Rightarrow> usize \<Rightarrow> usize \<Rightarrow> rchar list \<Rightarrow> u32 \<Rightarrow> usize \<Rightarrow> vram \<Rightarrow> vram option" where
  "screen_draw_string sv x y [] color scale v = Some v"
| "screen_draw_string sv x y (c # cs) color scale v = do {
     v' \<leftarrow> draw_glyph (screen_fill_rect sv) (get_char_bitmap (to_ascii_uppercase c)) x y scale color v;
     a \<leftarrow> umul 8 scale;
     b \<leftarrow> umul 2 scale;
     step \<leftarrow> uadd a b;
     x' \<leftarrow> uadd x step;
     screen_draw_string sv x' y cs color scale v'
   }"

text \<open>The terminal: the canvas and the cursor.\<close>

type_synonym term_state = "canvas \<times> usize \<times> usize"

definition term_newline :: "term_state \<Rightarrow> term_state option" where
  "term_newline = (\<lambda>(cv, tx, ty). do {
     ty' \<leftarrow> uadd ty 30;
     bottom \<leftarrow> uadd ty' 30;
     if bottom > cv_height cv then do {
       cv' \<leftarrow> scroll_up 30 0xFFFFFF cv;
       ty'' \<leftarrow> usub ty' 30;
       Some (cv', 20, ty'')
     } else Some (cv, 20, ty')
   })"

definition term_char :: "u32 \<Rightarrow> rchar \<Rightarrow> term_state \<Rightarrow> term_state option" where
  "term_char color c = (\<lambda>(cv, tx, ty).
     if c = 10 then term_newline (cv, tx, ty)
     else do {
       cv' \<leftarrow> draw_glyph canvas_fill_rect (get_char_bitmap (to_ascii_uppercase c)) tx ty 3 color cv;
       tx' \<leftarrow> uadd tx 30;
       limit \<leftarrow> usub (cv_width cv') 40;
       if tx' > limit then term_newline (cv', tx', ty) else Some (cv', tx', ty)
     })"

definition terminal_print :: "rchar list \<Rightarrow> u32 \<Rightarrow> 'a gfx_scheme \<Rightarrow> 'a gfx_scheme option" where
  "terminal_print text color s =
     (case terminal_layer (server s) of
        None \<Rightarrow> Some s
      | Some cv \<Rightarrow> do {
          (cv', tx, ty) \<leftarrow> foldM (term_char color) text (cv, term_x s, term_y s);
          blit_canvas cv' (s\<lparr>server := (server s)\<lparr>terminal_layer := Some cv'\<rparr>,
            term_x := tx, term_y := ty\<rparr>)
        })"

definition print_str :: "rstr \<Rightarrow> u32 \<Rightarrow> 'a gfx_scheme \<Rightarrow> 'a gfx_scheme option" where
  "print_str text = terminal_print (chars text)"

text \<open>\<open>if let Some(ref canvas) = SERVER.terminal_layer { blit_canvas(canvas); }\<close>\<close>

definition blit_terminal :: "'a gfx_scheme \<Rightarrow> 'a gfx_scheme option" where
  "blit_terminal s = (case terminal_layer (server s) of None \<Rightarrow> Some s | Some cv \<Rightarrow> blit_canvas cv s)"

section \<open>Windows\<close>

record window =
  win_x :: i32
  win_y :: i32
  win_width :: usize
  win_height :: usize
  title :: rstr
  bg_color :: u32
  is_open :: bool

definition window_new :: "i32 \<Rightarrow> i32 \<Rightarrow> usize \<Rightarrow> usize \<Rightarrow> rstr \<Rightarrow> u32 \<Rightarrow> window" where
  "window_new x y w h t bg = \<lparr>win_x = x, win_y = y, win_width = w, win_height = h, title = t,
     bg_color = bg, is_open = True\<rparr>"

definition draw_window :: "compositor \<Rightarrow> window \<Rightarrow> vram \<Rightarrow> vram option" where
  "draw_window sv win v =
     (if \<not> is_open win then Some v
      else do {
        let safe_x = (if win_x win < 0 then 0 else nat (win_x win));
        let safe_y = (if win_y win < 0 then 0 else nat (win_y win));
        right \<leftarrow> uadd safe_x (win_width win);
        if right > sv_width sv then Some v
        else do {
          bottom \<leftarrow> uadd safe_y (win_height win);
          if bottom > sv_height sv then Some v
          else do {
            x4 \<leftarrow> uadd safe_x 4;
            y4 \<leftarrow> uadd safe_y 4;
            v \<leftarrow> screen_fill_rect sv x4 y4 (win_width win) (win_height win) 0x000000 v;
            v \<leftarrow> screen_fill_rect sv safe_x safe_y (win_width win) (win_height win) (bg_color win) v;
            v \<leftarrow> screen_fill_rect sv safe_x safe_y (win_width win) 24 0x0F172A v;
            x8 \<leftarrow> uadd safe_x 8;
            y8 \<leftarrow> uadd safe_y 8;
            v \<leftarrow> screen_draw_string sv x8 y8 (chars (title win)) 0xFFFFFF 1 v;
            close_x \<leftarrow> usub right 20;
            close_y \<leftarrow> uadd safe_y 4;
            v \<leftarrow> screen_fill_rect sv close_x close_y 16 16 0xEF4444 v;
            tx \<leftarrow> uadd close_x 4;
            ty \<leftarrow> uadd close_y 4;
            screen_draw_string sv tx ty (chars (lit ''X'')) 0xFFFFFF 1 v
          }
        }
      })"

end
