(* ===== verification/Surface.thy ===== *)
theory Surface
  imports Compositor
begin

text \<open>
  Correctness of the drawing routines. Canvases and the framebuffer share one interface, a
  surface of \<open>w\<close> by \<open>h\<close> pixels with a clipped \<open>put\<close>; rectangles, glyphs and strings are
  verified once in the locale \<open>surface\<close> and used on both through its interpretations.
\<close>

section \<open>The interface of a surface\<close>

locale surface =
  fixes put :: "usize \<Rightarrow> usize \<Rightarrow> u32 \<Rightarrow> 's \<Rightarrow> 's option"
    and get :: "'s \<Rightarrow> usize \<Rightarrow> usize \<Rightarrow> u32"
    and w h :: usize
    and ok :: "'s \<Rightarrow> bool"
  assumes put_ok: "ok s \<Longrightarrow> \<exists>s'. put x y c s = Some s' \<and> ok s'
    \<and> (\<forall>x' y'. x' < w \<longrightarrow> y' < h \<longrightarrow> get s' x' y' = (if x' = x \<and> y' = y then c else get s x' y'))"
begin

text \<open>\<open>f\<close> never fails on a well-formed surface and paints exactly the pixels of \<open>A\<close>.\<close>

definition paints :: "u32 \<Rightarrow> (usize \<times> usize) set \<Rightarrow> ('s \<Rightarrow> 's option) \<Rightarrow> bool" where
  "paints c A f \<longleftrightarrow> (\<forall>s. ok s \<longrightarrow> (\<exists>s'. f s = Some s' \<and> ok s'
     \<and> (\<forall>x y. x < w \<longrightarrow> y < h \<longrightarrow> get s' x y = (if (x, y) \<in> A then c else get s x y))))"

lemma paints_put: "paints c {(x, y)} (put x y c)"
  unfolding paints_def using put_ok by fastforce

lemma paints_skip: "paints c {} Some"
  by (simp add: paints_def)

lemma paints_foldM:
  assumes "\<And>i. i \<in> set xs \<Longrightarrow> paints c (A i) (f i)"
  shows "paints c (\<Union>i\<in>set xs. A i) (foldM f xs)"
  using assms
proof (induction xs)
  case Nil
  then show ?case by (simp add: paints_def)
next
  case (Cons i xs)
  show ?case unfolding paints_def
  proof (intro allI impI)
    fix s assume "ok s"
    from Cons.prems [of i] this obtain t where t: "f i s = Some t" "ok t"
      "\<And>x y. x < w \<Longrightarrow> y < h \<Longrightarrow> get t x y = (if (x, y) \<in> A i then c else get s x y)"
      unfolding paints_def by (metis list.set_intros(1))
    have "paints c (\<Union>i\<in>set xs. A i) (foldM f xs)" using Cons by simp
    with t(2) obtain u where u: "foldM f xs t = Some u" "ok u"
      "\<And>x y. x < w \<Longrightarrow> y < h \<Longrightarrow> get u x y = (if (x, y) \<in> (\<Union>i\<in>set xs. A i) then c else get t x y)"
      unfolding paints_def by blast
    from t u show "\<exists>s'. foldM f (i # xs) s = Some s' \<and> ok s' \<and> (\<forall>x y. x < w \<longrightarrow> y < h \<longrightarrow>
        get s' x y = (if (x, y) \<in> (\<Union>i\<in>set (i # xs). A i) then c else get s x y))"
      by (intro exI [of _ u]) auto
  qed
qed

lemma paints_rect:
  assumes "x0 + n < 2 ^ 64" and "y0 + k < 2 ^ 64"
  shows "paints c ({x0..<x0 + n} \<times> {y0..<y0 + k}) (rect_fill put x0 y0 n k c)"
proof -
  have "paints c (\<Union>x\<in>set [x0..<x0 + n]. {(x, y)}) (foldM (\<lambda>x. put x y c) [x0..<x0 + n])" for y
    by (rule paints_foldM) (rule paints_put)
  then have "paints c (\<Union>y\<in>set [y0..<y0 + k]. \<Union>x\<in>set [x0..<x0 + n]. {(x, y)})
      (foldM (\<lambda>y. foldM (\<lambda>x. put x y c) [x0..<x0 + n]) [y0..<y0 + k])"
    by (rule paints_foldM)
  moreover have "(\<Union>y\<in>set [y0..<y0 + k]. \<Union>x\<in>set [x0..<x0 + n]. {(x, y)})
      = {x0..<x0 + n} \<times> {y0..<y0 + k}" by auto
  moreover have "rect_fill put x0 y0 n k c
      = foldM (\<lambda>y. foldM (\<lambda>x. put x y c) [x0..<x0 + n]) [y0..<y0 + k]"
    using assms by (intro ext) (simp add: rect_fill_def uadd_def)
  ultimately show ?thesis by simp
qed

end

text \<open>The pixels of a glyph drawn at a position: one square per set bit of its bitmap.\<close>

definition glyph_pixels :: "u8 list \<Rightarrow> usize \<Rightarrow> usize \<Rightarrow> usize \<Rightarrow> (usize \<times> usize) set" where
  "glyph_pixels bmap x y scale =
     (\<Union>row\<in>{..<8}. \<Union>col\<in>{..<8}. if bit (bmap ! row) (7 - col)
        then {x + col * scale..<x + col * scale + scale} \<times> {y + row * scale..<y + row * scale + scale}
        else {})"

context surface
begin

lemma paints_glyph:
  assumes "length bmap = 8" and "x + 8 * scale < 2 ^ 64" and "y + 8 * scale < 2 ^ 64"
  shows "paints c (glyph_pixels bmap x y scale) (draw_glyph (rect_fill put) bmap x y scale c)"
proof -
  let ?A = "\<lambda>row col. if bit (bmap ! row) (7 - col)
    then {x + col * scale..<x + col * scale + scale} \<times> {y + row * scale..<y + row * scale + scale}
    else {}"
  let ?f = "\<lambda>row col s. do {
       b \<leftarrow> nth_chk bmap row;
       if b AND push_bit (7 - col) 1 \<noteq> 0 then do {
         dx \<leftarrow> umul col scale;
         x' \<leftarrow> uadd x dx;
         dy \<leftarrow> umul row scale;
         y' \<leftarrow> uadd y dy;
         rect_fill put x' y' scale scale c s
       } else Some s }"
  have cell: "paints c (?A row col) (?f row col)" if "row \<in> set [0..<8]" "col \<in> set [0..<8]" for row col
  proof -
    have le: "col * scale + scale \<le> 8 * scale" "row * scale + scale \<le> 8 * scale"
      using that mult_le_mono1 [of "Suc col" 8 scale] mult_le_mono1 [of "Suc row" 8 scale] by auto
    have bd: "x + col * scale + scale < 2 ^ 64" "y + row * scale + scale < 2 ^ 64"
      using le assms(2,3) by linarith+
    then have ops: "umul col scale = Some (col * scale)" "umul row scale = Some (row * scale)"
      "uadd x (col * scale) = Some (x + col * scale)" "uadd y (row * scale) = Some (y + row * scale)"
      by simp_all
    have t: "bmap ! row AND push_bit (7 - col) 1 \<noteq> 0 \<longleftrightarrow> bit (bmap ! row) (7 - col)"
      by (subst bit_test) simp_all
    show ?thesis
    proof (cases "bit (bmap ! row) (7 - col)")
      case True
      have "?f row col = rect_fill put (x + col * scale) (y + row * scale) scale scale c"
        using True t that assms(1) by (intro ext) (simp add: nth_chk_def ops)
      with True paints_rect [OF bd, of c] show ?thesis by simp
    next
      case False
      then have "?f row col = Some"
        using t that assms(1) by (intro ext) (simp add: nth_chk_def)
      with False paints_skip show ?thesis by simp
    qed
  qed
  have "paints c (\<Union>row\<in>set [0..<8]. \<Union>col\<in>set [0..<8]. ?A row col)
      (foldM (\<lambda>row. foldM (?f row) [0..<8]) [0..<8])"
    by (intro paints_foldM cell)
  moreover have "(\<Union>row\<in>set [0..<8]. \<Union>col\<in>set [0..<8]. ?A row col) = glyph_pixels bmap x y scale"
    by (simp add: glyph_pixels_def atLeast_upt lessThan_atLeast0)
  ultimately show ?thesis by (simp add: draw_glyph_def)
qed

text \<open>\<open>f\<close> never fails on a well-formed surface and changes at most the pixels of \<open>A\<close>.\<close>

definition keeps :: "(usize \<times> usize) set \<Rightarrow> ('s \<Rightarrow> 's option) \<Rightarrow> bool" where
  "keeps A f \<longleftrightarrow> (\<forall>s. ok s \<longrightarrow> (\<exists>s'. f s = Some s' \<and> ok s'
     \<and> (\<forall>x y. x < w \<longrightarrow> y < h \<longrightarrow> (x, y) \<notin> A \<longrightarrow> get s' x y = get s x y)))"

lemma paints_keeps: "paints c A f \<Longrightarrow> A \<subseteq> B \<Longrightarrow> keeps B f"
  unfolding paints_def keeps_def by (metis subsetD)

lemma keeps_skip: "keeps A Some"
  by (simp add: keeps_def)

lemma keeps_mono: "keeps A f \<Longrightarrow> A \<subseteq> B \<Longrightarrow> keeps B f"
  unfolding keeps_def by (meson subsetD)

lemma keeps_bind:
  assumes "keeps A f" and "keeps A g"
  shows "keeps A (\<lambda>s. f s \<bind> g)"
  unfolding keeps_def
proof (intro allI impI)
  fix s assume "ok s"
  with assms(1) obtain t where t: "f s = Some t" "ok t"
    "\<And>x y. x < w \<Longrightarrow> y < h \<Longrightarrow> (x, y) \<notin> A \<Longrightarrow> get t x y = get s x y"
    unfolding keeps_def by blast
  with assms(2) obtain u where "g t = Some u" "ok u"
    "\<And>x y. x < w \<Longrightarrow> y < h \<Longrightarrow> (x, y) \<notin> A \<Longrightarrow> get u x y = get t x y"
    unfolding keeps_def by blast
  with t show "\<exists>s'. f s \<bind> g = Some s' \<and> ok s'
      \<and> (\<forall>x y. x < w \<longrightarrow> y < h \<longrightarrow> (x, y) \<notin> A \<longrightarrow> get s' x y = get s x y)"
    by (intro exI [of _ u]) simp
qed

end

lemma glyph_pixels_box:
  "glyph_pixels bmap x y scale \<subseteq> {x..<x + 8 * scale} \<times> {y..<y + 8 * scale}"
proof
  fix p assume "p \<in> glyph_pixels bmap x y scale"
  then obtain row col where rc: "row < 8" "col < 8" and
    p: "p \<in> {x + col * scale..<x + col * scale + scale} \<times> {y + row * scale..<y + row * scale + scale}"
    by (auto simp: glyph_pixels_def split: if_splits)
  have le: "col * scale + scale \<le> 8 * scale" "row * scale + scale \<le> 8 * scale"
    using rc mult_le_mono1 [of "Suc col" 8 scale] mult_le_mono1 [of "Suc row" 8 scale] by auto
  obtain a b where ab: "p = (a, b)" by (cases p)
  with p have "x + col * scale \<le> a" "a < x + col * scale + scale"
    "y + row * scale \<le> b" "b < y + row * scale + scale" by auto
  then have "x \<le> a" "a < x + 8 * scale" "y \<le> b" "b < y + 8 * scale" using le by linarith+
  with ab show "p \<in> {x..<x + 8 * scale} \<times> {y..<y + 8 * scale}" by simp
qed

section \<open>Canvases as surfaces\<close>

definition canvas_get :: "canvas \<Rightarrow> usize \<Rightarrow> usize \<Rightarrow> u32" where
  "canvas_get cv x y = cv_pixels cv ! (y * cv_width cv + x)"

definition canvas_ok :: "usize \<Rightarrow> usize \<Rightarrow> usize \<Rightarrow> usize \<Rightarrow> canvas \<Rightarrow> bool" where
  "canvas_ok px py w h cv \<longleftrightarrow> cv_x cv = px \<and> cv_y cv = py \<and> cv_width cv = w \<and> cv_height cv = h
     \<and> length (cv_pixels cv) = w * h \<and> w * h < 2 ^ 64"

lemma row_bound:
  fixes x y w h :: nat
  assumes "x < w" "y < h"
  shows "y * w + x < w * h"
proof -
  have "y * w + x < y * w + w" using assms(1) by simp
  also have "\<dots> = Suc y * w" by simp
  also have "\<dots> \<le> h * w" using assms(2) by (intro mult_le_mono1) simp
  finally show ?thesis by (simp add: mult.commute)
qed

lemma row_inj:
  fixes x y x' y' w :: nat
  assumes "x < w" "x' < w"
  shows "y * w + x = y' * w + x' \<longleftrightarrow> x = x' \<and> y = y'"
proof
  assume eq: "y * w + x = y' * w + x'"
  have "(y * w + x) div w = y" "(y' * w + x') div w = y'" using assms by simp_all
  with eq have "y = y'" by metis
  with eq show "x = x' \<and> y = y'" by simp
qed simp

lemma canvas_put_ok:
  assumes "canvas_ok px py w h cv"
  shows "\<exists>cv'. canvas_draw_pixel x y c cv = Some cv' \<and> canvas_ok px py w h cv'
    \<and> (\<forall>x' y'. x' < w \<longrightarrow> y' < h \<longrightarrow>
        canvas_get cv' x' y' = (if x' = x \<and> y' = y then c else canvas_get cv x' y'))"
proof (cases "x < w \<and> y < h")
  case False
  then have "canvas_draw_pixel x y c cv = Some cv"
    using assms by (auto simp: canvas_draw_pixel_def canvas_ok_def)
  with False assms show ?thesis by auto
next
  case True
  let ?cv = "cv\<lparr>cv_pixels := (cv_pixels cv)[y * w + x := c]\<rparr>"
  have b: "y * w + x < w * h" using True by (simp add: row_bound)
  then have "canvas_draw_pixel x y c cv = Some ?cv"
    using True assms by (auto simp: canvas_draw_pixel_def canvas_ok_def umul_def uadd_def upd_chk_def)
  moreover have "canvas_ok px py w h ?cv" using assms by (simp add: canvas_ok_def)
  moreover have "canvas_get ?cv x' y' = (if x' = x \<and> y' = y then c else canvas_get cv x' y')"
    if "x' < w" "y' < h" for x' y'
    using assms b True that row_inj [of x w x' y y']
    by (auto simp: canvas_get_def canvas_ok_def nth_list_update)
  ultimately show ?thesis by blast
qed

interpretation canvas: surface canvas_draw_pixel canvas_get w h "canvas_ok px py w h" for px py w h
  by unfold_locales (rule canvas_put_ok)

lemma canvas_new_ok:
  assumes "w * h < 2 ^ 64"
  shows "\<exists>cv. canvas_new x y w h bg = Some cv \<and> canvas_ok x y w h cv
    \<and> (\<forall>x' y'. x' < w \<longrightarrow> y' < h \<longrightarrow> canvas_get cv x' y' = bg)"
  using assms by (auto simp: canvas_new_def umul_def canvas_ok_def canvas_get_def row_bound)

lemma scroll_up_eq:
  assumes "canvas_ok px py w h cv" and "k * w < 2 ^ 64"
  shows "scroll_up k bg cv = Some (cv\<lparr>cv_pixels := drop (k * w) (cv_pixels cv)
     @ replicate (min (k * w) (w * h)) bg\<rparr>)"
  using assms by (auto simp: scroll_up_def canvas_ok_def umul_def usub_def Let_def min_def)

lemma scroll_up_ok:
  assumes "canvas_ok px py w h cv" and "k * w < 2 ^ 64"
  shows "\<exists>cv'. scroll_up k bg cv = Some cv' \<and> canvas_ok px py w h cv'
    \<and> (\<forall>x y. x < w \<longrightarrow> y < h \<longrightarrow>
        canvas_get cv' x y = (if y + k < h then canvas_get cv x (y + k) else bg))"
proof -
  let ?ps = "drop (k * w) (cv_pixels cv) @ replicate (min (k * w) (w * h)) bg"
  have len: "length (cv_pixels cv) = w * h" and cw: "cv_width cv = w"
    using assms(1) by (auto simp: canvas_ok_def)
  have px: "?ps ! (y * w + x) = (if y + k < h then cv_pixels cv ! ((y + k) * w + x) else bg)"
    if "x < w" "y < h" for x y
  proof (cases "y + k < h")
    case True
    have "(y + k) * w + x < w * h" using that True by (simp add: row_bound)
    then have "y * w + x < w * h - k * w" by (simp add: algebra_simps)
    with True len show ?thesis by (simp add: nth_append algebra_simps)
  next
    case False
    then have "h * w \<le> (y + k) * w" by (intro mult_le_mono1) simp
    then have "w * h - k * w \<le> y * w + x" by (simp add: algebra_simps)
    moreover have "y * w + x < w * h" using that by (simp add: row_bound)
    ultimately have "y * w + x - (w * h - k * w) < min (k * w) (w * h)"
      unfolding min_def by (split if_split) linarith
    with \<open>w * h - k * w \<le> y * w + x\<close> show ?thesis using False len by (simp add: nth_append)
  qed
  have "canvas_ok px py w h (cv\<lparr>cv_pixels := ?ps\<rparr>)"
    using assms(1) len by (auto simp: canvas_ok_def)
  with px show ?thesis
    by (intro exI [of _ "cv\<lparr>cv_pixels := ?ps\<rparr>"]) (simp add: scroll_up_eq [OF assms] canvas_get_def cw)
qed

section \<open>The framebuffer as a surface\<close>

definition screen_get :: "compositor \<Rightarrow> vram \<Rightarrow> usize \<Rightarrow> usize \<Rightarrow> u32" where
  "screen_get sv v x y = v (y * sv_stride sv + x)"

text \<open>What the boot firmware guarantees: a line is at least as long as it is wide, and the
  framebuffer lies in the address space.\<close>

definition screen_ok :: "compositor \<Rightarrow> bool" where
  "screen_ok sv \<longleftrightarrow> sv_width sv \<le> sv_stride sv \<and> 0 < sv_stride sv
     \<and> unat (framebuffer sv) + sv_stride sv * sv_height sv * 4 < 2 ^ 64"

lemma screen_area:
  assumes "screen_ok sv"
  shows "sv_stride sv * sv_height sv < 2 ^ 62"
proof -
  define a where "a = sv_stride sv * sv_height sv"
  have "unat (framebuffer sv) + a * 4 < 2 ^ 64"
    using assms by (simp only: screen_ok_def a_def)
  then have "a < 2 ^ 62" by simp
  then show ?thesis by (simp only: a_def)
qed

text \<open>Offsets beyond the last line of the screen are never written.\<close>

definition below_screen_same :: "compositor \<Rightarrow> vram \<Rightarrow> vram \<Rightarrow> bool" where
  "below_screen_same sv v v' \<longleftrightarrow> (\<forall>i \<ge> sv_stride sv * sv_height sv. v' i = v i)"

lemma screen_draw_pixel_eq:
  assumes "screen_ok sv"
  shows "screen_draw_pixel sv x y c v =
     Some (if x < sv_width sv \<and> y < sv_height sv then v(y * sv_stride sv + x := c) else v)"
proof (cases "x < sv_width sv \<and> y < sv_height sv")
  case True
  with assms have "y * sv_stride sv + x < sv_stride sv * sv_height sv"
    by (intro row_bound) (auto simp: screen_ok_def)
  with True assms show ?thesis
    by (auto simp: screen_draw_pixel_def screen_ok_def umul_def uadd_def)
qed (auto simp: screen_draw_pixel_def)

lemma screen_put_ok:
  assumes "screen_ok sv \<and> below_screen_same sv v0 v"
  shows "\<exists>v'. screen_draw_pixel sv x y c v = Some v' \<and> (screen_ok sv \<and> below_screen_same sv v0 v')
    \<and> (\<forall>x' y'. x' < sv_width sv \<longrightarrow> y' < sv_height sv \<longrightarrow>
        screen_get sv v' x' y' = (if x' = x \<and> y' = y then c else screen_get sv v x' y'))"
proof -
  have "x' < sv_stride sv" if "x' < sv_width sv" for x'
    using that assms by (auto simp: screen_ok_def)
  then have inj: "y' * sv_stride sv + x' = y * sv_stride sv + x \<longleftrightarrow> x' = x \<and> y' = y"
    if "x < sv_width sv" "x' < sv_width sv" for x' y'
    using that by (simp add: row_inj)
  have "y * sv_stride sv + x < sv_stride sv * sv_height sv" if "x < sv_width sv" "y < sv_height sv"
    using that assms by (intro row_bound) (auto simp: screen_ok_def)
  with inj assms show ?thesis
    by (auto simp: screen_draw_pixel_eq screen_get_def below_screen_same_def)
qed

interpretation screen: surface "screen_draw_pixel sv" "screen_get sv" "sv_width sv" "sv_height sv"
    "\<lambda>v. screen_ok sv \<and> below_screen_same sv v0 v" for sv v0
  by unfold_locales (rule screen_put_ok)

section \<open>Copying a canvas to the screen\<close>

lemma row_div:
  fixes s x :: nat
  assumes "a + n \<le> s" "0 < s"
  shows "y * s + a \<le> i \<and> i < y * s + a + n \<longleftrightarrow> i div s = y \<and> a \<le> i mod s \<and> i mod s < a + n"
proof
  assume h: "y * s + a \<le> i \<and> i < y * s + a + n"
  then obtain r where r: "i = y * s + r" "a \<le> r" "r < a + n"
    by (metis add.assoc le_Suc_ex nat_add_left_cancel_less add_le_cancel_left le_add1 order_trans)
  with assms show "i div s = y \<and> a \<le> i mod s \<and> i mod s < a + n" by simp
next
  assume h: "i div s = y \<and> a \<le> i mod s \<and> i mod s < a + n"
  then have "i = y * s + i mod s" using div_mult_mod_eq [of i s] by simp
  with h show "y * s + a \<le> i \<and> i < y * s + a + n" by linarith
qed

text \<open>The framebuffer after the canvas rows from \<open>k\<close> on have been copied.\<close>

definition blit_image :: "compositor \<Rightarrow> canvas \<Rightarrow> usize \<Rightarrow> vram \<Rightarrow> vram" where
  "blit_image sv cv k v = (\<lambda>i.
     let y = i div sv_stride sv; x = i mod sv_stride sv in
     if cv_y cv + k \<le> y \<and> y < cv_y cv + cv_height cv \<and> y < sv_height sv
       \<and> cv_x cv \<le> x \<and> x < cv_x cv + cv_width cv
     then canvas_get cv (x - cv_x cv) (y - cv_y cv) else v i)"

lemma blit_rows_image:
  assumes "canvas_ok px py w h cv" and "screen_ok sv" and "px + w \<le> sv_stride sv"
    and "py + h < 2 ^ 64" and "k \<le> h"
  shows "blit_rows sv cv [k..<h] v = Some (blit_image sv cv k v)"
  using assms(5)
proof (induction "h - k" arbitrary: k v)
  case 0
  then have "k = h" by simp
  with assms(1) have "blit_image sv cv k v = v"
    by (intro ext) (auto simp: blit_image_def canvas_ok_def Let_def)
  with \<open>k = h\<close> show ?case by simp
next
  case (Suc n)
  then have k: "k < h" by simp
  have cv: "cv_x cv = px" "cv_y cv = py" "cv_width cv = w" "cv_height cv = h"
    using assms(1) by (auto simp: canvas_ok_def)
  have up: "[k..<h] = k # [Suc k..<h]" using k by (simp add: upt_conv_Cons)
  have a: "uadd py k = Some (py + k)" using assms(4) k by (simp add: uadd_def)
  show ?case
  proof (cases "py + k < sv_height sv")
    case False
    then have "blit_image sv cv k v = v" by (intro ext) (auto simp: blit_image_def cv Let_def)
    with False show ?thesis by (simp add: up cv a)
  next
    case True
    have "k * w \<le> h * w" using k by (intro mult_le_mono1) simp
    also have "h * w < 2 ^ 64" using assms(1) by (simp add: canvas_ok_def mult.commute)
    finally have b: "umul k w = Some (k * w)" by (simp add: umul_def)
    have "(py + k) * sv_stride sv + sv_stride sv = Suc (py + k) * sv_stride sv" by simp
    also have "\<dots> \<le> sv_height sv * sv_stride sv"
      using True by (intro mult_le_mono1) simp
    finally have "(py + k) * sv_stride sv + sv_stride sv \<le> sv_stride sv * sv_height sv"
      by (simp only: mult.commute)
    with assms(3) have "(py + k) * sv_stride sv + px \<le> sv_stride sv * sv_height sv" by linarith
    also have "\<dots> < 2 ^ 64" using screen_area [OF assms(2)] by simp
    finally have "(py + k) * sv_stride sv + px < 2 ^ 64" .
    then have d: "umul (py + k) (sv_stride sv) = Some ((py + k) * sv_stride sv)"
      "uadd ((py + k) * sv_stride sv) px = Some ((py + k) * sv_stride sv + px)" by simp_all
    let ?v = "copy_row (cv_pixels cv) (k * w) ((py + k) * sv_stride sv + px) w v"
    have "blit_rows sv cv [k..<h] v = blit_rows sv cv [Suc k..<h] ?v"
      using True by (simp add: up cv a b d)
    also have "\<dots> = Some (blit_image sv cv (Suc k) ?v)"
      using Suc k by (intro Suc.hyps) auto
    also have "blit_image sv cv (Suc k) ?v = blit_image sv cv k v"
    proof
      fix i
      let ?y = "i div sv_stride sv" and ?x = "i mod sv_stride sv"
      have row: "(py + k) * sv_stride sv + px \<le> i \<and> i < (py + k) * sv_stride sv + px + w
          \<longleftrightarrow> ?y = py + k \<and> px \<le> ?x \<and> ?x < px + w"
        using assms(2,3) by (intro row_div) (auto simp: screen_ok_def)
      have "i - ((py + k) * sv_stride sv + px) = ?x - px" if "?y = py + k"
        using that by (metis minus_div_mult_eq_mod diff_diff_eq)
      then have "?v i = (if ?y = py + k \<and> px \<le> ?x \<and> ?x < px + w
          then canvas_get cv (?x - px) (?y - py) else v i)"
        by (simp add: copy_row_def row canvas_get_def cv)
      then show "blit_image sv cv (Suc k) ?v i = blit_image sv cv k v i"
        using True k by (auto simp: blit_image_def cv Let_def)
    qed
    finally show ?thesis .
  qed
qed

end
