(* ===== verification/Terminal.thy ===== *)
theory Terminal
  imports Surface
begin

text \<open>
  The terminal emulator and the window manager's drawing, on top of the surface laws: the
  cursor invariant, that printing never panics and never writes outside the screen, and what
  is on the screen afterwards.
\<close>

section \<open>The cursor invariant\<close>

definition term_ok :: "usize \<Rightarrow> usize \<Rightarrow> usize \<Rightarrow> usize \<Rightarrow> term_state \<Rightarrow> bool" where
  "term_ok px py w h = (\<lambda>(cv, tx, ty). canvas_ok px py w h cv \<and> 20 \<le> tx \<and> tx + 40 \<le> w \<and> ty + 30 \<le> h)"

lemma term_bounds:
  assumes "canvas_ok px py w h cv" and "tx + 40 \<le> w" and "ty + 30 \<le> h"
  shows "30 * w < 2 ^ 64" "tx + 40 < 2 ^ 64" "ty + 60 < 2 ^ 64"
proof -
  have a: "w * h < 2 ^ 64" using assms(1) by (simp add: canvas_ok_def)
  have "30 * w \<le> h * w" using assms(3) by (intro mult_le_mono1) simp
  with a show w: "30 * w < 2 ^ 64" by (metis le_less_trans mult.commute)
  then show "tx + 40 < 2 ^ 64" using assms(2) by simp
  have "40 * h \<le> w * h" using assms(2) by (intro mult_le_mono1) simp
  with a have "40 * h < 2 ^ 64" by linarith
  then show "ty + 60 < 2 ^ 64" using assms(3) by simp
qed

lemma term_newline_ok:
  assumes "canvas_ok px py w h cv" and "60 \<le> w" and "ty + 30 \<le> h"
  shows "\<exists>st. term_newline (cv, tx, ty) = Some st \<and> term_ok px py w h st"
proof -
  have b: "30 * w < 2 ^ 64" "ty + 60 < 2 ^ 64"
    using term_bounds [OF assms(1) _ assms(3), of 20] assms(2) by simp_all
  have h: "cv_height cv = h" using assms(1) by (simp add: canvas_ok_def)
  show ?thesis
  proof (cases "h < ty + 60")
    case True
    from scroll_up_ok [OF assms(1) b(1)] obtain cv' where
      cv': "scroll_up 30 0xFFFFFF cv = Some cv'" "canvas_ok px py w h cv'" by blast
    have "uadd ty 30 = Some (ty + 30)" "usub (ty + 30) 30 = Some ty" "uadd (ty + 30) 30 = Some (ty + 60)"
      using b(2) by (simp_all add: uadd_def usub_def)
    with True cv' h assms show ?thesis
      by (simp add: term_newline_def term_ok_def del: uadd_Some_iff usub_Some_iff)
  next
    case False
    with b(2) h assms show ?thesis
      by (auto simp: term_newline_def uadd_def term_ok_def)
  qed
qed

lemma length_bitmap: "length (get_char_bitmap c) = 8"
proof -
  have "list_all (\<lambda>(c, b). length b = 8) font" by (simp add: font_def)
  then have "length b = 8" if "map_of font c = Some b" for b
    using map_of_SomeD [OF that] by (auto simp: list_all_iff)
  then show ?thesis by (simp add: get_char_bitmap_def split: option.splits)
qed

lemma term_glyph:
  assumes "canvas_ok px py w h cv" and "tx + 40 \<le> w" and "ty + 30 \<le> h"
  shows "\<exists>cv'. draw_glyph canvas_fill_rect (get_char_bitmap c) tx ty 3 color cv = Some cv'
    \<and> canvas_ok px py w h cv' \<and> (\<forall>x y. x < w \<longrightarrow> y < h \<longrightarrow> canvas_get cv' x y =
        (if (x, y) \<in> glyph_pixels (get_char_bitmap c) tx ty 3 then color else canvas_get cv x y))"
  using canvas.paints_glyph [OF length_bitmap, of tx 3 ty w h px py color c] assms(1)
    term_bounds [OF assms]
  unfolding canvas.paints_def canvas_fill_rect_def by simp

lemma term_char_ok:
  assumes "term_ok px py w h st"
  shows "\<exists>st'. term_char color c st = Some st' \<and> term_ok px py w h st'"
proof -
  obtain cv tx ty where st: "st = (cv, tx, ty)" by (cases st)
  with assms have ok: "canvas_ok px py w h cv" "20 \<le> tx" "tx + 40 \<le> w" "ty + 30 \<le> h"
    by (auto simp: term_ok_def)
  show ?thesis
  proof (cases "c = 10")
    case True
    with term_newline_ok [OF ok(1) _ ok(4), of tx] ok show ?thesis
      by (simp add: term_char_def st)
  next
    case False
    from term_glyph [OF ok(1,3,4)] obtain cv' where cv':
      "draw_glyph canvas_fill_rect (get_char_bitmap (to_ascii_uppercase c)) tx ty 3 color cv = Some cv'"
      "canvas_ok px py w h cv'" by blast
    have w: "cv_width cv' = w" using cv'(2) by (simp add: canvas_ok_def)
    have "uadd tx 30 = Some (tx + 30)" using term_bounds(2) [OF ok(1,3,4)] by (simp add: uadd_def)
    moreover have "usub w 40 = Some (w - 40)" using ok(3) by (simp add: usub_def)
    moreover have "\<exists>st'. term_newline (cv', tx + 30, ty) = Some st' \<and> term_ok px py w h st'"
      using ok by (intro term_newline_ok cv'(2)) auto
    moreover have "term_ok px py w h (cv', tx + 30, ty)" if "\<not> w - 40 < tx + 30"
      using that ok cv'(2) by (auto simp: term_ok_def)
    ultimately show ?thesis using False cv'(1) w
      by (cases "w - 40 < tx + 30") (simp_all add: term_char_def st del: uadd_Some_iff usub_Some_iff)
  qed
qed

lemma term_run_ok:
  assumes "term_ok px py w h st"
  shows "\<exists>st'. foldM (term_char color) text st = Some st' \<and> term_ok px py w h st'"
  using foldM_total [of "term_ok px py w h" st "text" "term_char color"] assms term_char_ok by blast

section \<open>The state invariant\<close>

text \<open>The terminal canvas covers the screen below the 40-pixel top bar.\<close>

definition gfx_ok :: "'a gfx_scheme \<Rightarrow> bool" where
  "gfx_ok s \<longleftrightarrow> screen_ok (server s)
     \<and> (\<forall>cv. terminal_layer (server s) = Some cv \<longrightarrow> 40 \<le> sv_height (server s)
          \<and> term_ok 0 40 (sv_width (server s)) (sv_height (server s) - 40) (cv, term_x s, term_y s))"

text \<open>Two states that differ at most in the terminal and the visible pixels.\<close>

definition same_but_terminal :: "'a gfx_scheme \<Rightarrow> 'a gfx_scheme \<Rightarrow> bool" where
  "same_but_terminal s s' \<longleftrightarrow>
     (\<exists>lay tx ty v. s' = s\<lparr>server := (server s)\<lparr>terminal_layer := lay\<rparr>, term_x := tx, term_y := ty, vram := v\<rparr>
        \<and> below_screen_same (server s) (vram s) v)"

lemma same_but_terminal_refl [simp]: "same_but_terminal s s"
proof -
  have "s = s\<lparr>server := (server s)\<lparr>terminal_layer := terminal_layer (server s)\<rparr>,
      term_x := term_x s, term_y := term_y s, vram := vram s\<rparr>" by simp
  then show ?thesis unfolding same_but_terminal_def below_screen_same_def by blast
qed

lemma same_but_terminal_trans:
  assumes "same_but_terminal s t" and "same_but_terminal t u"
  shows "same_but_terminal s u"
  using assms unfolding same_but_terminal_def below_screen_same_def
  by (elim exE conjE) (rule exI, rule exI, rule exI, rule exI, rule conjI, simp, simp)

lemma same_but_terminal_fields:
  assumes "same_but_terminal s s'"
  shows "mem s' = mem s" "io_trace s' = io_trace s" "live s' = live s"
    "framebuffer (server s') = framebuffer (server s)" "sv_width (server s') = sv_width (server s)"
    "sv_height (server s') = sv_height (server s)" "sv_stride (server s') = sv_stride (server s)"
    "gfx.more s' = gfx.more s"
  using assms by (auto simp: same_but_terminal_def)

text \<open>What a blit of the terminal canvas leaves on the screen.\<close>

lemma blit_canvas_ok:
  assumes "screen_ok (server s)" and "canvas_ok px py w h cv" and "px + w \<le> sv_stride (server s)"
    and "py + h < 2 ^ 64"
  shows "blit_canvas cv s = Some (s\<lparr>vram := blit_image (server s) cv 0 (vram s)\<rparr>)"
  using blit_rows_image [OF assms(2,1,3,4), of 0 "vram s"] assms(2)
  by (simp add: blit_canvas_def canvas_ok_def)

lemma blit_image_below: "0 < sv_stride sv \<Longrightarrow> below_screen_same sv v (blit_image sv cv k v)"
  unfolding below_screen_same_def
proof (intro allI impI)
  fix i assume "0 < sv_stride sv" "sv_stride sv * sv_height sv \<le> i"
  then have "sv_height sv \<le> i div sv_stride sv"
    by (simp add: less_eq_div_iff_mult_less_eq mult.commute)
  then show "blit_image sv cv k v i = v i" by (auto simp: blit_image_def Let_def)
qed

lemma screen_height:
  assumes "screen_ok sv"
  shows "sv_height sv < 2 ^ 64"
proof -
  have "1 * sv_height sv \<le> sv_stride sv * sv_height sv"
    using assms by (intro mult_le_mono1) (auto simp: screen_ok_def)
  then have "sv_height sv < 2 ^ 62" using screen_area [OF assms] by linarith
  then show ?thesis by simp
qed

lemma blit_terminal_ok:
  assumes "gfx_ok s"
  shows "\<exists>s'. blit_terminal s = Some s' \<and> gfx_ok s' \<and> same_but_terminal s s'"
proof (cases "terminal_layer (server s)")
  case None
  with assms show ?thesis by (auto simp: blit_terminal_def)
next
  case (Some cv)
  let ?sv = "server s"
  have ok: "screen_ok ?sv" "canvas_ok 0 40 (sv_width ?sv) (sv_height ?sv - 40) cv" "40 \<le> sv_height ?sv"
    "60 \<le> sv_width ?sv"
    using assms Some by (auto simp: gfx_ok_def term_ok_def)
  have "sv_height ?sv < 2 ^ 64" using screen_height [OF ok(1)] .
  with ok have "blit_canvas cv s = Some (s\<lparr>vram := blit_image ?sv cv 0 (vram s)\<rparr>)"
    by (intro blit_canvas_ok [OF ok(1,2)]) (auto simp: screen_ok_def)
  moreover have "gfx_ok (s\<lparr>vram := blit_image ?sv cv 0 (vram s)\<rparr>)"
    using assms by (simp add: gfx_ok_def)
  moreover have "same_but_terminal s (s\<lparr>vram := blit_image ?sv cv 0 (vram s)\<rparr>)"
    unfolding same_but_terminal_def using blit_image_below [of ?sv "vram s" cv 0] ok(1)
    by (intro exI [of _ "terminal_layer ?sv"] exI [of _ "term_x s"] exI [of _ "term_y s"]
        exI [of _ "blit_image ?sv cv 0 (vram s)"]) (simp add: screen_ok_def)
  ultimately show ?thesis by (simp add: blit_terminal_def Some)
qed

lemma terminal_print_ok:
  assumes "gfx_ok s"
  shows "\<exists>s'. terminal_print text color s = Some s' \<and> gfx_ok s' \<and> same_but_terminal s s'"
proof (cases "terminal_layer (server s)")
  case None
  with assms show ?thesis by (auto simp: terminal_print_def)
next
  case (Some cv)
  let ?sv = "server s"
  have ok: "term_ok 0 40 (sv_width ?sv) (sv_height ?sv - 40) (cv, term_x s, term_y s)"
    "40 \<le> sv_height ?sv" "screen_ok ?sv"
    using assms Some by (auto simp: gfx_ok_def)
  from term_run_ok [OF ok(1), of color "text"] obtain cv' tx ty where run:
    "foldM (term_char color) text (cv, term_x s, term_y s) = Some (cv', tx, ty)"
    "term_ok 0 40 (sv_width ?sv) (sv_height ?sv - 40) (cv', tx, ty)" by auto
  let ?s = "s\<lparr>server := ?sv\<lparr>terminal_layer := Some cv'\<rparr>, term_x := tx, term_y := ty\<rparr>"
  have "gfx_ok ?s" using ok run(2) by (auto simp: gfx_ok_def screen_ok_def)
  from blit_terminal_ok [OF this] obtain s' where s': "blit_terminal ?s = Some s'" "gfx_ok s'"
    "same_but_terminal ?s s'" by blast
  have "same_but_terminal s ?s"
    unfolding same_but_terminal_def below_screen_same_def
    by (intro exI [of _ "Some cv'"] exI [of _ tx] exI [of _ ty] exI [of _ "vram s"]) simp
  with s' have "same_but_terminal s s'" by (blast intro: same_but_terminal_trans)
  with s' run(1) Some show ?thesis by (simp add: terminal_print_def blit_terminal_def)
qed

lemma print_str_ok:
  "gfx_ok s \<Longrightarrow> \<exists>s'. print_str text color s = Some s' \<and> gfx_ok s' \<and> same_but_terminal s s'"
  unfolding print_str_def by (rule terminal_print_ok)

section \<open>What is on the screen\<close>

lemma screen_get_blit_image:
  assumes "canvas_ok px py w h cv" and "px + w \<le> sv_stride sv" and "py + h \<le> sv_height sv"
    and "x < w" and "y < h"
  shows "screen_get sv (blit_image sv cv 0 v) (px + x) (py + y) = canvas_get cv x y"
  using assms by (simp add: screen_get_def blit_image_def canvas_ok_def Let_def)

lemma string_keeps:
  assumes "x + 10 * scale * length cs < 2 ^ 64" and "y + 8 * scale < 2 ^ 64"
  shows "screen.keeps sv v0 ({x..<x + 10 * scale * length cs} \<times> {y..<y + 8 * scale})
    (screen_draw_string sv x y cs color scale)"
  using assms(1)
proof (induction cs arbitrary: x)
  case Nil
  have "screen_draw_string sv x y [] color scale = Some" by (intro ext) simp
  then show ?case using screen.keeps_skip by simp
next
  case (Cons c cs)
  let ?bm = "get_char_bitmap (to_ascii_uppercase c)"
  have len: "x + 10 * scale + 10 * scale * length cs < 2 ^ 64"
    "10 * scale * length (c # cs) = 10 * scale + 10 * scale * length cs"
    using Cons.prems by (simp_all add: algebra_simps)
  then have ops: "umul 8 scale = Some (8 * scale)" "umul 2 scale = Some (2 * scale)"
    "uadd (8 * scale) (2 * scale) = Some (10 * scale)" "uadd x (10 * scale) = Some (x + 10 * scale)"
    by simp_all
  have eq: "screen_draw_string sv x y (c # cs) color scale = (\<lambda>v.
      draw_glyph (screen_fill_rect sv) ?bm x y scale color v
      \<bind> screen_draw_string sv (x + 10 * scale) y cs color scale)"
    using ops by (intro ext) (simp del: umul_Some_iff uadd_Some_iff)
  have "screen.paints sv v0 color (glyph_pixels ?bm x y scale)
      (draw_glyph (screen_fill_rect sv) ?bm x y scale color)"
    unfolding screen_fill_rect_def using len assms(2)
    by (intro screen.paints_glyph length_bitmap) simp_all
  then have g: "screen.keeps sv v0 ({x..<x + 10 * scale * length (c # cs)} \<times> {y..<y + 8 * scale})
      (draw_glyph (screen_fill_rect sv) ?bm x y scale color)"
    using glyph_pixels_box [of ?bm x y scale] unfolding len(2)
    by (elim screen.paints_keeps) fastforce
  have "screen.keeps sv v0 ({x..<x + 10 * scale * length (c # cs)} \<times> {y..<y + 8 * scale})
      (screen_draw_string sv (x + 10 * scale) y cs color scale)"
    unfolding len(2) by (rule screen.keeps_mono [OF Cons.IH]) (use len(1) in auto)
  with g show ?case unfolding eq by (rule screen.keeps_bind)
qed

lemma rect_keeps:
  assumes "x + n < 2 ^ 64" and "y + k < 2 ^ 64" and "{x..<x + n} \<times> {y..<y + k} \<subseteq> A"
  shows "screen.keeps sv v0 A (screen_fill_rect sv x y n k color)"
  unfolding screen_fill_rect_def
  using screen.paints_keeps [OF screen.paints_rect [OF assms(1,2)] assms(3)] .

section \<open>Windows\<close>

definition window_visible :: "compositor \<Rightarrow> window \<Rightarrow> bool" where
  "window_visible sv win \<longleftrightarrow> is_open win
     \<and> nat (win_x win) + win_width win \<le> sv_width sv \<and> nat (win_y win) + win_height win \<le> sv_height sv"

text \<open>The rectangle of a window, moved by \<open>d\<close> in both directions and from row \<open>r\<close> on.\<close>

definition window_rect :: "nat \<Rightarrow> nat \<Rightarrow> window \<Rightarrow> (usize \<times> usize) set" where
  "window_rect d r win = {nat (win_x win) + d..<nat (win_x win) + d + win_width win}
     \<times> {nat (win_y win) + d + r..<nat (win_y win) + d + win_height win}"

definition window_fits :: "window \<Rightarrow> bool" where
  "window_fits win \<longleftrightarrow> in_i32 (win_x win) \<and> in_i32 (win_y win) \<and> 24 \<le> win_width win \<and> win_width win < 2 ^ 62
     \<and> 24 \<le> win_height win \<and> win_height win < 2 ^ 62 \<and> 8 + 10 * length (chars (title win)) \<le> win_width win"

definition window_bar :: "compositor \<Rightarrow> window \<Rightarrow> vram \<Rightarrow> vram option" where
  "window_bar sv win v = (let x = nat (win_x win); y = nat (win_y win) in do {
     v \<leftarrow> screen_fill_rect sv x y (win_width win) 24 0x0F172A v;
     v \<leftarrow> screen_draw_string sv (x + 8) (y + 8) (chars (title win)) 0xFFFFFF 1 v;
     v \<leftarrow> screen_fill_rect sv (x + win_width win - 20) (y + 4) 16 16 0xEF4444 v;
     screen_draw_string sv (x + win_width win - 16) (y + 8) (chars (lit ''X'')) 0xFFFFFF 1 v
   })"

lemma chars_X: "chars (lit ''X'') = [88]"
  by code_simp

lemma window_bounds:
  assumes "window_fits win"
  shows "nat (win_x win) + win_width win + 4 < 2 ^ 63" "nat (win_y win) + win_height win + 4 < 2 ^ 63"
proof -
  have "nat (win_x win) < 2 ^ 31" "nat (win_y win) < 2 ^ 31"
    using assms by (auto simp: window_fits_def in_i32_def)
  then show "nat (win_x win) + win_width win + 4 < 2 ^ 63" "nat (win_y win) + win_height win + 4 < 2 ^ 63"
    using assms by (simp_all add: window_fits_def)
qed

lemma draw_window_visible:
  assumes "window_visible sv win" and "window_fits win"
  shows "draw_window sv win v =
    screen_fill_rect sv (nat (win_x win) + 4) (nat (win_y win) + 4) (win_width win) (win_height win) 0 v
    \<bind> (\<lambda>v. screen_fill_rect sv (nat (win_x win)) (nat (win_y win)) (win_width win) (win_height win) (bg_color win) v
    \<bind> window_bar sv win)"
proof -
  define x y where "x = nat (win_x win)" and "y = nat (win_y win)"
  have safe: "(if win_x win < 0 then 0 else x) = x" "(if win_y win < 0 then 0 else y) = y" by (simp_all add: x_def y_def)
  have vis: "is_open win" "\<not> x + win_width win > sv_width sv" "\<not> y + win_height win > sv_height sv"
    using assms(1) by (simp_all add: window_visible_def x_def y_def)
  have b: "x + win_width win + 4 < 2 ^ 63" "y + win_height win + 4 < 2 ^ 63"
      "24 \<le> win_width win" "24 \<le> win_height win"
    using window_bounds [OF assms(2)] assms(2) by (simp_all add: x_def y_def window_fits_def)
  have ops: "uadd x (win_width win) = Some (x + win_width win)"
    "uadd y (win_height win) = Some (y + win_height win)"
    "uadd x 4 = Some (x + 4)" "uadd y 4 = Some (y + 4)" "uadd x 8 = Some (x + 8)"
    "uadd y 8 = Some (y + 8)" "usub (x + win_width win) 20 = Some (x + win_width win - 20)"
    "uadd (x + win_width win - 20) 4 = Some (x + win_width win - 16)"
    "uadd (y + 4) 4 = Some (y + 8)"
    using b by simp_all
  show ?thesis
    unfolding draw_window_def window_bar_def Let_def x_def [symmetric] y_def [symmetric] safe
    using vis ops by (simp del: uadd_Some_iff usub_Some_iff)
qed

lemma window_bar_keeps:
  assumes "window_fits win"
  shows "screen.keeps sv v0 ({nat (win_x win)..<nat (win_x win) + win_width win}
    \<times> {nat (win_y win)..<nat (win_y win) + 24}) (window_bar sv win)"
proof -
  have b: "nat (win_x win) + win_width win + 4 < 2 ^ 63" "nat (win_y win) + win_height win + 4 < 2 ^ 63"
      "24 \<le> win_width win" "24 \<le> win_height win" "8 + 10 * length (chars (title win)) \<le> win_width win"
    using window_bounds [OF assms] assms by (simp_all add: window_fits_def)
  show ?thesis
    unfolding window_bar_def Let_def
    apply (intro screen.keeps_bind)
       apply (rule rect_keeps; use b in auto)
      apply (rule screen.keeps_mono [OF string_keeps]; use b in auto)
     apply (rule rect_keeps; use b in auto)
    apply (rule screen.keeps_mono [OF string_keeps]; use b in \<open>auto simp: chars_X\<close>)
    done
qed

lemma draw_window_pixels:
  assumes "screen_ok sv" and "window_fits win"
  shows "\<exists>v'. draw_window sv win v = Some v' \<and> below_screen_same sv v v'
    \<and> (if window_visible sv win
       then \<forall>x y. x < sv_width sv \<longrightarrow> y < sv_height sv \<longrightarrow>
          ((x, y) \<in> window_rect 0 24 win \<longrightarrow> screen_get sv v' x y = bg_color win)
          \<and> ((x, y) \<notin> window_rect 0 0 win \<union> window_rect 4 0 win \<longrightarrow>
              screen_get sv v' x y = screen_get sv v x y)
       else v' = v)"
proof (cases "window_visible sv win")
  case False
  have "draw_window sv win v = Some v"
    using False window_bounds [OF assms(2)]
    by (auto simp: draw_window_def window_visible_def uadd_def Let_def)
  with False show ?thesis by (simp add: below_screen_same_def)
next
  case True
  let ?x = "nat (win_x win)" and ?y = "nat (win_y win)"
  note b = window_bounds [OF assms(2)]
  have ok: "screen_ok sv \<and> below_screen_same sv v v" using assms(1) by (simp add: below_screen_same_def)
  have "screen.keeps sv v (window_rect 4 0 win)
      (screen_fill_rect sv (?x + 4) (?y + 4) (win_width win) (win_height win) 0)"
    by (rule rect_keeps) (use b in \<open>auto simp: window_rect_def\<close>)
  with ok obtain v1 where v1: "screen_fill_rect sv (?x + 4) (?y + 4) (win_width win) (win_height win) 0 v = Some v1"
    "screen_ok sv \<and> below_screen_same sv v v1"
    "\<And>x y. x < sv_width sv \<Longrightarrow> y < sv_height sv \<Longrightarrow> (x, y) \<notin> window_rect 4 0 win \<Longrightarrow>
      screen_get sv v1 x y = screen_get sv v x y"
    unfolding screen.keeps_def by blast
  have "screen.paints sv v (bg_color win) (window_rect 0 0 win)
      (screen_fill_rect sv ?x ?y (win_width win) (win_height win) (bg_color win))"
    unfolding screen_fill_rect_def window_rect_def
    using screen.paints_rect [of ?x "win_width win" ?y "win_height win" sv v] b by simp
  with v1(2) obtain v2 where v2: "screen_fill_rect sv ?x ?y (win_width win) (win_height win) (bg_color win) v1 = Some v2"
    "screen_ok sv \<and> below_screen_same sv v v2"
    "\<And>x y. x < sv_width sv \<Longrightarrow> y < sv_height sv \<Longrightarrow>
      screen_get sv v2 x y = (if (x, y) \<in> window_rect 0 0 win then bg_color win else screen_get sv v1 x y)"
    unfolding screen.paints_def by blast
  from window_bar_keeps [OF assms(2)] v2(2) obtain v3 where v3: "window_bar sv win v2 = Some v3"
    "below_screen_same sv v v3"
    "\<And>x y. x < sv_width sv \<Longrightarrow> y < sv_height sv \<Longrightarrow>
      (x, y) \<notin> {?x..<?x + win_width win} \<times> {?y..<?y + 24} \<Longrightarrow> screen_get sv v3 x y = screen_get sv v2 x y"
    unfolding screen.keeps_def by blast
  have "draw_window sv win v = Some v3"
    by (simp add: draw_window_visible [OF True assms(2)] v1(1) v2(1) v3(1))
  moreover have "24 \<le> win_height win" using assms(2) by (simp add: window_fits_def)
  ultimately show ?thesis
    using True v3 v2(3) v1(3) by (intro exI [of _ v3]) (auto simp: window_rect_def)
qed

text \<open>C34. Drawing a window that fits its title and lies on the screen never
  panics and writes nothing beyond the last screen line; afterwards the body of the window
  shows its background colour, and every pixel outside the window and its drop shadow is
  as before. A window that is closed or sticks out of the screen is not drawn at all.\<close>

theorem draw_window_exact:
  assumes "screen_ok sv" and "window_fits win"
  shows "\<exists>v'. draw_window sv win v = Some v' \<and> below_screen_same sv v v'
    \<and> (if window_visible sv win
       then \<forall>x y. x < sv_width sv \<longrightarrow> y < sv_height sv \<longrightarrow>
          ((x, y) \<in> window_rect 0 24 win \<longrightarrow> screen_get sv v' x y = bg_color win)
          \<and> ((x, y) \<notin> window_rect 0 0 win \<union> window_rect 4 0 win \<longrightarrow>
              screen_get sv v' x y = screen_get sv v x y)
       else v' = v)"
  by (rule draw_window_pixels [OF assms])

definition demo_server :: compositor where
  "demo_server = \<lparr>framebuffer = 0x80000000, sv_width = 100, sv_height = 70, sv_stride = 104,
     terminal_layer = Some \<lparr>cv_x = 0, cv_y = 40, cv_width = 100, cv_height = 30,
       cv_pixels = replicate 3000 0xFFFFFF\<rparr>\<rparr>"

definition demo_window :: window where
  "demo_window = window_new 5 6 30 30 (lit ''AB'') 0xE2E8F0"

lemma demo_screen_ok: "screen_ok demo_server"
  by (simp add: screen_ok_def demo_server_def)

lemma demo_window_fits: "window_fits demo_window"
proof -
  have "length (chars (lit ''AB'')) = 2" by code_simp
  then show ?thesis by (simp add: window_fits_def demo_window_def window_new_def in_i32_def)
qed

theorem draw_window_exact_witness:
  "\<exists>v'. draw_window demo_server demo_window (\<lambda>_. 0) = Some v'
    \<and> screen_get demo_server v' 7 32 = 0xE2E8F0 \<and> screen_get demo_server v' 3 3 = 0"
proof -
  have "window_visible demo_server demo_window"
    by (simp add: window_visible_def demo_server_def demo_window_def window_new_def)
  moreover have "(7, 32) \<in> window_rect 0 24 demo_window"
    "(3, 3) \<notin> window_rect 0 0 demo_window \<union> window_rect 4 0 demo_window"
    "bg_color demo_window = 0xE2E8F0" "sv_width demo_server = 100" "sv_height demo_server = 70"
    "screen_get demo_server (\<lambda>_. 0) 3 3 = 0"
    by (simp_all add: window_rect_def demo_window_def window_new_def demo_server_def screen_get_def)
  ultimately show ?thesis
    using draw_window_exact [OF demo_screen_ok demo_window_fits, of "\<lambda>_. 0"] by fastforce
qed

section \<open>Canvas operations and the terminal\<close>

text \<open>\<open>Canvas::fill_rect\<close> never panics unless the corner
  coordinates overflow, keeps the canvas well formed, sets exactly the pixels of the
  rectangle that lie on the canvas and leaves all others alone.\<close>

lemma canvas_fill_rect_exact:
  assumes "canvas_ok px py w h cv" and "x0 + n < 2 ^ 64" and "y0 + k < 2 ^ 64"
  shows "\<exists>cv'. canvas_fill_rect x0 y0 n k c cv = Some cv' \<and> canvas_ok px py w h cv'
    \<and> (\<forall>x y. x < w \<longrightarrow> y < h \<longrightarrow> canvas_get cv' x y =
        (if x0 \<le> x \<and> x < x0 + n \<and> y0 \<le> y \<and> y < y0 + k then c else canvas_get cv x y))"
  using canvas.paints_rect [OF assms(2,3), of w h px py c] assms(1)
  unfolding canvas.paints_def canvas_fill_rect_def by fastforce

definition demo_canvas :: canvas where
  "demo_canvas = \<lparr>cv_x = 0, cv_y = 0, cv_width = 3, cv_height = 2, cv_pixels = [1, 2, 3, 4, 5, 6]\<rparr>"

text \<open>\<open>Canvas::scroll_up\<close> moves every row up by the given number of
  rows, fills the rows that come free at the bottom (all rows, when the shift exceeds the
  height) with the background, and keeps the canvas well formed.\<close>

lemma scroll_up_shifts:
  assumes "canvas_ok px py w h cv" and "k * w < 2 ^ 64"
  shows "\<exists>cv'. scroll_up k bg cv = Some cv' \<and> canvas_ok px py w h cv'
    \<and> (\<forall>x y. x < w \<longrightarrow> y < h \<longrightarrow>
        canvas_get cv' x y = (if y + k < h then canvas_get cv x (y + k) else bg))"
  by (rule scroll_up_ok [OF assms])

text \<open>After \<open>compositor::init\<close> on the mode the firmware reports (at
  least 60 by 90 pixels) the graphics state satisfies its invariant: the screen geometry is
  sound and the terminal canvas covers the screen below the top bar, all white, with the
  cursor inside it.\<close>

lemma compositor_init_ok:
  assumes "60 \<le> bi_width info" and "bi_width info \<le> bi_stride info" and "90 \<le> bi_height info"
    and "unat (framebuffer_base info) + bi_stride info * bi_height info * 4 < 2 ^ 64"
    and "term_x s = 20" and "term_y s = 20"
  shows "\<exists>s' cv. compositor_init info s = Some s' \<and> gfx_ok s' \<and> terminal_layer (server s') = Some cv
    \<and> vram s' = vram s \<and> (\<forall>x y. x < bi_width info \<longrightarrow> y < bi_height info - 40 \<longrightarrow> canvas_get cv x y = 0xFFFFFF)"
proof -
  let ?w = "bi_width info" and ?h = "bi_height info"
  define area where "area = bi_stride info * ?h"
  have "?w * (?h - 40) \<le> area" unfolding area_def using assms(2) by (intro mult_le_mono) simp_all
  moreover have "area < 2 ^ 64" using assms(4) unfolding area_def by linarith
  ultimately have "?w * (?h - 40) < 2 ^ 64" by linarith
  from canvas_new_ok [OF this, where x = 0 and y = 40 and bg = "0xFFFFFF"] obtain cv where
    cv: "canvas_new 0 40 ?w (?h - 40) 0xFFFFFF = Some cv" "canvas_ok 0 40 ?w (?h - 40) cv"
    "\<forall>x y. x < ?w \<longrightarrow> y < ?h - 40 \<longrightarrow> canvas_get cv x y = 0xFFFFFF" by blast
  have "usub ?h 40 = Some (?h - 40)" using assms(3) by simp
  with cv assms show ?thesis
    by (auto simp: compositor_init_def gfx_ok_def screen_ok_def term_ok_def simp del: usub_Some_iff)
qed

definition blank_gfx :: gfx where
  "blank_gfx = \<lparr>mem = (\<lambda>_. 0), io_trace = [], live = [], server = SERVER, term_x = 20, term_y = 20,
     vram = (\<lambda>_. 0)\<rparr>"

definition demo_boot_info :: boot_info where
  "demo_boot_info = \<lparr>framebuffer_base = 0x80000000, framebuffer_size = 0x300000, bi_width = 1024,
     bi_height = 768, bi_stride = 1024, memory_map_size = 0, acpi2_rsdp_addr = 0,
     memory_map_addr = 0, memory_map_desc_size = 48\<rparr>"

lemma terminal_print_screen:
  assumes "gfx_ok s" and "terminal_layer (server s) = Some cv"
    and run: "foldM (term_char color) str (cv, term_x s, term_y s) = Some (cv', tx, ty)"
    and cv': "canvas_ok 0 40 (sv_width (server s)) (sv_height (server s) - 40) cv'"
  shows "\<exists>s'. terminal_print str color s = Some s' \<and> terminal_layer (server s') = Some cv'
    \<and> term_x s' = tx \<and> term_y s' = ty
    \<and> (\<forall>x y. x < sv_width (server s) \<longrightarrow> y < sv_height (server s) - 40 \<longrightarrow>
        screen_get (server s') (vram s') x (40 + y) = canvas_get cv' x y)"
proof -
  let ?sv = "server s"
  have ok: "40 \<le> sv_height ?sv" "screen_ok ?sv" using assms(1,2) by (auto simp: gfx_ok_def)
  let ?s = "s\<lparr>server := ?sv\<lparr>terminal_layer := Some cv'\<rparr>, term_x := tx, term_y := ty\<rparr>"
  have so: "screen_ok (server ?s)" "sv_width ?sv \<le> sv_stride ?sv" using ok(2) by (auto simp: screen_ok_def)
  have "sv_height ?sv < 2 ^ 64" using screen_height [OF ok(2)] .
  then have "blit_canvas cv' ?s = Some (?s\<lparr>vram := blit_image (server ?s) cv' 0 (vram ?s)\<rparr>)"
    by (intro blit_canvas_ok [OF so(1) cv']) (use so(2) ok(1) in simp_all)
  with run assms(2) have "terminal_print str color s = Some (?s\<lparr>vram := blit_image (server ?s) cv' 0 (vram ?s)\<rparr>)"
    by (simp add: terminal_print_def)
  moreover have "screen_get (server ?s) (blit_image (server ?s) cv' 0 (vram ?s)) x (40 + y) = canvas_get cv' x y"
    if "x < sv_width ?sv" "y < sv_height ?sv - 40" for x y
    using screen_get_blit_image [OF cv', of "server ?s" x y "vram ?s"] that so(2) ok(1) by simp
  ultimately show ?thesis by simp
qed

text \<open>C6. Printing any text on an initialised terminal never panics,
  keeps the invariant of canvas and cursor (so the cursor stays on the canvas through wrapping
  and scrolling), changes nothing but the terminal and visible pixels, and leaves the screen
  below the top bar showing exactly the canvas.\<close>

theorem terminal_print_correct:
  assumes "gfx_ok s" and "terminal_layer (server s) = Some cv"
  shows "\<exists>s' cv'. terminal_print str color s = Some s' \<and> gfx_ok s' \<and> same_but_terminal s s'
    \<and> terminal_layer (server s') = Some cv'
    \<and> (\<forall>x y. x < sv_width (server s) \<longrightarrow> y < sv_height (server s) - 40 \<longrightarrow>
        screen_get (server s') (vram s') x (40 + y) = canvas_get cv' x y)"
proof -
  obtain s' where s': "terminal_print str color s = Some s'" "gfx_ok s'" "same_but_terminal s s'"
    using terminal_print_ok [OF assms(1)] by blast
  have "term_ok 0 40 (sv_width (server s)) (sv_height (server s) - 40) (cv, term_x s, term_y s)"
    using assms by (auto simp: gfx_ok_def)
  from term_run_ok [OF this, of color str] obtain cv' tx ty where run:
    "foldM (term_char color) str (cv, term_x s, term_y s) = Some (cv', tx, ty)"
    "canvas_ok 0 40 (sv_width (server s)) (sv_height (server s) - 40) cv'" by (auto simp: term_ok_def)
  from terminal_print_screen [OF assms run] s' show ?thesis
    by (intro exI [of _ s'] exI [of _ cv']) auto
qed

definition demo_gfx :: gfx where
  "demo_gfx = \<lparr>mem = (\<lambda>_. 0), io_trace = [], live = [], server = demo_server, term_x = 20, term_y = 0,
     vram = (\<lambda>_. 0)\<rparr>"

lemma demo_gfx_ok: "gfx_ok demo_gfx"
  using demo_screen_ok
  by (simp add: gfx_ok_def demo_gfx_def term_ok_def canvas_ok_def demo_server_def)

theorem terminal_print_correct_witness:
  "\<exists>s' cv'. terminal_print (chars (lit ''Hi'')) 0 demo_gfx = Some s' \<and> gfx_ok s'
    \<and> terminal_layer (server s') = Some cv' \<and> screen_get (server s') (vram s') 21 52 = canvas_get cv' 21 12"
proof -
  obtain cv where cv: "terminal_layer (server demo_gfx) = Some cv"
    by (simp add: demo_gfx_def demo_server_def)
  have d: "sv_width (server demo_gfx) = 100" "sv_height (server demo_gfx) = 70"
    by (simp_all add: demo_gfx_def demo_server_def)
  from terminal_print_correct [OF demo_gfx_ok cv, of "chars (lit ''Hi'')" 0] obtain s' cv' where
    s': "terminal_print (chars (lit ''Hi'')) 0 demo_gfx = Some s'" "gfx_ok s'"
      "terminal_layer (server s') = Some cv'" and
    px: "\<forall>x y. x < sv_width (server demo_gfx) \<longrightarrow> y < sv_height (server demo_gfx) - 40 \<longrightarrow>
        screen_get (server s') (vram s') x (40 + y) = canvas_get cv' x y" by blast
  from px [rule_format, of 21 12] s' show ?thesis by (auto simp: d)
qed

text \<open>C33. Printing one character other than a newline, with room left on
  the line, puts exactly the pixels of its (upper-cased) glyph at the cursor, at three times
  the font's size, on top of what the terminal showed, and moves the cursor right by 30.\<close>

theorem terminal_char_drawn:
  assumes "gfx_ok s" and "terminal_layer (server s) = Some cv" and "c \<noteq> 10"
    and "term_x s + 70 \<le> sv_width (server s)"
  shows "\<exists>s'. terminal_print [c] color s = Some s' \<and> term_x s' = term_x s + 30 \<and> term_y s' = term_y s
    \<and> (\<forall>x y. x < sv_width (server s) \<longrightarrow> y < sv_height (server s) - 40 \<longrightarrow>
        screen_get (server s') (vram s') x (40 + y) =
          (if (x, y) \<in> glyph_pixels (get_char_bitmap (to_ascii_uppercase c)) (term_x s) (term_y s) 3
           then color else canvas_get cv x y))"
proof -
  have ok: "canvas_ok 0 40 (sv_width (server s)) (sv_height (server s) - 40) cv"
    "term_x s + 40 \<le> sv_width (server s)" "term_y s + 30 \<le> sv_height (server s) - 40"
    using assms(1,2) by (auto simp: gfx_ok_def term_ok_def)
  from term_glyph [OF ok] obtain cv' where cv':
    "draw_glyph canvas_fill_rect (get_char_bitmap (to_ascii_uppercase c)) (term_x s) (term_y s) 3 color cv = Some cv'"
    "canvas_ok 0 40 (sv_width (server s)) (sv_height (server s) - 40) cv'"
    "\<forall>x y. x < sv_width (server s) \<longrightarrow> y < sv_height (server s) - 40 \<longrightarrow> canvas_get cv' x y =
        (if (x, y) \<in> glyph_pixels (get_char_bitmap (to_ascii_uppercase c)) (term_x s) (term_y s) 3
         then color else canvas_get cv x y)" by blast
  have w: "cv_width cv' = sv_width (server s)" using cv'(2) by (simp add: canvas_ok_def)
  have "uadd (term_x s) 30 = Some (term_x s + 30)" "usub (sv_width (server s)) 40 = Some (sv_width (server s) - 40)"
    using term_bounds(2) [OF ok] ok(2) by simp_all
  then have "foldM (term_char color) [c] (cv, term_x s, term_y s) = Some (cv', term_x s + 30, term_y s)"
    using cv'(1) w assms(3,4) by (auto simp: term_char_def simp del: uadd_Some_iff usub_Some_iff)
  from terminal_print_screen [OF assms(1,2) this cv'(2)] cv'(3) show ?thesis by auto
qed

theorem terminal_char_drawn_witness:
  "\<exists>s'. terminal_print [72] 5 demo_gfx = Some s' \<and> term_x s' = 50 \<and> screen_get (server s') (vram s') 23 40 = 5"
proof -
  obtain cv where cv: "terminal_layer (server demo_gfx) = Some cv"
    by (simp add: demo_gfx_def demo_server_def)
  have d: "term_x demo_gfx = 20" "term_y demo_gfx = 0" "sv_width (server demo_gfx) = 100"
    "sv_height (server demo_gfx) = 70"
    by (simp_all add: demo_gfx_def demo_server_def)
  have "get_char_bitmap (to_ascii_uppercase 72) ! 0 = 0x42" by code_simp
  then have "bit (get_char_bitmap (to_ascii_uppercase 72) ! 0) (7 - 1)" by (simp add: bit_numeral_rec)
  then have "(23, 0) \<in> glyph_pixels (get_char_bitmap (to_ascii_uppercase 72)) 20 0 3"
    unfolding glyph_pixels_def by (intro UN_I [of 0] UN_I [of 1]) auto
  moreover obtain s' where s': "terminal_print [72] 5 demo_gfx = Some s'" "term_x s' = 20 + 30" and
    px: "\<And>x y. x < 100 \<Longrightarrow> y < 30 \<Longrightarrow> screen_get (server s') (vram s') x (40 + y) =
      (if (x, y) \<in> glyph_pixels (get_char_bitmap (to_ascii_uppercase 72)) 20 0 3 then 5 else canvas_get cv x y)"
    using terminal_char_drawn [OF demo_gfx_ok cv, of 72 5] unfolding d by auto
  ultimately show ?thesis using px [of 23 0] by simp
qed

end
