(* ===== verification/E1000.thy ===== *)
theory E1000
  imports ArpCache Terminal
begin

text \<open>
  The Intel E1000 driver (\<open>src/src/e1000.rs\<close>): registers, the receive and transmit descriptor
  rings, and the frames the driver sends of its own accord. The polling loop, which calls into
  the protocol code, is in theory \<open>Poll\<close>.

  The code that hands a frame to the card occurs four times in the sources with the same
  statements (an ARP reply, the UDP broadcast, an ARP request and \<open>net.rs\<close>'s
  \<open>inject_frame\<close>); it is modelled once, as \<open>tx_frame\<close>.
\<close>

section \<open>Descriptors\<close>

record rx_descriptor =
  rx_buffer_address :: u64
  rx_length :: u16
  rx_checksum :: u16
  rx_status :: u8
  rx_errors :: u8
  rx_special :: u16

record tx_descriptor =
  tx_buffer_address :: u64
  tx_length :: u16
  tx_cso :: u8
  tx_cmd :: u8
  tx_status :: u8
  tx_css :: u8
  tx_special :: u16

text \<open>Both structs are \<open>repr(C, packed)\<close>: sixteen bytes, in field order.\<close>

definition rx_encode :: "rx_descriptor \<Rightarrow> u8 list" where
  "rx_encode d = to_le 8 (rx_buffer_address d) @ to_le 2 (rx_length d) @ to_le 2 (rx_checksum d)
     @ [rx_status d, rx_errors d] @ to_le 2 (rx_special d)"

definition rx_decode :: "u8 list \<Rightarrow> rx_descriptor" where
  "rx_decode bs = \<lparr>rx_buffer_address = of_le (take 8 bs), rx_length = of_le (take 2 (drop 8 bs)),
     rx_checksum = of_le (take 2 (drop 10 bs)), rx_status = bs ! 12, rx_errors = bs ! 13,
     rx_special = of_le (take 2 (drop 14 bs))\<rparr>"

definition tx_encode :: "tx_descriptor \<Rightarrow> u8 list" where
  "tx_encode d = to_le 8 (tx_buffer_address d) @ to_le 2 (tx_length d)
     @ [tx_cso d, tx_cmd d, tx_status d, tx_css d] @ to_le 2 (tx_special d)"

section \<open>The driver state\<close>

record e1000 =
  bar0_address :: u64
  rx_ring_ptr :: u64
  current_rx_bucket :: usize
  tx_ring_ptr :: u64
  current_tx_bucket :: usize
  mac_address :: mac_addr

record net = gfx +
  arp_table :: arp_cache
  net_card :: "e1000 option"
  http_payload :: "rstr option"

definition my_mac :: mac_addr where
  "my_mac = [0x52, 0x54, 0x00, 0x12, 0x34, 0x56]"

definition my_ip :: ip_addr where
  "my_ip = [10, 0, 2, 15]"

definition e1000_new :: "u64 \<Rightarrow> e1000" where
  "e1000_new bar0 = \<lparr>bar0_address = bar0, rx_ring_ptr = 0, current_rx_bucket = 0, tx_ring_ptr = 0,
     current_tx_bucket = 0, mac_address = my_mac\<rparr>"

definition read_register ::
  "('a machine_scheme) env \<Rightarrow> e1000 \<Rightarrow> u64 \<Rightarrow> 'a machine_scheme \<Rightarrow> (u32 \<times> 'a machine_scheme) option" where
  "read_register e nic offset s = do {
     a \<leftarrow> wadd (bar0_address nic) offset;
     Some (volatile_read32 e a s)
   }"

definition write_register :: "e1000 \<Rightarrow> u64 \<Rightarrow> u32 \<Rightarrow> 'a machine_scheme \<Rightarrow> 'a machine_scheme option" where
  "write_register nic offset v s = do {
     a \<leftarrow> wadd (bar0_address nic) offset;
     Some (volatile_write32 a v s)
   }"

section \<open>Ring set-up\<close>

definition rx_fill ::
  "('a machine_scheme) env \<Rightarrow> u64 \<Rightarrow> nat \<Rightarrow> 'a machine_scheme \<Rightarrow> 'a machine_scheme option" where
  "rx_fill e ring i s = do {
     (buffer_ptr, s) \<leftarrow> leak_bytes e 1 (replicate 2048 0) s;
     Some (s\<lparr>mem := store_bytes (mem s) (ring + of_nat (16 * i))
       (rx_encode \<lparr>rx_buffer_address = buffer_ptr, rx_length = 0, rx_checksum = 0, rx_status = 0,
          rx_errors = 0, rx_special = 0\<rparr>)\<rparr>)
   }"

definition mac_ral :: "mac_addr \<Rightarrow> u32" where
  "mac_ral mac = ucast (mac ! 0) OR push_bit 8 (ucast (mac ! 1)) OR push_bit 16 (ucast (mac ! 2))
     OR push_bit 24 (ucast (mac ! 3))"

definition mac_rah :: "mac_addr \<Rightarrow> u32" where
  "mac_rah mac = ucast (mac ! 4) OR push_bit 8 (ucast (mac ! 5)) OR push_bit 31 1"

definition init_rx_ring ::
  "('a machine_scheme) env \<Rightarrow> e1000 \<Rightarrow> 'a machine_scheme \<Rightarrow> (e1000 \<times> 'a machine_scheme) option" where
  "init_rx_ring e nic s = do {
     (ctrl, s) \<leftarrow> read_register e nic 0x0000 s;
     s \<leftarrow> write_register nic 0x0000 (ctrl OR push_bit 6 1) s;
     (ring, s) \<leftarrow> alloc_raw e 1 (32 * 16) s;
     s \<leftarrow> foldM (rx_fill e ring) [0..<32] s;
     let nic = nic\<lparr>rx_ring_ptr := ring\<rparr>;
     s \<leftarrow> write_register nic 0x2800 (ucast (ring AND 0xFFFFFFFF)) s;
     s \<leftarrow> write_register nic 0x2808 (32 * 16) s;
     s \<leftarrow> write_register nic 0x2810 0 s;
     s \<leftarrow> write_register nic 0x2818 (32 - 1) s;
     s \<leftarrow> write_register nic 0x5400 (mac_ral (mac_address nic)) s;
     s \<leftarrow> write_register nic 0x5404 (mac_rah (mac_address nic)) s;
     s \<leftarrow> write_register nic 0x0100 (push_bit 1 1 OR push_bit 3 1 OR push_bit 4 1 OR push_bit 15 1) s;
     Some (nic, s)
   }"

definition init_tx_ring ::
  "('a machine_scheme) env \<Rightarrow> e1000 \<Rightarrow> 'a machine_scheme \<Rightarrow> (e1000 \<times> 'a machine_scheme) option" where
  "init_tx_ring e nic s = do {
     (ring, s) \<leftarrow> leak_bytes e 1 (concat (replicate 8 (tx_encode \<lparr>tx_buffer_address = 0, tx_length = 0,
       tx_cso = 0, tx_cmd = 0, tx_status = 0, tx_css = 0, tx_special = 0\<rparr>))) s;
     let nic = nic\<lparr>tx_ring_ptr := ring\<rparr>;
     s \<leftarrow> write_register nic 0x3800 (ucast (ring AND 0xFFFFFFFF)) s;
     s \<leftarrow> write_register nic 0x3808 (8 * 16) s;
     s \<leftarrow> write_register nic 0x3810 0 s;
     s \<leftarrow> write_register nic 0x3818 0 s;
     s \<leftarrow> write_register nic 0x0400 (push_bit 1 1 OR push_bit 3 1) s;
     Some (nic, s)
   }"

section \<open>Transmission\<close>

definition tx_frame ::
  "('a machine_scheme) env \<Rightarrow> u8 list \<Rightarrow> u16 \<Rightarrow> e1000 \<Rightarrow> 'a machine_scheme \<Rightarrow> (e1000 \<times> 'a machine_scheme) option" where
  "tx_frame e frame len nic s = do {
     (frame_ptr, s) \<leftarrow> leak_bytes e 1 frame s;
     off \<leftarrow> wmul (of_nat (current_tx_bucket nic)) 16;
     descriptor_addr \<leftarrow> wadd (tx_ring_ptr nic) off;
     let m = store_le (mem s) descriptor_addr 8 frame_ptr;
     let m = store_le m (descriptor_addr + 8) 2 len;
     let m = store_le m (descriptor_addr + 11) 1 (push_bit 0 1 OR push_bit 1 1 OR push_bit 3 1 :: u8);
     next_bucket \<leftarrow> uadd (current_tx_bucket nic) 1;
     let nic = nic\<lparr>current_tx_bucket := next_bucket mod 8\<rparr>;
     s \<leftarrow> write_register nic 0x3818 (of_nat (current_tx_bucket nic)) (s\<lparr>mem := m\<rparr>);
     Some (nic, s)
   }"

text \<open>\<open>Vec::resize(60, 0)\<close>\<close>

definition resize60 :: "u8 list \<Rightarrow> u8 list" where
  "resize60 bs = take 60 bs @ replicate (60 - length bs) 0"

definition arp_request_frame :: "mac_addr \<Rightarrow> ip_addr \<Rightarrow> u8 list" where
  "arp_request_frame mac target_ip = resize60 (
     [0xFF, 0xFF, 0xFF, 0xFF, 0xFF, 0xFF] @ mac @
     [0x08, 0x06, 0x00, 0x01, 0x08, 0x00, 0x06, 0x04, 0x00, 0x01] @ mac @ [10, 0, 2, 15] @
     [0x00, 0x00, 0x00, 0x00, 0x00, 0x00] @ target_ip)"

definition arp_request :: "('a net_scheme) env \<Rightarrow> ip_addr \<Rightarrow> e1000 \<Rightarrow> 'a net_scheme \<Rightarrow> (e1000 \<times> 'a net_scheme) option" where
  "arp_request e target_ip nic s = do {
     (nic, s) \<leftarrow> tx_frame e (arp_request_frame (mac_address nic) target_ip) 60 nic s;
     s \<leftarrow> print_str (10 # lit ''NET: ARP Request Broadcasted to Network.'' @ [10]) 0x3B82F6 s;
     Some (nic, s)
   }"

definition qemu_router_handshake :: "('a net_scheme) env \<Rightarrow> e1000 \<Rightarrow> 'a net_scheme \<Rightarrow> (e1000 \<times> 'a net_scheme) option" where
  "qemu_router_handshake e nic s = do {
     s \<leftarrow> print_str (10 # lit ''> NET: INITIATING QEMU ROUTER HANDSHAKE (10.0.2.2)...'' @ [10]) 0xF59E0B s;
     arp_request e [10, 0, 2, 2] nic s
   }"

definition udp_frame :: "u8 list" where
  "udp_frame =
     [0xFF, 0xFF, 0xFF, 0xFF, 0xFF, 0xFF,
      0x52, 0x54, 0x00, 0x12, 0x34, 0x56,
      0x08, 0x00,
      0x45, 0x00, 0x00, 0x3A,
      0x00, 0x00, 0x40, 0x00,
      0x40, 0x11, 0x00, 0x00,
      10, 0, 2, 15,
      255, 255, 255, 255,
      0x1A, 0x0A,
      0x1A, 0x0B,
      0x00, 0x26,
      0x00, 0x00] @ lit ''QOREOS '' @ lit ''NODE '' @ lit ''ONLINE''"

definition udp_broadcast :: "('a net_scheme) env \<Rightarrow> e1000 \<Rightarrow> 'a net_scheme \<Rightarrow> (e1000 \<times> 'a net_scheme) option" where
  "udp_broadcast e nic s = do {
     (nic, s) \<leftarrow> tx_frame e udp_frame 60 nic s;
     s \<leftarrow> print_str (10 # lit ''SYS NET TX: UDP BROADCAST FIRED!'' @ [10]) 0xEF4444 s;
     Some (nic, s)
   }"

section \<open>Descriptor layouts\<close>

lemma length_rx_encode [simp, layout]: "length (rx_encode d) = 16"
  by (simp add: rx_encode_def)

lemma length_tx_encode [simp, layout]: "length (tx_encode d) = 16"
  by (simp add: tx_encode_def)

lemma rx_decode_encode [simp]: "rx_decode (rx_encode d) = d"
  by (simp add: rx_decode_def rx_encode_def nth_append)

section \<open>Invariants\<close>

text \<open>The card's registers lie outside the heap, its rings are live blocks of the heap, and
  the ring positions are in range.\<close>

definition nic_mmio :: "nat \<Rightarrow> nat \<Rightarrow> e1000 \<Rightarrow> bool" where
  "nic_mmio base sz nic \<longleftrightarrow> mmio_region base sz (bar0_address nic) 0x6000"

definition nic_ok :: "nat \<Rightarrow> nat \<Rightarrow> block list \<Rightarrow> e1000 \<Rightarrow> bool" where
  "nic_ok base sz ls nic \<longleftrightarrow> nic_mmio base sz nic \<and> current_rx_bucket nic < 32 \<and> current_tx_bucket nic < 8
     \<and> (rx_ring_ptr nic, 512) \<in> set ls \<and> (tx_ring_ptr nic, 128) \<in> set ls \<and> length (mac_address nic) = 6"

lemma write_register_ok:
  assumes "nic_mmio base sz nic" and "off < 0x5FF0"
  shows "write_register nic (of_nat off) v s = Some (volatile_write32 (bar0_address nic + of_nat off) v s)"
  using assms mmio_addr(1) [of base sz "bar0_address nic" "0x6000" off 4]
  by (simp add: write_register_def nic_mmio_def)

lemma register_keeps:
  assumes "nic_mmio base sz nic" and "off < 0x5FF0" and "in_heap base sz (b, k)" and "base + sz < 2 ^ 64"
    and "i + l \<le> k" and "0 < l"
  shows "load_bytes (store_le m (bar0_address nic + of_nat off) 4 (v :: u32)) (b + of_nat i) l = load_bytes m (b + of_nat i) l"
  unfolding store_le_def
  by (rule mmio_keeps [of base sz _ "0x6000" off _ b k]) (use assms in \<open>auto simp: nic_mmio_def\<close>)

section \<open>Queueing a frame\<close>

text \<open>Entry \<open>i\<close> of the transmit ring describes a frame of the given length in memory, with the
  command bits end-of-packet, insert-FCS and report-status.\<close>

definition tx_slot :: "e1000 \<Rightarrow> nat \<Rightarrow> u64" where
  "tx_slot nic i = tx_ring_ptr nic + of_nat (16 * i)"

definition frame_queued :: "e1000 \<Rightarrow> nat \<Rightarrow> u8 list \<Rightarrow> u16 \<Rightarrow> memory \<Rightarrow> bool" where
  "frame_queued nic i frame len m \<longleftrightarrow>
     load_bytes m (load_le m (tx_slot nic i) 8) (length frame) = frame
     \<and> load_le m (tx_slot nic i + 8) 2 = len \<and> load_le m (tx_slot nic i + 11) 1 = (0x0B :: u8)"

definition doorbell :: "e1000 \<Rightarrow> io" where
  "doorbell nic = Mmio32 (bar0_address nic + 0x3818) (of_nat (Suc (current_tx_bucket nic) mod 8))"

lemma tx_frame_ok:
  assumes "heap_ok e base sz" and "heap_inv e base sz (live s)" and "nic_ok base sz (live s) nic"
    and "heap_used (live s) + length frame + 4096 \<le> sz" and "frame \<noteq> []"
  shows "\<exists>p m. tx_frame e frame len nic s = Some (nic\<lparr>current_tx_bucket := Suc (current_tx_bucket nic) mod 8\<rparr>,
       s\<lparr>mem := m, live := (p, length frame) # live s, io_trace := io_trace s @ [doorbell nic]\<rparr>)
    \<and> heap_inv e base sz ((p, length frame) # live s)
    \<and> frame_queued nic (current_tx_bucket nic) frame len m
    \<and> (\<forall>(b, k)\<in>set (live s). (b, k) \<noteq> (tx_ring_ptr nic, 128) \<longrightarrow> 0 < k \<longrightarrow> load_bytes m b k = load_bytes (mem s) b k)"
proof -
  let ?i = "current_tx_bucket nic" and ?d = "tx_slot nic (current_tx_bucket nic)"
  let ?r = "bar0_address nic + of_nat 0x3818"
  from leak_bytes_ok [OF assms(1,2,4), of 1] obtain p where
    p: "leak_bytes e 1 frame s = Some (p, s\<lparr>mem := store_bytes (mem s) p frame, live := (p, length frame) # live s\<rparr>)"
    "heap_inv e base sz ((p, length frame) # live s)" "\<forall>(b, k)\<in>set (live s). apart p (length frame) b k" by auto
  have nic: "nic_mmio base sz nic" "?i < 8" "(tx_ring_ptr nic, 128) \<in> set (live s)"
    using assms(3) by (auto simp: nic_ok_def)
  have bd: "base + sz < 2 ^ 64" using assms(1) by (simp add: heap_ok_def)
  have ring: "in_heap base sz (tx_ring_ptr nic, 128)" using assms(2) nic(3) by (auto simp: heap_inv_def)
  have "unat (tx_ring_ptr nic) + 16 * ?i < 2 ^ 64" using ring bd nic(2) by (simp add: in_heap_def)
  then have a: "wadd (tx_ring_ptr nic) (of_nat (16 * ?i)) = Some ?d" unfolding tx_slot_def by (rule wadd_small)
  have w: "wmul (of_nat ?i) 16 = Some (of_nat (16 * ?i) :: u64)"
    using nic(2) by (simp add: wmul_def unat_of_nat take_bit_nat_eq_self_iff)
  define m1 where "m1 = store_le (store_le (store_le (store_bytes (mem s) p frame) ?d 8 p) (?d + 8) 2 len) (?d + 11) 1 (0x0B :: u8)"
  define m where "m = store_le m1 ?r 4 (of_nat (Suc ?i mod 8) :: u32)"
  have wr: "write_register (nic\<lparr>current_tx_bucket := c\<rparr>) 0x3818 v t = Some (volatile_write32 ?r v t)" for c v and t :: "'a machine_scheme"
    using write_register_ok [of base sz "nic\<lparr>current_tx_bucket := c\<rparr>" "0x3818" v t] nic(1)
    by (simp add: nic_mmio_def)
  have run: "tx_frame e frame len nic s = Some (nic\<lparr>current_tx_bucket := Suc ?i mod 8\<rparr>,
      s\<lparr>mem := m, live := (p, length frame) # live s, io_trace := io_trace s @ [doorbell nic]\<rparr>)"
    using nic(2)
    by (simp add: tx_frame_def p(1) [unfolded One_nat_def] w a [simplified] wr uadd_def Let_def
        volatile_write32_def m_def m1_def doorbell_def)
  have slot: "apart b k (?d + of_nat f) l" if "apart b k (tx_ring_ptr nic) 128" "f + l \<le> 16" "0 < l" for b k f l
  proof -
    have "?d + of_nat f = tx_ring_ptr nic + of_nat (16 * ?i + f)" by (simp add: tx_slot_def)
    with apart_sub [OF that(1), of "16 * ?i + f" l] that nic(2) show ?thesis by (simp add: add.assoc)
  qed
  have kept: "load_bytes m1 b k = load_bytes (store_bytes (mem s) p frame) b k" if "apart b k (tx_ring_ptr nic) 128" for b k
    using slot [OF that, of 0 8] slot [OF that, of 8 2] slot [OF that, of 11 1] unfolding m1_def
    by (simp add: apart_sym [of _ _ b k])
  have reg: "load_bytes m (b + of_nat f) l = load_bytes m1 (b + of_nat f) l"
    if "in_heap base sz (b, k)" "f + l \<le> k" "0 < l" for b k f l
    unfolding m_def by (rule register_keeps [OF nic(1) _ that(1) bd that(2,3)]) simp
  have fp: "apart p (length frame) (tx_ring_ptr nic) 128" using p(3) nic(3) by blast
  have "in_heap base sz (p, length frame)" using p(2) by (simp add: heap_inv_def)
  then have "load_bytes m p (length frame) = load_bytes m1 p (length frame)"
    using reg [of p "length frame" 0 "length frame"] assms(5) by simp
  also have "\<dots> = frame" using kept [OF fp] bd \<open>in_heap base sz (p, length frame)\<close>
    by (simp add: in_heap_def)
  finally have frame: "load_bytes m p (length frame) = frame" .
  have slot_reg: "load_bytes m (?d + of_nat f) l = load_bytes m1 (?d + of_nat f) l" if "f + l \<le> 16" "0 < l" for f l
    using reg [OF ring, of "16 * ?i + f" l] that nic(2) by (simp add: tx_slot_def add.assoc)
  have ap: "apart ?d 8 (?d + 8) 2" "apart ?d 8 (?d + 11) 1" "apart (?d + 8) 2 (?d + 11) 1"
    using apart_offsets [of 0 8 8 2 ?d] apart_offsets [of 0 8 11 1 ?d] apart_offsets [of 8 2 11 1 ?d] by simp_all
  have "load_le m1 ?d 8 = p" "load_le m1 (?d + 8) 2 = len" "load_le m1 (?d + 11) 1 = (0x0B :: u8)"
    using ap apart_sym [of ?d 8] apart_sym [of "?d + 8" 2 "?d + 11" 1] unfolding m1_def by simp_all
  then have fields: "load_le m ?d 8 = p" "load_le m (?d + 8) 2 = len" "load_le m (?d + 11) 1 = (0x0B :: u8)"
    using slot_reg [of 0 8] slot_reg [of 8 2] slot_reg [of 11 1] by (simp_all add: load_le_def)
  have "load_bytes m b k = load_bytes (mem s) b k"
    if bk: "(b, k) \<in> set (live s)" "(b, k) \<noteq> (tx_ring_ptr nic, 128)" "0 < k" for b k
  proof -
    have "in_heap base sz (b, k)" using assms(2) bk(1) by (auto simp: heap_inv_def)
    then have "load_bytes m b k = load_bytes m1 b k" using reg [of b k 0 k] bk(3) by simp
    also have "\<dots> = load_bytes (mem s) b k"
      using kept [OF heap_inv_apart [OF assms(2) bk(1) nic(3) bk(2)]] p(3) bk(1) by auto
    finally show ?thesis .
  qed
  with run p(2) frame fields show ?thesis by (auto simp: frame_queued_def)
qed

end
