(* ===== verification/Net.thy ===== *)
theory Net
  imports E1000
begin

text \<open>
  The protocol code (\<open>src/src/net.rs\<close>): parsing of received IPv4/TCP packets, the reply to a
  connection request, the HTTP response, the frames' layout and their checksums.
\<close>

section \<open>Headers\<close>

text \<open>\<open>repr(C, packed)\<close> structs laid over the packet's bytes; multi-byte fields are read in the
  machine's (little-endian) order and converted with \<open>from_be\<close>.\<close>

record ethernet_header =
  eth_dest_mac :: mac_addr
  eth_src_mac :: mac_addr
  eth_ethertype :: u16

record ipv4_header =
  version_ihl :: u8
  dscp_ecn :: u8
  ip_total_length :: u16
  identification :: u16
  flags_fragment_offset :: u16
  ttl :: u8
  protocol :: u8
  header_checksum :: u16
  src_ip :: ip_addr
  dest_ip :: ip_addr

record tcp_header =
  tcp_src_port :: u16
  tcp_dest_port :: u16
  tcp_seq_num :: u32
  tcp_ack_num :: u32
  data_offset_flags :: u16
  window_size :: u16
  tcp_checksum :: u16
  urgent_ptr :: u16

definition eth_view :: "u8 list \<Rightarrow> ethernet_header" where
  "eth_view bs = \<lparr>eth_dest_mac = field bs 0 6, eth_src_mac = field bs 6 6, eth_ethertype = of_le (field bs 12 2)\<rparr>"

definition ipv4_view :: "u8 list \<Rightarrow> ipv4_header" where
  "ipv4_view bs = \<lparr>version_ihl = bs ! 0, dscp_ecn = bs ! 1, ip_total_length = of_le (field bs 2 2),
     identification = of_le (field bs 4 2), flags_fragment_offset = of_le (field bs 6 2), ttl = bs ! 8,
     protocol = bs ! 9, header_checksum = of_le (field bs 10 2), src_ip = field bs 12 4, dest_ip = field bs 16 4\<rparr>"

definition tcp_view :: "u8 list \<Rightarrow> tcp_header" where
  "tcp_view bs = \<lparr>tcp_src_port = of_le (field bs 0 2), tcp_dest_port = of_le (field bs 2 2),
     tcp_seq_num = of_le (field bs 4 4), tcp_ack_num = of_le (field bs 8 4),
     data_offset_flags = of_le (field bs 12 2), window_size = of_le (field bs 14 2),
     tcp_checksum = of_le (field bs 16 2), urgent_ptr = of_le (field bs 18 2)\<rparr>"

definition from_be16 :: "u16 \<Rightarrow> u16" where
  "from_be16 w = of_be (to_le 2 w)"

definition from_be32 :: "u32 \<Rightarrow> u32" where
  "from_be32 w = of_be (to_le 4 w)"

section \<open>Building frames\<close>

definition craft_base_tcp_frame ::
  "mac_addr \<Rightarrow> ip_addr \<Rightarrow> u16 \<Rightarrow> u32 \<Rightarrow> u32 \<Rightarrow> u8 \<Rightarrow> u8 \<Rightarrow> u8 list option" where
  "craft_base_tcp_frame target_mac target_ip target_port seq ack flags tcp_hl = do {
     n \<leftarrow> uadd 34 (unat tcp_hl);
     let f = replicate n 0;
     f \<leftarrow> copy_chk f 0 6 target_mac;
     f \<leftarrow> copy_chk f 6 12 my_mac;
     f \<leftarrow> upd_chk f 12 0x08;
     f \<leftarrow> upd_chk f 13 0x00;
     f \<leftarrow> upd_chk f 14 0x45;
     total_ip_len \<leftarrow> wadd (20 :: u16) (ucast tcp_hl);
     f \<leftarrow> upd_chk f 16 (ucast (drop_bit 8 total_ip_len));
     f \<leftarrow> upd_chk f 17 (ucast total_ip_len);
     f \<leftarrow> upd_chk f 20 0x40;
     f \<leftarrow> upd_chk f 21 0x00;
     f \<leftarrow> upd_chk f 22 64;
     f \<leftarrow> upd_chk f 23 6;
     f \<leftarrow> copy_chk f 26 30 my_ip;
     f \<leftarrow> copy_chk f 30 34 target_ip;
     f \<leftarrow> copy_chk f 34 36 (to_be 2 (80 :: u16));
     f \<leftarrow> copy_chk f 36 38 (to_be 2 target_port);
     f \<leftarrow> copy_chk f 38 42 (to_be 4 seq);
     f \<leftarrow> copy_chk f 42 46 (to_be 4 ack);
     f \<leftarrow> upd_chk f 46 (push_bit 4 (tcp_hl div 4));
     f \<leftarrow> upd_chk f 47 flags;
     f \<leftarrow> copy_chk f 48 50 (to_be 2 (0xFAF0 :: u16));
     if tcp_hl = 24 then do {
       f \<leftarrow> upd_chk f 54 0x02;
       f \<leftarrow> upd_chk f 55 0x04;
       copy_chk f 56 58 (to_be 2 (1460 :: u16))
     } else Some f
   }"

section \<open>Checksums\<close>

definition be_word :: "u8 \<Rightarrow> u8 \<Rightarrow> u32" where
  "be_word hi lo = push_bit 8 (ucast hi) OR ucast lo"

text \<open>\<open>(lo..hi).step_by(2)\<close>\<close>

definition step2 :: "usize \<Rightarrow> usize \<Rightarrow> usize list" where
  "step2 lo hi = map (\<lambda>k. lo + 2 * k) [0..<(hi - lo + 1) div 2]"

definition add_words :: "u8 list \<Rightarrow> usize list \<Rightarrow> u32 \<Rightarrow> u32 option" where
  "add_words f is = foldM (\<lambda>i acc. do {
     hi \<leftarrow> nth_chk f i;
     lo \<leftarrow> nth_chk f (i + 1);
     wadd acc (be_word hi lo)
   }) is"

definition add_words_pad :: "u8 list \<Rightarrow> usize list \<Rightarrow> u32 \<Rightarrow> u32 option" where
  "add_words_pad f is = foldM (\<lambda>i acc.
     if i + 1 < length f then do {
       hi \<leftarrow> nth_chk f i;
       lo \<leftarrow> nth_chk f (i + 1);
       wadd acc (be_word hi lo)
     } else do {
       hi \<leftarrow> nth_chk f i;
       wadd acc (push_bit 8 (ucast hi))
     }) is"

text \<open>\<open>while (x >> 16) > 0 { x = (x & 0xFFFF) + (x >> 16) }\<close>; both summands are below
  \<open>2 ^ 16\<close>, so the addition cannot overflow.\<close>

lemma carry_parts:
  fixes x :: u32
  shows "unat (x AND 0xFFFF) = unat x mod 65536" "unat (drop_bit 16 x) = unat x div 65536"
    "unat ((x AND 0xFFFF) + drop_bit 16 x) = unat x mod 65536 + unat x div 65536"
proof -
  have "(x AND 0xFFFF) = take_bit 16 x" by (simp add: take_bit_eq_mask mask_eq_exp_minus_1)
  then show a: "unat (x AND 0xFFFF) = unat x mod 65536"
    by (simp add: unat_mod_distrib unsigned_take_bit_eq take_bit_eq_mod)
  show b: "unat (drop_bit 16 x) = unat x div 65536"
    by (simp add: drop_bit_eq_div unat_div_distrib)
  have "unat x mod 65536 + unat x div 65536 < 2 ^ 32"
    using unsigned_less [of x, where ?'a = nat] by simp
  then show "unat ((x AND 0xFFFF) + drop_bit 16 x) = unat x mod 65536 + unat x div 65536"
    by (simp add: unat_word_ariths a b)
qed

function fold_carry :: "u32 \<Rightarrow> u32" where
  "fold_carry x = (if drop_bit 16 x = 0 then x else fold_carry ((x AND 0xFFFF) + drop_bit 16 x))"
  by pat_completeness auto
termination
proof (relation "measure unat")
  fix x :: u32
  assume "drop_bit 16 x \<noteq> 0"
  then have "0 < unat x div 65536" using carry_parts(2) [of x] by (metis unat_eq_zero neq0_conv)
  then have "unat x mod 65536 + unat x div 65536 < unat x"
    using div_mult_mod_eq [of "unat x" 65536] by linarith
  then show "((x AND 0xFFFF) + drop_bit 16 x, x) \<in> measure unat"
    by (simp add: carry_parts(3))
qed simp

declare fold_carry.simps [simp del]

definition recalculate_checksums :: "u8 list \<Rightarrow> usize \<Rightarrow> u8 list option" where
  "recalculate_checksums frame body_len = do {
     f \<leftarrow> upd_chk frame 24 0;
     f \<leftarrow> upd_chk f 25 0;
     ip_chk \<leftarrow> add_words f (step2 14 34) 0;
     let final_ip = NOT (ucast (fold_carry ip_chk) :: u16);
     f \<leftarrow> upd_chk f 24 (ucast (drop_bit 8 final_ip));
     f \<leftarrow> upd_chk f 25 (ucast final_ip);
     f \<leftarrow> upd_chk f (34 + 16) 0;
     f \<leftarrow> upd_chk f (34 + 17) 0;
     tcp_chk \<leftarrow> add_words f (step2 26 34) 0;
     tcp_chk \<leftarrow> wadd tcp_chk 6;
     seg \<leftarrow> usub (length f) 34;
     tcp_chk \<leftarrow> wadd tcp_chk (of_nat seg);
     tcp_chk \<leftarrow> add_words_pad f (step2 34 (length f)) tcp_chk;
     let final_tcp = NOT (ucast (fold_carry tcp_chk) :: u16);
     f \<leftarrow> upd_chk f (34 + 16) (ucast (drop_bit 8 final_tcp));
     upd_chk f (34 + 17) (ucast final_tcp)
   }"

section \<open>Sending\<close>

definition inject_frame :: "('a net_scheme) env \<Rightarrow> u8 list \<Rightarrow> 'a net_scheme \<Rightarrow> 'a net_scheme option" where
  "inject_frame e frame s =
     (case net_card s of
        None \<Rightarrow> Some s
      | Some nic \<Rightarrow> do {
          (nic, s) \<leftarrow> tx_frame e frame (of_nat (length frame)) nic s;
          Some (s\<lparr>net_card := Some nic\<rparr>)
        })"

definition send_tcp_syn_ack ::
  "('a net_scheme) env \<Rightarrow> mac_addr \<Rightarrow> ip_addr \<Rightarrow> u16 \<Rightarrow> u32 \<Rightarrow> 'a net_scheme \<Rightarrow> 'a net_scheme option" where
  "send_tcp_syn_ack e target_mac target_ip target_port client_seq s = do {
     frame \<leftarrow> craft_base_tcp_frame target_mac target_ip target_port 0xCAFEBABE (client_seq + 1) 0x12 24;
     frame \<leftarrow> recalculate_checksums frame 0;
     s \<leftarrow> inject_frame e frame s;
     print_str (lit ''> NET: [SYN-ACK] TRANSMITTED TO HOST.'' @ [10]) 0x3B82F6 s
   }"

definition http_body :: "rstr option \<Rightarrow> rstr" where
  "http_body payload =
     (let file_content = (case payload of Some t \<Rightarrow> t | None \<Rightarrow> lit ''ERROR: NO PAYLOAD FOUND IN RING-0 MEMORY'') in
      lit ''HTTP/1.1 200 OK'' @ [13, 10] @ lit ''Content-Type: text/plain'' @ [13, 10]
      @ lit ''Content-Length: '' @ dec_digits (length file_content) @ [13, 10]
      @ lit ''Connection: close'' @ [13, 10, 13, 10] @ file_content)"

definition send_http_response ::
  "('a net_scheme) env \<Rightarrow> mac_addr \<Rightarrow> ip_addr \<Rightarrow> u16 \<Rightarrow> u32 \<Rightarrow> u32 \<Rightarrow> u32 \<Rightarrow> 'a net_scheme \<Rightarrow> 'a net_scheme option" where
  "send_http_response e target_mac target_ip target_port my_seq client_seq client_data_len s = do {
     let body = http_body (http_payload s);
     let ack_num = client_seq + client_data_len;
     frame \<leftarrow> craft_base_tcp_frame target_mac target_ip target_port my_seq ack_num 0x18 20;
     let frame = frame @ body;
     n \<leftarrow> uadd 40 (length body);
     let total_len = (of_nat n :: u16);
     frame \<leftarrow> upd_chk frame 16 (ucast (drop_bit 8 total_len));
     frame \<leftarrow> upd_chk frame 17 (ucast total_len);
     frame \<leftarrow> recalculate_checksums frame (length body);
     s \<leftarrow> inject_frame e frame s;
     print_str (lit ''> NET: HTTP 200 OK RESPONSE SERVED. SOCKET CLOSED.'' @ [10]) 0x10B981 s
   }"

section \<open>Receiving\<close>

definition arp_or_broadcast :: "arp_cache \<Rightarrow> ip_addr \<Rightarrow> mac_addr" where
  "arp_or_broadcast t ip = (case arp_lookup t ip of Some mac \<Rightarrow> mac | None \<Rightarrow> replicate 6 0xFF)"

definition handle_psh ::
  "('a net_scheme) env \<Rightarrow> u8 list \<Rightarrow> ipv4_header \<Rightarrow> tcp_header \<Rightarrow> usize \<Rightarrow> usize \<Rightarrow> usize \<Rightarrow> 'a net_scheme \<Rightarrow> 'a net_scheme option" where
  "handle_psh e packet ip tcp ihl tcp_offset tcp_header_len s = do {
     data_offset \<leftarrow> uadd tcp_offset tcp_header_len;
     let total_ip_len = unat (from_be16 (ip_total_length ip));
     hdr \<leftarrow> uadd ihl tcp_header_len;
     if total_ip_len \<ge> hdr then do {
       d \<leftarrow> usub total_ip_len ihl;
       data_len \<leftarrow> usub d tcp_header_len;
       data_end \<leftarrow> uadd data_offset data_len;
       if data_len > 0 \<and> length packet \<ge> data_end then do {
         payload \<leftarrow> slice_chk packet data_offset data_end;
         if take 3 payload = lit ''GET'' then do {
           s \<leftarrow> print_str (lit ''> NET: HTTP [GET] REQUEST INTERCEPTED!'' @ [10]) 0x10B981 s;
           send_http_response e (arp_or_broadcast (arp_table s) (src_ip ip)) (src_ip ip)
             (from_be16 (tcp_src_port tcp)) (from_be32 (tcp_ack_num tcp)) (from_be32 (tcp_seq_num tcp))
             (of_nat data_len) s
         } else Some s
       } else Some s
     } else Some s
   }"

definition handle_tcp ::
  "('a net_scheme) env \<Rightarrow> u8 list \<Rightarrow> ipv4_header \<Rightarrow> tcp_header \<Rightarrow> usize \<Rightarrow> usize \<Rightarrow> 'a net_scheme \<Rightarrow> 'a net_scheme option" where
  "handle_tcp e packet ip tcp ihl tcp_offset s = do {
     let src_port = from_be16 (tcp_src_port tcp);
     let dest_port = from_be16 (tcp_dest_port tcp);
     let doff_flags = from_be16 (data_offset_flags tcp);
     tcp_header_len \<leftarrow> wmul (drop_bit 12 doff_flags AND 0x0F) 4;
     let flags = doff_flags AND 0x01FF;
     let is_syn = (flags AND 0x02 \<noteq> 0);
     let is_psh = (flags AND 0x08 \<noteq> 0);
     if dest_port = 80 then
       if is_syn then do {
         s \<leftarrow> print_str (lit ''> NET: TCP [SYN] RCV'D. PORT '' @ dec_digits (unat src_port) @ lit '' -> ''
           @ dec_digits (unat dest_port) @ [10]) 0xF59E0B s;
         send_tcp_syn_ack e (arp_or_broadcast (arp_table s) (src_ip ip)) (src_ip ip) src_port
           (from_be32 (tcp_seq_num tcp)) s
       } else if is_psh then handle_psh e packet ip tcp ihl tcp_offset (unat tcp_header_len) s
       else Some s
     else Some s
   }"

definition handle_incoming_packet :: "('a net_scheme) env \<Rightarrow> u8 list \<Rightarrow> 'a net_scheme \<Rightarrow> 'a net_scheme option" where
  "handle_incoming_packet e packet s =
     (if length packet < 14 then Some s
      else if from_be16 (eth_ethertype (eth_view packet)) = 0x0800 then
        if length packet < 14 + 20 then Some s
        else do {
          ip_bytes \<leftarrow> slice_chk packet 14 (length packet);
          let ip = ipv4_view ip_bytes;
          if dest_ip ip \<noteq> [10, 0, 2, 15] then Some s
          else if protocol ip = 0x06 then do {
            ihl \<leftarrow> wmul (version_ihl ip AND 0x0F) 4;
            tcp_offset \<leftarrow> uadd 14 (unat ihl);
            if length packet < tcp_offset + 20 then Some s
            else do {
              tcp_bytes \<leftarrow> slice_chk packet tcp_offset (length packet);
              handle_tcp e packet ip (tcp_view tcp_bytes) (unat ihl) tcp_offset s
            }
          } else Some s
        }
      else Some s)"

end
