(* ===== verification/Checksum.thy ===== *)
theory Checksum
  imports Net
begin

text \<open>
  The Internet checksum: \<open>recalculate_checksums\<close> leaves a frame whose IPv4 header and TCP
  segment (with its pseudo header) verify, that is, whose sixteen-bit words sum to
  \<open>0xFFFF\<close> in ones' complement arithmetic.
\<close>

section \<open>Sums of words\<close>

text \<open>The specification: the sum of the big-endian words of a byte string, an odd last byte
  padded with zero, and the ones' complement fold of a sum.\<close>

fun be_sum :: "u8 list \<Rightarrow> nat" where
  "be_sum [] = 0"
| "be_sum [a] = 256 * unat a"
| "be_sum (a # b # bs) = 256 * unat a + unat b + be_sum bs"

definition ones_fold :: "nat \<Rightarrow> nat" where
  "ones_fold n = (if n = 0 then 0 else (n - 1) mod 65535 + 1)"

lemma unat_be_word: "unat (be_word hi lo) = 256 * unat hi + unat lo"
proof -
  have "be_word hi lo = push_bit 8 (ucast hi) + ucast lo"
    unfolding be_word_def
    by (rule disjunctive_add [symmetric]) (auto simp: bit_simps dest: bit_imp_le_length)
  moreover have "unat hi < 256" "unat lo < 256"
    using unsigned_less [of hi, where ?'a = nat] unsigned_less [of lo, where ?'a = nat] by simp_all
  moreover from calculation(2,3) have "take_bit 32 (unat hi) = unat hi" "take_bit 32 (unat lo) = unat lo"
    by (simp_all add: take_bit_nat_eq_self_iff)
  ultimately show ?thesis by (simp add: push_bit_eq_mult unat_word_ariths unsigned_ucast_eq)
qed

lemma unat_be_byte: "unat (push_bit 8 (ucast hi) :: u32) = 256 * unat (hi :: u8)"
  using unat_be_word [of hi 0] by (simp add: be_word_def)

lemma be_sum_bound: "be_sum bs \<le> 65535 * ((length bs + 1) div 2)"
proof (induction bs rule: be_sum.induct)
  case (2 a)
  then show ?case using unsigned_less [of a, where ?'a = nat] by simp
next
  case (3 a b bs)
  then show ?case
    using unsigned_less [of a, where ?'a = nat] unsigned_less [of b, where ?'a = nat] by simp
qed simp

lemma be_sum_append_even: "even (length xs) \<Longrightarrow> be_sum (xs @ ys) = be_sum xs + be_sum ys"
  by (induction xs rule: be_sum.induct) auto

lemma be_sum_update:
  "2 * k + 1 < length bs \<Longrightarrow>
    be_sum (bs[2 * k := a, 2 * k + 1 := b]) + be_sum [bs ! (2 * k), bs ! (2 * k + 1)]
      = be_sum bs + be_sum [a, b]"
proof (induction bs arbitrary: k rule: be_sum.induct)
  case (3 x y bs)
  then show ?case
  proof (cases k)
    case (Suc j)
    then have "2 * j + 1 < length bs" using 3(2) by simp
    from 3(1) [OF this] show ?thesis by (simp add: Suc)
  qed simp
qed auto

section \<open>The fold\<close>

lemma fold_carry_unat: "unat (fold_carry x) = ones_fold (unat x)"
proof (induction x rule: fold_carry.induct)
  case (1 x)
  show ?case
  proof (cases "drop_bit 16 x = 0")
    case True
    then have "unat x div 65536 = 0" using carry_parts(2) [of x] by simp
    then have "unat x < 65536" by (simp add: div_eq_0_iff)
    then show ?thesis by (subst fold_carry.simps) (simp add: True ones_fold_def)
  next
    case False
    let ?n = "unat x"
    have pos: "0 < ?n div 65536" using False carry_parts(2) [of x] by (metis unat_eq_zero neq0_conv)
    have n: "?n = ?n mod 65536 + ?n div 65536 + 65535 * (?n div 65536)"
      using div_mult_mod_eq [of ?n 65536] by linarith
    have "(?n - 1) mod 65535 = (?n mod 65536 + ?n div 65536 - 1 + 65535 * (?n div 65536)) mod 65535"
      using pos by (subst n) (simp add: algebra_simps)
    also have "\<dots> = (?n mod 65536 + ?n div 65536 - 1) mod 65535" by (rule mod_mult_self2)
    finally have m: "(?n - 1) mod 65535 = (?n mod 65536 + ?n div 65536 - 1) mod 65535" .
    have "unat (fold_carry x) = ones_fold (?n mod 65536 + ?n div 65536)"
      using 1 [OF False] False by (subst fold_carry.simps) (simp add: carry_parts(3))
    also have "\<dots> = ones_fold ?n"
    proof -
      have "?n \<noteq> 0" using pos by (metis div_0 less_irrefl)
      with m pos show ?thesis by (simp add: ones_fold_def)
    qed
    finally show ?thesis .
  qed
qed

lemma ones_fold_less: "ones_fold n < 65536"
proof -
  have "(n - 1) mod 65535 < 65535" by simp
  then show ?thesis by (simp add: ones_fold_def)
qed

text \<open>Adding the complement of the folded sum makes the sum fold to \<open>0xFFFF\<close>.\<close>

lemma ones_fold_complement: "ones_fold (n + (65535 - ones_fold n)) = 65535"
proof (cases "n = 0")
  case False
  define r where "r = (n - 1) mod 65535"
  have r: "r < 65535" by (simp add: r_def)
  have "n - 1 = 65535 * ((n - 1) div 65535) + r" by (simp add: r_def)
  with False obtain q where q: "n = 65535 * q + r + 1" by (metis Suc_eq_plus1 Suc_pred' neq0_conv)
  then have "n + (65535 - (r + 1)) - 1 = 65535 * q + 65534" using r by simp
  then have "(n + (65535 - (r + 1)) - 1) mod 65535 = 65534" by simp
  then show ?thesis using False by (simp add: ones_fold_def r_def)
qed (simp add: ones_fold_def)

section \<open>The loops\<close>

lemma step2_Cons: "lo < hi \<Longrightarrow> step2 lo hi = lo # step2 (lo + 2) hi"
proof -
  assume "lo < hi"
  define n where "n = (hi - (lo + 2) + 1) div 2"
  have "(hi - lo + 1) div 2 = Suc n" using \<open>lo < hi\<close> unfolding n_def by (cases "hi = lo + 1") auto
  then have "step2 lo hi = map (\<lambda>k. lo + 2 * k) (0 # map Suc [0..<n])"
    by (simp add: step2_def upt_conv_Cons map_Suc_upt del: upt_Suc)
  then show ?thesis by (simp add: step2_def n_def comp_def)
qed

lemma step2_Nil: "hi \<le> lo \<Longrightarrow> step2 lo hi = []"
  by (simp add: step2_def)

lemma wadd32:
  assumes "unat (a :: u32) + unat b < 2 ^ 32"
  shows "wadd a b = Some (a + b)" "unat (a + b) = unat a + unat b"
  using assms by (simp_all add: wadd_def unat_word_ariths)

text \<open>Both loops add the words of a slice of the frame.\<close>

lemma add_words_pad_sum:
  assumes "lo \<le> length f" and "unat acc + be_sum (drop lo f) < 2 ^ 32"
  shows "\<exists>r. add_words_pad f (step2 lo (length f)) acc = Some r \<and> unat r = unat acc + be_sum (drop lo f)"
  using assms
proof (induction "length f - lo" arbitrary: lo acc rule: less_induct)
  case less
  let ?step = "\<lambda>i acc. if i + 1 < length f then do { hi \<leftarrow> nth_chk f i; lo \<leftarrow> nth_chk f (i + 1); wadd acc (be_word hi lo) }
     else do { hi \<leftarrow> nth_chk f i; wadd acc (push_bit 8 (ucast hi)) }"
  consider "lo = length f" | "lo + 1 = length f" | "lo + 1 < length f" using less.prems(1) by linarith
  then show ?case
  proof cases
    case 1
    then show ?thesis by (simp add: add_words_pad_def step2_Nil)
  next
    case 2
    then have d: "drop lo f = [f ! lo]" by (metis Cons_nth_drop_Suc Suc_eq_plus1 drop_all lessI order_refl)
    have "unat acc + unat (push_bit 8 (ucast (f ! lo)) :: u32) < 2 ^ 32"
      using less.prems(2) by (simp add: d unat_be_byte)
    from wadd32 [OF this] 2 show ?thesis
      by (simp add: add_words_pad_def step2_Cons step2_Nil d unat_be_byte nth_chk_def)
  next
    case 3
    then have d: "drop lo f = f ! lo # f ! (lo + 1) # drop (lo + 2) f"
      by (metis Cons_nth_drop_Suc Suc_eq_plus1 add_2_eq_Suc' add_lessD1)
    have "unat acc + unat (be_word (f ! lo) (f ! (lo + 1))) < 2 ^ 32"
      using less.prems(2) by (simp add: d unat_be_word)
    note w = wadd32 [OF this]
    have "\<exists>r. add_words_pad f (step2 (lo + 2) (length f)) (acc + be_word (f ! lo) (f ! (lo + 1))) = Some r
        \<and> unat r = unat (acc + be_word (f ! lo) (f ! (lo + 1))) + be_sum (drop (lo + 2) f)"
      using 3 less.prems(2) w(2) by (intro less.hyps) (auto simp: d unat_be_word)
    with 3 w show ?thesis
      by (simp add: add_words_pad_def step2_Cons [of lo] d unat_be_word nth_chk_def add.assoc)
  qed
qed

lemma add_words_pad_take:
  assumes "hi \<le> length f" and "even (hi - lo)" and "lo \<le> hi"
  shows "add_words f (step2 lo hi) acc = add_words_pad (take hi f) (step2 lo (length (take hi f))) acc"
proof -
  have *: "i + 1 < hi" if i: "i \<in> set (step2 lo hi)" for i
  proof -
    obtain k where k: "i = lo + 2 * k" "k < (hi - lo + 1) div 2" using i by (auto simp: step2_def)
    from assms(2) obtain j where "hi - lo = 2 * j" by (elim evenE)
    with k assms(3) show ?thesis by simp
  qed
  have "length (take hi f) = hi" using assms(1) by simp
  then show ?thesis
    unfolding add_words_def add_words_pad_def using assms(1)
    by (intro foldM_cong) (auto simp: nth_chk_def dest!: *)
qed

lemma add_words_sum:
  assumes "hi \<le> length f" and "even (hi - lo)" and "lo \<le> hi"
    and "unat acc + be_sum (field f lo (hi - lo)) < 2 ^ 32"
  shows "\<exists>r. add_words f (step2 lo hi) acc = Some r \<and> unat r = unat acc + be_sum (field f lo (hi - lo))"
proof -
  have "drop lo (take hi f) = field f lo (hi - lo)" by (simp add: field_def drop_take)
  then show ?thesis
    using add_words_pad_sum [of lo "take hi f" acc] assms by (simp add: add_words_pad_take [OF assms(1-3)])
qed

section \<open>The complement\<close>

lemma complement_bytes:
  assumes "unat (x :: u32) < 65536"
  shows "be_sum [ucast (drop_bit 8 (NOT (ucast x :: u16))), ucast (NOT (ucast x :: u16))] = 65535 - unat x"
proof -
  let ?w = "NOT (ucast x :: u16)"
  have x: "unat (ucast x :: u16) = unat x"
    using assms by (simp add: unsigned_ucast_eq take_bit_nat_eq_self_iff)
  have "?w = - 1 - ucast x" by (simp add: not_eq_complement)
  moreover have "unat (- 1 :: u16) = 65535" by (simp add: unsigned_minus_1_eq_mask mask_eq_exp_minus_1)
  ultimately have w: "unat ?w = 65535 - unat x" using x assms by (simp add: unat_sub_if_size)
  have "unat (ucast (drop_bit 8 ?w) :: u8) = unat ?w div 256"
    using w by (simp add: unsigned_ucast_eq drop_bit_eq_div unat_div_distrib take_bit_nat_eq_self_iff)
  moreover have "unat (ucast ?w :: u8) = unat ?w mod 256"
    by (simp add: unsigned_ucast_eq take_bit_eq_mod)
  ultimately show ?thesis using w by (simp)
qed

text \<open>A region of \<open>f\<close> with its zeroed checksum field filled by the complement of the folded sum.\<close>

lemma fill_checksum:
  assumes "2 * k + 1 < length bs" and "bs ! (2 * k) = 0" and "bs ! (2 * k + 1) = 0"
    and "unat x = n + be_sum bs"
  shows "ones_fold (n + be_sum (bs[2 * k := ucast (drop_bit 8 (NOT (ucast (fold_carry x) :: u16))),
      2 * k + 1 := ucast (NOT (ucast (fold_carry x) :: u16))])) = 65535"
proof -
  have "unat (fold_carry x) < 65536" by (simp add: fold_carry_unat ones_fold_less)
  from complement_bytes [OF this] be_sum_update [OF assms(1)] assms(2-4) ones_fold_complement [of "unat x"]
  show ?thesis by (simp add: fold_carry_unat add.assoc)
qed

section \<open>Checksummed frames\<close>

definition ip_verifies :: "u8 list \<Rightarrow> bool" where
  "ip_verifies f \<longleftrightarrow> ones_fold (be_sum (field f 14 20)) = 0xFFFF"

definition tcp_verifies :: "u8 list \<Rightarrow> bool" where
  "tcp_verifies f \<longleftrightarrow>
     ones_fold (be_sum (field f 26 8) + 6 + (length f - 34) + be_sum (drop 34 f)) = 0xFFFF"

lemma field_update_in: "off \<le> i \<Longrightarrow> field (f[i := v]) off n = (field f off n)[i - off := v]"
  by (simp add: field_def drop_update_swap take_update_swap)

lemma field_update_out: "i < off \<or> off + n \<le> i \<Longrightarrow> field (f[i := v]) off n = field f off n"
  by (auto simp: field_def drop_update_swap take_update_swap list_update_beyond)

lemma recalculate_ok:
  assumes "54 \<le> length frame" and "length frame \<le> 100000"
  shows "\<exists>f. recalculate_checksums frame n = Some f \<and> length f = length frame
    \<and> (\<forall>i. i \<notin> {24, 25, 50, 51} \<longrightarrow> f ! i = frame ! i) \<and> ip_verifies f \<and> tcp_verifies f"
proof -
  define f1 where "f1 = frame[24 := 0, 25 := 0]"
  have l1: "length f1 = length frame" by (simp add: f1_def)
  have "be_sum (field f1 14 20) \<le> 65535 * 10"
    using be_sum_bound [of "field f1 14 20"] assms(1) by (simp add: length_field l1)
  then obtain ip where ip: "add_words f1 (step2 14 34) 0 = Some ip" "unat ip = be_sum (field f1 14 20)"
    using add_words_sum [of 34 f1 14 0] assms(1) l1 by auto
  define f3 where "f3 = f1[24 := ucast (drop_bit 8 (NOT (ucast (fold_carry ip) :: u16))),
      25 := ucast (NOT (ucast (fold_carry ip) :: u16)), 50 := 0, 51 := 0]"
  have l3: "length f3 = length frame" by (simp add: f3_def l1)
  have "be_sum (field f3 26 8) \<le> 65535 * 4"
    using be_sum_bound [of "field f3 26 8"] assms(1) by (simp add: length_field l3)
  moreover then obtain a where a: "add_words f3 (step2 26 34) 0 = Some a" "unat a = be_sum (field f3 26 8)"
    using add_words_sum [of 34 f3 26 0] assms(1) l3 by auto
  ultimately have b: "wadd a 6 = Some (a + 6)" "unat (a + 6) = be_sum (field f3 26 8) + 6"
    using wadd32 [of a 6] by simp_all
  define seg where "seg = length frame - 34"
  have sb: "seg \<le> 100000" using assms(2) by (simp add: seg_def)
  have seg: "unat (of_nat seg :: u32) = seg" using sb by (simp add: unat_of_nat take_bit_nat_eq_self_iff)
  have c: "wadd (a + 6) (of_nat seg) = Some (a + 6 + of_nat seg)"
    "unat (a + 6 + of_nat seg) = be_sum (field f3 26 8) + 6 + seg"
    using wadd32 [of "a + 6" "of_nat seg"] b(2) seg \<open>be_sum (field f3 26 8) \<le> 65535 * 4\<close> sb by simp_all
  have "be_sum (drop 34 f3) \<le> 65535 * 50000"
    using be_sum_bound [of "drop 34 f3"] assms(2) l3 by simp
  then have "unat (a + 6 + of_nat seg) + be_sum (drop 34 f3) < 2 ^ 32"
    unfolding c(2) using sb \<open>be_sum (field f3 26 8) \<le> 65535 * 4\<close> by simp
  then obtain t where t: "add_words_pad f3 (step2 34 (length f3)) (a + 6 + of_nat seg) = Some t"
    "unat t = be_sum (field f3 26 8) + 6 + seg + be_sum (drop 34 f3)"
    using add_words_pad_sum [of 34 f3 "a + 6 + of_nat seg"] assms(1) l3 unfolding c(2) by auto
  define f where "f = f3[50 := ucast (drop_bit 8 (NOT (ucast (fold_carry t) :: u16))),
      51 := ucast (NOT (ucast (fold_carry t) :: u16))]"
  have "recalculate_checksums frame n = Some f"
    using assms(1) ip(1) a(1) b(1) c(1) [unfolded seg_def] t(1) [unfolded seg_def] l3 unfolding recalculate_checksums_def
    by (simp add: upd_chk_def f1_def f3_def f_def Let_def usub_def)
  moreover have "length f = length frame" by (simp add: f_def l3)
  moreover have "\<forall>i. i \<notin> {24, 25, 50, 51} \<longrightarrow> f ! i = frame ! i"
    by (simp add: f_def f3_def f1_def)
  moreover have "ip_verifies f"
  proof -
    have "field f 14 20 = (field f1 14 20)[2 * 5 := ucast (drop_bit 8 (NOT (ucast (fold_carry ip) :: u16))),
        2 * 5 + 1 := ucast (NOT (ucast (fold_carry ip) :: u16))]"
      by (simp add: f_def f3_def field_update_out field_update_in)
    moreover have "field f1 14 20 ! (2 * 5) = 0" "field f1 14 20 ! (2 * 5 + 1) = 0" "2 * 5 + 1 < length (field f1 14 20)"
      using assms(1) by (simp_all add: f1_def field_def nth_list_update)
    ultimately show ?thesis
      unfolding ip_verifies_def using fill_checksum [of 5 "field f1 14 20" ip 0] ip(2) by simp
  qed
  moreover have "tcp_verifies f"
  proof -
    have "drop 34 f = (drop 34 f3)[2 * 8 := ucast (drop_bit 8 (NOT (ucast (fold_carry t) :: u16))),
        2 * 8 + 1 := ucast (NOT (ucast (fold_carry t) :: u16))]"
      by (simp add: f_def drop_update_swap)
    moreover have "field f 26 8 = field f3 26 8" by (simp add: f_def field_update_out)
    moreover have "drop 34 f3 ! (2 * 8) = 0" "drop 34 f3 ! (2 * 8 + 1) = 0" "2 * 8 + 1 < length (drop 34 f3)"
      using assms(1) l1 by (simp_all add: f3_def nth_list_update)
    ultimately show ?thesis
      unfolding tcp_verifies_def using fill_checksum [of 8 "drop 34 f3" t] t(2) \<open>length f = length frame\<close>
      by (simp add: seg_def)
  qed
  ultimately show ?thesis by blast
qed

section \<open>Property\<close>

text \<open>C8. On every frame long enough for the headers, and short enough for the
  32-bit accumulators, \<open>recalculate_checksums\<close> returns (both carry loops terminate and no
  addition overflows) a frame of the same length that differs only in the two checksum fields
  and whose IPv4 header and TCP segment verify: each sums to \<open>0xFFFF\<close> in ones' complement
  arithmetic.\<close>

theorem checksums_verify:
  assumes "54 \<le> length frame" and "length frame \<le> 100000"
  shows "\<exists>f. recalculate_checksums frame n = Some f \<and> length f = length frame
    \<and> (\<forall>i. i \<notin> {24, 25, 50, 51} \<longrightarrow> f ! i = frame ! i) \<and> ip_verifies f \<and> tcp_verifies f"
  by (rule recalculate_ok [OF assms])

theorem checksums_verify_witness:
  "\<exists>f. recalculate_checksums (replicate 61 0xAB) 7 = Some f \<and> ip_verifies f \<and> tcp_verifies f \<and> f ! 60 = 0xAB"
  using checksums_verify [of "replicate 61 0xAB" 7] by fastforce

end
