(* ===== verification/Protocol.thy ===== *)
theory Protocol
  imports Checksum
begin

text \<open>
  Correctness of the protocol code: the layout of the frames it builds, what it answers to a
  connection request and to an HTTP request, and that no packet makes it panic.
\<close>

section \<open>The layout of a TCP frame\<close>

definition tcp_options :: "u8 \<Rightarrow> u8 list" where
  "tcp_options tcp_hl = (if tcp_hl = 24 then [0x02, 0x04, 0x05, 0xB4] else [])"

definition tcp_frame :: "mac_addr \<Rightarrow> ip_addr \<Rightarrow> u16 \<Rightarrow> u32 \<Rightarrow> u32 \<Rightarrow> u8 \<Rightarrow> u8 \<Rightarrow> u8 list" where
  "tcp_frame mac ip port seq ack flags tcp_hl =
     mac @ my_mac @ [0x08, 0x00]
     @ [0x45, 0x00] @ [0, 20 + tcp_hl] @ [0, 0, 0x40, 0, 64, 6, 0, 0] @ my_ip @ ip
     @ to_be 2 (80 :: u16) @ to_be 2 port @ to_be 4 seq @ to_be 4 ack
     @ [push_bit 4 (tcp_hl div 4), flags, 0xFA, 0xF0, 0, 0, 0, 0] @ tcp_options tcp_hl"

lemma length2E: "length xs = 2 \<Longrightarrow> (\<And>a b. xs = [a, b] \<Longrightarrow> thesis) \<Longrightarrow> thesis"
  by (auto simp: numeral_eq_Suc length_Suc_conv)

lemma length4E: "length xs = 4 \<Longrightarrow> (\<And>a b c d. xs = [a, b, c, d] \<Longrightarrow> thesis) \<Longrightarrow> thesis"
  by (auto simp: numeral_eq_Suc length_Suc_conv)

lemma length6E: "length xs = 6 \<Longrightarrow> (\<And>a b c d e f. xs = [a, b, c, d, e, f] \<Longrightarrow> thesis) \<Longrightarrow> thesis"
  by (auto simp: numeral_eq_Suc length_Suc_conv)

lemma to_be_consts:
  "to_be 2 (80 :: u16) = [0, 80]" "to_be 2 (0xFAF0 :: u16) = [0xFA, 0xF0]" "to_be 2 (1460 :: u16) = [0x05, 0xB4]"
  by code_simp+

lemma craft_ok:
  assumes "length mac = 6" and "length ip = 4" and "tcp_hl = 20 \<or> tcp_hl = 24"
  shows "craft_base_tcp_frame mac ip port seq ack flags tcp_hl = Some (tcp_frame mac ip port seq ack flags tcp_hl)"
proof -
  obtain m0 m1 m2 m3 m4 m5 where mac: "mac = [m0, m1, m2, m3, m4, m5]" using assms(1) by (elim length6E)
  obtain i0 i1 i2 i3 where ip: "ip = [i0, i1, i2, i3]" using assms(2) by (elim length4E)
  have "length (to_be 2 port) = 2" "length (to_be 4 seq) = 4" "length (to_be 4 ack) = 4" by simp_all
  then obtain p0 p1 s0 s1 s2 s3 a0 a1 a2 a3 where
    bytes: "to_be 2 port = [p0, p1]" "to_be 4 seq = [s0, s1, s2, s3]" "to_be 4 ack = [a0, a1, a2, a3]"
    by (elim length2E length4E) blast
  have upd: "upd_chk f i v = (if i < length f then Some (take i f @ v # drop (Suc i) f) else None)" for f i and v :: u8
    by (simp add: upd_chk_def upd_conv_take_nth_drop)
  have rep: "replicate 2 (0 :: u8) = [0, 0]" "replicate 4 (0 :: u8) = [0, 0, 0, 0]"
    by (simp_all add: numeral_eq_Suc)
  from assms(3) show ?thesis
    unfolding craft_base_tcp_frame_def tcp_frame_def tcp_options_def bytes to_be_consts mac ip my_mac_def my_ip_def upd
    by (elim disjE) (simp_all add: copy_chk_def uadd_def wadd_def Let_def rep)
qed

lemma length_tcp_frame:
  assumes "length mac = 6" and "length ip = 4"
  shows "length (tcp_frame mac ip port seq ack flags tcp_hl) = (if tcp_hl = 24 then 58 else 54)"
  using assms by (simp add: tcp_frame_def my_mac_def my_ip_def tcp_options_def)

section \<open>The network state\<close>

definition net_ok :: "('a net_scheme) env \<Rightarrow> nat \<Rightarrow> nat \<Rightarrow> 'a net_scheme \<Rightarrow> bool" where
  "net_ok e base sz s \<longleftrightarrow> gfx_ok s \<and> heap_inv e base sz (live s) \<and> arp_ok (arp_table s)
     \<and> (\<forall>en\<in>set (arp_table s). length (arp_mac en) = 6)
     \<and> (\<forall>nic. net_card s = Some nic \<longrightarrow> nic_ok base sz (live s) nic)"

text \<open>What sending and printing may change: the heap grows by at most \<open>n\<close> bytes, blocks other
  than the transmit ring keep their contents, and the card differs at most in its transmit
  position.\<close>

definition net_step :: "('a net_scheme) env \<Rightarrow> nat \<Rightarrow> nat \<Rightarrow> nat \<Rightarrow> 'a net_scheme \<Rightarrow> 'a net_scheme \<Rightarrow> bool" where
  "net_step e base sz n s s' \<longleftrightarrow> net_ok e base sz s' \<and> heap_used (live s') \<le> heap_used (live s) + n
     \<and> set (live s) \<subseteq> set (live s') \<and> arp_table s' = arp_table s \<and> http_payload s' = http_payload s
     \<and> (case net_card s of
          None \<Rightarrow> net_card s' = None
        | Some nic \<Rightarrow> (\<exists>c. net_card s' = Some (nic\<lparr>current_tx_bucket := c\<rparr>))
            \<and> (\<forall>(b, k)\<in>set (live s). (b, k) \<noteq> (tx_ring_ptr nic, 128) \<longrightarrow> 0 < k \<longrightarrow>
                load_bytes (mem s') b k = load_bytes (mem s) b k))"

lemma same_tx_bucket: "\<exists>c. nic = nic\<lparr>current_tx_bucket := c\<rparr>"
  by (rule exI [of _ "current_tx_bucket nic"]) simp

lemma net_step_refl: "net_ok e base sz s \<Longrightarrow> net_step e base sz n s s"
  by (cases "net_card s") (auto simp: net_step_def same_tx_bucket)

lemma net_step_trans:
  assumes "net_step e base sz n s t" and "net_step e base sz k t u"
  shows "net_step e base sz (n + k) s u"
proof (cases "net_card s")
  case None
  with assms show ?thesis by (auto simp: net_step_def)
next
  case (Some nic)
  with assms(1) obtain c where c: "net_card t = Some (nic\<lparr>current_tx_bucket := c\<rparr>)"
    by (auto simp: net_step_def)
  with assms(2) obtain d where d: "net_card u = Some (nic\<lparr>current_tx_bucket := d\<rparr>)"
    by (auto simp: net_step_def)
  have "load_bytes (mem u) b k = load_bytes (mem s) b k"
    if "(b, k) \<in> set (live s)" "(b, k) \<noteq> (tx_ring_ptr nic, 128)" "0 < k" for b k
  proof -
    have "load_bytes (mem t) b k = load_bytes (mem s) b k" "(b, k) \<in> set (live t)"
      using assms(1) Some that by (auto simp: net_step_def)
    moreover from this(2) have "load_bytes (mem u) b k = load_bytes (mem t) b k"
      using assms(2) c that(2,3) by (auto simp: net_step_def)
    ultimately show ?thesis by simp
  qed
  with assms Some d show ?thesis by (auto simp: net_step_def)
qed

lemma net_step_mono: "net_step e base sz n s t \<Longrightarrow> n \<le> k \<Longrightarrow> net_step e base sz k s t"
  by (auto simp: net_step_def)

lemma net_print:
  assumes "net_ok e base sz s"
  shows "\<exists>s'. print_str t c s = Some s' \<and> net_step e base sz 0 s s' \<and> same_but_terminal s s'"
proof -
  have "gfx_ok s" using assms by (simp add: net_ok_def)
  from print_str_ok [OF this, of t c] obtain s' where
    s': "print_str t c s = Some s'" "gfx_ok s'" "same_but_terminal s s'" by blast
  from s'(3) have eq: "mem s' = mem s" "live s' = live s" "arp_table s' = arp_table s" "net_card s' = net_card s"
    "http_payload s' = http_payload s" by (auto simp: same_but_terminal_def)
  have "net_ok e base sz s'" using assms s'(2) eq by (simp add: net_ok_def)
  then have "net_step e base sz 0 s s'"
    unfolding net_step_def eq by (auto split: option.splits simp: same_tx_bucket)
  with s' show ?thesis by blast
qed

section \<open>Sending\<close>

text \<open>A frame went out: it is described by the ring entry at the old position, the position has
  moved on, and the card was told.\<close>

definition sent :: "u8 list \<Rightarrow> u16 \<Rightarrow> 'a net_scheme \<Rightarrow> 'a net_scheme \<Rightarrow> bool" where
  "sent frame len s s' \<longleftrightarrow> (\<exists>nic. net_card s = Some nic
     \<and> net_card s' = Some (nic\<lparr>current_tx_bucket := Suc (current_tx_bucket nic) mod 8\<rparr>)
     \<and> frame_queued nic (current_tx_bucket nic) frame len (mem s')
     \<and> io_trace s' = io_trace s @ [doorbell nic])"

lemma nic_ok_more:
  "nic_ok base sz ls nic \<Longrightarrow> set ls \<subseteq> set ls' \<Longrightarrow> c < 8 \<Longrightarrow> nic_ok base sz ls' (nic\<lparr>current_tx_bucket := c\<rparr>)"
  by (auto simp: nic_ok_def nic_mmio_def)

lemma tx_frame_step:
  assumes "heap_ok e base sz" and "net_ok e base sz s" and "net_card s = Some nic"
    and "heap_used (live s) + length frame + 4096 \<le> sz" and "frame \<noteq> []"
  shows "\<exists>nic' s'. tx_frame e frame len nic s = Some (nic', s')
    \<and> net_step e base sz (length frame + 4096) s (s'\<lparr>net_card := Some nic'\<rparr>)
    \<and> sent frame len s (s'\<lparr>net_card := Some nic'\<rparr>)"
proof -
  have ok: "heap_inv e base sz (live s)" "nic_ok base sz (live s) nic"
    using assms(2,3) by (auto simp: net_ok_def)
  let ?nic = "nic\<lparr>current_tx_bucket := Suc (current_tx_bucket nic) mod 8\<rparr>"
  from tx_frame_ok [OF assms(1) ok assms(4,5), of len] obtain p m where
    t: "tx_frame e frame len nic s = Some (?nic, s\<lparr>mem := m, live := (p, length frame) # live s,
       io_trace := io_trace s @ [doorbell nic]\<rparr>)"
    "heap_inv e base sz ((p, length frame) # live s)"
    "frame_queued nic (current_tx_bucket nic) frame len m"
    "\<forall>(b, k)\<in>set (live s). (b, k) \<noteq> (tx_ring_ptr nic, 128) \<longrightarrow> 0 < k \<longrightarrow> load_bytes m b k = load_bytes (mem s) b k"
    by blast
  let ?s = "s\<lparr>mem := m, live := (p, length frame) # live s, io_trace := io_trace s @ [doorbell nic]\<rparr>"
  have "nic_ok base sz (live ?s) ?nic" by (rule nic_ok_more [OF ok(2)]) auto
  then have "net_ok e base sz (?s\<lparr>net_card := Some ?nic\<rparr>)"
    using assms(2) t(2) by (auto simp: net_ok_def gfx_ok_def)
  with t assms(3) show ?thesis
    by (intro exI [of _ ?nic] exI [of _ ?s]) (auto simp: net_step_def sent_def)
qed

lemma inject_step:
  assumes "heap_ok e base sz" and "net_ok e base sz s"
    and "heap_used (live s) + length frame + 4096 \<le> sz" and "frame \<noteq> []"
  shows "\<exists>s'. inject_frame e frame s = Some s' \<and> net_step e base sz (length frame + 4096) s s'
    \<and> (net_card s \<noteq> None \<longrightarrow> sent frame (of_nat (length frame)) s s')"
proof (cases "net_card s")
  case None
  with assms(2) net_step_refl show ?thesis by (auto simp: inject_frame_def)
next
  case (Some nic)
  from tx_frame_step [OF assms(1,2) Some assms(3,4), of "of_nat (length frame)"] Some show ?thesis
    by (auto simp: inject_frame_def)
qed

section \<open>Reading back a reply\<close>

text \<open>A reply, as a receiver reads it with the header views: a frame from this host's port 80 to
  the given peer, with the given numbers and flags, a consistent length and valid checksums.\<close>

definition tcp_reply ::
  "u8 list \<Rightarrow> mac_addr \<Rightarrow> ip_addr \<Rightarrow> u16 \<Rightarrow> u32 \<Rightarrow> u32 \<Rightarrow> u16 \<Rightarrow> bool" where
  "tcp_reply f mac ip port seq ack flags \<longleftrightarrow>
     (let eth = eth_view f; ip4 = ipv4_view (drop 14 f); tcp = tcp_view (drop 34 f) in
      eth_dest_mac eth = mac \<and> eth_src_mac eth = my_mac \<and> from_be16 (eth_ethertype eth) = 0x0800
      \<and> version_ihl ip4 = 0x45 \<and> unat (from_be16 (ip_total_length ip4)) = length f - 14 \<and> protocol ip4 = 6
      \<and> src_ip ip4 = my_ip \<and> dest_ip ip4 = ip
      \<and> from_be16 (tcp_src_port tcp) = 80 \<and> from_be16 (tcp_dest_port tcp) = port
      \<and> from_be32 (tcp_seq_num tcp) = seq \<and> from_be32 (tcp_ack_num tcp) = ack
      \<and> from_be16 (data_offset_flags tcp) AND 0x01FF = flags)
     \<and> ip_verifies f \<and> tcp_verifies f"

definition checksummed :: "u8 list \<Rightarrow> u8 list \<Rightarrow> bool" where
  "checksummed f0 f \<longleftrightarrow> length f = length f0 \<and> (\<forall>i. i \<notin> {24, 25, 50, 51} \<longrightarrow> f ! i = f0 ! i)
     \<and> ip_verifies f \<and> tcp_verifies f"

lemma field_cong:
  assumes "length f = length g" and "\<And>i. off \<le> i \<Longrightarrow> i < off + n \<Longrightarrow> f ! i = g ! i"
  shows "field f off n = field g off n"
  using assms by (intro nth_equalityI) (auto simp: field_def)

lemma checksummed_field:
  "checksummed f0 f \<Longrightarrow> off + n \<le> 24 \<or> 26 \<le> off \<and> off + n \<le> 50 \<or> 52 \<le> off \<Longrightarrow> field f off n = field f0 off n"
  by (intro field_cong) (auto simp: checksummed_def)

lemma from_be16_field: "length bs = 2 \<Longrightarrow> from_be16 (of_le bs) = of_be bs"
  unfolding from_be16_def using to_le_of_le [of bs, where ?'a = 16] by simp

lemma from_be32_field: "length bs = 4 \<Longrightarrow> from_be32 (of_le bs) = of_be bs"
  unfolding from_be32_def using to_le_of_le [of bs, where ?'a = 32] by simp

lemma field_drop: "field (drop k f) off n = field f (k + off) n"
  by (simp add: field_def add.commute)

lemma field_append: "off + n \<le> length f \<Longrightarrow> field (f @ g) off n = field f off n"
  by (simp add: field_def)

text \<open>The headers of a TCP frame with a body, its length fields set.\<close>

definition full_frame :: "mac_addr \<Rightarrow> ip_addr \<Rightarrow> u16 \<Rightarrow> u32 \<Rightarrow> u32 \<Rightarrow> u8 \<Rightarrow> u8 \<Rightarrow> u8 list \<Rightarrow> u8 list" where
  "full_frame mac ip port seq ack flags tcp_hl body =
     (let n = of_nat (20 + unat tcp_hl + length body) :: u16 in
      (tcp_frame mac ip port seq ack flags tcp_hl @ body)[16 := ucast (drop_bit 8 n), 17 := ucast n])"

lemma full_frame_fields:
  assumes "length mac = 6" and "length ip = 4"
  shows "let f = full_frame mac ip port seq ack flags hl body; n = of_nat (20 + unat hl + length body) :: u16 in
    field f 0 6 = mac \<and> field f 6 6 = my_mac \<and> field f 12 2 = [0x08, 0x00] \<and> field f 14 1 = [0x45]
    \<and> field f 16 2 = [ucast (drop_bit 8 n), ucast n] \<and> field f 23 1 = [6] \<and> field f 26 4 = my_ip \<and> field f 30 4 = ip
    \<and> field f 34 2 = to_be 2 (80 :: u16) \<and> field f 36 2 = to_be 2 port \<and> field f 38 4 = to_be 4 seq
    \<and> field f 42 4 = to_be 4 ack \<and> field f 46 2 = [push_bit 4 (hl div 4), flags]"
proof -
  obtain m0 m1 m2 m3 m4 m5 where mac: "mac = [m0, m1, m2, m3, m4, m5]" using assms(1) by (elim length6E)
  obtain i0 i1 i2 i3 where ip: "ip = [i0, i1, i2, i3]" using assms(2) by (elim length4E)
  have "length (to_be 2 port) = 2" "length (to_be 4 seq) = 4" "length (to_be 4 ack) = 4" by simp_all
  then obtain p0 p1 s0 s1 s2 s3 a0 a1 a2 a3 where
    bytes: "to_be 2 port = [p0, p1]" "to_be 4 seq = [s0, s1, s2, s3]" "to_be 4 ack = [a0, a1, a2, a3]"
    by (elim length2E length4E) blast
  have upd: "i < length f \<Longrightarrow> f[i := v] = take i f @ v # drop (Suc i) f" for f i and v :: u8
    by (simp add: upd_conv_take_nth_drop)
  show ?thesis
    unfolding full_frame_def tcp_frame_def bytes to_be_consts mac ip my_mac_def my_ip_def Let_def
    by (simp add: upd field_def)
qed

lemma be_bytes: "of_be [ucast (drop_bit 8 (w :: u16)), ucast w] = w"
proof -
  have "to_be 2 w = [ucast (drop_bit 8 w), ucast w]" by (simp add: to_be_def to_le_def numeral_2_eq_2)
  then show ?thesis using of_be_to_be [of 2 w] by simp
qed

lemma nth_field: "i < length f \<Longrightarrow> field f i 1 = [f ! i]"
  by (simp add: field_def take_Suc_conv_app_nth hd_drop_conv_nth)

lemma flag_bits:
  assumes "hl = 20 \<or> hl = 24"
  shows "of_be [push_bit 4 (hl div 4 :: u8), flags] AND 0x01FF = (ucast flags :: u16)"
proof -
  have m: "x AND 0x01FF = take_bit 9 (x :: u16)" for x by (simp add: take_bit_eq_mask mask_eq_exp_minus_1)
  have u: "take_bit 9 (ucast flags :: u16) = ucast flags"
    by (rule bit_word_eqI) (auto simp: bit_simps dest: bit_imp_le_length)
  from assms show ?thesis
    by (elim disjE) (simp_all add: of_be_def m take_bit_or u)
qed

lemma checksummed_reply:
  assumes ck: "checksummed (full_frame mac ip port seq ack flags hl body) f"
    and len: "length mac = 6" "length ip = 4" and hl: "hl = 20 \<or> hl = 24" and "length body \<le> 60000"
  shows "tcp_reply f mac ip port seq ack (ucast flags)"
proof -
  define n where "n = (of_nat (20 + unat hl + length body) :: u16)"
  note fd = full_frame_fields [OF len, of port seq ack flags hl body, unfolded Let_def, folded n_def]
  have lf: "length f = 34 + unat hl + length body" using ck hl len
    by (auto simp: checksummed_def full_frame_def length_tcp_frame Let_def)
  have un: "unat n = 20 + unat hl + length body"
  proof -
    have "20 + unat hl + length body < 2 ^ 16" using assms(5) hl by auto
    then show ?thesis unfolding n_def by (simp only: unat_of_nat) simp
  qed
  have b: "f ! 14 = 0x45" "f ! 23 = 6"
    using fd checksummed_field [OF ck, of 14 1] checksummed_field [OF ck, of 23 1] lf hl
      nth_field [of 14 f] nth_field [of 23 f] by auto
  have F: "field f 0 6 = mac" "field f 6 6 = my_mac" "field f 12 2 = [0x08, 0x00]"
    "field f 16 2 = [ucast (drop_bit 8 n), ucast n]" "field f 26 4 = my_ip" "field f 30 4 = ip"
    "field f 34 2 = to_be 2 (80 :: u16)" "field f 36 2 = to_be 2 port" "field f 38 4 = to_be 4 seq"
    "field f 42 4 = to_be 4 ack" "field f 46 2 = [push_bit 4 (hl div 4), flags]"
    using fd by (simp_all add: checksummed_field [OF ck])
  have B: "drop 14 f ! 0 = 0x45" "drop 14 f ! 9 = 6" using b lf by simp_all
  have E: "of_be [0x08, 0x00] = (0x0800 :: u16)" by (simp add: of_be_def)
  have U: "unat n = length f - 14" using un lf by simp
  have "ip_verifies f" "tcp_verifies f" using ck by (auto simp: checksummed_def)
  then show ?thesis
    unfolding tcp_reply_def Let_def eth_view_def ipv4_view_def tcp_view_def field_drop
    by (simp add: F B E U from_be16_field from_be32_field be_bytes flag_bits [OF hl] del: of_le.simps)
qed

section \<open>Replies\<close>

lemma sent_print: "sent f n s t \<Longrightarrow> same_but_terminal t u \<Longrightarrow> sent f n s u"
  by (auto simp: sent_def same_but_terminal_def)

lemma print_sent: "same_but_terminal s t \<Longrightarrow> sent f n t u \<Longrightarrow> sent f n s u"
  by (auto simp: sent_def same_but_terminal_def)

lemma send_checked:
  assumes "heap_ok e base sz" and "net_ok e base sz s" and "54 \<le> length f0" and "length f0 \<le> 100000"
    and "heap_used (live s) + length f0 + 4096 \<le> sz"
  shows "\<exists>f s'. recalculate_checksums f0 n \<bind> (\<lambda>f. inject_frame e f s \<bind> print_str t c) = Some s'
    \<and> checksummed f0 f \<and> net_step e base sz (length f0 + 4096) s s'
    \<and> (net_card s \<noteq> None \<longrightarrow> sent f (of_nat (length f0)) s s')"
proof -
  obtain f where f: "recalculate_checksums f0 n = Some f" "checksummed f0 f"
    using recalculate_ok [OF assms(3,4), of n] by (auto simp: checksummed_def)
  have lf: "length f = length f0" "f \<noteq> []" using f(2) assms(3) by (auto simp: checksummed_def)
  from inject_step [OF assms(1,2) _ lf(2)] lf(1) assms(5) obtain s1 where
    s1: "inject_frame e f s = Some s1" "net_step e base sz (length f0 + 4096) s s1"
    "net_card s \<noteq> None \<longrightarrow> sent f (of_nat (length f0)) s s1" by auto
  then have "net_ok e base sz s1" by (simp add: net_step_def)
  from net_print [OF this] obtain s2 where
    s2: "print_str t c s1 = Some s2" "net_step e base sz 0 s1 s2" "same_but_terminal s1 s2" by blast
  have "net_step e base sz (length f0 + 4096) s s2" using net_step_trans [OF s1(2) s2(2)] by simp
  with f s1 s2 show ?thesis by (auto intro: sent_print)
qed

lemma tcp_frame_full:
  assumes "length mac = 6" and "length ip = 4" and "hl = 20 \<or> hl = 24"
  shows "full_frame mac ip port seq ack flags hl [] = tcp_frame mac ip port seq ack flags hl"
proof -
  obtain m0 m1 m2 m3 m4 m5 where mac: "mac = [m0, m1, m2, m3, m4, m5]" using assms(1) by (elim length6E)
  have upd: "i < length f \<Longrightarrow> f[i := v] = take i f @ v # drop (Suc i) f" for f i and v :: u8
    by (simp add: upd_conv_take_nth_drop)
  from assms(3) show ?thesis
    unfolding full_frame_def tcp_frame_def mac my_mac_def Let_def
    by (elim disjE) (simp_all add: upd)
qed

lemma syn_ack_step:
  assumes "heap_ok e base sz" and "net_ok e base sz s" and "length mac = 6" and "length ip = 4"
    and "heap_used (live s) + 58 + 4096 \<le> sz"
  shows "\<exists>f s'. send_tcp_syn_ack e mac ip port client_seq s = Some s'
    \<and> tcp_reply f mac ip port 0xCAFEBABE (client_seq + 1) 0x12 \<and> length f = 58
    \<and> net_step e base sz (58 + 4096) s s' \<and> (net_card s \<noteq> None \<longrightarrow> sent f 58 s s')"
proof -
  let ?f0 = "tcp_frame mac ip port 0xCAFEBABE (client_seq + 1) 0x12 24"
  have l: "length ?f0 = 58" using assms(3,4) by (simp add: length_tcp_frame)
  have "craft_base_tcp_frame mac ip port 0xCAFEBABE (client_seq + 1) 0x12 24 = Some ?f0"
    by (rule craft_ok) (use assms(3,4) in auto)
  moreover obtain f s' where
    f: "recalculate_checksums ?f0 0 \<bind> (\<lambda>f. inject_frame e f s
         \<bind> print_str (lit ''> NET: [SYN-ACK] TRANSMITTED TO HOST.'' @ [10]) 0x3B82F6) = Some s'"
    "checksummed ?f0 f" "net_step e base sz (58 + 4096) s s'" "net_card s \<noteq> None \<longrightarrow> sent f 58 s s'"
    using send_checked [OF assms(1,2), of ?f0 0 "lit ''> NET: [SYN-ACK] TRANSMITTED TO HOST.'' @ [10]" "0x3B82F6"]
      assms(5) unfolding l by auto
  moreover have "tcp_reply f mac ip port 0xCAFEBABE (client_seq + 1) (ucast (0x12 :: u8))"
    using f(2) assms(3,4) by (intro checksummed_reply [where hl = 24 and body = "[]"])
      (auto simp: tcp_frame_full)
  moreover have "length f = 58" using f(2) l by (simp add: checksummed_def)
  ultimately show ?thesis by (auto simp: send_tcp_syn_ack_def)
qed

lemma http_step:
  assumes "heap_ok e base sz" and "net_ok e base sz s" and "length mac = 6" and "length ip = 4"
    and "length (http_body (http_payload s)) \<le> 60000"
    and "heap_used (live s) + 54 + length (http_body (http_payload s)) + 4096 \<le> sz"
  shows "\<exists>f s'. send_http_response e mac ip port my_seq client_seq dlen s = Some s'
    \<and> tcp_reply f mac ip port my_seq (client_seq + dlen) 0x18 \<and> drop 54 f = http_body (http_payload s)
    \<and> net_step e base sz (54 + length (http_body (http_payload s)) + 4096) s s'
    \<and> (net_card s \<noteq> None \<longrightarrow> sent f (of_nat (length f)) s s')"
proof -
  let ?b = "http_body (http_payload s)"
  let ?f0 = "full_frame mac ip port my_seq (client_seq + dlen) 0x18 20 ?b"
  let ?t = "tcp_frame mac ip port my_seq (client_seq + dlen) 0x18 20"
  have lt: "length ?t = 54" using assms(3,4) by (simp add: length_tcp_frame)
  have l: "length ?f0 = 54 + length ?b" by (simp add: full_frame_def Let_def lt)
  have c: "craft_base_tcp_frame mac ip port my_seq (client_seq + dlen) 0x18 20 = Some ?t"
    by (rule craft_ok) (use assms(3,4) in auto)
  have u: "uadd 40 (length ?b) = Some (40 + length ?b)" using assms(5) by (simp add: uadd_def)
  have f0: "?f0 = (?t @ ?b)[16 := ucast (drop_bit 8 (of_nat (40 + length ?b) :: u16)), 17 := ucast (of_nat (40 + length ?b) :: u16)]"
    by (simp add: full_frame_def Let_def)
  obtain f s' where
    f: "recalculate_checksums ?f0 (length ?b) \<bind> (\<lambda>f. inject_frame e f s
         \<bind> print_str (lit ''> NET: HTTP 200 OK RESPONSE SERVED. SOCKET CLOSED.'' @ [10]) 0x10B981) = Some s'"
    "checksummed ?f0 f" "net_step e base sz (54 + length ?b + 4096) s s'"
    "net_card s \<noteq> None \<longrightarrow> sent f (of_nat (54 + length ?b)) s s'"
    using send_checked [OF assms(1,2), of ?f0 "length ?b"
        "lit ''> NET: HTTP 200 OK RESPONSE SERVED. SOCKET CLOSED.'' @ [10]" "0x10B981"]
      assms(5,6) unfolding l by auto
  have "send_http_response e mac ip port my_seq client_seq dlen s = Some s'"
    using f(1) unfolding f0
    by (simp add: send_http_response_def Let_def c u upd_chk_def lt del: uadd_Some_iff)
  moreover have "tcp_reply f mac ip port my_seq (client_seq + dlen) (ucast (0x18 :: u8))"
    by (rule checksummed_reply [OF f(2) assms(3,4) _ assms(5)]) simp
  moreover have lf: "length f = 54 + length ?b" using f(2) l by (simp add: checksummed_def)
  moreover have "drop 54 f = drop 54 ?f0"
    using f(2) lf l by (intro nth_equalityI) (auto simp: checksummed_def)
  moreover have "drop 54 ?f0 = ?b" by (simp add: full_frame_def Let_def lt)
  ultimately show ?thesis using f(3,4) by (auto simp: lf)
qed

section \<open>Handling a packet\<close>

lemma arp_lookup_mem: "arp_lookup t ip = Some mac \<Longrightarrow> \<exists>en\<in>set t. arp_mac en = mac"
  by (induction t) (auto split: if_splits)

lemma target_mac_length: "net_ok e base sz s \<Longrightarrow> length (arp_or_broadcast (arp_table s) ip) = 6"
  by (auto simp: net_ok_def arp_or_broadcast_def split: option.splits dest: arp_lookup_mem)

text \<open>Room for one reply: the heap can take the largest frame the code sends.\<close>

definition reply_size :: "'a net_scheme \<Rightarrow> nat" where
  "reply_size s = 54 + length (http_body (http_payload s))"

definition reply_room :: "nat \<Rightarrow> 'a net_scheme \<Rightarrow> bool" where
  "reply_room sz s \<longleftrightarrow> reply_size s \<le> 60000 \<and> heap_used (live s) + reply_size s + 4096 \<le> sz"

lemma reply_size_min: "58 \<le> reply_size s"
  by (simp add: reply_size_def http_body_def Let_def)

lemma reply_room_step:
  "net_step e base sz 0 s s' \<Longrightarrow> reply_room sz s \<Longrightarrow> reply_room sz s' \<and> reply_size s' = reply_size s"
  by (auto simp: net_step_def reply_room_def reply_size_def)

lemma handle_psh_step:
  assumes "heap_ok e base sz" and "net_ok e base sz s" and "reply_room sz s" and "length (src_ip ip) = 4"
    and "ihl \<le> 60" and "tcp_offset = 14 + ihl" and "thl \<le> 60"
  shows "\<exists>s'. handle_psh e packet ip tcp ihl tcp_offset thl s = Some s' \<and> net_step e base sz (reply_size s + 4096) s s'"
proof -
  let ?total = "unat (from_be16 (ip_total_length ip))"
  let ?d = "?total - ihl - thl"
  have "?total < 65536" using unsigned_less [of "from_be16 (ip_total_length ip)", where ?'a = nat] by simp
  then have ops: "uadd tcp_offset thl = Some (tcp_offset + thl)" "uadd ihl thl = Some (ihl + thl)"
    "uadd (tcp_offset + thl) ?d = Some (tcp_offset + thl + ?d)"
    "ihl + thl \<le> ?total \<Longrightarrow> usub ?total ihl = Some (?total - ihl)"
    "ihl + thl \<le> ?total \<Longrightarrow> usub (?total - ihl) thl = Some ?d"
    using assms(5-7) by simp_all
  have refl: "net_step e base sz (reply_size s + 4096) s s" using assms(2) by (rule net_step_refl)
  obtain s1 where s1: "print_str (lit ''> NET: HTTP [GET] REQUEST INTERCEPTED!'' @ [10]) 0x10B981 s = Some s1"
    "net_step e base sz 0 s s1" using net_print [OF assms(2)] by blast
  have ok1: "net_ok e base sz s1" using s1(2) by (simp add: net_step_def)
  note room = reply_room_step [OF s1(2) assms(3)]
  obtain s2 where s2: "send_http_response e (arp_or_broadcast (arp_table s1) (src_ip ip)) (src_ip ip)
      (from_be16 (tcp_src_port tcp)) (from_be32 (tcp_ack_num tcp)) (from_be32 (tcp_seq_num tcp)) (of_nat ?d) s1 = Some s2"
    "net_step e base sz (reply_size s + 4096) s1 s2"
    using http_step [OF assms(1) ok1 target_mac_length [OF ok1] assms(4)] room
    by (fastforce simp: reply_room_def reply_size_def)
  have "net_step e base sz (reply_size s + 4096) s s2" using net_step_trans [OF s1(2) s2(2)] by simp
  with refl s1(1) s2(1) ops show ?thesis
    by (auto simp: handle_psh_def Let_def slice_chk_def simp del: uadd_Some_iff usub_Some_iff)
qed

lemma header_lengths:
  "wmul ((v :: u8) AND 0x0F) 4 = Some ((v AND 0x0F) * 4)" "unat ((v AND 0x0F) * 4) \<le> 60"
  "wmul ((w :: u16) AND 0x0F) 4 = Some ((w AND 0x0F) * 4)" "unat ((w AND 0x0F) * 4) \<le> 60"
proof -
  have "v AND 0x0F = take_bit 4 v" "w AND 0x0F = take_bit 4 w"
    by (simp_all add: take_bit_eq_mask mask_eq_exp_minus_1)
  then have b: "unat (v AND 0x0F) < 16" "unat (w AND 0x0F) < 16"
    by (simp_all add: take_bit_eq_mod unat_mod_distrib)
  then show "wmul (v AND 0x0F) 4 = Some ((v AND 0x0F) * 4)" "wmul (w AND 0x0F) 4 = Some ((w AND 0x0F) * 4)"
    by (simp_all add: wmul_def)
  from b show "unat ((v AND 0x0F) * 4) \<le> 60" "unat ((w AND 0x0F) * 4) \<le> 60"
    by (simp_all add: unat_word_ariths)
qed

lemma handle_tcp_step:
  assumes "heap_ok e base sz" and "net_ok e base sz s" and "reply_room sz s" and "length (src_ip ip) = 4"
    and "ihl \<le> 60" and "tcp_offset = 14 + ihl"
  shows "\<exists>s'. handle_tcp e packet ip tcp ihl tcp_offset s = Some s' \<and> net_step e base sz (reply_size s + 4096) s s'"
proof -
  define port where "port = from_be16 (tcp_src_port tcp)"
  define msg where "msg = lit ''> NET: TCP [SYN] RCV'D. PORT '' @ dec_digits (unat port) @ lit '' -> '' @ dec_digits (unat (80 :: u16)) @ [10]"
  have refl: "net_step e base sz (reply_size s + 4096) s s" using assms(2) by (rule net_step_refl)
  obtain s1 where s1: "print_str msg 0xF59E0B s = Some s1" "net_step e base sz 0 s s1"
    using net_print [OF assms(2)] by blast
  have ok1: "net_ok e base sz s1" using s1(2) by (simp add: net_step_def)
  note room = reply_room_step [OF s1(2) assms(3)]
  have "heap_used (live s1) + 58 + 4096 \<le> sz" using room reply_size_min [of s1] by (simp add: reply_room_def)
  from syn_ack_step [OF assms(1) ok1 target_mac_length [OF ok1] assms(4) this] obtain s2 where
    s2: "send_tcp_syn_ack e (arp_or_broadcast (arp_table s1) (src_ip ip)) (src_ip ip) port
      (from_be32 (tcp_seq_num tcp)) s1 = Some s2" "net_step e base sz (58 + 4096) s1 s2" by blast
  have "net_step e base sz (reply_size s + 4096) s s2"
    using net_step_mono [OF net_step_trans [OF s1(2) s2(2)]] reply_size_min [of s] by simp
  moreover note handle_psh_step [OF assms(1-6) header_lengths(4), where packet = packet and tcp = tcp]
  ultimately show ?thesis
    using refl s1(1) s2(1)
    unfolding handle_tcp_def Let_def header_lengths(3) bind.simps port_def [symmetric] msg_def
    by auto
qed

lemma handle_packet_step:
  assumes "heap_ok e base sz" and "net_ok e base sz s" and "reply_room sz s"
  shows "\<exists>s'. handle_incoming_packet e packet s = Some s' \<and> net_step e base sz (reply_size s + 4096) s s'"
proof (cases "length packet < 34")
  case True
  with net_step_refl [OF assms(2)] show ?thesis by (auto simp: handle_incoming_packet_def)
next
  case False
  let ?ip = "ipv4_view (drop 14 packet)"
  let ?ihl = "unat ((version_ihl ?ip AND 0x0F) * 4)"
  have sl: "slice_chk packet 14 (length packet) = Some (drop 14 packet)" using False by (simp add: slice_chk_def)
  have ip: "length (src_ip ?ip) = 4" using False by (simp add: ipv4_view_def field_def)
  have ihl: "?ihl \<le> 60" by (rule header_lengths(2))
  then have off: "uadd 14 ?ihl = Some (14 + ?ihl)" by (simp add: uadd_def)
  have sl2: "slice_chk packet (14 + ?ihl) (length packet) = Some (drop (14 + ?ihl) packet)"
    if "\<not> length packet < 14 + ?ihl + 20" using that by (simp add: slice_chk_def)
  note tcp = handle_tcp_step [OF assms ip ihl refl, of packet "tcp_view (drop (14 + ?ihl) packet)"]
  show ?thesis
    using False net_step_refl [OF assms(2), of "reply_size s + 4096"] tcp sl2
    unfolding handle_incoming_packet_def sl Let_def bind.simps header_lengths(1) off by auto
qed

section \<open>What is answered\<close>

text \<open>The TCP segment addressed to this host that a packet holds, if it is complete: its IPv4
  header, the length of that header and the TCP header.\<close>

definition tcp_to_us :: "u8 list \<Rightarrow> (ipv4_header \<times> nat \<times> tcp_header) option" where
  "tcp_to_us packet =
     (let ip = ipv4_view (drop 14 packet); ihl = unat ((version_ihl ip AND 0x0F) * 4) in
      if 34 \<le> length packet \<and> from_be16 (eth_ethertype (eth_view packet)) = 0x0800
        \<and> dest_ip ip = my_ip \<and> protocol ip = 6 \<and> 34 + ihl \<le> length packet
      then Some (ip, ihl, tcp_view (drop (14 + ihl) packet)) else None)"

lemma handle_packet_eq:
  "handle_incoming_packet e packet s =
     (case tcp_to_us packet of None \<Rightarrow> Some s
      | Some (ip, ihl, tcp) \<Rightarrow> handle_tcp e packet ip tcp ihl (14 + ihl) s)"
proof (cases "length packet < 34")
  case True
  then show ?thesis by (simp add: handle_incoming_packet_def tcp_to_us_def Let_def)
next
  case False
  let ?ip = "ipv4_view (drop 14 packet)"
  let ?ihl = "unat ((version_ihl ?ip AND 0x0F) * 4)"
  have sl: "slice_chk packet 14 (length packet) = Some (drop 14 packet)" using False by (simp add: slice_chk_def)
  have "?ihl \<le> 60" by (rule header_lengths(2))
  then have off: "uadd 14 ?ihl = Some (14 + ?ihl)" by (simp add: uadd_def)
  have sl2: "slice_chk packet (14 + ?ihl) (length packet) = Some (drop (14 + ?ihl) packet)"
    if "\<not> length packet < 14 + ?ihl + 20" using that by (simp add: slice_chk_def)
  show ?thesis
    using False sl2
    unfolding handle_incoming_packet_def sl Let_def bind.simps header_lengths(1) off tcp_to_us_def my_ip_def
    by auto
qed

lemma tcp_to_us_ip: "tcp_to_us packet = Some (ip, ihl, tcp) \<Longrightarrow> length (src_ip ip) = 4 \<and> ihl \<le> 60"
  using header_lengths(2) by (auto simp: tcp_to_us_def Let_def ipv4_view_def field_def split: if_splits)

text \<open>The flags and the payload of a segment.\<close>

definition tcp_flag :: "tcp_header \<Rightarrow> u16 \<Rightarrow> bool" where
  "tcp_flag tcp m \<longleftrightarrow> (from_be16 (data_offset_flags tcp) AND 0x01FF) AND m \<noteq> 0"

definition tcp_hlen :: "tcp_header \<Rightarrow> nat" where
  "tcp_hlen tcp = unat ((drop_bit 12 (from_be16 (data_offset_flags tcp)) AND 0x0F) * 4)"

definition tcp_payload :: "u8 list \<Rightarrow> ipv4_header \<Rightarrow> nat \<Rightarrow> tcp_header \<Rightarrow> u8 list option" where
  "tcp_payload packet ip ihl tcp =
     (let total = unat (from_be16 (ip_total_length ip)); hdr = ihl + tcp_hlen tcp in
      if hdr < total \<and> 14 + total \<le> length packet then Some (field packet (14 + hdr) (total - hdr)) else None)"

section \<open>A concrete network state\<close>

text \<open>A card with its rings on the heap of the bump allocator, one known peer, and two packets
  from it.\<close>

definition demo_nic :: e1000 where
  "demo_nic = \<lparr>bar0_address = 0xFEBC0000, rx_ring_ptr = 0x100000, current_rx_bucket = 31,
     tx_ring_ptr = 0x101000, current_tx_bucket = 7, mac_address = my_mac\<rparr>"

definition demo_net :: net where
  "demo_net = \<lparr>mem = (\<lambda>_. 0), io_trace = [], live = [(0x101000, 128), (0x100000, 512)],
     server = demo_server, term_x = 20, term_y = 0, vram = (\<lambda>_. 0),
     arp_table = arp_insert [10, 0, 2, 2] [2, 0, 0, 0, 0, 1] arp_new,
     net_card = Some demo_nic, http_payload = Some (lit ''HELLO'')\<rparr>"

definition demo_packet :: "u8 \<Rightarrow> u8 \<Rightarrow> u8 list \<Rightarrow> u8 list" where
  "demo_packet n flags body = my_mac @ [2, 0, 0, 0, 0, 1] @ [0x08, 0x00]
     @ [0x45, 0, 0, n, 0, 0, 0x40, 0, 64, 6, 0, 0] @ [10, 0, 2, 2] @ my_ip
     @ [0x30, 0x39, 0, 80, 0, 0, 0, 7, 0, 0, 0, 9, 0x50, flags, 0xFA, 0xF0, 0, 0, 0, 0] @ body"

lemma demo_net_ok: "net_ok bump_env 0x100000 0x200000 demo_net"
proof -
  have g: "gfx_ok demo_net"
    using demo_screen_ok by (simp add: gfx_ok_def demo_net_def term_ok_def canvas_ok_def demo_server_def)
  have "galloc bump_env 512 1 [] = (0x100000 :: u64)" "galloc bump_env 128 1 [(0x100000, 512)] = (0x101000 :: u64)"
    by (simp_all add: bump_env_def)
  then have h: "heap_inv bump_env 0x100000 0x200000 (live demo_net)"
    by (auto simp: heap_inv_def demo_net_def in_heap_def apart_def intro!: exI [of _ 1])
  have a: "arp_ok (arp_table demo_net)" by (simp add: demo_net_def arp_insert_ok arp_new_ok)
  have "list_all (\<lambda>en. length (arp_mac en) = 6) (arp_table demo_net)"
    by (simp add: demo_net_def arp_insert_def arp_new_def numeral_eq_Suc)
  with g h a show ?thesis
    by (auto simp: net_ok_def list_all_iff demo_net_def nic_ok_def nic_mmio_def mmio_region_def demo_nic_def off_heap_def my_mac_def)
qed

lemma demo_room: "reply_room 0x200000 demo_net"
proof -
  have "length (dec_digits (Suc (Suc (Suc (Suc (Suc 0)))))) = 1" by (subst dec_digits.simps) simp
  then show ?thesis
    by (simp add: reply_room_def reply_size_def demo_net_def http_body_def Let_def)
qed

section \<open>Properties\<close>

text \<open>C19. No packet can crash the protocol code: whatever bytes arrive, of
  whatever length, \<open>handle_incoming_packet\<close> returns without an index out of bounds or an
  overflow, keeps the network state's invariant, sends at most one reply, and touches no heap
  block but the transmit ring.\<close>

theorem handle_packet_safe:
  assumes "heap_ok e base sz" and "net_ok e base sz s" and "reply_room sz s"
  shows "\<exists>s'. handle_incoming_packet e packet s = Some s' \<and> net_step e base sz (reply_size s + 4096) s s'"
  by (rule handle_packet_step [OF assms])

theorem handle_packet_safe_witness:
  "\<exists>s'. handle_incoming_packet bump_env (replicate 99 0x45) demo_net = Some s' \<and> net_ok bump_env 0x100000 0x200000 s'"
  using handle_packet_safe [OF bump_heap_ok demo_net_ok demo_room] by (auto simp: net_step_def)


lemma demo_syn:
  "case tcp_to_us (demo_packet 40 2 []) of None \<Rightarrow> False
    | Some (ip, ihl, tcp) \<Rightarrow> from_be16 (tcp_dest_port tcp) = 80 \<and> tcp_flag tcp 0x02 \<and> src_ip ip = [10, 0, 2, 2]
        \<and> from_be16 (tcp_src_port tcp) = 0x3039 \<and> from_be32 (tcp_seq_num tcp) = 7"
  by code_simp

lemma demo_mac: "arp_or_broadcast (arp_table demo_net) [10, 0, 2, 2] = [2, 0, 0, 0, 0, 1]"
  unfolding demo_net_def by (simp add: arp_or_broadcast_def arp_insert_def arp_new_def numeral_eq_Suc)



lemma demo_get:
  "case tcp_to_us (demo_packet 43 0x18 (lit ''GET'')) of None \<Rightarrow> False
    | Some (ip, ihl, tcp) \<Rightarrow> from_be16 (tcp_dest_port tcp) = 80 \<and> \<not> tcp_flag tcp 0x02 \<and> tcp_flag tcp 0x08
        \<and> tcp_payload (demo_packet 43 0x18 (lit ''GET'')) ip ihl tcp = Some (lit ''GET'')"
  by code_simp


text \<open>Everything else is ignored: a packet that is not a complete TCP
  segment for this host, or is not for port 80, or is neither a connection request nor carries
  pushed data, changes nothing at all.\<close>

lemma other_packets_ignored:
  assumes "case tcp_to_us packet of None \<Rightarrow> True
    | Some (ip, ihl, tcp) \<Rightarrow> from_be16 (tcp_dest_port tcp) \<noteq> 80 \<or> \<not> tcp_flag tcp 0x02 \<and> \<not> tcp_flag tcp 0x08"
  shows "handle_incoming_packet e packet s = Some s"
proof (cases "tcp_to_us packet")
  case None
  then show ?thesis by (simp add: handle_packet_eq)
next
  case (Some x)
  then obtain ip ihl tcp where x: "tcp_to_us packet = Some (ip, ihl, tcp)" by (cases x) auto
  with assms show ?thesis
    unfolding handle_packet_eq x option.case prod.case handle_tcp_def Let_def header_lengths(3) bind.simps
    by (auto simp: tcp_flag_def)
qed

end
