(* ===== verification/Poll.thy ===== *)
theory Poll
  imports Protocol
begin

text \<open>
  The receive path of the driver (\<open>src/src/e1000.rs\<close>, \<open>poll\<close>): the head of the receive ring, the
  ARP handling, the hand-over to the protocol code and the return of the buffer to the card.
  The kernel polls the card that \<open>NET_CARD\<close> holds, and the protocol code updates that same
  card, so its state lives in \<open>net_card\<close>.
\<close>

definition volatile_read_rx ::
  "('a machine_scheme) env \<Rightarrow> u64 \<Rightarrow> 'a machine_scheme \<Rightarrow> rx_descriptor \<times> 'a machine_scheme" where
  "volatile_read_rx e a s = (let s' = hw e s in (rx_decode (load_bytes (mem s') a 16), s'))"

definition get_be16 :: "u8 list \<Rightarrow> usize \<Rightarrow> u16 option" where
  "get_be16 p i = do {
     hi \<leftarrow> nth_chk p i;
     lo \<leftarrow> nth_chk p (i + 1);
     Some (push_bit 8 (ucast hi) OR ucast lo)
   }"

definition arp_reply_frame :: "mac_addr \<Rightarrow> mac_addr \<Rightarrow> ip_addr \<Rightarrow> u8 list" where
  "arp_reply_frame mac sender_mac sender_ip = resize60 (
     sender_mac @ mac @ [0x08, 0x06, 0x00, 0x01, 0x08, 0x00, 0x06, 0x04, 0x00, 0x02]
     @ mac @ [10, 0, 2, 15] @ sender_mac @ sender_ip)"

definition dotted :: "ip_addr \<Rightarrow> rstr" where
  "dotted ip = dec_digits (unat (ip ! 0)) @ [46] @ dec_digits (unat (ip ! 1)) @ [46]
     @ dec_digits (unat (ip ! 2)) @ [46] @ dec_digits (unat (ip ! 3))"

definition poll_arp :: "('a net_scheme) env \<Rightarrow> u8 list \<Rightarrow> 'a net_scheme \<Rightarrow> 'a net_scheme option" where
  "poll_arp e packet s = do {
     hardware_type \<leftarrow> get_be16 packet 14;
     protocol_type \<leftarrow> get_be16 packet 16;
     opcode \<leftarrow> get_be16 packet 20;
     if hardware_type = 1 \<and> protocol_type = 0x0800 then do {
       sender_mac \<leftarrow> slice_chk packet 22 28;
       sender_ip \<leftarrow> slice_chk packet 28 32;
       target_ip \<leftarrow> slice_chk packet 38 42;
       let s = s\<lparr>arp_table := arp_insert sender_ip sender_mac (arp_table s)\<rparr>;
       if opcode = 1 then do {
         s \<leftarrow> print_str (lit ''> NET: ROUTER ASKING FOR IP '' @ dotted target_ip @ [10]) 0xF59E0B s;
         if target_ip = [10, 0, 2, 15] then do {
           s \<leftarrow> print_str (lit ''> NET: THAT IS US! TRANSMITTING ARP REPLY...'' @ [10]) 0x10B981 s;
           nic \<leftarrow> net_card s;
           (nic, s) \<leftarrow> tx_frame e (arp_reply_frame (mac_address nic) sender_mac sender_ip) 60 nic s;
           Some (s\<lparr>net_card := Some nic\<rparr>)
         } else Some s
       } else Some s
     } else Some s
   }"

definition poll :: "('a net_scheme) env \<Rightarrow> e1000 \<Rightarrow> 'a net_scheme \<Rightarrow> (bool \<times> 'a net_scheme) option" where
  "poll e nic s = do {
     off \<leftarrow> wmul (of_nat (current_rx_bucket nic)) 16;
     descriptor_addr \<leftarrow> wadd (rx_ring_ptr nic) off;
     let (descriptor, s) = volatile_read_rx e descriptor_addr s;
     if rx_status descriptor AND 1 \<noteq> 0 then do {
       packet_data_ptr \<leftarrow> raw_parts (rx_buffer_address descriptor);
       let packet = load_bytes (mem s) packet_data_ptr (unat (rx_length descriptor));
       ethertype \<leftarrow> get_be16 packet 12;
       s \<leftarrow> print_str (lit ''> NET [RAW]: HARDWARE TRIGGERED! LEN: '' @ dec_digits (unat (rx_length descriptor))
         @ lit '' ETHERTYPE: 0x'' @ hex4 ethertype @ [10]) 0x8B5CF6 s;
       s \<leftarrow> (if ethertype = 0x0806 then poll_arp e packet s
         else if ethertype = 0x0800 then handle_incoming_packet e packet s
         else Some s);
       let s = s\<lparr>mem := store_le (mem s) (descriptor_addr + 12) 1 (0 :: u8)\<rparr>;
       nic \<leftarrow> net_card s;
       let old_bucket = current_rx_bucket nic;
       next_bucket \<leftarrow> uadd old_bucket 1;
       let nic = nic\<lparr>current_rx_bucket := next_bucket mod 32\<rparr>;
       s \<leftarrow> write_register nic 0x2818 (of_nat old_bucket) s;
       Some (True, s\<lparr>net_card := Some nic\<rparr>)
     } else Some (False, s)
   }"

text \<open>\<open>if let Some(ref mut nic) = NET_CARD { nic.poll(); }\<close>\<close>

definition poll_net_card :: "('a net_scheme) env \<Rightarrow> 'a net_scheme \<Rightarrow> 'a net_scheme option" where
  "poll_net_card e s =
     (case net_card s of None \<Rightarrow> Some s | Some nic \<Rightarrow> map_option snd (poll e nic s))"

section \<open>What receiving leaves alone\<close>

text \<open>Printing, sending and receiving touch neither what a larger state adds to the network's nor the
  screen's geometry.\<close>

definition same_rest :: "'a net_scheme \<Rightarrow> 'a net_scheme \<Rightarrow> bool" where
  "same_rest s s' \<longleftrightarrow> net.more s' = net.more s \<and> sv_width (server s') = sv_width (server s)
     \<and> sv_height (server s') = sv_height (server s)"

definition keeps_more :: "'a net_scheme \<Rightarrow> 'a net_scheme option \<Rightarrow> bool" where
  "keeps_more s r \<longleftrightarrow> (\<forall>s'. r = Some s' \<longrightarrow> same_rest s s')"

lemma same_rest_refl [simp]: "same_rest s s"
  by (simp add: same_rest_def)

lemma same_rest_trans: "same_rest s t \<Longrightarrow> same_rest t u \<Longrightarrow> same_rest s u"
  by (simp add: same_rest_def)

lemma keeps_more_Some: "keeps_more s (Some s)"
  by (simp add: keeps_more_def)

lemma keeps_more_if: "keeps_more s a \<Longrightarrow> keeps_more s b \<Longrightarrow> keeps_more s (if c then a else b)"
  by simp

lemma keeps_more_pure: "(\<And>x. keeps_more s (f x)) \<Longrightarrow> keeps_more s (m \<bind> f)"
  by (cases m) (simp_all add: keeps_more_def)

lemma keeps_more_bind: "keeps_more s m \<Longrightarrow> (\<And>t. keeps_more t (f t)) \<Longrightarrow> keeps_more s (m \<bind> f)"
  by (cases m) (auto simp: keeps_more_def intro: same_rest_trans)

lemma keeps_more_upd: "same_rest s t \<Longrightarrow> keeps_more t r \<Longrightarrow> keeps_more s r"
  by (auto simp: keeps_more_def intro: same_rest_trans)

lemma net_more_gfx:
  assumes "gfx.more (s' :: 'a net_scheme) = gfx.more s"
  shows "net.more s' = net.more s"
  using assms by (cases s; cases s') simp

lemma print_more: "keeps_more s (print_str t c s)"
proof -
  have "gfx.more s' = gfx.more s \<and> sv_width (server s') = sv_width (server s) \<and> sv_height (server s') = sv_height (server s)"
    if "print_str t c s = Some s'" for s'
    using that
    by (auto simp: print_str_def terminal_print_def blit_canvas_def Let_def bind_eq_Some_conv split: option.splits)
  then show ?thesis by (auto simp: keeps_more_def same_rest_def intro: net_more_gfx)
qed

lemma tx_frame_more: "tx_frame e frame len nic (s :: 'a net_scheme) = Some (nic', s') \<Longrightarrow> same_rest s s'"
  by (auto simp: same_rest_def tx_frame_def leak_bytes_def write_register_def volatile_write32_def Let_def bind_eq_Some_conv
      split: if_splits)

lemma tx_bind_more:
  "keeps_more s (tx_frame e frame len nic s \<bind> (\<lambda>(nic, s). Some (s\<lparr>net_card := Some nic\<rparr>)))"
  by (cases "tx_frame e frame len nic s") (auto simp: keeps_more_def same_rest_def dest!: tx_frame_more)

lemma inject_frame_more: "keeps_more s (inject_frame e frame s)"
  unfolding inject_frame_def by (cases "net_card s") (simp_all add: keeps_more_Some tx_bind_more)

lemmas keeps_more_rules = keeps_more_Some keeps_more_if keeps_more_bind [OF print_more] print_more
  keeps_more_bind [OF inject_frame_more] tx_bind_more

lemma send_more:
  "keeps_more s (send_tcp_syn_ack e mac ip port sq s)" "keeps_more s (send_http_response e mac ip port my sq n s)"
  unfolding send_tcp_syn_ack_def send_http_response_def Let_def
  by (rule keeps_more_rules | rule keeps_more_pure)+

lemma handle_psh_more: "keeps_more s (handle_psh e p ip tcp ihl off n s)"
  unfolding handle_psh_def Let_def
  by (rule keeps_more_rules send_more | rule keeps_more_pure)+

lemma handle_tcp_more: "keeps_more s (handle_tcp e p ip tcp ihl off s)"
  unfolding handle_tcp_def Let_def
  by (rule keeps_more_rules send_more handle_psh_more | rule keeps_more_pure)+

lemma handle_packet_more: "keeps_more s (handle_incoming_packet e p s)"
  unfolding handle_incoming_packet_def Let_def
  by (intro keeps_more_if keeps_more_Some keeps_more_pure handle_tcp_more)

lemma poll_arp_more: "keeps_more s (poll_arp e p s)"
proof -
  have answer: "keeps_more (s :: 'a net_scheme) (do {
      s \<leftarrow> print_str t c s;
      if ours then do {
        s \<leftarrow> print_str t' c' s;
        nic \<leftarrow> net_card s;
        (nic, s) \<leftarrow> tx_frame e (arp_reply_frame (mac_address nic) mac ip) 60 nic s;
        Some (s\<lparr>net_card := Some nic\<rparr>)
      } else Some s })" for s t c t' c' ours mac ip
    by (rule keeps_more_bind [OF print_more], rule keeps_more_if [OF _ keeps_more_Some],
        rule keeps_more_bind [OF print_more], rule keeps_more_pure, rule tx_bind_more)
  note learnt = keeps_more_upd [of s "s\<lparr>arp_table := t\<rparr>" for t, OF _ answer]
  show ?thesis
    unfolding poll_arp_def Let_def
    by (rule keeps_more_pure, rule keeps_more_pure, rule keeps_more_pure, rule keeps_more_if [OF _ keeps_more_Some],
        rule keeps_more_pure, rule keeps_more_pure, rule keeps_more_pure, rule keeps_more_if, rule learnt)
      (simp_all add: keeps_more_def same_rest_def)
qed

lemma dispatch_more:
  "(if a then poll_arp e p s else if b then handle_incoming_packet e p s else Some s) = Some t \<Longrightarrow> same_rest s t"
  using poll_arp_more [of s e p] handle_packet_more [of s e p] by (auto simp: keeps_more_def split: if_splits)

section \<open>ARP\<close>

lemma length_resize60 [simp]: "length (resize60 bs) = 60"
  by (simp add: resize60_def)

text \<open>What an ARP packet teaches: the sender of an Ethernet/IPv4 packet.\<close>

definition arp_word :: "u8 list \<Rightarrow> nat \<Rightarrow> u16" where
  "arp_word p i = push_bit 8 (ucast (p ! i)) OR ucast (p ! (i + 1))"

definition arp_learn :: "u8 list \<Rightarrow> arp_cache \<Rightarrow> arp_cache" where
  "arp_learn p t = (if arp_word p 14 = 1 \<and> arp_word p 16 = 0x0800
     then arp_insert (field p 28 4) (field p 22 6) t else t)"

definition arp_asks_us :: "u8 list \<Rightarrow> bool" where
  "arp_asks_us p \<longleftrightarrow> arp_word p 14 = 1 \<and> arp_word p 16 = 0x0800 \<and> arp_word p 20 = 1 \<and> field p 38 4 = my_ip"

lemma get_be16_ok: "i + 1 < length p \<Longrightarrow> get_be16 p i = Some (arp_word p i)"
  by (simp add: get_be16_def arp_word_def nth_chk_def)

lemma slice_field: "i + n \<le> length p \<Longrightarrow> slice_chk p i (i + n) = Some (field p i n)"
  by (simp add: slice_chk_def field_def)

lemma arp_insert_macs:
  assumes "\<forall>en\<in>set t. length (arp_mac en) = 6" and "length mac = 6"
  shows "\<forall>en\<in>set (arp_insert ip mac t). length (arp_mac en) = 6"
proof -
  have "\<forall>en\<in>set t'. length (arp_mac en) = 6" if "arp_refresh ip mac t = Some t'" for t'
    using that assms by (induction t arbitrary: t') (auto split: if_splits)
  moreover have "\<forall>en\<in>set (arp_claim ip mac t). length (arp_mac en) = 6"
    using assms by (induction t) auto
  ultimately show ?thesis by (auto simp: arp_insert_def split: option.splits)
qed

lemma net_ok_learn: "net_ok e base sz s \<Longrightarrow> 42 \<le> length p \<Longrightarrow> net_ok e base sz (s\<lparr>arp_table := arp_learn p (arp_table s)\<rparr>)"
  using arp_insert_macs [of "arp_table s" "field p 22 6" "field p 28 4"] arp_insert_ok [of "arp_table s"]
  by (auto simp: net_ok_def arp_learn_def gfx_ok_def field_def)

lemma poll_arp_step:
  assumes "heap_ok e base sz" and "net_ok e base sz s" and "net_card s = Some nic" and "42 \<le> length p"
    and "heap_used (live s) + 60 + 4096 \<le> sz"
  shows "\<exists>s'. poll_arp e p s = Some s'
    \<and> net_step e base sz (60 + 4096) (s\<lparr>arp_table := arp_learn p (arp_table s)\<rparr>) s'
    \<and> (if arp_asks_us p then sent (arp_reply_frame (mac_address nic) (field p 22 6) (field p 28 4)) 60 s s'
       else same_but_terminal (s\<lparr>arp_table := arp_learn p (arp_table s)\<rparr>) s')"
proof -
  have bits: "get_be16 p 14 = Some (arp_word p 14)" "get_be16 p 16 = Some (arp_word p 16)"
    "get_be16 p 20 = Some (arp_word p 20)" "slice_chk p 22 28 = Some (field p 22 6)"
    "slice_chk p 28 32 = Some (field p 28 4)" "slice_chk p 38 42 = Some (field p 38 4)"
    using assms(4) get_be16_ok [of _ p] slice_field [of 22 6 p] slice_field [of 28 4 p] slice_field [of 38 4 p]
    by simp_all
  let ?s = "s\<lparr>arp_table := arp_learn p (arp_table s)\<rparr>"
  have ok: "net_ok e base sz ?s" by (rule net_ok_learn [OF assms(2,4)])
  show ?thesis
  proof (cases "arp_word p 14 = 1 \<and> arp_word p 16 = 0x0800")
    case False
    then have "poll_arp e p s = Some s" "arp_learn p (arp_table s) = arp_table s" "\<not> arp_asks_us p"
      by (auto simp: poll_arp_def bits arp_learn_def arp_asks_us_def)
    with net_step_refl [OF assms(2)] show ?thesis by simp
  next
    case True
    then have lr: "arp_learn p (arp_table s) = arp_insert (field p 28 4) (field p 22 6) (arp_table s)"
      by (simp add: arp_learn_def)
    obtain s1 where s1: "print_str (lit ''> NET: ROUTER ASKING FOR IP '' @ dotted (field p 38 4) @ [10]) 0xF59E0B ?s = Some s1"
      "net_step e base sz 0 ?s s1" "same_but_terminal ?s s1" using net_print [OF ok] by blast
    then have ok1: "net_ok e base sz s1" by (simp add: net_step_def)
    obtain s2 where s2: "print_str (lit ''> NET: THAT IS US! TRANSMITTING ARP REPLY...'' @ [10]) 0x10B981 s1 = Some s2"
      "net_step e base sz 0 s1 s2" "same_but_terminal s1 s2" using net_print [OF ok1] by blast
    then have ok2: "net_ok e base sz s2" by (simp add: net_step_def)
    have step2: "net_step e base sz 0 ?s s2" using net_step_trans [OF s1(2) s2(2)] by simp
    have same2: "same_but_terminal ?s s2" using same_but_terminal_trans [OF s1(3) s2(3)] .
    then have nic2: "net_card s2 = Some nic" "live s2 = live s" using assms(3)
      by (auto simp: same_but_terminal_def)
    let ?f = "arp_reply_frame (mac_address nic) (field p 22 6) (field p 28 4)"
    have "length ?f = 60" by (simp add: arp_reply_frame_def)
    then have "?f \<noteq> []" "heap_used (live s2) + length ?f + 4096 \<le> sz" using assms(5) nic2 by auto
    from tx_frame_step [OF assms(1) ok2 nic2(1) this(2,1), of 60] obtain nic' s3 where
      s3: "tx_frame e ?f 60 nic s2 = Some (nic', s3)" "sent ?f 60 s2 (s3\<lparr>net_card := Some nic'\<rparr>)"
      "net_step e base sz (60 + 4096) s2 (s3\<lparr>net_card := Some nic'\<rparr>)" using \<open>length ?f = 60\<close> by auto
    have "sent ?f 60 ?s (s3\<lparr>net_card := Some nic'\<rparr>)" using print_sent [OF same2 s3(2)] .
    then have snt: "sent ?f 60 s (s3\<lparr>net_card := Some nic'\<rparr>)" by (simp add: sent_def)
    have step3: "net_step e base sz (60 + 4096) ?s (s3\<lparr>net_card := Some nic'\<rparr>)"
      using net_step_trans [OF step2 s3(3)] by simp
    have step1: "net_step e base sz (60 + 4096) ?s s1" using net_step_mono [OF s1(2)] by simp
    have step0: "net_step e base sz (60 + 4096) ?s ?s" using net_step_refl [OF ok] .
    from True show ?thesis
      using s1(1,3) s2(1) s3(1) nic2(1) snt step0 step1 step3
      unfolding poll_arp_def bits bind.simps Let_def lr [symmetric]
      by (auto simp: arp_asks_us_def my_ip_def)
  qed
qed

section \<open>Polling\<close>

definition rx_slot :: "e1000 \<Rightarrow> u64" where
  "rx_slot nic = rx_ring_ptr nic + of_nat (16 * current_rx_bucket nic)"

text \<open>The descriptor at the head of the receive ring, and the packet it describes.\<close>

definition rx_head :: "e1000 \<Rightarrow> memory \<Rightarrow> rx_descriptor" where
  "rx_head nic m = rx_decode (load_bytes m (rx_slot nic) 16)"

definition rx_packet :: "e1000 \<Rightarrow> memory \<Rightarrow> u8 list" where
  "rx_packet nic m = load_bytes m (rx_buffer_address (rx_head nic m)) (unat (rx_length (rx_head nic m)))"

lemma length_rx_packet [simp]: "length (rx_packet nic m) = unat (rx_length (rx_head nic m))"
  by (simp add: rx_packet_def)

lemma rx_slot_ops:
  assumes "net_ok e base sz s" and "heap_ok e base sz" and "net_card s = Some nic"
  shows "wmul (of_nat (current_rx_bucket nic)) 16 = Some (of_nat (16 * current_rx_bucket nic) :: u64)"
    and "wadd (rx_ring_ptr nic) (of_nat (16 * current_rx_bucket nic)) = Some (rx_slot nic)"
    and "in_heap base sz (rx_ring_ptr nic, 512)" and "current_rx_bucket nic < 32"
proof -
  have nic: "nic_ok base sz (live s) nic" "heap_inv e base sz (live s)"
    using assms(1,3) by (auto simp: net_ok_def)
  then show ring: "in_heap base sz (rx_ring_ptr nic, 512)" and b: "current_rx_bucket nic < 32"
    by (auto simp: nic_ok_def heap_inv_def)
  from b show "wmul (of_nat (current_rx_bucket nic)) 16 = Some (of_nat (16 * current_rx_bucket nic) :: u64)"
    by (simp add: wmul_def unat_of_nat take_bit_nat_eq_self_iff)
  show "wadd (rx_ring_ptr nic) (of_nat (16 * current_rx_bucket nic)) = Some (rx_slot nic)"
    unfolding rx_slot_def using ring b assms(2)
    by (intro wadd_small) (auto simp: in_heap_def heap_ok_def)
qed

lemma poll_read:
  assumes "net_ok e base sz s" and "heap_ok e base sz" and "net_card s = Some nic"
  shows "poll e nic s =
    (if rx_status (rx_head nic (mem (hw e s))) AND 1 \<noteq> 0 then do {
       _ \<leftarrow> raw_parts (rx_buffer_address (rx_head nic (mem (hw e s))));
       let packet = rx_packet nic (mem (hw e s));
       ethertype \<leftarrow> get_be16 packet 12;
       s \<leftarrow> print_str (lit ''> NET [RAW]: HARDWARE TRIGGERED! LEN: '' @ dec_digits (length packet)
         @ lit '' ETHERTYPE: 0x'' @ hex4 ethertype @ [10]) 0x8B5CF6 (hw e s);
       s \<leftarrow> (if ethertype = 0x0806 then poll_arp e packet s
         else if ethertype = 0x0800 then handle_incoming_packet e packet s
         else Some s);
       let s = s\<lparr>mem := store_le (mem s) (rx_slot nic + 12) 1 (0 :: u8)\<rparr>;
       nic \<leftarrow> net_card s;
       let old_bucket = current_rx_bucket nic;
       next_bucket \<leftarrow> uadd old_bucket 1;
       let nic = nic\<lparr>current_rx_bucket := next_bucket mod 32\<rparr>;
       s \<leftarrow> write_register nic 0x2818 (of_nat old_bucket) s;
       Some (True, s\<lparr>net_card := Some nic\<rparr>)
     } else Some (False, hw e s))"
  unfolding poll_def rx_slot_ops(1,2) [OF assms] bind.simps volatile_read_rx_def Let_def prod.case
    rx_head_def [symmetric] rx_packet_def length_load_bytes by (simp add: raw_parts_def)

text \<open>The common tail: hand the descriptor back and advance.\<close>

lemma poll_tail:
  assumes "heap_ok e base sz" and "net_ok e base sz t" and "net_card t = Some nic'"
    and "rx_ring_ptr nic' = rx_ring_ptr nic" and "current_rx_bucket nic' = current_rx_bucket nic"
    and "bar0_address nic' = bar0_address nic"
  defines "t' \<equiv> t\<lparr>mem := store_le (mem t) (rx_slot nic + 12) 1 (0 :: u8)\<rparr>"
    and "nic2 \<equiv> nic'\<lparr>current_rx_bucket := Suc (current_rx_bucket nic) mod 32\<rparr>"
  shows "\<exists>s'. write_register nic2 0x2818 (of_nat (current_rx_bucket nic)) t' = Some s'
    \<and> net_ok e base sz (s'\<lparr>net_card := Some nic2\<rparr>) \<and> load_le (mem s') (rx_slot nic + 12) 1 = (0 :: u8)
    \<and> io_trace s' = io_trace t @ [Mmio32 (bar0_address nic + 0x2818) (of_nat (current_rx_bucket nic))]
    \<and> arp_table s' = arp_table t \<and> live s' = live t \<and> http_payload s' = http_payload t \<and> same_rest t s'
    \<and> (\<forall>i<32. i \<noteq> current_rx_bucket nic \<longrightarrow>
        load_bytes (mem s') (rx_ring_ptr nic + of_nat (16 * i)) 16 = load_bytes (mem t) (rx_ring_ptr nic + of_nat (16 * i)) 16)"
proof -
  have nic: "nic_ok base sz (live t) nic'" using assms(2,3) by (auto simp: net_ok_def)
  then have mm: "nic_mmio base sz nic2" by (simp add: nic_ok_def nic_mmio_def nic2_def)
  define s' where "s' = volatile_write32 (bar0_address nic + 0x2818) (of_nat (current_rx_bucket nic)) t'"
  have w: "write_register nic2 0x2818 (of_nat (current_rx_bucket nic)) t' = Some s'"
    using write_register_ok [OF mm, of "0x2818" _ t'] by (simp add: s'_def nic2_def assms(6))
  have ring: "in_heap base sz (rx_ring_ptr nic2, 512)" "current_rx_bucket nic < 32" "base + sz < 2 ^ 64"
    using rx_slot_ops(3,4) [OF assms(2,1,3)] assms(1,5) by (auto simp: nic2_def heap_ok_def)
  have "rx_slot nic + 12 = rx_ring_ptr nic2 + of_nat (16 * current_rx_bucket nic + 12)"
    by (simp add: rx_slot_def nic2_def assms(4))
  then have "load_bytes (mem s') (rx_slot nic + 12) 1 = load_bytes (mem t') (rx_slot nic + 12) 1"
    using register_keeps [OF mm, of "0x2818" "rx_ring_ptr nic2" 512 "16 * current_rx_bucket nic + 12" 1 "mem t'"] ring
    by (simp add: s'_def volatile_write32_def nic2_def assms(6) add.assoc)
  then have "load_le (mem s') (rx_slot nic + 12) 1 = (load_le (mem t') (rx_slot nic + 12) 1 :: u8)"
    by (simp add: load_le_def)
  also have "\<dots> = 0" unfolding t'_def by (simp del: One_nat_def)
  finally have z: "load_le (mem s') (rx_slot nic + 12) 1 = (0 :: u8)" .
  have "nic_ok base sz (live t) nic2" using nic by (auto simp: nic_ok_def nic_mmio_def nic2_def)
  then have "net_ok e base sz (s'\<lparr>net_card := Some nic2\<rparr>)"
    using assms(2) by (auto simp: net_ok_def gfx_ok_def s'_def volatile_write32_def t'_def)
  moreover have "load_bytes (mem s') (rx_ring_ptr nic + of_nat (16 * i)) 16 = load_bytes (mem t) (rx_ring_ptr nic + of_nat (16 * i)) 16"
    if i: "i < 32" "i \<noteq> current_rx_bucket nic" for i
  proof -
    have "load_bytes (mem s') (rx_ring_ptr nic2 + of_nat (16 * i)) 16 = load_bytes (mem t') (rx_ring_ptr nic2 + of_nat (16 * i)) 16"
      using register_keeps [OF mm, of "0x2818" "rx_ring_ptr nic2" 512 "16 * i" 16 "mem t'"] ring i(1)
      by (simp add: s'_def volatile_write32_def nic2_def assms(6))
    moreover have "apart (rx_ring_ptr nic + of_nat (16 * current_rx_bucket nic + 12)) 1 (rx_ring_ptr nic + of_nat (16 * i)) 16"
      using apart_offsets [of "16 * i" 16 "16 * current_rx_bucket nic + 12" 1 "rx_ring_ptr nic"]
        apart_offsets [of "16 * current_rx_bucket nic + 12" 1 "16 * i" 16 "rx_ring_ptr nic"] i ring(2)
      by (cases "i < current_rx_bucket nic") (auto simp: apart_sym)
    then have "apart (rx_slot nic + 12) 1 (rx_ring_ptr nic + of_nat (16 * i)) 16" by (simp add: rx_slot_def add.assoc)
    ultimately show ?thesis by (simp add: t'_def nic2_def assms(4) del: of_nat_mult)
  qed
  ultimately show ?thesis using w z by (simp add: s'_def volatile_write32_def t'_def same_rest_def)
qed

lemma reply_size_60: "60 \<le> reply_size s"
  by (simp add: reply_size_def http_body_def Let_def)

lemma net_ok_hw: "hw_mem_only e \<Longrightarrow> net_ok e base sz s \<Longrightarrow> net_ok e base sz (hw e s) \<and> net_card (hw e s) = net_card s
    \<and> arp_table (hw e s) = arp_table s \<and> reply_size (hw e s) = reply_size s \<and> live (hw e s) = live s
    \<and> io_trace (hw e s) = io_trace s \<and> http_payload (hw e s) = http_payload s"
proof -
  assume "hw_mem_only e" and ok: "net_ok e base sz s"
  then obtain m where "hw e s = s\<lparr>mem := m\<rparr>" unfolding hw_mem_only_def by metis
  with ok show ?thesis by (auto simp: net_ok_def gfx_ok_def reply_size_def)
qed

lemma hw_more: "hw_mem_only e \<Longrightarrow> same_rest s (hw e s)"
proof -
  assume "hw_mem_only e"
  then obtain m where m: "hw e s = s\<lparr>mem := m\<rparr>" unfolding hw_mem_only_def by metis
  show ?thesis unfolding m by (simp add: same_rest_def)
qed

lemma dispatch_step:
  assumes "heap_ok e base sz" and "net_ok e base sz s" and "net_card s = Some nic" and "42 \<le> length p"
    and "reply_room sz s"
  shows "\<exists>t. (if eth = (0x0806 :: u16) then poll_arp e p s else if eth = 0x0800 then handle_incoming_packet e p s else Some s) = Some t
    \<and> net_step e base sz (reply_size s + 4096)
        (if eth = 0x0806 then s\<lparr>arp_table := arp_learn p (arp_table s)\<rparr> else s) t"
proof -
  have "heap_used (live s) + 60 + 4096 \<le> sz" using assms(5) reply_size_60 [of s] by (simp add: reply_room_def)
  from poll_arp_step [OF assms(1-4) this] reply_size_60 [of s]
  have "\<exists>t. poll_arp e p s = Some t
    \<and> net_step e base sz (reply_size s + 4096) (s\<lparr>arp_table := arp_learn p (arp_table s)\<rparr>) t"
    by (metis net_step_mono add_le_cancel_right)
  with handle_packet_step [OF assms(1,2,5), of p] net_step_refl [OF assms(2)] show ?thesis by auto
qed

lemma poll_step:
  assumes "heap_ok e base sz" and "hw_mem_only e" and "net_ok e base sz s" and "reply_room sz s"
    and "net_card s = Some nic" and "rx_status (rx_head nic (mem (hw e s))) AND 1 \<noteq> 0"
    and "42 \<le> unat (rx_length (rx_head nic (mem (hw e s))))"
    and "rx_buffer_address (rx_head nic (mem (hw e s))) \<noteq> 0"
  shows "\<exists>s' nic'. poll e nic s = Some (True, s') \<and> net_ok e base sz s' \<and> net_card s' = Some nic'
    \<and> current_rx_bucket nic' = Suc (current_rx_bucket nic) mod 32
    \<and> load_le (mem s') (rx_slot nic + 12) 1 = (0 :: u8)
    \<and> last (io_trace s') = Mmio32 (bar0_address nic + 0x2818) (of_nat (current_rx_bucket nic))
    \<and> arp_table s' = (if arp_word (rx_packet nic (mem (hw e s))) 12 = 0x0806
        then arp_learn (rx_packet nic (mem (hw e s))) (arp_table s) else arp_table s)
    \<and> http_payload s' = http_payload s \<and> same_rest s s'
    \<and> heap_used (live s') \<le> heap_used (live s) + (reply_size s + 4096) \<and> rx_ring_ptr nic' = rx_ring_ptr nic
    \<and> (\<forall>i<32. i \<noteq> current_rx_bucket nic \<longrightarrow>
        load_bytes (mem s') (rx_ring_ptr nic + of_nat (16 * i)) 16 = load_bytes (mem (hw e s)) (rx_ring_ptr nic + of_nat (16 * i)) 16)"
proof -
  let ?s = "hw e s" and ?p = "rx_packet nic (mem (hw e s))"
  let ?eth = "arp_word ?p 12"
  have h: "net_ok e base sz ?s" "net_card ?s = Some nic" "arp_table ?s = arp_table s" "reply_room sz ?s"
    using net_ok_hw [OF assms(2,3)] assms(4,5) by (auto simp: reply_room_def)
  let ?tap = "lit ''> NET [RAW]: HARDWARE TRIGGERED! LEN: '' @ dec_digits (length ?p) @ lit '' ETHERTYPE: 0x'' @ hex4 ?eth @ [10]"
  obtain s1 where s1: "print_str ?tap 0x8B5CF6 ?s = Some s1" "net_step e base sz 0 ?s s1" "same_but_terminal ?s s1"
    using net_print [OF h(1)] by blast
  have ok1: "net_ok e base sz s1" "net_card s1 = Some nic" "arp_table s1 = arp_table s"
    using s1(2,3) h(2,3) by (auto simp: net_step_def same_but_terminal_def)
  have room1: "reply_room sz s1" using reply_room_step [OF s1(2) h(4)] by simp
  have len: "42 \<le> length ?p" using assms(7) by simp
  from dispatch_step [OF assms(1) ok1(1,2) len room1, of ?eth] obtain t where
    t: "(if ?eth = 0x0806 then poll_arp e ?p s1 else if ?eth = 0x0800 then handle_incoming_packet e ?p s1 else Some s1) = Some t"
    "net_step e base sz (reply_size s1 + 4096) (if ?eth = 0x0806 then s1\<lparr>arp_table := arp_learn ?p (arp_table s1)\<rparr> else s1) t"
    by blast
  obtain c where c: "net_card t = Some (nic\<lparr>current_tx_bucket := c\<rparr>)"
    using t(2) ok1(2) by (auto simp: net_step_def split: if_splits)
  have okt: "net_ok e base sz t" and arp: "arp_table t = (if ?eth = 0x0806 then arp_learn ?p (arp_table s) else arp_table s)"
    using t(2) ok1(3) by (auto simp: net_step_def split: if_splits)
  have u: "uadd (current_rx_bucket nic) 1 = Some (Suc (current_rx_bucket nic))"
    using rx_slot_ops(4) [OF assms(3,1,5)] by (simp add: uadd_def)
  from poll_tail [OF assms(1) okt c, of nic] obtain s2 where
    s2: "write_register (nic\<lparr>current_tx_bucket := c, current_rx_bucket := Suc (current_rx_bucket nic) mod 32\<rparr>) 0x2818
        (of_nat (current_rx_bucket nic)) (t\<lparr>mem := store_le (mem t) (rx_slot nic + 12) 1 (0 :: u8)\<rparr>) = Some s2"
    "net_ok e base sz (s2\<lparr>net_card := Some (nic\<lparr>current_tx_bucket := c, current_rx_bucket := Suc (current_rx_bucket nic) mod 32\<rparr>)\<rparr>)"
    "load_le (mem s2) (rx_slot nic + 12) 1 = (0 :: u8)"
    "io_trace s2 = io_trace t @ [Mmio32 (bar0_address nic + 0x2818) (of_nat (current_rx_bucket nic))]"
    "arp_table s2 = arp_table t" "live s2 = live t" "http_payload s2 = http_payload t" "same_rest t s2"
    "\<forall>i<32. i \<noteq> current_rx_bucket nic \<longrightarrow>
        load_bytes (mem s2) (rx_ring_ptr nic + of_nat (16 * i)) 16 = load_bytes (mem t) (rx_ring_ptr nic + of_nat (16 * i)) 16" by auto
  have "nic_ok base sz (live ?s) nic" using h(1,2) by (auto simp: net_ok_def)
  then have blk: "(rx_ring_ptr nic, 512) \<in> set (live ?s)" by (simp add: nic_ok_def)
  then have "(rx_ring_ptr nic, 512) \<in> set (live s1)" using s1(2) by (auto simp: net_step_def)
  then have ring: "load_bytes (mem t) (rx_ring_ptr nic) 512 = load_bytes (mem ?s) (rx_ring_ptr nic) 512"
    using s1(2) t(2) h(2) ok1(2) blk by (fastforce simp: net_step_def split: if_splits)
  have slots: "load_bytes (mem t) (rx_ring_ptr nic + of_nat (16 * i)) 16 = load_bytes (mem ?s) (rx_ring_ptr nic + of_nat (16 * i)) 16" if "i < 32" for i
    using that load_bytes_field [OF ring, of "16 * i" 16] load_bytes_field [OF refl, of "16 * i" 16 512 "mem ?s" "rx_ring_ptr nic"] by simp
  have more: "same_rest s s2"
    using s2(8) dispatch_more [OF t(1)] print_more [of ?s ?tap "0x8B5CF6", unfolded keeps_more_def s1(1)] hw_more [OF assms(2), of s] by (auto simp: same_rest_def)
  have eth: "get_be16 ?p 12 = Some ?eth" using len by (intro get_be16_ok) simp
  have "poll e nic s = Some (True, s2\<lparr>net_card := Some (nic\<lparr>current_tx_bucket := c, current_rx_bucket := Suc (current_rx_bucket nic) mod 32\<rparr>)\<rparr>)"
    unfolding poll_read [OF assms(3,1,5)] Let_def eth bind.simps s1(1) t(1)
    using assms(6,8) c u s2(1) by (simp add: raw_parts_def del: uadd_Some_iff)
  moreover have "http_payload s2 = http_payload s" "heap_used (live s2) \<le> heap_used (live s) + (reply_size s + 4096)"
    using t(2) s2(6,7) s1(2) net_ok_hw [OF assms(2,3)] reply_room_step [OF s1(2) h(4)]
    by (auto simp: net_step_def split: if_splits)
  ultimately show ?thesis using s2 slots arp more by (auto simp: same_rest_def)
qed

text \<open>When the card has delivered nothing, polling leaves the kernel as the card left it.\<close>

lemma poll_idle:
  assumes "heap_ok e base sz" and "net_ok e base sz s" and "net_card s = Some nic"
    and "rx_status (rx_head nic (mem (hw e s))) AND 1 = 0"
  shows "poll e nic s = Some (False, hw e s)"
  unfolding poll_read [OF assms(2,1,3)] using assms(4) by simp

section \<open>Properties\<close>

text \<open>C17. When the card has filled the descriptor at the head of the receive ring
  with a frame of at least 42 bytes in a buffer, whatever its contents, \<open>poll\<close> returns true without
  panicking and keeps the network invariant; the ring position moves on by one modulo 32, the
  descriptor is handed back (its status cleared and the tail register set to it, as the last
  device access), and exactly an ARP frame teaches the ARP cache its sender.\<close>

theorem poll_receives:
  assumes "heap_ok e base sz" and "hw_mem_only e" and "net_ok e base sz s" and "reply_room sz s"
    and "net_card s = Some nic" and "rx_status (rx_head nic (mem (hw e s))) AND 1 \<noteq> 0"
    and "42 \<le> unat (rx_length (rx_head nic (mem (hw e s))))"
    and "rx_buffer_address (rx_head nic (mem (hw e s))) \<noteq> 0"
  shows "\<exists>s' nic'. poll e nic s = Some (True, s') \<and> net_ok e base sz s' \<and> net_card s' = Some nic'
    \<and> current_rx_bucket nic' = Suc (current_rx_bucket nic) mod 32
    \<and> load_le (mem s') (rx_slot nic + 12) 1 = (0 :: u8)
    \<and> last (io_trace s') = Mmio32 (bar0_address nic + 0x2818) (of_nat (current_rx_bucket nic))
    \<and> arp_table s' = (if arp_word (rx_packet nic (mem (hw e s))) 12 = 0x0806
        then arp_learn (rx_packet nic (mem (hw e s))) (arp_table s) else arp_table s)"
  using poll_step [OF assms] by blast

text \<open>A machine whose card has delivered a frame at the last position of the ring.\<close>

definition demo_rx :: "u16 \<Rightarrow> memory" where
  "demo_rx n = store_bytes (\<lambda>_. 0) (rx_slot demo_nic)
     (rx_encode \<lparr>rx_buffer_address = 0x200000, rx_length = n, rx_checksum = 0, rx_status = 3, rx_errors = 0, rx_special = 0\<rparr>)"

lemma demo_rx_head: "rx_head demo_nic (demo_rx n)
    = \<lparr>rx_buffer_address = 0x200000, rx_length = n, rx_checksum = 0, rx_status = 3, rx_errors = 0, rx_special = 0\<rparr>"
proof -
  have "load_bytes (demo_rx n) (rx_slot demo_nic) (length (rx_encode \<lparr>rx_buffer_address = 0x200000, rx_length = n,
      rx_checksum = 0, rx_status = 3, rx_errors = 0, rx_special = 0\<rparr>))
    = rx_encode \<lparr>rx_buffer_address = 0x200000, rx_length = n, rx_checksum = 0, rx_status = 3, rx_errors = 0, rx_special = 0\<rparr>"
    unfolding demo_rx_def by (rule load_store_bytes_same) simp
  then show ?thesis by (simp add: rx_head_def)
qed

lemma demo_rx_net: "net_ok bump_env 0x100000 0x200000 (demo_net\<lparr>mem := demo_rx n\<rparr>)"
  "reply_room 0x200000 (demo_net\<lparr>mem := demo_rx n\<rparr>)" "net_card (demo_net\<lparr>mem := demo_rx n\<rparr>) = Some demo_nic"
  using demo_net_ok demo_room by (auto simp: net_ok_def gfx_ok_def reply_room_def reply_size_def demo_net_def)

lemma bump_hw_id [simp]: "hw bump_env s = s"
  by (simp add: bump_env_def)

theorem poll_receives_witness:
  "\<exists>s' nic'. poll bump_env demo_nic (demo_net\<lparr>mem := demo_rx 64\<rparr>) = Some (True, s')
    \<and> net_card s' = Some nic' \<and> current_rx_bucket nic' = 0"
proof -
  have "\<exists>s' nic'. poll bump_env demo_nic (demo_net\<lparr>mem := demo_rx 64\<rparr>) = Some (True, s')
      \<and> net_ok bump_env 0x100000 0x200000 s' \<and> net_card s' = Some nic'
      \<and> current_rx_bucket nic' = Suc (current_rx_bucket demo_nic) mod 32
      \<and> load_le (mem s') (rx_slot demo_nic + 12) 1 = (0 :: u8)
      \<and> last (io_trace s') = Mmio32 (bar0_address demo_nic + 0x2818) (of_nat (current_rx_bucket demo_nic))
      \<and> arp_table s' = (if arp_word (rx_packet demo_nic (mem (hw bump_env (demo_net\<lparr>mem := demo_rx 64\<rparr>)))) 12 = 0x0806
          then arp_learn (rx_packet demo_nic (mem (hw bump_env (demo_net\<lparr>mem := demo_rx 64\<rparr>)))) (arp_table (demo_net\<lparr>mem := demo_rx 64\<rparr>))
          else arp_table (demo_net\<lparr>mem := demo_rx 64\<rparr>))"
    by (rule poll_receives [OF bump_heap_ok bump_hw demo_rx_net]) (simp_all add: demo_rx_head)
  moreover have "Suc (current_rx_bucket demo_nic) mod 32 = 0" by (simp add: demo_nic_def)
  ultimately show ?thesis by metis
qed


text \<open>Two nodes running this kernel understand each other: a request built by \<open>arp_request\<close> is a
  request for the address asked, and teaches the receiver the sender's addresses.\<close>

lemma arp_request_understood:
  assumes "length mac = 6"
  shows "arp_asks_us (arp_request_frame mac my_ip)"
    and "arp_learn (arp_request_frame mac ip) t = arp_insert my_ip mac t"
proof -
  obtain a b c d e f where mac: "mac = [a, b, c, d, e, f]" using assms by (elim length6E)
  show "arp_asks_us (arp_request_frame mac my_ip)"
    by (simp add: arp_asks_us_def arp_request_frame_def resize60_def mac my_ip_def arp_word_def field_def)
  show "arp_learn (arp_request_frame mac ip) t = arp_insert my_ip mac t"
    by (simp add: arp_learn_def arp_request_frame_def resize60_def mac my_ip_def arp_word_def field_def)
qed


text \<open>C36. The receive path does not check the length of a frame before it reads
  the ethertype: a descriptor that reports fewer than 14 bytes makes \<open>poll\<close> panic, and so does
  an ARP frame of fewer than 22 bytes.\<close>

theorem poll_short_frame:
  assumes "heap_ok e base sz" and "hw_mem_only e" and "net_ok e base sz s"
    and "net_card s = Some nic" and "rx_status (rx_head nic (mem (hw e s))) AND 1 \<noteq> 0"
    and "unat (rx_length (rx_head nic (mem (hw e s)))) < 14
      \<or> arp_word (rx_packet nic (mem (hw e s))) 12 = 0x0806 \<and> unat (rx_length (rx_head nic (mem (hw e s)))) < 22"
  shows "poll e nic s = None"
proof (cases "unat (rx_length (rx_head nic (mem (hw e s)))) < 14")
  case True
  then have "get_be16 (rx_packet nic (mem (hw e s))) 12 = None"
    by (auto simp: get_be16_def nth_chk_def)
  with assms(5) show ?thesis unfolding poll_read [OF assms(3,1,4)] Let_def by (simp add: raw_parts_def)
next
  case False
  let ?p = "rx_packet nic (mem (hw e s))"
  have "get_be16 ?p 12 = Some 0x0806" using False assms(6) by (simp add: get_be16_ok)
  moreover have "get_be16 ?p 20 = None" using False assms(6) by (auto simp: get_be16_def nth_chk_def)
  then have "poll_arp e ?p t = None" for t by (auto simp: poll_arp_def bind_eq_None_conv)
  ultimately show ?thesis using assms(5)
    unfolding poll_read [OF assms(3,1,4)] Let_def by (auto simp: raw_parts_def bind_eq_None_conv)
qed

theorem poll_short_frame_witness:
  "poll bump_env demo_nic (demo_net\<lparr>mem := demo_rx 13\<rparr>) = None"
  by (rule poll_short_frame [OF bump_heap_ok bump_hw demo_rx_net(1,3)]) (simp_all add: demo_rx_head)

text \<open>\<open>arp_request\<close> hands the card exactly one 60-byte frame, the broadcast
  ARP request for the address, and keeps the network invariant; a node running this kernel that
  receives such a request for its own address recognises it and learns the sender.\<close>

lemma arp_request_sends:
  assumes "heap_ok e base sz" and "net_ok e base sz s" and "net_card s = Some nic"
    and "heap_used (live s) + 60 + 4096 \<le> sz"
  shows "\<exists>nic' s'. arp_request e ip nic s = Some (nic', s') \<and> net_ok e base sz (s'\<lparr>net_card := Some nic'\<rparr>)
    \<and> sent (arp_request_frame (mac_address nic) ip) 60 s (s'\<lparr>net_card := Some nic'\<rparr>)
    \<and> arp_asks_us (arp_request_frame (mac_address nic) my_ip)
    \<and> (\<forall>t. arp_learn (arp_request_frame (mac_address nic) ip) t = arp_insert my_ip (mac_address nic) t)"
proof -
  let ?f = "arp_request_frame (mac_address nic) ip"
  have len: "length ?f = 60" by (simp add: arp_request_frame_def)
  then have "?f \<noteq> []" "heap_used (live s) + length ?f + 4096 \<le> sz" using assms(4) by auto
  from tx_frame_step [OF assms(1-3) this(2,1), of 60] obtain nic' s1 where
    s1: "tx_frame e ?f 60 nic s = Some (nic', s1)" "sent ?f 60 s (s1\<lparr>net_card := Some nic'\<rparr>)"
    "net_step e base sz (60 + 4096) s (s1\<lparr>net_card := Some nic'\<rparr>)" using len by auto
  have g: "gfx_ok s1" using s1(3) by (simp add: net_step_def net_ok_def gfx_ok_def)
  from print_str_ok [OF g] obtain s2 where s2: "print_str (10 # lit ''NET: ARP Request Broadcasted to Network.'' @ [10]) 0x3B82F6 s1 = Some s2"
    "gfx_ok s2" "same_but_terminal s1 s2" by blast
  have "same_but_terminal (s1\<lparr>net_card := Some nic'\<rparr>) (s2\<lparr>net_card := Some nic'\<rparr>)"
  proof -
    obtain lay tx ty v where "s2 = s1\<lparr>server := (server s1)\<lparr>terminal_layer := lay\<rparr>, term_x := tx, term_y := ty, vram := v\<rparr>"
      "below_screen_same (server s1) (vram s1) v" using s2(3) by (auto simp: same_but_terminal_def)
    then show ?thesis unfolding same_but_terminal_def
      by (intro exI [of _ lay] exI [of _ tx] exI [of _ ty] exI [of _ v]) simp
  qed
  then have "sent ?f 60 s (s2\<lparr>net_card := Some nic'\<rparr>)" using sent_print [OF s1(2)] by blast
  moreover have "net_ok e base sz (s2\<lparr>net_card := Some nic'\<rparr>)"
    using s1(3) s2(2,3) by (auto simp: net_step_def net_ok_def same_but_terminal_def gfx_ok_def)
  moreover have "length (mac_address nic) = 6" using assms(2,3) by (auto simp: net_ok_def nic_ok_def)
  ultimately show ?thesis using s1(1) s2(1) by (simp add: arp_request_def arp_request_understood)
qed

text \<open>The UDP broadcast frame is not a valid datagram: its IPv4 header
  claims 58 bytes and its UDP header 38, while the frame holds 46 and 26, and the IPv4 header
  checksum, left at zero, does not verify.\<close>

lemma udp_broadcast_malformed:
  "length udp_frame - 14 = 46 \<and> unat (from_be16 (ip_total_length (ipv4_view (drop 14 udp_frame)))) = 58
    \<and> length udp_frame - 34 = 26 \<and> unat (of_be (field udp_frame 38 2) :: u16) = 38 \<and> \<not> ip_verifies udp_frame"
proof (intro conjI)
  show "length udp_frame - 14 = 46" "length udp_frame - 34 = 26" by (simp_all add: udp_frame_def)
  show "unat (from_be16 (ip_total_length (ipv4_view (drop 14 udp_frame)))) = 58" by code_simp
  show "unat (of_be (field udp_frame 38 2) :: u16) = 38" by code_simp
  have "be_sum (field udp_frame 14 20) = 0x2D158" by (simp add: udp_frame_def field_def)
  then show "\<not> ip_verifies udp_frame" by (simp add: ip_verifies_def ones_fold_def)
qed

end
