(* ===== verification/NicInit.thy ===== *)
theory NicInit
  imports Poll
begin

text \<open>
  Bringing up the network card (\<open>src/src/main.rs\<close>, \<open>_start\<close>): the receive ring with its
  buffers, the transmit ring, and the state the driver's invariant asks for.
\<close>

definition nic_setup :: "('a net_scheme) env \<Rightarrow> u64 option \<Rightarrow> 'a net_scheme \<Rightarrow> 'a net_scheme option" where
  "nic_setup e e1000_bar0 s =
     (case e1000_bar0 of
        None \<Rightarrow> Some s
      | Some bar0 \<Rightarrow> do {
          (nic, s) \<leftarrow> init_rx_ring e (e1000_new bar0) s;
          (nic, s) \<leftarrow> init_tx_ring e nic s;
          Some (s\<lparr>net_card := Some nic\<rparr>)
        })"

section \<open>The receive ring\<close>

definition empty_rx :: "u64 \<Rightarrow> rx_descriptor" where
  "empty_rx b = \<lparr>rx_buffer_address = b, rx_length = 0, rx_checksum = 0, rx_status = 0, rx_errors = 0, rx_special = 0\<rparr>"

text \<open>The first \<open>k\<close> entries of the ring describe the buffers \<open>bs\<close>, which are live blocks, all
  different.\<close>

definition rx_ready :: "u64 \<Rightarrow> u64 list \<Rightarrow> 'a machine_scheme \<Rightarrow> bool" where
  "rx_ready ring bs s \<longleftrightarrow> distinct bs \<and> (\<forall>b\<in>set bs. (b, 2048) \<in> set (live s))
     \<and> (\<forall>i<length bs. load_bytes (mem s) (ring + of_nat (16 * i)) 16 = rx_encode (empty_rx (bs ! i)))"

lemma apart_irrefl: "0 < n \<Longrightarrow> \<not> apart a n a k"
  by (simp add: apart_def)

lemma rx_fill_step:
  assumes "heap_ok e base sz" and "heap_inv e base sz (live s)" and "heap_used (live s) + 2048 + 4096 \<le> sz"
    and "(ring, 512) \<in> set (live s)" and "rx_ready ring bs s" and "length bs < 32"
  shows "\<exists>b m. rx_fill e ring (length bs) s = Some (s\<lparr>mem := m, live := (b, 2048) # live s\<rparr>)
    \<and> heap_inv e base sz ((b, 2048) # live s)
    \<and> rx_ready ring (bs @ [b]) (s\<lparr>mem := m, live := (b, 2048) # live s\<rparr>)"
proof -
  let ?k = "length bs" and ?z = "replicate 2048 (0 :: u8)"
  have "heap_used (live s) + length ?z + 4096 \<le> sz" using assms(3) by simp
  from leak_bytes_ok [OF assms(1,2) this, of 1] obtain b where
    b: "leak_bytes e 1 ?z s = Some (b, s\<lparr>mem := store_bytes (mem s) b ?z, live := (b, 2048) # live s\<rparr>)"
    "heap_inv e base sz ((b, 2048) # live s)" "\<forall>(c, k)\<in>set (live s). apart b 2048 c k" by auto
  define m where "m = store_bytes (store_bytes (mem s) b ?z) (ring + of_nat (16 * ?k)) (rx_encode (empty_rx b))"
  let ?s = "s\<lparr>mem := m, live := (b, 2048) # live s\<rparr>"
  have run: "rx_fill e ring ?k s = Some ?s"
    using b(1) by (simp add: rx_fill_def m_def empty_rx_def del: One_nat_def of_nat_mult)
  have "b \<notin> set bs"
  proof
    assume "b \<in> set bs"
    with assms(5) b(3) have "apart b 2048 b 2048" by (auto simp: rx_ready_def)
    then show False by (simp add: apart_irrefl)
  qed
  moreover have "load_bytes m (ring + of_nat (16 * i)) 16 = rx_encode (empty_rx ((bs @ [b]) ! i))" if i: "i < Suc ?k" for i
  proof (cases "i = ?k")
    case True
    have "load_bytes m (ring + of_nat (16 * ?k)) (length (rx_encode (empty_rx b))) = rx_encode (empty_rx b)"
      unfolding m_def by (rule load_store_bytes_same) simp
    with True show ?thesis by simp
  next
    case False
    with i have "i < ?k" by simp
    have "apart (ring + of_nat (16 * i)) 16 (ring + of_nat (16 * ?k)) 16"
      using \<open>i < ?k\<close> assms(6) by (intro apart_offsets) auto
    then have "apart (ring + of_nat (16 * ?k)) (length (rx_encode (empty_rx b))) (ring + of_nat (16 * i)) 16"
      by (simp add: apart_sym)
    moreover have "apart b 2048 ring 512" using b(3) assms(4) by auto
    then have "apart b (length ?z) (ring + of_nat (16 * i)) 16"
      using \<open>i < ?k\<close> assms(6) apart_sub [of b 2048 ring 512 "16 * i" 16] by simp
    ultimately have "load_bytes m (ring + of_nat (16 * i)) 16 = load_bytes (mem s) (ring + of_nat (16 * i)) 16"
      unfolding m_def by (simp only: apart_load)
    with \<open>i < ?k\<close> assms(5) show ?thesis by (simp add: rx_ready_def nth_append)
  qed
  ultimately have "rx_ready ring (bs @ [b]) ?s"
    using assms(5) by (auto simp: rx_ready_def)
  with run b(2) show ?thesis by blast
qed

lemma rx_fill_all:
  assumes "heap_ok e base sz" and "heap_inv e base sz (live s)" and "(ring, 512) \<in> set (live s)"
    and "heap_used (live s) + k * 6144 \<le> sz" and "k \<le> 32"
  shows "\<exists>bs m ls. foldM (rx_fill e ring) [0..<k] s = Some (s\<lparr>mem := m, live := ls @ live s\<rparr>)
    \<and> heap_inv e base sz (ls @ live s) \<and> heap_used (ls @ live s) = heap_used (live s) + k * 6144
    \<and> length bs = k \<and> rx_ready ring bs (s\<lparr>mem := m, live := ls @ live s\<rparr>)"
  using assms(4,5)
proof (induction k)
  case 0
  have "rx_ready ring [] (s\<lparr>mem := mem s, live := [] @ live s\<rparr>)" by (simp add: rx_ready_def)
  with assms(2) show ?case by (intro exI [of _ "[]"] exI [of _ "mem s"]) simp
next
  case (Suc k)
  then obtain bs m ls where IH: "foldM (rx_fill e ring) [0..<k] s = Some (s\<lparr>mem := m, live := ls @ live s\<rparr>)"
    "heap_inv e base sz (ls @ live s)" "heap_used (ls @ live s) = heap_used (live s) + k * 6144"
    "length bs = k" "rx_ready ring bs (s\<lparr>mem := m, live := ls @ live s\<rparr>)" by auto
  have room: "heap_used (ls @ live s) + 2048 + 4096 \<le> sz" using Suc.prems(1) unfolding IH(3) by simp
  from rx_fill_step [OF assms(1), of "s\<lparr>mem := m, live := ls @ live s\<rparr>" ring bs] IH room assms(3) Suc.prems(2)
  obtain b m' where b: "rx_fill e ring k (s\<lparr>mem := m, live := ls @ live s\<rparr>)
      = Some (s\<lparr>mem := m', live := (b, 2048) # ls @ live s\<rparr>)" "heap_inv e base sz ((b, 2048) # ls @ live s)"
    "rx_ready ring (bs @ [b]) (s\<lparr>mem := m', live := (b, 2048) # ls @ live s\<rparr>)" by auto
  from IH b show ?case
    by (intro exI [of _ "bs @ [b]"] exI [of _ m'] exI [of _ "(b, 2048) # ls"]) (simp add: foldM_append)
qed

section \<open>Register writes\<close>

fun regs :: "e1000 \<Rightarrow> (nat \<times> u32) list \<Rightarrow> 'a machine_scheme \<Rightarrow> 'a machine_scheme" where
  "regs nic [] s = s"
| "regs nic ((off, v) # ws) s = regs nic ws (volatile_write32 (bar0_address nic + of_nat off) v s)"

lemma regs_eq:
  "\<exists>m. regs nic ws s = s\<lparr>mem := m, io_trace := io_trace s @ map (\<lambda>(off, v). Mmio32 (bar0_address nic + of_nat off) v) ws\<rparr>"
proof (induction ws arbitrary: s)
  case Nil
  show ?case by (rule exI [of _ "mem s"]) simp
next
  case (Cons w ws)
  obtain off v where "w = (off, v)" by (cases w)
  with Cons [of "volatile_write32 (bar0_address nic + of_nat off) v s"] show ?case
    by (auto simp: volatile_write32_def)
qed

lemma regs_rx_ready:
  assumes "nic_mmio base sz nic" and "\<forall>(off, v)\<in>set ws. off < 0x5FF0" and "in_heap base sz (ring, 512)"
    and "base + sz < 2 ^ 64" and "length bs \<le> 32" and "rx_ready ring bs s"
  shows "rx_ready ring bs (regs nic ws s)"
  using assms(2,6)
proof (induction ws arbitrary: s)
  case (Cons w ws)
  obtain off v where w: "w = (off, v)" by (cases w)
  have "load_bytes (store_le (mem s) (bar0_address nic + of_nat off) 4 v) (ring + of_nat (16 * i)) 16
      = load_bytes (mem s) (ring + of_nat (16 * i)) 16" if "i < length bs" for i
    by (rule register_keeps [OF assms(1) _ assms(3,4)]) (use that w Cons.prems(1) assms(5) in auto)
  then have "rx_ready ring bs (volatile_write32 (bar0_address nic + of_nat off) v s)"
    using Cons.prems(2) by (simp add: rx_ready_def volatile_write32_def)
  with Cons w show ?case by simp
qed simp

lemma write_register_num:
  assumes "nic_mmio base sz nic" and "(numeral k :: nat) < 0x5FF0"
  shows "write_register nic (numeral k) v s = Some (volatile_write32 (bar0_address nic + numeral k) v s)"
  using write_register_ok [OF assms] by simp

lemma init_rx_regs:
  assumes "nic_mmio base sz nic"
  shows "do {
     s \<leftarrow> write_register nic 0x2800 a s;
     s \<leftarrow> write_register nic 0x2808 b s;
     s \<leftarrow> write_register nic 0x2810 c s;
     s \<leftarrow> write_register nic 0x2818 d s;
     s \<leftarrow> write_register nic 0x5400 f s;
     s \<leftarrow> write_register nic 0x5404 g s;
     s \<leftarrow> write_register nic 0x0100 h s;
     Some (nic, s) } = Some (nic, regs nic [(0x2800, a), (0x2808, b), (0x2810, c), (0x2818, d), (0x5400, f), (0x5404, g), (0x0100, h)] s)"
  by (simp add: write_register_num [OF assms])

lemma init_tx_regs:
  assumes "nic_mmio base sz nic"
  shows "do {
     s \<leftarrow> write_register nic 0x3800 a s;
     s \<leftarrow> write_register nic 0x3808 b s;
     s \<leftarrow> write_register nic 0x3810 c s;
     s \<leftarrow> write_register nic 0x3818 d s;
     s \<leftarrow> write_register nic 0x0400 f s;
     Some (nic, s) } = Some (nic, regs nic [(0x3800, a), (0x3808, b), (0x3810, c), (0x3818, d), (0x0400, f)] s)"
  by (simp add: write_register_num [OF assms])

section \<open>Ring set-up\<close>

lemma init_rx_ring_ok:
  assumes "heap_ok e base sz" and "hw_mem_only e" and "heap_inv e base sz (live s)"
    and "heap_used (live s) + 201216 \<le> sz" and "nic_mmio base sz nic"
  shows "\<exists>ring bs s' ls. init_rx_ring e nic s = Some (nic\<lparr>rx_ring_ptr := ring\<rparr>, s')
    \<and> live s' = ls @ (ring, 512) # live s \<and> heap_inv e base sz (live s')
    \<and> heap_used (live s') = heap_used (live s) + 201216
    \<and> length bs = 32 \<and> rx_ready ring bs s' \<and> s' = s\<lparr>mem := mem s', live := live s', io_trace := io_trace s'\<rparr>"
proof -
  obtain m0 where m0: "hw e s = s\<lparr>mem := m0\<rparr>" using assms(2) unfolding hw_mem_only_def by metis
  let ?ctrl = "load_le m0 (bar0_address nic) 4 :: u32"
  let ?s1 = "volatile_write32 (bar0_address nic) (?ctrl OR push_bit 6 1) (s\<lparr>mem := m0\<rparr>)"
  obtain m1 where s1: "?s1 = s\<lparr>mem := m1, io_trace := io_trace s @ [Mmio32 (bar0_address nic) (?ctrl OR push_bit 6 1)]\<rparr>"
    by (simp add: volatile_write32_def)
  have w0: "write_register nic 0 v t = Some (volatile_write32 (bar0_address nic) v t)" for v and t :: "'a machine_scheme"
    using write_register_ok [OF assms(5), of 0] by simp
  have "read_register e nic 0 s = Some (?ctrl, s\<lparr>mem := m0\<rparr>)"
    using assms(5) by (simp add: read_register_def wadd_def volatile_read32_def m0 nic_mmio_def mmio_region_def)
  define ring where "ring = galloc e 512 1 (live s)"
  have h: "ring \<noteq> 0" "heap_inv e base sz ((ring, 512) # live s)"
    using heap_extend [OF assms(1,3), of 512 1] assms(4) by (auto simp: ring_def)
  define s2 where "s2 = ?s1\<lparr>live := (ring, 512) # live s\<rparr>"
  have a: "alloc_raw e 1 (32 * 16) ?s1 = Some (ring, s2)"
    using h(1) s1 by (simp add: alloc_raw_def Let_def ring_def s2_def)
  have l2: "live s2 = (ring, 512) # live s" by (simp add: s2_def)
  have "heap_used (live s2) + 32 * 6144 \<le> sz" using assms(4) by (simp add: l2)
  from rx_fill_all [OF assms(1) _ _ this, of ring] h(2) l2 obtain bs m3 ls where
    f: "foldM (rx_fill e ring) [0..<32] s2 = Some (s2\<lparr>mem := m3, live := ls @ live s2\<rparr>)"
    "heap_inv e base sz (ls @ live s2)" "heap_used (ls @ live s2) = heap_used (live s2) + 32 * 6144"
    "length bs = 32" "rx_ready ring bs (s2\<lparr>mem := m3, live := ls @ live s2\<rparr>)" by auto
  let ?nic = "nic\<lparr>rx_ring_ptr := ring\<rparr>"
  have mm: "nic_mmio base sz ?nic" using assms(5) by (simp add: nic_mmio_def)
  let ?ws = "[(0x2800, ucast (ring AND 0xFFFFFFFF)), (0x2808, 32 * 16), (0x2810, 0), (0x2818, 32 - 1),
    (0x5400, mac_ral (mac_address nic)), (0x5404, mac_rah (mac_address nic)),
    (0x0100, push_bit 1 1 OR push_bit 3 1 OR push_bit 4 1 OR push_bit 15 1)] :: (nat \<times> u32) list"
  define s4 where "s4 = regs ?nic ?ws (s2\<lparr>mem := m3, live := ls @ live s2\<rparr>)"
  have run: "init_rx_ring e nic s = Some (?nic, s4)"
    unfolding init_rx_ring_def Let_def \<open>read_register e nic 0 s = _\<close> bind.simps prod.case w0
    using a f(1) init_rx_regs [OF mm, where s = "s2\<lparr>mem := m3, live := ls @ live s2\<rparr>"]
    by (simp add: s4_def del: regs.simps)
  have ready: "rx_ready ring bs s4"
    unfolding s4_def by (rule regs_rx_ready [OF mm _ _ _ _ f(5)])
      (use h(2) assms(1) f(4) in \<open>auto simp: heap_inv_def heap_ok_def\<close>)
  obtain m4 where s4: "s4 = (s2\<lparr>mem := m3, live := ls @ live s2\<rparr>)\<lparr>mem := m4, io_trace := io_trace s2 @ map (\<lambda>(off, v). Mmio32 (bar0_address ?nic + of_nat off) v) ?ws\<rparr>"
    using regs_eq [of ?nic ?ws "s2\<lparr>mem := m3, live := ls @ live s2\<rparr>"] unfolding s4_def by (auto simp del: regs.simps)
  have "live s4 = ls @ (ring, 512) # live s" by (simp add: s4 l2)
  moreover have "s4 = s\<lparr>mem := mem s4, live := live s4, io_trace := io_trace s4\<rparr>" by (simp add: s4 s2_def volatile_write32_def)
  ultimately show ?thesis
    using run ready f(2,3,4) l2
    by (intro exI [of _ ring] exI [of _ bs] exI [of _ s4] exI [of _ ls]) simp
qed

lemma init_tx_ring_ok:
  assumes "heap_ok e base sz" and "heap_inv e base sz (live s)"
    and "heap_used (live s) + 128 + 4096 \<le> sz" and "nic_mmio base sz nic"
    and "rx_ready (rx_ring_ptr nic) bs s" and "length bs = 32" and "(rx_ring_ptr nic, 512) \<in> set (live s)"
  shows "\<exists>ring s'. init_tx_ring e nic s = Some (nic\<lparr>tx_ring_ptr := ring\<rparr>, s')
    \<and> live s' = (ring, 128) # live s \<and> heap_inv e base sz (live s') \<and> rx_ready (rx_ring_ptr nic) bs s'
    \<and> s' = s\<lparr>mem := mem s', live := live s', io_trace := io_trace s'\<rparr>"
proof -
  define z where "z = concat (replicate 8 (tx_encode \<lparr>tx_buffer_address = 0, tx_length = 0,
       tx_cso = 0, tx_cmd = 0, tx_status = 0, tx_css = 0, tx_special = 0\<rparr>))"
  have lz: "length z = 128" by (simp add: z_def length_concat sum_list_replicate)
  then have "heap_used (live s) + length z + 4096 \<le> sz" using assms(3) by simp
  from leak_bytes_ok [OF assms(1,2) this, of 1] obtain ring where
    r: "leak_bytes e 1 z s = Some (ring, s\<lparr>mem := store_bytes (mem s) ring z, live := (ring, 128) # live s\<rparr>)"
    "heap_inv e base sz ((ring, 128) # live s)" "\<forall>(b, k)\<in>set (live s). apart ring 128 b k" using lz by auto
  let ?s1 = "s\<lparr>mem := store_bytes (mem s) ring z, live := (ring, 128) # live s\<rparr>"
  let ?nic = "nic\<lparr>tx_ring_ptr := ring\<rparr>"
  have mm: "nic_mmio base sz ?nic" using assms(4) by (simp add: nic_mmio_def)
  have ap: "apart ring 128 (rx_ring_ptr nic) 512" using r(3) assms(7) by auto
  have "load_bytes (store_bytes (mem s) ring z) (rx_ring_ptr nic + of_nat (16 * i)) 16
      = load_bytes (mem s) (rx_ring_ptr nic + of_nat (16 * i)) 16" if "i < 32" for i
    using apart_sub [OF ap, of "16 * i" 16] that lz by (intro apart_load) simp
  then have ready1: "rx_ready (rx_ring_ptr nic) bs ?s1" using assms(5,6) by (auto simp: rx_ready_def)
  let ?ws = "[(0x3800, ucast (ring AND 0xFFFFFFFF)), (0x3808, 8 * 16), (0x3810, 0), (0x3818, 0),
    (0x0400, push_bit 1 1 OR push_bit 3 1)] :: (nat \<times> u32) list"
  define s2 where "s2 = regs ?nic ?ws ?s1"
  have "init_tx_ring e nic s = Some (?nic, s2)"
    using r(1) init_tx_regs [OF mm, where s = ?s1] unfolding init_tx_ring_def z_def [symmetric] Let_def
    by (simp add: s2_def del: regs.simps)
  moreover have "rx_ready (rx_ring_ptr nic) bs s2"
    unfolding s2_def by (rule regs_rx_ready [OF mm _ _ _ _ ready1])
      (use assms in \<open>auto simp: heap_inv_def heap_ok_def\<close>)
  moreover obtain m2 where "s2 = ?s1\<lparr>mem := m2, io_trace := io_trace ?s1 @ map (\<lambda>(off, v). Mmio32 (bar0_address ?nic + of_nat off) v) ?ws\<rparr>"
    using regs_eq [of ?nic ?ws ?s1] unfolding s2_def by (auto simp del: regs.simps)
  ultimately show ?thesis using r(2) by (intro exI [of _ ring] exI [of _ s2]) simp
qed

text \<open>The whole set-up: what it changes, and what it leaves behind. It needs the heap only, so it also
  covers the boot, when there is no screen yet.\<close>

lemma nic_setup_run:
  assumes "heap_ok e base sz" and "hw_mem_only e" and "heap_inv e base sz (live s)"
    and "heap_used (live s) + 205440 \<le> sz" and "nic_mmio base sz (e1000_new bar0)"
  shows "\<exists>m ls tr nic bs. nic_setup e (Some bar0) s = Some (s\<lparr>mem := m, live := ls, io_trace := tr, net_card := Some nic\<rparr>)
    \<and> heap_inv e base sz ls \<and> set (live s) \<subseteq> set ls \<and> heap_used ls = heap_used (live s) + 205440 \<and> nic_ok base sz ls nic
    \<and> current_rx_bucket nic = 0 \<and> current_tx_bucket nic = 0 \<and> length bs = 32 \<and> rx_ready (rx_ring_ptr nic) bs (s\<lparr>mem := m, live := ls\<rparr>)"
proof -
  have "heap_used (live s) + 201216 \<le> sz" using assms(4) by simp
  from init_rx_ring_ok [OF assms(1-3) this assms(5)] obtain ring bs s1 ls where
    rx: "init_rx_ring e (e1000_new bar0) s = Some ((e1000_new bar0)\<lparr>rx_ring_ptr := ring\<rparr>, s1)"
    "live s1 = ls @ (ring, 512) # live s" "heap_inv e base sz (live s1)"
    "heap_used (live s1) = heap_used (live s) + 201216" "length bs = 32" "rx_ready ring bs s1"
    "s1 = s\<lparr>mem := mem s1, live := live s1, io_trace := io_trace s1\<rparr>" by blast
  let ?nic = "(e1000_new bar0)\<lparr>rx_ring_ptr := ring\<rparr>"
  have mm: "nic_mmio base sz ?nic" using assms(5) by (simp add: nic_mmio_def)
  from init_tx_ring_ok [OF assms(1) rx(3) _ mm, of bs] rx assms(4) obtain tx s2 where
    tx: "init_tx_ring e ?nic s1 = Some (?nic\<lparr>tx_ring_ptr := tx\<rparr>, s2)" "live s2 = (tx, 128) # live s1"
    "heap_inv e base sz (live s2)" "rx_ready ring bs s2"
    "s2 = s1\<lparr>mem := mem s2, live := live s2, io_trace := io_trace s2\<rparr>" by auto
  let ?nic2 = "?nic\<lparr>tx_ring_ptr := tx\<rparr>"
  have "nic_ok base sz (live s2) ?nic2"
    using mm rx(2) tx(2) by (simp add: nic_ok_def nic_mmio_def e1000_new_def my_mac_def)
  moreover obtain m1 l1 t1 where "s1 = s\<lparr>mem := m1, live := l1, io_trace := t1\<rparr>" using rx(7) by blast
  moreover obtain m2 l2 t2 where "s2 = s1\<lparr>mem := m2, live := l2, io_trace := t2\<rparr>" using tx(5) by blast
  moreover have "nic_setup e (Some bar0) s = Some (s2\<lparr>net_card := Some ?nic2\<rparr>)" by (simp add: nic_setup_def rx(1) tx(1))
  ultimately show ?thesis using tx(2-4) rx(2,4,5)
    by (intro exI [of _ "mem s2"] exI [of _ "live s2"] exI [of _ "io_trace s2"] exI [of _ ?nic2] exI [of _ bs])
      (auto simp: rx_ready_def e1000_new_def)
qed

text \<open>The heap blocks afterwards, as a function of the allocator: the receive ring, its buffers and the
  transmit ring.\<close>

definition card_blocks :: "'s env \<Rightarrow> u64 option \<Rightarrow> block list \<Rightarrow> block list" where
  "card_blocks e bar L =
     (if bar = None then L
      else let L = (galloc e 512 1 L, 512) # L;
               L = ((\<lambda>L. (galloc e 2048 1 L, 2048) # L) ^^ 32) L
           in (galloc e 128 1 L, 128) # L)"

lemma register_live:
  "write_register nic off v s = Some s' \<Longrightarrow> live s' = live s"
  "hw_mem_only e \<Longrightarrow> read_register e nic off s = Some (w, s') \<Longrightarrow> live s' = live s"
proof -
  show "write_register nic off v s = Some s' \<Longrightarrow> live s' = live s"
    by (auto simp: write_register_def volatile_write32_def bind_eq_Some_conv)
  assume "hw_mem_only e" and r: "read_register e nic off s = Some (w, s')"
  then obtain m where "hw e s = s\<lparr>mem := m\<rparr>" unfolding hw_mem_only_def by metis
  with r show "live s' = live s" by (auto simp: read_register_def volatile_read32_def Let_def bind_eq_Some_conv)
qed

lemma rx_fill_live: "rx_fill e ring i s = Some s' \<Longrightarrow> live s' = (galloc e 2048 1 (live s), 2048) # live s"
  by (auto simp: rx_fill_def leak_bytes_def Let_def bind_eq_Some_conv split: if_splits)

lemma rx_fill_all_live:
  "foldM (rx_fill e ring) is s = Some s' \<Longrightarrow> live s' = ((\<lambda>L. (galloc e 2048 1 L, 2048) # L) ^^ length is) (live s)"
proof (induction "is" arbitrary: s)
  case (Cons i "is")
  then obtain t where t: "rx_fill e ring i s = Some t" "foldM (rx_fill e ring) is t = Some s'" by (auto split: option.splits)
  from Cons.IH [OF t(2)] rx_fill_live [OF t(1)] show ?case by (simp add: funpow_Suc_right del: funpow.simps(2))
qed simp

lemma nic_setup_live:
  assumes "nic_setup e bar s = Some s'" and "hw_mem_only e"
  shows "live s' = card_blocks e bar (live s)"
proof (cases bar)
  case None
  with assms show ?thesis by (simp add: nic_setup_def card_blocks_def)
next
  case (Some b)
  with assms(1) obtain n1 s1 n2 s2 where run: "init_rx_ring e (e1000_new b) s = Some (n1, s1)"
    "init_tx_ring e n1 s1 = Some (n2, s2)" "live s' = live s2"
    by (auto simp: nic_setup_def bind_eq_Some_conv)
  have "live s1 = ((\<lambda>L. (galloc e 2048 1 L, 2048) # L) ^^ 32) ((galloc e 512 1 (live s), 512) # live s)"
    using run(1) unfolding init_rx_ring_def alloc_raw_def Let_def
    by (auto simp: bind_eq_Some_conv split: if_splits dest!: register_live(1) register_live(2) [OF assms(2)] rx_fill_all_live)
  moreover have "live s2 = (galloc e 128 1 (live s1), 128) # live s1"
    using run(2) unfolding init_tx_ring_def leak_bytes_def Let_def
    by (auto simp: bind_eq_Some_conv length_concat sum_list_replicate split: if_splits dest!: register_live(1))
  ultimately show ?thesis using Some run(3) by (simp add: card_blocks_def Let_def)
qed

section \<open>Property\<close>

text \<open>C23. Bringing up the card on an allocator with room for its rings returns with the
  network invariant established: both rings are live heap blocks apart from everything else,
  the positions are at zero, and each of the 32 receive descriptors points to its own 2048-byte
  buffer, no two the same, with its status clear.\<close>

theorem nic_setup_ok:
  assumes "heap_ok e base sz" and "hw_mem_only e" and "net_ok e base sz s"
    and "heap_used (live s) + 205440 \<le> sz" and "nic_mmio base sz (e1000_new bar0)"
  shows "\<exists>s' nic bs. nic_setup e (Some bar0) s = Some s' \<and> net_ok e base sz s' \<and> net_card s' = Some nic
    \<and> current_rx_bucket nic = 0 \<and> current_tx_bucket nic = 0
    \<and> length bs = 32 \<and> distinct bs \<and> (\<forall>b\<in>set bs. (b, 2048) \<in> set (live s'))
    \<and> (\<forall>i<32. rx_decode (load_bytes (mem s') (rx_ring_ptr nic + of_nat (16 * i)) 16) = empty_rx (bs ! i))"
proof -
  have "heap_inv e base sz (live s)" using assms(3) by (simp add: net_ok_def)
  from nic_setup_run [OF assms(1,2) this assms(4,5)] obtain m ls tr nic bs where
    r: "nic_setup e (Some bar0) s = Some (s\<lparr>mem := m, live := ls, io_trace := tr, net_card := Some nic\<rparr>)"
    "heap_inv e base sz ls" "nic_ok base sz ls nic" "current_rx_bucket nic = 0" "current_tx_bucket nic = 0" "length bs = 32"
    "rx_ready (rx_ring_ptr nic) bs (s\<lparr>mem := m, live := ls\<rparr>)" by blast
  then show ?thesis using assms(3)
    by (intro exI [of _ "s\<lparr>mem := m, live := ls, io_trace := tr, net_card := Some nic\<rparr>"] exI [of _ nic] exI [of _ bs])
      (auto simp: rx_ready_def net_ok_def gfx_ok_def)
qed

theorem nic_setup_ok_witness:
  "\<exists>s' nic. nic_setup bump_env (Some 0xFEBC0000) (demo_net\<lparr>net_card := None\<rparr>) = Some s'
    \<and> net_ok bump_env 0x100000 0x200000 s' \<and> net_card s' = Some nic"
proof -
  have "net_ok bump_env 0x100000 0x200000 (demo_net\<lparr>net_card := None\<rparr>)"
    using demo_net_ok by (simp add: net_ok_def gfx_ok_def)
  moreover have "heap_used (live (demo_net\<lparr>net_card := None\<rparr>)) + 205440 \<le> 0x200000" by (simp add: demo_net_def)
  moreover have "nic_mmio 0x100000 0x200000 (e1000_new 0xFEBC0000)"
    by (simp add: nic_mmio_def mmio_region_def e1000_new_def off_heap_def)
  ultimately show ?thesis using nic_setup_ok [OF bump_heap_ok bump_hw] by blast
qed

end
