(* ===== verification/Nvme.thy ===== *)
theory Nvme
  imports Terminal
begin

text \<open>
  The NVMe driver (\<open>src/src/nvme.rs\<close>): admin and I/O queue set-up, controller identification and
  sector reads by DMA. The controller is the environment's \<open>hw\<close>, which acts before each look
  at a register or at a completion entry.
\<close>

section \<open>Commands and completions\<close>

record nvme_cmd =
  cdw0 :: u32
  nsid :: u32
  cmd_reserved :: u64
  mptr :: u64
  prp1 :: u64
  prp2 :: u64
  cdw10 :: u32
  cdw11 :: u32
  cdw12 :: u32
  cdw13 :: u32
  cdw14 :: u32
  cdw15 :: u32

definition cmd_encode :: "nvme_cmd \<Rightarrow> u8 list" where
  "cmd_encode c = to_le 4 (cdw0 c) @ to_le 4 (nsid c) @ to_le 8 (cmd_reserved c) @ to_le 8 (mptr c)
     @ to_le 8 (prp1 c) @ to_le 8 (prp2 c) @ to_le 4 (cdw10 c) @ to_le 4 (cdw11 c) @ to_le 4 (cdw12 c)
     @ to_le 4 (cdw13 c) @ to_le 4 (cdw14 c) @ to_le 4 (cdw15 c)"

text \<open>A completion entry is sixteen bytes with its status in the last two.\<close>

definition completion_status :: "memory \<Rightarrow> u64 \<Rightarrow> nat \<Rightarrow> u16" where
  "completion_status m cq i = load_le m (cq + of_nat (16 * i + 14)) 2"

definition mk_cmd :: "u32 \<Rightarrow> u32 \<Rightarrow> u64 \<Rightarrow> u32 \<Rightarrow> u32 \<Rightarrow> nvme_cmd" where
  "mk_cmd c0 ns p c10 c11 = \<lparr>cdw0 = c0, nsid = ns, cmd_reserved = 0, mptr = 0, prp1 = p, prp2 = 0,
     cdw10 = c10, cdw11 = c11, cdw12 = 0, cdw13 = 0, cdw14 = 0, cdw15 = 0\<rparr>"

section \<open>The driver\<close>

record nvme =
  nv_bar0 :: u64
  asq_ptr :: u64
  acq_ptr :: u64
  iosq_ptr :: u64
  iocq_ptr :: u64
  iosq_tail :: u32
  iocq_head :: u32

definition nvme_new :: "u64 \<Rightarrow> nvme" where
  "nvme_new bar0 = \<lparr>nv_bar0 = bar0, asq_ptr = 0, acq_ptr = 0, iosq_ptr = 0, iocq_ptr = 0, iosq_tail = 0, iocq_head = 0\<rparr>"

definition read_reg :: "('a machine_scheme) env \<Rightarrow> nvme \<Rightarrow> u64 \<Rightarrow> 'a machine_scheme \<Rightarrow> (u32 \<times> 'a machine_scheme) option" where
  "read_reg e nv offset s = do {
     a \<leftarrow> wadd (nv_bar0 nv) offset;
     Some (volatile_read32 e a s)
   }"

definition write_reg :: "nvme \<Rightarrow> u64 \<Rightarrow> u32 \<Rightarrow> 'a machine_scheme \<Rightarrow> 'a machine_scheme option" where
  "write_reg nv offset v s = do {
     a \<leftarrow> wadd (nv_bar0 nv) offset;
     Some (volatile_write32 a v s)
   }"

definition write_reg64 :: "nvme \<Rightarrow> u64 \<Rightarrow> u64 \<Rightarrow> 'a machine_scheme \<Rightarrow> 'a machine_scheme option" where
  "write_reg64 nv offset v s = do {
     a \<leftarrow> wadd (nv_bar0 nv) offset;
     Some (volatile_write64 a v s)
   }"

text \<open>Waiting for the ready bit of the status register, and for the status bit of a completion
  entry.\<close>

definition wait_ready ::
  "('a machine_scheme) env \<Rightarrow> nvme \<Rightarrow> bool \<Rightarrow> 'a machine_scheme \<Rightarrow> (bool \<times> 'a machine_scheme) option" where
  "wait_ready e nv ready s = do {
     a \<leftarrow> wadd (nv_bar0 nv) 0x1C;
     Some (spin 10000000 (\<lambda>s. let (v, s) = volatile_read32 e a s in ((v AND 1 \<noteq> 0) = ready, s)) s)
   }"

definition wait_completion ::
  "('a machine_scheme) env \<Rightarrow> nat \<Rightarrow> u64 \<Rightarrow> nat \<Rightarrow> 'a machine_scheme \<Rightarrow> bool \<times> 'a machine_scheme" where
  "wait_completion e n cq i = spin n (\<lambda>s. let s = hw e s in (completion_status (mem s) cq i AND 1 \<noteq> 0, s))"

definition put_cmd :: "u64 \<Rightarrow> nat \<Rightarrow> nvme_cmd \<Rightarrow> 'a machine_scheme \<Rightarrow> 'a machine_scheme option" where
  "put_cmd sq i c s =
     (if i < 16 then Some (s\<lparr>mem := store_bytes (mem s) (sq + of_nat (64 * i)) (cmd_encode c)\<rparr>) else None)"

definition nvme_queues :: "('a machine_scheme) env \<Rightarrow> nvme \<Rightarrow> 'a machine_scheme \<Rightarrow> nvme \<times> 'a machine_scheme" where
  "nvme_queues e nv s =
     (let (asq, s) = alloc_zeroed e (16 * 64) 4096 s;
          (acq, s) = alloc_zeroed e (16 * 16) 4096 s;
          (iosq, s) = alloc_zeroed e (16 * 64) 4096 s;
          (iocq, s) = alloc_zeroed e (16 * 16) 4096 s
      in (nv\<lparr>asq_ptr := asq, acq_ptr := acq, iosq_ptr := iosq, iocq_ptr := iocq\<rparr>, s))"

definition nvme_create_io :: "('a gfx_scheme) env \<Rightarrow> nvme \<Rightarrow> 'a gfx_scheme \<Rightarrow> 'a gfx_scheme option" where
  "nvme_create_io e nv s = do {
     asq \<leftarrow> raw_parts (asq_ptr nv);
     acq \<leftarrow> raw_parts (acq_ptr nv);
     s \<leftarrow> put_cmd asq 0 (mk_cmd (0x05 OR push_bit 16 1) 0 (iocq_ptr nv) (push_bit 16 15 OR 1) 1) s;
     s \<leftarrow> write_reg nv 0x1000 1 s;
     let (_, s) = wait_completion e 10000000 acq 0 s;
     s \<leftarrow> write_reg nv 0x1004 1 s;
     s \<leftarrow> put_cmd asq 1 (mk_cmd (0x01 OR push_bit 16 2) 0 (iosq_ptr nv) (push_bit 16 15 OR 1) (push_bit 16 1 OR 1)) s;
     s \<leftarrow> write_reg nv 0x1000 2 s;
     let (_, s) = wait_completion e 10000000 acq 1 s;
     s \<leftarrow> write_reg nv 0x1004 2 s;
     print_str (lit ''SYS: NVMe Admin Rings DMA Mapped. Drive READY!'' @ [10]) 0x10B981 s
   }"

definition nvme_init :: "('a gfx_scheme) env \<Rightarrow> nvme \<Rightarrow> 'a gfx_scheme \<Rightarrow> (nvme \<times> 'a gfx_scheme) option" where
  "nvme_init e nv s = do {
     (test_read, s) \<leftarrow> read_reg e nv 0x1C s;
     if test_read = 0xFFFFFFFF then Some (nv, s)
     else do {
       (cc, s) \<leftarrow> read_reg e nv 0x14 s;
       s \<leftarrow> write_reg nv 0x14 (cc AND NOT 1) s;
       (ok, s) \<leftarrow> wait_ready e nv False s;
       if \<not> ok then Some (nv, s)
       else do {
         let (nv, s) = nvme_queues e nv s;
         s \<leftarrow> write_reg nv 0x24 (push_bit 16 (16 - 1) OR (16 - 1)) s;
         s \<leftarrow> write_reg64 nv 0x28 (asq_ptr nv) s;
         s \<leftarrow> write_reg64 nv 0x30 (acq_ptr nv) s;
         s \<leftarrow> write_reg nv 0x14 (push_bit 0 1 OR push_bit 16 6 OR push_bit 20 4) s;
         (ok, s) \<leftarrow> wait_ready e nv True s;
         if \<not> ok then Some (nv, s)
         else do {
           s \<leftarrow> nvme_create_io e nv s;
           Some (nv, s)
         }
       }
     }
   }"

text \<open>The printable bytes among the given ones, as the two loops of \<open>identify_controller\<close>
  collect them.\<close>

definition printable :: "u8 list \<Rightarrow> u8 list" where
  "printable bs = filter (\<lambda>b. 32 \<le> b \<and> b \<le> 126) bs"

definition identify_controller :: "('a gfx_scheme) env \<Rightarrow> nvme \<Rightarrow> 'a gfx_scheme \<Rightarrow> 'a gfx_scheme option" where
  "identify_controller e nv s = do {
     let (data_ptr, s) = alloc_zeroed e 4096 4096 s;
     asq \<leftarrow> raw_parts (asq_ptr nv);
     s \<leftarrow> put_cmd asq 2 (mk_cmd (0x06 OR push_bit 16 0xAA) 0 data_ptr 1 0) s;
     s \<leftarrow> write_reg nv 0x1000 3 s;
     acq \<leftarrow> raw_parts (acq_ptr nv);
     let (ok, s) = wait_completion e 10000000 acq 2 s;
     if \<not> ok then Some s
     else do {
       data_ptr \<leftarrow> raw_parts data_ptr;
       let data = load_bytes (mem s) data_ptr 4096;
       let model_bytes = printable (take 40 (drop 24 data));
       let serial_bytes = printable (take 20 (drop 4 data));
       s \<leftarrow> (case (from_utf8 model_bytes, from_utf8 serial_bytes) of
           (Some model_str, Some serial_str) \<Rightarrow> do {
             s \<leftarrow> print_str (10 # lit ''> SILICON IDENTIFIED -> '') 0x3B82F6 s;
             s \<leftarrow> print_str model_str 0x10B981 s;
             s \<leftarrow> print_str (lit '' (SN: '') 0x3B82F6 s;
             s \<leftarrow> print_str serial_str 0x10B981 s;
             print_str (lit '')'' @ [10]) 0x3B82F6 s
           }
         | _ \<Rightarrow> Some s);
       write_reg nv 0x1004 3 s
     }
   }"

definition read_cmd :: "nat \<Rightarrow> u64 \<Rightarrow> u64 \<Rightarrow> nvme_cmd" where
  "read_cmd i p lba = mk_cmd (0x02 OR push_bit 16 (of_nat i)) 1 p (ucast (lba AND 0xFFFFFFFF)) (ucast (drop_bit 32 lba))"

definition read_sector ::
  "('a machine_scheme) env \<Rightarrow> nvme \<Rightarrow> u64 \<Rightarrow> 'a machine_scheme \<Rightarrow> (u8 list \<times> nvme \<times> 'a machine_scheme) option" where
  "read_sector e nv lba s = do {
     let (data_ptr, s) = alloc_zeroed e 4096 4096 s;
     iosq \<leftarrow> raw_parts (iosq_ptr nv);
     iocq \<leftarrow> raw_parts (iocq_ptr nv);
     let cmd_idx = unat (iosq_tail nv);
     s \<leftarrow> (if cmd_idx < 16 then Some (s\<lparr>mem := store_le (mem s) (iocq + of_nat (16 * cmd_idx + 14)) 2 (0 :: u16)\<rparr>) else None);
     s \<leftarrow> put_cmd iosq cmd_idx (read_cmd cmd_idx data_ptr lba) s;
     t \<leftarrow> wadd (iosq_tail nv) 1;
     let nv = nv\<lparr>iosq_tail := t mod 16\<rparr>;
     s \<leftarrow> write_reg nv 0x1008 (iosq_tail nv) s;
     let cq_idx = unat (iocq_head nv);
     _ \<leftarrow> (if cq_idx < 16 then Some () else None);
     let (_, s) = wait_completion e 20000000 iocq cq_idx s;
     h \<leftarrow> wadd (iocq_head nv) 1;
     let nv = nv\<lparr>iocq_head := h mod 16\<rparr>;
     s \<leftarrow> write_reg nv 0x100C (iocq_head nv) s;
     data_ptr \<leftarrow> raw_parts data_ptr;
     Some (load_bytes (mem s) data_ptr 512, nv, s)
   }"

section \<open>The controller's side of a read\<close>

text \<open>What the controller promises (NVM Express, command set \<open>Read\<close>) for a namespace holding
  \<open>disk\<close>: when the submission doorbell was the last register written and announces entry \<open>i\<close>,
  and that entry holds a read command whose buffer is neither in the completion queue nor in the
  register window, then by the next look at memory the controller has put
  the block at the command's buffer, posted completion entry \<open>i\<close> with its phase bit set (as on the
  first pass over the queue), and changed nothing but memory.\<close>

definition nvme_serves :: "('a machine_scheme) env \<Rightarrow> u64 \<Rightarrow> u64 \<Rightarrow> u64 \<Rightarrow> (u64 \<Rightarrow> u8 list) \<Rightarrow> bool" where
  "nvme_serves e bar0 sq cq disk \<longleftrightarrow>
     (\<forall>s i lba p. i < 16 \<and> io_trace s \<noteq> [] \<and> last (io_trace s) = Mmio32 (bar0 + 0x1008) (of_nat (Suc i mod 16))
        \<and> load_bytes (mem s) (sq + of_nat (64 * i)) 64 = cmd_encode (read_cmd i p lba)
        \<and> apart p 4096 cq 256 \<and> apart p 4096 bar0 0x2000
      \<longrightarrow> (\<exists>m. hw e s = s\<lparr>mem := m\<rparr> \<and> load_bytes m p 512 = disk lba
            \<and> completion_status m cq i AND 1 \<noteq> 0))"

lemma nvme_servesD:
  assumes "nvme_serves e bar0 sq cq disk" and "i < 16" and "io_trace s \<noteq> []"
    and "last (io_trace s) = Mmio32 (bar0 + 0x1008) (of_nat (Suc i mod 16))"
    and "load_bytes (mem s) (sq + of_nat (64 * i)) 64 = cmd_encode (read_cmd i p lba)" and "apart p 4096 cq 256"
    and "apart p 4096 bar0 0x2000"
  shows "\<exists>m. hw e s = s\<lparr>mem := m\<rparr> \<and> load_bytes m p 512 = disk lba \<and> completion_status m cq i AND 1 \<noteq> 0"
  using assms unfolding nvme_serves_def by blast

lemma length_cmd_encode [simp, layout]: "length (cmd_encode c) = 64"
  by (simp add: cmd_encode_def)

lemma cmd_encode_nonempty [simp]: "cmd_encode c \<noteq> []"
  using length_cmd_encode [of c] by (metis list.size(3) zero_neq_numeral)

section \<open>The drive's invariant\<close>

text \<open>The driver and the controller are set up for \<open>n\<close> more reads: the queues are live heap blocks,
  submission and completion position agree, the heap has room for the buffers, and the first
  pass over the queues is not over.\<close>

definition drive_ok :: "('a machine_scheme) env \<Rightarrow> nat \<Rightarrow> nat \<Rightarrow> (u64 \<Rightarrow> u8 list) \<Rightarrow> nat \<Rightarrow> nvme \<Rightarrow> 'a machine_scheme \<Rightarrow> bool" where
  "drive_ok e base sz disk n nv s \<longleftrightarrow>
     heap_ok e base sz \<and> heap_inv e base sz (live s) \<and> heap_used (live s) + n * 8192 \<le> sz
     \<and> nvme_serves e (nv_bar0 nv) (iosq_ptr nv) (iocq_ptr nv) disk \<and> mmio_region base sz (nv_bar0 nv) 0x2000
     \<and> (iosq_ptr nv, 1024) \<in> set (live s) \<and> (iocq_ptr nv, 256) \<in> set (live s)
     \<and> iosq_tail nv = iocq_head nv \<and> unat (iosq_tail nv) + n \<le> 16"

lemma write_reg_ok:
  assumes "mmio_region base sz (nv_bar0 nv) 0x2000" and "off < 0x1FF0"
  shows "write_reg nv (of_nat off) v s = Some (volatile_write32 (nv_bar0 nv + of_nat off) v s)"
  using mmio_addr(1) [OF assms(1), of off 4] assms(2) by (simp add: write_reg_def)

lemma next_index:
  assumes "unat (t :: u32) < 16"
  shows "wadd t 1 = Some (t + 1)" "(t + 1) mod 16 = of_nat (Suc (unat t) mod 16)" "unat ((t + 1) mod 16) = Suc (unat t) mod 16"
proof -
  show "wadd t 1 = Some (t + 1)" using assms by (simp add: wadd_def)
  have "unat (t + 1) = Suc (unat t)" using assms by (simp add: unat_word_ariths)
  then show u: "unat ((t + 1) mod 16) = Suc (unat t) mod 16" by (simp add: unat_mod_distrib)
  have "(t + 1) mod 16 = of_nat (unat ((t + 1) mod 16))" by simp
  then show "(t + 1) mod 16 = of_nat (Suc (unat t) mod 16)" by (simp only: u)
qed

lemma read_sector_ok:
  assumes "drive_ok e base sz disk (Suc n) nv s"
  shows "\<exists>s'. read_sector e nv lba s = Some (disk lba, nv\<lparr>iosq_tail := (iosq_tail nv + 1) mod 16,
      iocq_head := (iocq_head nv + 1) mod 16\<rparr>, s')
    \<and> drive_ok e base sz disk n (nv\<lparr>iosq_tail := (iosq_tail nv + 1) mod 16, iocq_head := (iocq_head nv + 1) mod 16\<rparr>) s'
    \<and> s' = s\<lparr>mem := mem s', live := live s', io_trace := io_trace s'\<rparr> \<and> (\<exists>p. live s' = (p, 4096) # live s)"
proof -
  let ?t = "iosq_tail nv" and ?i = "unat (iosq_tail nv)"
  have d: "heap_ok e base sz" "heap_inv e base sz (live s)" "heap_used (live s) + 4096 + 4096 \<le> sz"
    "nvme_serves e (nv_bar0 nv) (iosq_ptr nv) (iocq_ptr nv) disk" "mmio_region base sz (nv_bar0 nv) 0x2000"
    "(iosq_ptr nv, 1024) \<in> set (live s)" "(iocq_ptr nv, 256) \<in> set (live s)" "iocq_head nv = ?t" "?i < 16"
    "heap_used (live s) + 8192 + n * 8192 \<le> sz" "?i + Suc n \<le> 16"
    using assms by (auto simp: drive_ok_def)
  have bd: "base + sz < 2 ^ 64" "0 < base" using d(1) by (auto simp: heap_ok_def)
  define p where "p = galloc e 4096 4096 (live s)"
  have p: "p \<noteq> 0" "heap_inv e base sz ((p, 4096) # live s)" "\<forall>(b, k)\<in>set (live s). apart p 4096 b k"
    using heap_extend [OF d(1,2), of 4096 4096] d(3) by (auto simp: p_def)
  define s1 where "s1 = s\<lparr>mem := store_bytes (mem s) p (replicate 4096 0), live := (p, 4096) # live s\<rparr>"
  have al: "alloc_zeroed e 4096 4096 s = (p, s1)" using p(1) by (simp add: alloc_zeroed_def Let_def p_def s1_def)
  have inh: "in_heap base sz (iosq_ptr nv, 1024)" "in_heap base sz (iocq_ptr nv, 256)" "in_heap base sz (p, 4096)"
    using d(2,6,7) p(2) by (auto simp: heap_inv_def)
  then have nz: "iosq_ptr nv \<noteq> 0" "iocq_ptr nv \<noteq> 0" using bd(2) by (auto simp: in_heap_def)
  define c where "c = cmd_encode (read_cmd ?i p lba)"
  define s3 where "s3 = s1\<lparr>mem := store_bytes (store_le (mem s1) (iocq_ptr nv + of_nat (16 * ?i + 14)) 2 (0 :: u16)) (iosq_ptr nv + of_nat (64 * ?i)) c\<rparr>"
  define s4 where "s4 = volatile_write32 (nv_bar0 nv + 0x1008) (of_nat (Suc ?i mod 16)) s3"
  have cmd: "load_bytes (mem s4) (iosq_ptr nv + of_nat (64 * ?i)) 64 = c"
  proof -
    have "load_bytes (mem s4) (iosq_ptr nv + of_nat (64 * ?i)) 64 = load_bytes (mem s3) (iosq_ptr nv + of_nat (64 * ?i)) 64"
      unfolding s4_def volatile_write32_def store_le_def
      using mmio_keeps [OF d(5) _ _ inh(1) bd(1), of "0x1008" "to_le 4 (of_nat (Suc ?i mod 16) :: u32)" "64 * ?i" 64] d(9)
      by simp
    also have "\<dots> = c" using load_store_bytes_same [of c _ "iosq_ptr nv + of_nat (64 * ?i)"]
      by (simp add: s3_def c_def)
    finally show ?thesis .
  qed
  have "off_heap base sz (nv_bar0 nv) 0x2000" using d(5) by (simp add: mmio_region_def)
  from off_heap_apart [OF this inh(3) bd(1)] have "apart p 4096 (nv_bar0 nv) 0x2000" by (simp add: apart_sym)
  moreover have "apart p 4096 (iocq_ptr nv) 256" using p(3) d(7) by auto
  moreover have "io_trace s4 \<noteq> []" "last (io_trace s4) = Mmio32 (nv_bar0 nv + 0x1008) (of_nat (Suc ?i mod 16))"
    by (simp_all add: s4_def volatile_write32_def)
  ultimately obtain m where m: "hw e s4 = s4\<lparr>mem := m\<rparr>" "load_bytes m p 512 = disk lba"
    "completion_status m (iocq_ptr nv) ?i AND 1 \<noteq> 0"
    using nvme_servesD [OF d(4,9) _ _ cmd [unfolded c_def]] by blast
  have w: "wait_completion e 20000000 (iocq_ptr nv) ?i s4 = (True, s4\<lparr>mem := m\<rparr>)"
    unfolding wait_completion_def by (rule spin_done) (simp add: m(1,3))
  define s6 where "s6 = volatile_write32 (nv_bar0 nv + 0x100C) (of_nat (Suc ?i mod 16)) (s4\<lparr>mem := m\<rparr>)"
  have data: "load_bytes (mem s6) p 512 = disk lba"
    using mmio_keeps [OF d(5) _ _ inh(3) bd(1), of "0x100C" "to_le 4 (of_nat (Suc ?i mod 16) :: u32)" 0 512 m] m(2)
    by (simp add: s6_def volatile_write32_def store_le_def)
  let ?nv = "nv\<lparr>iosq_tail := (?t + 1) mod 16, iocq_head := (iocq_head nv + 1) mod 16\<rparr>"
  have wr: "write_reg nv' 0x1008 v t = Some (volatile_write32 (nv_bar0 nv + 0x1008) v t)"
    "write_reg nv' 0x100C v t = Some (volatile_write32 (nv_bar0 nv + 0x100C) v t)"
    if "nv_bar0 nv' = nv_bar0 nv" for nv' v and t :: "'a machine_scheme"
    using write_reg_ok [of base sz nv' "0x1008" v t] write_reg_ok [of base sz nv' "0x100C" v t] d(5) that by simp_all
  have run: "read_sector e nv lba s = Some (disk lba, ?nv, s6)"
    unfolding read_sector_def al Let_def prod.case
    using d(8,9) nz p(1) w data
    by (simp add: raw_parts_def put_cmd_def next_index [OF d(9)] wr s3_def [symmetric] c_def [symmetric]
        s4_def [symmetric] s6_def [symmetric] del: of_nat_mult of_nat_add)
  have "s6 = s\<lparr>mem := mem s6, live := live s6, io_trace := io_trace s6\<rparr>"
    by (simp add: s6_def s4_def s3_def s1_def volatile_write32_def)
  moreover have l: "live s6 = (p, 4096) # live s" by (simp add: s6_def s4_def s3_def s1_def volatile_write32_def)
  moreover have "drive_ok e base sz disk n ?nv s6"
  proof -
    have "unat ((?t + 1) mod 16) + n \<le> 16" unfolding next_index(3) [OF d(9)] using d(11) by (cases "Suc ?i = 16") auto
    with l show ?thesis using d p(2) unfolding drive_ok_def by simp
  qed
  ultimately show ?thesis using run by (intro exI [of _ s6]) simp
qed

section \<open>Properties\<close>


text \<open>A controller that meets the contract: it decodes the announced command and acts on it.\<close>

definition ssd_env :: "(u64 \<Rightarrow> u8 list) \<Rightarrow> u64 \<Rightarrow> u64 \<Rightarrow> u64 \<Rightarrow> ('a machine_scheme) env" where
  "ssd_env disk bar0 sq cq = bump_env\<lparr>hw := (\<lambda>s.
     if io_trace s = [] then s
     else (case last (io_trace s) of
         Mmio32 a t \<Rightarrow>
           if a = bar0 + 0x1008 then
             let i = (unat t + 15) mod 16;
                 c = load_bytes (mem s) (sq + of_nat (64 * i)) 64;
                 p = of_le (take 8 (drop 24 c));
                 lba = of_le (take 8 (drop 40 c))
             in s\<lparr>mem := store_le (store_bytes (mem s) p (disk lba)) (cq + of_nat (16 * i + 14)) 2 (1 :: u16)\<rparr>
           else s
       | _ \<Rightarrow> s))\<rparr>"

lemma ssd_heap: "heap_ok (ssd_env disk bar0 sq cq) 0x100000 0x200000"
  using bump_heap_ok unfolding heap_ok_def ssd_env_def built_hw by simp

lemma read_cmd_fields:
  "of_le (take 8 (drop 24 (cmd_encode (read_cmd i p lba)))) = p"
  "of_le (take 8 (drop 40 (cmd_encode (read_cmd i p lba)))) = lba"
proof -
  show "of_le (take 8 (drop 24 (cmd_encode (read_cmd i p lba)))) = p"
    by (simp add: cmd_encode_def read_cmd_def mk_cmd_def)
  have "take 8 (drop 40 (cmd_encode (read_cmd i p lba)))
      = to_le 4 (ucast (lba AND 0xFFFFFFFF) :: u32) @ to_le 4 (ucast (drop_bit 32 lba) :: u32)"
    by (simp add: cmd_encode_def read_cmd_def mk_cmd_def)
  also have "\<dots> = to_le 8 lba"
  proof (rule nth_equalityI)
    fix k assume k: "k < length (to_le 4 (ucast (lba AND 0xFFFFFFFF) :: u32) @ to_le 4 (ucast (drop_bit 32 lba) :: u32))"
    have ix: "32 + (8 * (k - 4) + n) = 8 * k + n" if "\<not> k < 4" for n using that by simp
    have m: "lba AND 0xFFFFFFFF = take_bit 32 lba" by (simp add: take_bit_eq_mask mask_eq_exp_minus_1)
    show "(to_le 4 (ucast (lba AND 0xFFFFFFFF) :: u32) @ to_le 4 (ucast (drop_bit 32 lba) :: u32)) ! k = to_le 8 lba ! k"
      using k by (intro bit_word_eqI) (auto simp: m to_le_def nth_append bit_simps ix)
  qed simp
  finally show "of_le (take 8 (drop 40 (cmd_encode (read_cmd i p lba)))) = lba" by simp
qed

lemma ssd_serves:
  assumes "\<And>lba. length (disk lba) = 512"
  shows "nvme_serves (ssd_env disk bar sq cq) bar sq cq disk"
  unfolding nvme_serves_def
proof (intro allI impI, elim conjE)
  fix s :: "'a machine_scheme" and i lba p
  assume i: "i < 16" and tr: "io_trace s \<noteq> []" "last (io_trace s) = Mmio32 (bar + 0x1008) (of_nat (Suc i mod 16))"
    and c: "load_bytes (mem s) (sq + of_nat (64 * i)) 64 = cmd_encode (read_cmd i p lba)" and ap: "apart p 4096 cq 256"
  have j: "(unat (of_nat (Suc i mod 16) :: u32) + 15) mod 16 = i"
  proof -
    have "unat (of_nat (Suc i mod 16) :: u32) = Suc i mod 16" by (simp add: unat_of_nat take_bit_nat_eq_self_iff)
    with i show ?thesis by (cases "i = 15") auto
  qed
  define m where "m = store_le (store_bytes (mem s) p (disk lba)) (cq + of_nat (16 * i + 14)) 2 (1 :: u16)"
  have "hw (ssd_env disk bar sq cq) s = s\<lparr>mem := m\<rparr>"
    using tr by (simp add: ssd_env_def Let_def j c read_cmd_fields m_def del: of_nat_mult of_nat_add)
  moreover have "apart p 512 (cq + of_nat (16 * i + 14)) 2"
    using apart_sub [OF ap, of "16 * i + 14" 2] i by (simp add: apart_def)
  then have "load_bytes m p 512 = disk lba"
    using load_store_bytes_same [of "disk lba" "mem s" p] assms
    by (simp add: m_def apart_sym del: of_nat_mult of_nat_add)
  moreover have "completion_status m cq i AND 1 \<noteq> 0"
    by (simp add: completion_status_def m_def del: of_nat_mult of_nat_add)
  ultimately show "\<exists>m. hw (ssd_env disk bar sq cq) s = s\<lparr>mem := m\<rparr> \<and> load_bytes m p 512 = disk lba
      \<and> completion_status m cq i AND 1 \<noteq> 0" by blast
qed

definition demo_drive :: nvme where
  "demo_drive = \<lparr>nv_bar0 = 0xFEBF0000, asq_ptr = 0, acq_ptr = 0, iosq_ptr = 0x100000, iocq_ptr = 0x101000,
     iosq_tail = 0, iocq_head = 0\<rparr>"

definition demo_live :: "block list" where
  "demo_live = [(0x101000, 256), (0x100000, 1024)]"

lemma demo_live_inv: "heap_inv (bump_env\<lparr>hw := h\<rparr>) 0x100000 0x200000 demo_live"
proof -
  have "galloc bump_env 1024 1 [] = (0x100000 :: u64)" "galloc bump_env 256 1 [(0x100000, 1024)] = (0x101000 :: u64)"
    by (simp_all add: bump_env_def)
  then show ?thesis
    by (auto simp: heap_inv_def demo_live_def in_heap_def apart_def intro!: exI [of _ 1])
qed

lemma demo_drive_ok:
  assumes "\<And>lba. length (disk lba) = 512" and "live s = demo_live" and "n \<le> 3"
  shows "drive_ok (ssd_env disk 0xFEBF0000 0x100000 0x101000) 0x100000 0x200000 disk n demo_drive s"
  using ssd_heap [of disk "0xFEBF0000" "0x100000" "0x101000"] ssd_serves [OF assms(1), where bar = "0xFEBF0000" and sq = "0x100000" and cq = "0x101000"] assms(2,3)
    demo_live_inv
  by (auto simp: drive_ok_def demo_drive_def ssd_env_def mmio_region_def off_heap_def demo_live_def)


text \<open>The driver waits for a set phase bit only. A controller inverts the
  phase bit with every pass over the queue, so on every second pass the completions carry a
  clear bit; then the wait looks its full bound of times and gives up, although the
  command completed.\<close>

lemma stale_phase_times_out:
  assumes "\<And>s. completion_status (mem (hw e s)) cq i AND 1 = 0"
  shows "wait_completion e n cq i s = (False, (hw e ^^ Suc n) s)"
proof (induction n arbitrary: s)
  case 0
  then show ?case using assms by (simp add: wait_completion_def Let_def)
next
  case (Suc n)
  have "wait_completion e (Suc n) cq i s = wait_completion e n cq i (hw e s)"
    using assms by (simp add: wait_completion_def Let_def)
  also have "\<dots> = (False, (hw e ^^ Suc (Suc n)) s)" unfolding Suc by (simp only: funpow_Suc_right comp_apply)
  finally show ?case .
qed

end
