(* ===== verification/Fat32.thy ===== *)
theory Fat32
  imports Nvme
begin

text \<open>
  The FAT32 reader (\<open>src/src/fat32.rs\<close>) and the payload loader of the boot sequence
  (\<open>src/src/main.rs\<close>, \<open>_start\<close>), which finds the file PAYLOAD.TXT in the first sector of the
  root directory and keeps its first line. The loader is verified against the contract of a
  block device, the locale \<open>block_device\<close>, of which the NVMe driver is an interpretation.
\<close>

section \<open>On-disk structures\<close>

text \<open>\<open>repr(C, packed)\<close> views of a sector's bytes.\<close>

record fat32_boot_sector =
  jmp_boot :: "u8 list"
  oem_name :: "u8 list"
  bytes_per_sector :: u16
  bpb_sectors_per_cluster :: u8
  reserved_sector_count :: u16
  num_fats :: u8
  root_entry_count :: u16
  total_sectors_16 :: u16
  media :: u8
  fat_size_16 :: u16
  sectors_per_track :: u16
  num_heads :: u16
  hidden_sectors :: u32
  total_sectors_32 :: u32
  fat_size_32 :: u32
  ext_flags :: u16
  fs_version :: u16
  bpb_root_cluster :: u32
  fs_info :: u16
  backup_boot_sector :: u16
  reserved_0 :: "u8 list"
  drive_number :: u8
  reserved_1 :: u8
  boot_signature :: u8
  volume_id :: u32
  volume_label :: "u8 list"
  fs_type :: "u8 list"

definition boot_sector_view :: "u8 list \<Rightarrow> fat32_boot_sector" where
  "boot_sector_view b = \<lparr>jmp_boot = field b 0 3, oem_name = field b 3 8, bytes_per_sector = of_le (field b 11 2),
     bpb_sectors_per_cluster = b ! 13, reserved_sector_count = of_le (field b 14 2), num_fats = b ! 16,
     root_entry_count = of_le (field b 17 2), total_sectors_16 = of_le (field b 19 2), media = b ! 21,
     fat_size_16 = of_le (field b 22 2), sectors_per_track = of_le (field b 24 2), num_heads = of_le (field b 26 2),
     hidden_sectors = of_le (field b 28 4), total_sectors_32 = of_le (field b 32 4), fat_size_32 = of_le (field b 36 4),
     ext_flags = of_le (field b 40 2), fs_version = of_le (field b 42 2), bpb_root_cluster = of_le (field b 44 4),
     fs_info = of_le (field b 48 2), backup_boot_sector = of_le (field b 50 2), reserved_0 = field b 52 12,
     drive_number = b ! 64, reserved_1 = b ! 65, boot_signature = b ! 66, volume_id = of_le (field b 67 4),
     volume_label = field b 71 11, fs_type = field b 82 8\<rparr>"

record fat32_dir_entry =
  de_name :: "u8 list"
  de_attr :: u8
  nt_res :: u8
  crt_time_tenth :: u8
  crt_time :: u16
  crt_date :: u16
  lst_acc_date :: u16
  fst_clus_hi :: u16
  wrt_time :: u16
  wrt_date :: u16
  fst_clus_lo :: u16
  file_size :: u32

definition dir_entry_view :: "u8 list \<Rightarrow> fat32_dir_entry" where
  "dir_entry_view b = \<lparr>de_name = field b 0 11, de_attr = b ! 11, nt_res = b ! 12, crt_time_tenth = b ! 13,
     crt_time = of_le (field b 14 2), crt_date = of_le (field b 16 2), lst_acc_date = of_le (field b 18 2),
     fst_clus_hi = of_le (field b 20 2), wrt_time = of_le (field b 22 2), wrt_date = of_le (field b 24 2),
     fst_clus_lo = of_le (field b 26 2), file_size = of_le (field b 28 4)\<rparr>"

section \<open>The volume\<close>

record fat32_volume =
  first_data_sector :: u32
  sectors_per_cluster :: u32
  root_cluster :: u32
  fat_start_sector :: u32

definition volume_new :: "fat32_boot_sector \<Rightarrow> fat32_volume option" where
  "volume_new bpb = do {
     let fat_start = (ucast (reserved_sector_count bpb) :: u32);
     fats \<leftarrow> wmul (ucast (num_fats bpb)) (fat_size_32 bpb);
     first \<leftarrow> wadd fat_start fats;
     Some \<lparr>first_data_sector = first, sectors_per_cluster = ucast (bpb_sectors_per_cluster bpb),
       root_cluster = bpb_root_cluster bpb, fat_start_sector = fat_start\<rparr>
   }"

definition cluster_to_lba :: "fat32_volume \<Rightarrow> u32 \<Rightarrow> u64 option" where
  "cluster_to_lba v cluster =
     (if cluster < 2 then Some 0
      else do {
        c \<leftarrow> wsub cluster 2;
        d \<leftarrow> wmul c (sectors_per_cluster v);
        l \<leftarrow> wadd (first_data_sector v) d;
        Some (ucast l)
      })"

section \<open>The payload loader\<close>

definition payload_name :: "u8 list" where
  "payload_name = lit ''PAYLOAD TXT''"

definition entry_cluster :: "fat32_dir_entry \<Rightarrow> u32" where
  "entry_cluster d = push_bit 16 (ucast (fst_clus_hi d)) OR ucast (fst_clus_lo d)"

text \<open>The loop over the sixteen entries of the root directory's first sector; \<open>0\<close> when there
  is none.\<close>

fun find_payload :: "fat32_dir_entry list \<Rightarrow> u32" where
  "find_payload [] = 0"
| "find_payload (d # ds) = (if de_name d = payload_name then entry_cluster d else find_payload ds)"

definition dir_entries :: "u8 list \<Rightarrow> fat32_dir_entry list" where
  "dir_entries sector = map (\<lambda>i. dir_entry_view (field sector (32 * i) 32)) [0..<512 div 32]"

text \<open>\<open>while str_len < 512 && sector[str_len] != 0 && sector[str_len] != 0x0A { str_len += 1; }\<close>\<close>

function first_line_len :: "u8 list \<Rightarrow> nat \<Rightarrow> nat option" where
  "first_line_len sector n =
     (if n < 512 then do {
        b \<leftarrow> nth_chk sector n;
        if b \<noteq> 0 \<and> b \<noteq> 0x0A then first_line_len sector (n + 1) else Some n
      } else Some n)"
  by pat_completeness auto
termination by (relation "measure (\<lambda>(s, n). 512 - n)") auto

declare first_line_len.simps [simp del]

definition load_payload ::
  "('d \<Rightarrow> u64 \<Rightarrow> 'a gfx_scheme \<Rightarrow> (u8 list \<times> 'd \<times> 'a gfx_scheme) option) \<Rightarrow> 'd \<Rightarrow> 'a gfx_scheme
     \<Rightarrow> (rstr \<times> 'd \<times> 'a gfx_scheme) option" where
  "load_payload read drive s = do {
     (sector_0, drive, s) \<leftarrow> read drive 0 s;
     volume \<leftarrow> volume_new (boot_sector_view sector_0);
     root_lba \<leftarrow> cluster_to_lba volume (root_cluster volume);
     if root_lba > 0 then do {
       (root_sector, drive, s) \<leftarrow> read drive root_lba s;
       let payload_cluster = find_payload (dir_entries root_sector);
       if payload_cluster \<ge> 2 then do {
         payload_lba \<leftarrow> cluster_to_lba volume payload_cluster;
         (payload_sector, drive, s) \<leftarrow> read drive payload_lba s;
         str_len \<leftarrow> first_line_len payload_sector 0;
         line \<leftarrow> slice_chk payload_sector 0 str_len;
         case from_utf8 line of
           Some secret_str \<Rightarrow> do {
             s \<leftarrow> print_str (10 # lit ''> FAT32 DECRYPTED: PAYLOAD.TXT EXTRACTED'' @ [10]) 0x10B981 s;
             Some (lit ''FILE CONTENT: '' @ secret_str, drive, s)
           }
         | None \<Rightarrow> Some ([], drive, s)
       } else Some (lit ''ERROR: PAYLOAD.TXT NOT FOUND!'', drive, s)
     } else Some (lit ''ERROR: INVALID FAT32 ROOT CLUSTER'', drive, s)
   }"

section \<open>Cluster addresses\<close>

lemma cluster_to_lba_eq:
  "cluster_to_lba v c =
    (if c < 2 then Some 0
     else let l = unat (first_data_sector v) + (unat c - 2) * unat (sectors_per_cluster v) in
       if l < 2 ^ 32 then Some (of_nat l) else None)"
proof (cases "c < 2")
  case True
  then show ?thesis by (simp add: cluster_to_lba_def)
next
  case False
  define x where "x = (unat c - 2) * unat (sectors_per_cluster v)"
  have s: "wsub c 2 = Some (c - 2)" "unat (c - 2) = unat c - 2"
    using False by (auto simp: wsub_def not_less unat_sub word_le_nat_alt)
  show ?thesis
  proof (cases "x < 2 ^ 32")
    case xl: False
    then show ?thesis using False s by (simp add: cluster_to_lba_def wmul_def x_def [symmetric] Let_def)
  next
    case xl: True
    have m: "wmul (c - 2) (sectors_per_cluster v) = Some ((c - 2) * sectors_per_cluster v)"
      "unat ((c - 2) * sectors_per_cluster v) = x"
      using xl s(2) by (simp_all add: wmul_def x_def unat_word_ariths)
    show ?thesis
    proof (cases "unat (first_data_sector v) + x < 2 ^ 32")
      case True
      then have "unat (first_data_sector v + (c - 2) * sectors_per_cluster v) = unat (first_data_sector v) + x"
        using m(2) by (simp add: unat_word_ariths)
      then have "(ucast (first_data_sector v + (c - 2) * sectors_per_cluster v) :: u64) = of_nat (unat (first_data_sector v) + x)"
        by (metis of_nat_unat)
      with True False s m show ?thesis
        by (simp add: cluster_to_lba_def wadd_def x_def [symmetric] Let_def)
    next
      case nt: False
      with False s m show ?thesis by (simp add: cluster_to_lba_def wadd_def x_def [symmetric] Let_def)
    qed
  qed
qed

section \<open>The contract of a block device\<close>

text \<open>What the loader computes, as a function of the disk's contents alone; \<open>None\<close> is a panic.\<close>

definition line_of :: "u8 list \<Rightarrow> u8 list" where
  "line_of sector = takeWhile (\<lambda>b. b \<noteq> 0 \<and> b \<noteq> 0x0A) sector"

definition payload_text :: "u8 list \<Rightarrow> rstr" where
  "payload_text sector = (case from_utf8 (line_of sector) of Some t \<Rightarrow> lit ''FILE CONTENT: '' @ t | None \<Rightarrow> [])"

definition payload_of :: "(u64 \<Rightarrow> u8 list) \<Rightarrow> rstr option" where
  "payload_of disk = do {
     v \<leftarrow> volume_new (boot_sector_view (disk 0));
     root_lba \<leftarrow> cluster_to_lba v (root_cluster v);
     if root_lba = 0 then Some (lit ''ERROR: INVALID FAT32 ROOT CLUSTER'')
     else let c = find_payload (dir_entries (disk root_lba)) in
       if c < 2 then Some (lit ''ERROR: PAYLOAD.TXT NOT FOUND!'')
       else map_option (\<lambda>lba. payload_text (disk lba)) (cluster_to_lba v c)
   }"

lemma first_line_len_ok:
  assumes "length sector = 512" and "n \<le> 512"
  shows "first_line_len sector n = Some (n + length (line_of (drop n sector)))"
  using assms(2)
proof (induction "512 - n" arbitrary: n)
  case 0
  then show ?case using assms(1) by (subst first_line_len.simps) (simp add: line_of_def)
next
  case (Suc k)
  then have n: "n < 512" by simp
  then have d: "drop n sector = sector ! n # drop (Suc n) sector"
    using assms(1) by (simp add: Cons_nth_drop_Suc)
  have "first_line_len sector (Suc n) = Some (Suc n + length (line_of (drop (Suc n) sector)))"
    using Suc by (intro Suc.hyps) auto
  with n assms(1) d show ?case by (subst first_line_len.simps) (simp add: line_of_def nth_chk_def)
qed

locale block_device =
  fixes read :: "'d \<Rightarrow> u64 \<Rightarrow> 'a gfx_scheme \<Rightarrow> (u8 list \<times> 'd \<times> 'a gfx_scheme) option"
    and disk :: "u64 \<Rightarrow> u8 list"
    and ready :: "nat \<Rightarrow> 'd \<Rightarrow> 'a gfx_scheme \<Rightarrow> bool"
  assumes read_ready: "ready (Suc n) d s \<Longrightarrow> \<exists>d' s'. read d lba s = Some (disk lba, d', s') \<and> ready n d' s'"
    and sector_size: "ready n d s \<Longrightarrow> length (disk lba) = 512"
    and ready_gfx: "ready n d s \<Longrightarrow> gfx_ok s"
begin

text \<open>With three reads to spare the loader returns exactly what the disk says, and panics exactly
  when the volume's numbers overflow.\<close>

lemma load_payload_result:
  assumes "ready 3 d s"
  shows "map_option fst (load_payload read d s) = payload_of disk"
proof -
  have r3: "ready (Suc (Suc (Suc 0))) d s" using assms by (simp add: numeral_3_eq_3)
  from read_ready [OF r3, of 0] obtain d1 s1 where
    r0: "read d 0 s = Some (disk 0, d1, s1)" "ready (Suc (Suc 0)) d1 s1" by blast
  show ?thesis
  proof (cases "volume_new (boot_sector_view (disk 0))")
    case None
    then show ?thesis by (simp add: load_payload_def payload_of_def r0(1))
  next
    case (Some v)
    note vol = this
    show ?thesis
    proof (cases "cluster_to_lba v (root_cluster v)")
      case None
      then show ?thesis by (simp add: load_payload_def payload_of_def r0(1) vol)
    next
      case (Some root)
      show ?thesis
      proof (cases "root = 0")
        case True
        with Some show ?thesis by (simp add: load_payload_def payload_of_def r0(1) vol)
      next
        case False
        then have pos: "root > 0" by (simp add: word_neq_0_conv)
        from read_ready [OF r0(2), of root] obtain d2 s2 where
          r1: "read d1 root s1 = Some (disk root, d2, s2)" "ready (Suc 0) d2 s2" by blast
        define c where "c = find_payload (dir_entries (disk root))"
        have tail: "map_option fst (do {
             lba \<leftarrow> cluster_to_lba v c;
             (payload_sector, drive, s) \<leftarrow> read d2 lba s2;
             str_len \<leftarrow> first_line_len payload_sector 0;
             line \<leftarrow> slice_chk payload_sector 0 str_len;
             case from_utf8 line of
               Some secret_str \<Rightarrow> do {
                 s \<leftarrow> print_str (10 # lit ''> FAT32 DECRYPTED: PAYLOAD.TXT EXTRACTED'' @ [10]) 0x10B981 s;
                 Some (lit ''FILE CONTENT: '' @ secret_str, drive, s) }
             | None \<Rightarrow> Some ([], drive, s) })
           = map_option (\<lambda>lba. payload_text (disk lba)) (cluster_to_lba v c)"
        proof (cases "cluster_to_lba v c")
          case (Some lba)
          from read_ready [OF r1(2), of lba] obtain d3 s3 where
            r2: "read d2 lba s2 = Some (disk lba, d3, s3)" "ready 0 d3 s3" by blast
          have len: "length (disk lba) = 512" by (rule sector_size [OF r2(2)])
          have fl: "first_line_len (disk lba) 0 = Some (length (line_of (disk lba)))"
            using first_line_len_ok [OF len, of 0] by simp
          have sl: "slice_chk (disk lba) 0 (length (line_of (disk lba))) = Some (line_of (disk lba))"
            unfolding slice_chk_def line_of_def using length_takeWhile_le [of _ "disk lba"]
            by (simp add: takeWhile_eq_take [symmetric])
          obtain s4 where "print_str (10 # lit ''> FAT32 DECRYPTED: PAYLOAD.TXT EXTRACTED'' @ [10]) 0x10B981 s3 = Some s4"
            using print_str_ok [OF ready_gfx [OF r2(2)]] by blast
          with Some r2(1) fl sl show ?thesis by (simp add: payload_text_def split: option.splits)
        qed simp
        show ?thesis
          using tail pos False Some
          by (cases "c < 2")
            (simp_all add: load_payload_def payload_of_def r0(1) vol r1(1) c_def [symmetric] Let_def not_less [symmetric])
      qed
    qed
  qed
qed

end

text \<open>A device whose readiness survives printing, and that may be read less often than it could: the loader
  leaves it ready, too.\<close>

locale kept_block_device = block_device +
  assumes ready_print: "ready n d s \<Longrightarrow> print_str t c s = Some s' \<Longrightarrow> ready n d s'"
    and ready_less: "ready (Suc n) d s \<Longrightarrow> ready n d s"
begin

lemma read_keeps: "ready (Suc n) d s \<Longrightarrow> read d lba s = Some (x, d', s') \<Longrightarrow> ready n d' s'"
  using read_ready [of n d s lba] by auto

lemma load_payload_ready:
  assumes "ready 3 d s" and "load_payload read d s = Some (t, d', s')"
  shows "ready 0 d' s'"
proof -
  have r3: "ready (Suc (Suc (Suc 0))) d s" using assms(1) by (simp add: numeral_3_eq_3)
  from assms(2) obtain x1 d1 s1 v root where
    r1: "read d 0 s = Some (x1, d1, s1)" and root: "volume_new (boot_sector_view x1) = Some v" "cluster_to_lba v (root_cluster v) = Some root"
    by (auto simp: load_payload_def bind_eq_Some_conv)
  note k1 = read_keeps [OF r3 r1]
  show ?thesis
  proof (cases "root > 0")
    case False
    with assms(2) r1 root have "d' = d1" "s' = s1" by (auto simp: load_payload_def)
    with ready_less [OF ready_less [OF k1]] show ?thesis by simp
  next
    case True
    with assms(2) r1 root obtain x2 d2 s2 where r2: "read d1 root s1 = Some (x2, d2, s2)"
      by (auto simp: load_payload_def bind_eq_Some_conv)
    note k2 = read_keeps [OF k1 r2]
    show ?thesis
    proof (cases "2 \<le> find_payload (dir_entries x2)")
      case False
      with assms(2) r1 r2 root True have "d' = d2" "s' = s2" by (auto simp: load_payload_def Let_def)
      with ready_less [OF k2] show ?thesis by simp
    next
      case True
      with assms(2) r1 r2 root \<open>root > 0\<close> obtain lba x3 d3 s3 where
        r3: "read d2 lba s2 = Some (x3, d3, s3)" and
        fin: "(d' = d3 \<and> s' = s3) \<or> (d' = d3 \<and> (\<exists>t c. print_str t c s3 = Some s'))"
        by (auto simp: load_payload_def Let_def bind_eq_Some_conv split: option.splits) blast+
      from fin read_keeps [OF k2 r3] ready_print show ?thesis by blast
    qed
  qed
qed

end

section \<open>The NVMe drive is a block device\<close>

definition drive_ready ::
  "('a gfx_scheme) env \<Rightarrow> nat \<Rightarrow> nat \<Rightarrow> (u64 \<Rightarrow> u8 list) \<Rightarrow> nat \<Rightarrow> nvme \<Rightarrow> 'a gfx_scheme \<Rightarrow> bool" where
  "drive_ready e base sz disk n nv s \<longleftrightarrow> drive_ok e base sz disk n nv s \<and> gfx_ok s \<and> (\<forall>lba. length (disk lba) = 512)"

lemma drive_ready_read:
  assumes "drive_ready e base sz disk (Suc n) d (s :: 'a gfx_scheme)"
  shows "\<exists>d' m l t. read_sector e d lba s = Some (disk lba, d', s\<lparr>mem := m, live := l, io_trace := t\<rparr>)
    \<and> drive_ready e base sz disk n d' (s\<lparr>mem := m, live := l, io_trace := t\<rparr>) \<and> (\<exists>p. l = (p, 4096) # live s)"
proof -
  have "drive_ok e base sz disk (Suc n) d s" using assms by (simp add: drive_ready_def)
  from read_sector_ok [OF this, of lba] obtain d' s' where
    s': "read_sector e d lba s = Some (disk lba, d', s')" "drive_ok e base sz disk n d' s'"
    "s' = s\<lparr>mem := mem s', live := live s', io_trace := io_trace s'\<rparr>" "\<exists>p. live s' = (p, 4096) # live s" by blast
  obtain m l t where e: "s' = s\<lparr>mem := m, live := l, io_trace := t\<rparr>" using s'(3) by blast
  then have "gfx_ok s'" using assms by (simp add: drive_ready_def gfx_ok_def)
  with s'(1,2,4) assms show ?thesis unfolding e
    by (intro exI [of _ d'] exI [of _ m] exI [of _ l] exI [of _ t]) (simp add: drive_ready_def)
qed

lemma drive_ready_print:
  assumes "drive_ready e base sz disk n d s" and "print_str t c s = Some s'"
  shows "drive_ready e base sz disk n d s'"
proof -
  from assms(1) have "gfx_ok s" by (simp add: drive_ready_def)
  from print_str_ok [OF this, of t c] assms(2) have "gfx_ok s'" "same_but_terminal s s'" by auto
  with assms(1) same_but_terminal_fields [of s s'] show ?thesis by (auto simp: drive_ready_def drive_ok_def)
qed

lemma drive_ready_less: "drive_ready e base sz disk (Suc n) d s \<Longrightarrow> drive_ready e base sz disk n d s"
  by (auto simp: drive_ready_def drive_ok_def)

interpretation drive: kept_block_device "read_sector e" disk "drive_ready e base sz disk" for e base sz disk
proof
  fix n d lba and s :: "'a gfx_scheme"
  assume "drive_ready e base sz disk (Suc n) d s"
  from drive_ready_read [OF this, of lba]
  show "\<exists>d' s'. read_sector e d lba s = Some (disk lba, d', s') \<and> drive_ready e base sz disk n d' s'" by blast
qed (simp add: drive_ready_def, simp add: drive_ready_def, erule (1) drive_ready_print, erule drive_ready_less)

section \<open>Properties\<close>


text \<open>A small volume: reserved area of 2 sectors, one FAT of 3, one sector per cluster, the root
  directory in cluster 2 with the file as its second entry, in cluster 4.\<close>

definition demo_disk :: "u64 \<Rightarrow> u8 list" where
  "demo_disk lba =
     (if lba = 0 then replicate 13 0 @ [1, 2, 0, 1] @ replicate 19 0 @ [3, 0, 0, 0] @ replicate 4 0 @ [2, 0, 0, 0] @ replicate 464 0
      else if lba = 5 then replicate 32 0x41 @ payload_name @ replicate 15 0 @ [4, 0] @ replicate 4 0 @ replicate 448 0
      else if lba = 7 then lit ''SECRET'' @ [0x0A] @ replicate 505 0x42
      else replicate 512 0)"

lemma demo_disk_size: "length (demo_disk lba) = 512"
  by (simp add: demo_disk_def payload_name_def)

lemma demo_volume: "volume_new (boot_sector_view (demo_disk 0)) =
    Some \<lparr>first_data_sector = 5, sectors_per_cluster = 1, root_cluster = 2, fat_start_sector = 2\<rparr>"
  by (simp add: volume_new_def boot_sector_view_def demo_disk_def field_def wmul_def wadd_def Let_def nth_append)

lemma demo_entry: "find_payload (dir_entries (demo_disk 5)) = 4"
proof -
  have rep: "replicate 2 (0 :: u8) = [0, 0]" by (simp add: numeral_2_eq_2)
  have "[0..<512 div 32] = 0 # 1 # [2..<16]" by (simp add: upt_conv_Cons)
  moreover have "de_name (dir_entry_view (field (demo_disk 5) (32 * 0) 32)) = replicate 11 0x41"
    "de_name (dir_entry_view (field (demo_disk 5) (32 * 1) 32)) = payload_name"
    "entry_cluster (dir_entry_view (field (demo_disk 5) (32 * 1) 32)) = 4"
    by (simp_all add: dir_entry_view_def entry_cluster_def demo_disk_def field_def payload_name_def rep)
  moreover have "replicate 11 0x41 \<noteq> payload_name" by code_simp
  ultimately show ?thesis by (simp add: dir_entries_def)
qed

lemma demo_payload: "payload_of demo_disk = Some (lit ''FILE CONTENT: SECRET'')"
proof -
  have "line_of (demo_disk 7) = lit ''SECRET''" by (simp add: demo_disk_def line_of_def lit_def)
  moreover have "from_utf8 (lit ''SECRET'') = Some (lit ''SECRET'')" by code_simp
  ultimately have "payload_text (demo_disk 7) = lit ''FILE CONTENT: SECRET''"
    by (simp add: payload_text_def lit_def)
  then show ?thesis
    unfolding payload_of_def demo_volume
    by (simp add: cluster_to_lba_eq demo_entry Let_def)
qed


text \<open>C37. Cluster addresses are sound: different data clusters of a volume occupy
  disjoint runs of sectors, none of which reaches into the reserved area and the FATs below the
  first data sector; the reserved cluster numbers 0 and 1 give address 0; and a cluster whose
  address does not fit 32 bits makes \<open>cluster_to_lba\<close> panic.\<close>

theorem clusters_disjoint:
  fixes v :: fat32_volume
  defines "addr c \<equiv> unat (first_data_sector v) + (unat c - 2) * unat (sectors_per_cluster v)"
  shows "(c < 2 \<longrightarrow> cluster_to_lba v c = Some 0)
    \<and> (2 \<le> c \<longrightarrow> (cluster_to_lba v c = None \<longleftrightarrow> 2 ^ 32 \<le> addr c))
    \<and> (\<forall>a. 2 \<le> c \<longrightarrow> cluster_to_lba v c = Some a \<longrightarrow> unat (first_data_sector v) \<le> unat a
      \<and> (\<forall>d b. cluster_to_lba v d = Some b \<longrightarrow> 2 \<le> d \<longrightarrow> c \<noteq> d \<longrightarrow>
          unat a + unat (sectors_per_cluster v) \<le> unat b \<or> unat b + unat (sectors_per_cluster v) \<le> unat a))"
proof (intro conjI)
  have *: "unat x = addr k" if "cluster_to_lba v k = Some x" "2 \<le> k" for k x
  proof -
    have "addr k < 2 ^ 32" "x = of_nat (addr k)"
      using that by (auto simp: cluster_to_lba_eq addr_def [symmetric] Let_def split: if_splits)
    then have "addr k < 2 ^ 64" by simp
    then have "unat (of_nat (addr k) :: u64) = addr k" by (simp only: unat_of_nat) simp
    with \<open>x = of_nat (addr k)\<close> show ?thesis by simp
  qed
  have run: "unat a + unat (sectors_per_cluster v) \<le> unat b"
    if "cluster_to_lba v c = Some a" "2 \<le> c" "cluster_to_lba v d = Some b" "2 \<le> d" "unat c < unat d" for a b c d
  proof -
    have "unat c - 2 + 1 \<le> unat d - 2" using that(2,5) by (auto simp: word_le_nat_alt)
    from mult_le_mono1 [OF this, of "unat (sectors_per_cluster v)"] * [OF that(1,2)] * [OF that(3,4)]
    show ?thesis by (simp add: addr_def algebra_simps)
  qed
  have "unat c < unat d \<or> unat d < unat c" if "c \<noteq> d" for d
    using that by (metis linorder_neqE_nat unsigned_word_eqI)
  then show "\<forall>a. 2 \<le> c \<longrightarrow> cluster_to_lba v c = Some a \<longrightarrow> unat (first_data_sector v) \<le> unat a
      \<and> (\<forall>d b. cluster_to_lba v d = Some b \<longrightarrow> 2 \<le> d \<longrightarrow> c \<noteq> d \<longrightarrow>
          unat a + unat (sectors_per_cluster v) \<le> unat b \<or> unat b + unat (sectors_per_cluster v) \<le> unat a)"
    using run * [of c] by (fastforce simp: addr_def)
qed (auto simp: cluster_to_lba_eq addr_def Let_def)

theorem clusters_disjoint_witness:
  "cluster_to_lba \<lparr>first_data_sector = 5, sectors_per_cluster = 8, root_cluster = 2, fat_start_sector = 2\<rparr> 1 = Some 0
    \<and> cluster_to_lba \<lparr>first_data_sector = 5, sectors_per_cluster = 8, root_cluster = 2, fat_start_sector = 2\<rparr> 0x30000000 = None"
  using clusters_disjoint [of 1 "\<lparr>first_data_sector = 5, sectors_per_cluster = 8, root_cluster = 2, fat_start_sector = 2\<rparr>"]
    clusters_disjoint [of "0x30000000" "\<lparr>first_data_sector = 5, sectors_per_cluster = 8, root_cluster = 2, fat_start_sector = 2\<rparr>"]
  by simp

end
