(* ===== verification/Mouse.thy ===== *)
theory Mouse
  imports Terminal
begin

text \<open>
  The PS/2 mouse (\<open>src/src/mouse.rs\<close>): the controller's initialisation over ports \<open>0x60\<close> and
  \<open>0x64\<close>, and the packet decoder the interrupt handler feeds byte by byte.
\<close>

section \<open>State\<close>

record mouse =
  MOUSE_X :: i32
  MOUSE_Y :: i32
  MOUSE_BTN :: u8
  MOUSE_CYCLE :: u8
  MOUSE_PACKET :: "u8 list"

definition mouse_start :: mouse where
  "mouse_start = \<lparr>MOUSE_X = 400, MOUSE_Y = 300, MOUSE_BTN = 0, MOUSE_CYCLE = 0, MOUSE_PACKET = [0, 0, 0]\<rparr>"

text \<open>\<open>AtomicI32::fetch_add\<close> wraps around.\<close>

definition wrap32 :: "int \<Rightarrow> i32" where
  "wrap32 x = (x + 2 ^ 31) mod 2 ^ 32 - 2 ^ 31"

section \<open>The packet decoder\<close>

definition sign9 :: "bool \<Rightarrow> u8 \<Rightarrow> i32" where
  "sign9 neg b = (if neg then uint b OR NOT 0xFF else uint b)"

definition decode_packet :: "mouse \<Rightarrow> mouse" where
  "decode_packet m =
     (let state = MOUSE_PACKET m ! 0;
          dx = sign9 (state AND push_bit 4 1 \<noteq> 0) (MOUSE_PACKET m ! 1);
          dy = - sign9 (state AND push_bit 5 1 \<noteq> 0) (MOUSE_PACKET m ! 2)
      in m\<lparr>MOUSE_X := wrap32 (MOUSE_X m + dx), MOUSE_Y := wrap32 (MOUSE_Y m + dy),
           MOUSE_BTN := state AND 0x03, MOUSE_CYCLE := 0\<rparr>)"

definition process_packet_byte :: "u8 \<Rightarrow> mouse \<Rightarrow> mouse" where
  "process_packet_byte byte m =
     (if MOUSE_CYCLE m = 0 then
        if byte AND 0x08 \<noteq> 0
        then m\<lparr>MOUSE_PACKET := (MOUSE_PACKET m)[0 := byte], MOUSE_CYCLE := MOUSE_CYCLE m + 1\<rparr>
        else m
      else if MOUSE_CYCLE m = 1 then
        m\<lparr>MOUSE_PACKET := (MOUSE_PACKET m)[1 := byte], MOUSE_CYCLE := MOUSE_CYCLE m + 1\<rparr>
      else if MOUSE_CYCLE m = 2 then
        decode_packet (m\<lparr>MOUSE_PACKET := (MOUSE_PACKET m)[2 := byte]\<rparr>)
      else m\<lparr>MOUSE_CYCLE := 0\<rparr>)"

section \<open>The controller\<close>

fun port_wait :: "nat \<Rightarrow> 's env \<Rightarrow> (u8 \<Rightarrow> bool) \<Rightarrow> 's \<Rightarrow> 's" where
  "port_wait 0 e ready s = s"
| "port_wait (Suc n) e ready s = (case port_in e 0x64 s of (v, s) \<Rightarrow> if ready v then s else port_wait n e ready s)"

definition wait_write :: "'s env \<Rightarrow> 's \<Rightarrow> 's" where
  "wait_write e = port_wait 100000 e (\<lambda>v. v AND 2 = 0)"

definition wait_read :: "'s env \<Rightarrow> 's \<Rightarrow> 's" where
  "wait_read e = port_wait 100000 e (\<lambda>v. v AND 1 = 1)"

definition mouse_write :: "('a machine_scheme) env \<Rightarrow> u8 \<Rightarrow> 'a machine_scheme \<Rightarrow> 'a machine_scheme" where
  "mouse_write e v s =
     (let s = wait_write e s;
          s = port_write 0x64 0xD4 s;
          s = wait_write e s
      in port_write 0x60 v s)"

definition mouse_read :: "('a machine_scheme) env \<Rightarrow> 'a machine_scheme \<Rightarrow> u8 \<times> 'a machine_scheme" where
  "mouse_read e s = port_in e 0x60 (wait_read e s)"

definition mouse_init :: "('a gfx_scheme) env \<Rightarrow> 'a gfx_scheme \<Rightarrow> 'a gfx_scheme option" where
  "mouse_init e s =
     (let s = port_write 0x64 0xA8 (wait_write e s);
          s = port_write 0x64 0x20 (wait_write e s);
          (status, s) = port_in e 0x60 (wait_read e s);
          status = (status OR push_bit 1 1) AND NOT (push_bit 5 1);
          s = port_write 0x64 0x60 (wait_write e s);
          s = port_write 0x60 status (wait_write e s);
          s = mouse_write e 0xF6 s;
          (_, s) = mouse_read e s;
          s = mouse_write e 0xF4 s;
          (_, s) = mouse_read e s
      in print_str (lit ''SYS: PS/2 Mouse Controller Awake. IRQ 12 Routed.'' @ [10]) 0x10B981 s)"

section \<open>Invariant\<close>

definition mouse_ok :: "mouse \<Rightarrow> bool" where
  "mouse_ok m \<longleftrightarrow> MOUSE_CYCLE m \<le> 2 \<and> length (MOUSE_PACKET m) = 3 \<and> MOUSE_BTN m \<le> 3
     \<and> in_i32 (MOUSE_X m) \<and> in_i32 (MOUSE_Y m)"

lemma wrap32_range: "in_i32 (wrap32 x)"
  by (simp add: wrap32_def in_i32_def)

lemma wrap32_id: "in_i32 x \<Longrightarrow> wrap32 x = x"
  by (simp add: wrap32_def in_i32_def)

lemma wrap32_add: "wrap32 (wrap32 x + y) = wrap32 (x + y)"
  unfolding wrap32_def by (simp add: mod_simps algebra_simps)

text \<open>The sign bit of the first byte turns a movement byte into a nine-bit two's complement number.\<close>

lemma sign9_arith: "sign9 neg b = (if neg then uint b - 256 else uint b)"
proof -
  have b: "uint b = take_bit 8 (uint b)"
    using uint_bounded [of b] by (simp add: take_bit_int_eq_self)
  have "uint b + NOT (mask 8) = uint b OR NOT (mask 8)"
    by (rule disjunctive_add) (subst b, auto simp: bit_simps)
  then show ?thesis by (simp add: sign9_def mask_eq_exp_minus_1 not_int_def)
qed

lemma buttons_le: "(b :: u8) AND 3 \<le> 3"
  by (rule word_and_le1)

lemma cycle_cases:
  assumes "(c :: u8) \<le> 2"
  obtains "c = 0" | "c = 1" | "c = 2"
proof -
  have "unat c \<le> 2" using assms by (simp add: word_le_nat_alt)
  then have "unat c = 0 \<or> unat c = 1 \<or> unat c = 2" by linarith
  then have "c = 0 \<or> c = 1 \<or> c = 2" by (simp add: word_unat_eq_iff)
  then show thesis using that by blast
qed

lemma decode_packet_ok:
  assumes "mouse_ok m"
  shows "mouse_ok (decode_packet m)"
  using assms by (simp add: decode_packet_def mouse_ok_def wrap32_range buttons_le Let_def)

lemma process_packet_byte_ok:
  assumes "mouse_ok m"
  shows "mouse_ok (process_packet_byte b m)"
proof -
  from assms have "MOUSE_CYCLE m \<le> 2" by (simp add: mouse_ok_def)
  then show ?thesis
  proof (cases rule: cycle_cases)
    case 1
    then show ?thesis using assms by (simp add: process_packet_byte_def mouse_ok_def)
  next
    case 2
    then show ?thesis using assms by (simp add: process_packet_byte_def mouse_ok_def)
  next
    case 3
    have "mouse_ok (m\<lparr>MOUSE_PACKET := (MOUSE_PACKET m)[2 := b]\<rparr>)"
      using assms by (simp add: mouse_ok_def)
    then show ?thesis using 3 by (simp add: process_packet_byte_def decode_packet_ok)
  qed
qed

section \<open>Packet streams\<close>

text \<open>What a PS/2 mouse sends: buttons, sign bits and the always-set bit 3 in the first byte, then
  the low eight bits of both movements.\<close>

record motion =
  mo_btn :: u8
  mo_dx :: int
  mo_dy :: int

definition motion_ok :: "motion \<Rightarrow> bool" where
  "motion_ok p \<longleftrightarrow> mo_btn p \<in> {0, 1, 2, 3} \<and> -256 \<le> mo_dx p \<and> mo_dx p < 256 \<and> -256 \<le> mo_dy p \<and> mo_dy p < 256"

definition motion_head :: "u8 \<Rightarrow> bool \<Rightarrow> bool \<Rightarrow> u8" where
  "motion_head btn xneg yneg = btn OR 8 OR (if xneg then 0x10 else 0) OR (if yneg then 0x20 else 0)"

definition motion_bytes :: "motion \<Rightarrow> u8 list" where
  "motion_bytes p = [motion_head (mo_btn p) (mo_dx p < 0) (mo_dy p < 0), word_of_int (mo_dx p), word_of_int (mo_dy p)]"

definition moved :: "motion \<Rightarrow> mouse \<Rightarrow> mouse" where
  "moved p m = m\<lparr>MOUSE_X := wrap32 (MOUSE_X m + mo_dx p), MOUSE_Y := wrap32 (MOUSE_Y m - mo_dy p),
     MOUSE_BTN := mo_btn p, MOUSE_PACKET := motion_bytes p\<rparr>"

lemma motion_head_bits:
  assumes "b \<in> {0, 1, 2, 3}"
  shows "motion_head b x y AND 8 \<noteq> 0" and "motion_head b x y AND push_bit 4 1 \<noteq> 0 \<longleftrightarrow> x"
    and "motion_head b x y AND push_bit 5 1 \<noteq> 0 \<longleftrightarrow> y" and "motion_head b x y AND 3 = b"
  using assms by (cases x; cases y; auto simp: motion_head_def push_bit_eq_mult)+

lemma sign9_encode:
  assumes "-256 \<le> d" "d < 256"
  shows "sign9 (d < 0) (word_of_int d) = d"
proof (cases "d < 0")
  case True
  have "d mod 256 = (d + 256) mod 256" by simp
  also have "\<dots> = d + 256" using True assms by (simp add: mod_pos_pos_trivial del: mod_add_self2)
  finally show ?thesis using True by (simp add: sign9_arith uint_word_of_int)
next
  case False
  then show ?thesis using assms by (simp add: sign9_arith uint_word_of_int)
qed

lemma list3_update:
  assumes "length xs = 3"
  shows "xs[0 := a, 1 := b, 2 := c] = [a, b, c]"
proof -
  from assms obtain x y z where "xs = [x, y, z]"
    by (auto simp: length_Suc_conv numeral_3_eq_3)
  then show ?thesis by simp
qed

lemma noise_ignored:
  assumes "MOUSE_CYCLE m = 0" and "\<forall>b \<in> set bs. b AND 8 = 0"
  shows "fold process_packet_byte bs m = m"
  using assms by (induction bs) (auto simp: process_packet_byte_def)

lemma packet_decoded:
  assumes "mouse_ok m" and "MOUSE_CYCLE m = 0" and "motion_ok p"
  shows "fold process_packet_byte (motion_bytes p) m = moved p m"
proof -
  have b: "mo_btn p \<in> {0, 1, 2, 3}" and x: "-256 \<le> mo_dx p" "mo_dx p < 256"
    and y: "-256 \<le> mo_dy p" "mo_dy p < 256" using assms(3) by (simp_all add: motion_ok_def)
  have l: "length (MOUSE_PACKET m) = 3" using assms(1) by (simp add: mouse_ok_def)
  note h = motion_head_bits [OF b, of "mo_dx p < 0" "mo_dy p < 0"]
  show ?thesis
    using assms(2) h sign9_encode [OF x] sign9_encode [OF y] list3_update [OF l]
    by (simp add: motion_bytes_def process_packet_byte_def decode_packet_def moved_def)
qed

lemma moved_ok:
  assumes "mouse_ok m" and "motion_ok p"
  shows "mouse_ok (moved p m)"
  using assms by (auto simp: mouse_ok_def moved_def motion_ok_def motion_bytes_def wrap32_range)

text \<open>A stream: before each packet the line may carry bytes that cannot start one.\<close>

definition stream_bytes :: "(u8 list \<times> motion) list \<Rightarrow> u8 list" where
  "stream_bytes ps = concat (map (\<lambda>(noise, p). noise @ motion_bytes p) ps)"

definition stream_ok :: "(u8 list \<times> motion) list \<Rightarrow> bool" where
  "stream_ok ps \<longleftrightarrow> (\<forall>(noise, p) \<in> set ps. motion_ok p \<and> (\<forall>b \<in> set noise. b AND 8 = 0))"

lemma stream_decoded:
  assumes "mouse_ok m" and "MOUSE_CYCLE m = 0" and "stream_ok ps"
  shows "fold process_packet_byte (stream_bytes ps) m = fold moved (map snd ps) m"
  using assms
proof (induction ps arbitrary: m)
  case (Cons np ps)
  obtain noise p where np: "np = (noise, p)" by (cases np)
  have p: "motion_ok p" and n: "\<forall>b \<in> set noise. b AND 8 = 0" and r: "stream_ok ps"
    using Cons.prems(3) by (auto simp: np stream_ok_def)
  have "MOUSE_CYCLE (moved p m) = 0" using Cons.prems(2) by (simp add: moved_def)
  from Cons.IH [OF moved_ok [OF Cons.prems(1) p] this r] show ?case
    using noise_ignored [OF Cons.prems(2) n] packet_decoded [OF Cons.prems(1,2) p]
    by (simp add: np stream_bytes_def)
qed (simp add: stream_bytes_def)

lemma moved_sum:
  assumes "in_i32 (MOUSE_X m)" and "in_i32 (MOUSE_Y m)"
  shows "MOUSE_X (fold moved ps m) = wrap32 (MOUSE_X m + sum_list (map mo_dx ps))"
    and "MOUSE_Y (fold moved ps m) = wrap32 (MOUSE_Y m - sum_list (map mo_dy ps))"
proof -
  have "MOUSE_X (fold moved ps m) = wrap32 (MOUSE_X m + sum_list (map mo_dx ps)) \<and>
        MOUSE_Y (fold moved ps m) = wrap32 (MOUSE_Y m - sum_list (map mo_dy ps))"
    using assms
  proof (induction ps arbitrary: m)
    case (Cons p ps)
    have "in_i32 (MOUSE_X (moved p m))" "in_i32 (MOUSE_Y (moved p m))"
      by (simp_all add: moved_def wrap32_range)
    from Cons.IH [OF this] show ?case
      using wrap32_add [of "MOUSE_X m + mo_dx p" "sum_list (map mo_dx ps)"]
        wrap32_add [of "MOUSE_Y m - mo_dy p" "- sum_list (map mo_dy ps)"]
      by (simp add: moved_def algebra_simps)
  qed (simp add: wrap32_id)
  then show "MOUSE_X (fold moved ps m) = wrap32 (MOUSE_X m + sum_list (map mo_dx ps))"
    and "MOUSE_Y (fold moved ps m) = wrap32 (MOUSE_Y m - sum_list (map mo_dy ps))" by simp_all
qed

lemma moved_frame:
  shows "MOUSE_CYCLE (fold moved ps m) = MOUSE_CYCLE m"
    and "ps \<noteq> [] \<Longrightarrow> MOUSE_BTN (fold moved ps m) = mo_btn (last ps)"
proof -
  show "MOUSE_CYCLE (fold moved ps m) = MOUSE_CYCLE m"
    by (induction ps arbitrary: m) (simp_all add: moved_def)
  show "ps \<noteq> [] \<Longrightarrow> MOUSE_BTN (fold moved ps m) = mo_btn (last ps)"
    by (induction ps rule: rev_induct) (simp_all add: moved_def)
qed

lemma stream_ok_moved_ok: "mouse_ok m \<Longrightarrow> stream_ok ps \<Longrightarrow> mouse_ok (fold moved (map snd ps) m)"
  by (induction ps arbitrary: m) (auto simp: stream_ok_def moved_ok)

section \<open>Properties\<close>

text \<open>
  C20. From a packet boundary, the decoder fed byte by byte with any sequence of
  packets as a PS/2 mouse sends them, with any number of bytes that cannot start a packet before each,
  moves the pointer by exactly the sum of the movements (the screen's y axis points down, coordinates
  wrap at 32 bits), ends with the buttons of the last packet, at a packet boundary again, with every
  component of the state in range.
\<close>

theorem mouse_stream_decoded:
  assumes "mouse_ok m" and "MOUSE_CYCLE m = 0" and "stream_ok ps" and "ps \<noteq> []"
  shows "\<exists>m'. fold process_packet_byte (stream_bytes ps) m = m'
     \<and> MOUSE_X m' = wrap32 (MOUSE_X m + (\<Sum>p\<leftarrow>ps. mo_dx (snd p)))
     \<and> MOUSE_Y m' = wrap32 (MOUSE_Y m - (\<Sum>p\<leftarrow>ps. mo_dy (snd p)))
     \<and> MOUSE_BTN m' = mo_btn (snd (last ps)) \<and> MOUSE_CYCLE m' = 0 \<and> mouse_ok m'"
proof -
  have x: "in_i32 (MOUSE_X m)" "in_i32 (MOUSE_Y m)" using assms(1) by (simp_all add: mouse_ok_def)
  show ?thesis
    using stream_decoded [OF assms(1-3)] moved_sum [OF x, of "map snd ps"]
      moved_frame [of "map snd ps" m] stream_ok_moved_ok [OF assms(1,3)] assms(2,4)
    by (simp add: o_def last_map)
qed

theorem mouse_stream_decoded_witness:
  "\<exists>m'. fold process_packet_byte (stream_bytes [([0x07], \<lparr>mo_btn = 1, mo_dx = -5, mo_dy = 9\<rparr>)]) mouse_start = m'
     \<and> MOUSE_X m' = 395 \<and> MOUSE_Y m' = 291 \<and> MOUSE_BTN m' = 1 \<and> MOUSE_CYCLE m' = 0 \<and> mouse_ok m'"
  using mouse_stream_decoded [of mouse_start "[([0x07], \<lparr>mo_btn = 1, mo_dx = -5, mo_dy = 9\<rparr>)]"]
  by (simp add: mouse_ok_def mouse_start_def stream_ok_def motion_ok_def in_i32_def wrap32_def)

end
