(* ===== verification/Kernel.thy ===== *)
theory Kernel
  imports NicInit Fat32 Mouse
begin

text \<open>
  The kernel's global state: what the mutable statics of \<open>src/src/main.rs\<close> and its modules hold,
  on top of the machine, the compositor and the network card; its invariant; and how printing and
  sending act on it.
\<close>

section \<open>State\<close>

text \<open>\<open>canvases\<close> holds the boxed canvases handed to user programs, by address; \<open>msr\<close> the
  model-specific registers.\<close>

record kernel = net +
  mouse_state :: mouse
  nvme_drive :: "nvme option"
  lapic_base :: u64
  canvases :: "u64 \<Rightarrow> canvas option"
  msr :: "u32 \<Rightarrow> u64"

definition lapic_ok :: "nat \<Rightarrow> nat \<Rightarrow> u64 \<Rightarrow> bool" where
  "lapic_ok base sz a \<longleftrightarrow> (a \<noteq> 0 \<longrightarrow> mmio_region base sz a 0x1000)"

definition kernel_ok :: "('a kernel_scheme) env \<Rightarrow> nat \<Rightarrow> nat \<Rightarrow> 'a kernel_scheme \<Rightarrow> bool" where
  "kernel_ok e base sz s \<longleftrightarrow> net_ok e base sz s \<and> mouse_ok (mouse_state s) \<and> lapic_ok base sz (lapic_base s)"

section \<open>Frames\<close>

lemma kernel_fields_more:
  fixes s s' :: "'a kernel_scheme"
  assumes "same_rest s s'"
  shows "mouse_state s' = mouse_state s" "nvme_drive s' = nvme_drive s" "lapic_base s' = lapic_base s"
    "canvases s' = canvases s" "msr s' = msr s" "kernel.more s' = kernel.more s"
    "sv_width (server s') = sv_width (server s)" "sv_height (server s') = sv_height (server s)"
  using assms by (cases s; cases s'; simp add: same_rest_def)+

lemma same_but_terminal_net:
  assumes "same_but_terminal (s :: 'a net_scheme) s'"
  shows "net_card s' = net_card s" "arp_table s' = arp_table s" "http_payload s' = http_payload s"
    "same_rest s s'"
  using assms by (auto simp: same_but_terminal_def same_rest_def)

lemma net_step_terminal:
  assumes "net_ok e base sz s" and "gfx_ok s'" and "same_but_terminal s s'"
  shows "net_step e base sz 0 s s'"
proof -
  have eq: "mem s' = mem s" "live s' = live s" "arp_table s' = arp_table s" "net_card s' = net_card s"
    "http_payload s' = http_payload s"
    using same_but_terminal_fields(1,3) [OF assms(3)] same_but_terminal_net [OF assms(3)] by simp_all
  have "net_ok e base sz s'" using assms(1,2) eq by (simp add: net_ok_def)
  then show ?thesis unfolding net_step_def eq by (auto split: option.splits simp: same_tx_bucket)
qed

text \<open>A frame is handed to the card and a line is printed, as \<open>arp_request\<close> and \<open>udp_broadcast\<close> do.\<close>

lemma tx_print_step:
  assumes "heap_ok e base sz" and "net_ok e base sz s" and "net_card s = Some nic"
    and "heap_used (live s) + length frame + 4096 \<le> sz" and "frame \<noteq> []"
  shows "\<exists>nic' s'. do {
      (nic, s) \<leftarrow> tx_frame e frame len nic s;
      s \<leftarrow> print_str t c s;
      Some (nic, s)
    } = Some (nic', s')
    \<and> net_step e base sz (length frame + 4096) s (s'\<lparr>net_card := Some nic'\<rparr>)
    \<and> sent frame len s (s'\<lparr>net_card := Some nic'\<rparr>) \<and> same_rest s s'"
proof -
  from tx_frame_step [OF assms, of len] obtain nic' s1 where
    s1: "tx_frame e frame len nic s = Some (nic', s1)" "sent frame len s (s1\<lparr>net_card := Some nic'\<rparr>)"
    "net_step e base sz (length frame + 4096) s (s1\<lparr>net_card := Some nic'\<rparr>)" by auto
  have g: "gfx_ok s1" using s1(3) by (simp add: net_step_def net_ok_def gfx_ok_def)
  from print_str_ok [OF g] obtain s2 where s2: "print_str t c s1 = Some s2" "gfx_ok s2"
    "same_but_terminal s1 s2" by blast
  obtain lay tx ty v where u: "s2 = s1\<lparr>server := (server s1)\<lparr>terminal_layer := lay\<rparr>, term_x := tx, term_y := ty, vram := v\<rparr>"
    "below_screen_same (server s1) (vram s1) v" using s2(3) by (auto simp: same_but_terminal_def)
  have same: "same_but_terminal (s1\<lparr>net_card := Some nic'\<rparr>) (s2\<lparr>net_card := Some nic'\<rparr>)"
    unfolding same_but_terminal_def
    by (intro exI [of _ lay] exI [of _ tx] exI [of _ ty] exI [of _ v]) (simp add: u)
  have "net_ok e base sz (s1\<lparr>net_card := Some nic'\<rparr>)" "gfx_ok (s2\<lparr>net_card := Some nic'\<rparr>)"
    using s1(3) s2(2) by (simp_all add: net_step_def gfx_ok_def)
  from net_step_trans [OF s1(3) net_step_terminal [OF this same]]
  have "net_step e base sz (length frame + 4096) s (s2\<lparr>net_card := Some nic'\<rparr>)" by simp
  with s1 s2(1) sent_print [OF s1(2) same] tx_frame_more [OF s1(1)] same_but_terminal_net(4) [OF s2(3)]
  show ?thesis by (auto simp: same_rest_def)
qed

lemma length_udp_frame [simp]: "length udp_frame = 60"
  by (simp add: udp_frame_def)

lemma udp_broadcast_step:
  assumes "heap_ok e base sz" and "net_ok e base sz s" and "net_card s = Some nic"
    and "heap_used (live s) + 60 + 4096 \<le> sz"
  shows "\<exists>nic' s'. udp_broadcast e nic s = Some (nic', s')
    \<and> net_step e base sz 4156 s (s'\<lparr>net_card := Some nic'\<rparr>)
    \<and> sent udp_frame 60 s (s'\<lparr>net_card := Some nic'\<rparr>) \<and> same_rest s s'"
proof -
  have "heap_used (live s) + length udp_frame + 4096 \<le> sz" "udp_frame \<noteq> []"
    using assms(4) by (simp, simp add: udp_frame_def)
  from tx_print_step [OF assms(1-3) this, of 60] show ?thesis unfolding udp_broadcast_def by simp
qed

lemma arp_request_step:
  assumes "heap_ok e base sz" and "net_ok e base sz s" and "net_card s = Some nic"
    and "heap_used (live s) + 60 + 4096 \<le> sz"
  shows "\<exists>nic' s'. arp_request e ip nic s = Some (nic', s')
    \<and> net_step e base sz 4156 s (s'\<lparr>net_card := Some nic'\<rparr>)
    \<and> sent (arp_request_frame (mac_address nic) ip) 60 s (s'\<lparr>net_card := Some nic'\<rparr>) \<and> same_rest s s'"
proof -
  let ?f = "arp_request_frame (mac_address nic) ip"
  have l: "length ?f = 60" by (simp add: arp_request_frame_def)
  then have "heap_used (live s) + length ?f + 4096 \<le> sz" "?f \<noteq> []" using assms(4) by auto
  from tx_print_step [OF assms(1-3) this, of 60] l show ?thesis unfolding arp_request_def by simp
qed

lemma kernel_print:
  assumes "kernel_ok e base sz s"
  shows "\<exists>s'. print_str t c s = Some s' \<and> kernel_ok e base sz s' \<and> same_but_terminal s s' \<and> net_step e base sz 0 s s'"
proof -
  have "net_ok e base sz s" using assms by (simp add: kernel_ok_def)
  from net_print [OF this, of t c] obtain s' where
    s': "print_str t c s = Some s'" "net_step e base sz 0 s s'" "same_but_terminal s s'" by blast
  with assms kernel_fields_more [OF same_but_terminal_net(4) [OF s'(3)]] have "kernel_ok e base sz s'"
    by (simp add: kernel_ok_def net_step_def)
  with s' show ?thesis by blast
qed

section \<open>A concrete kernel state\<close>

definition demo_kernel :: kernel where
  "demo_kernel = net.extend demo_net \<lparr>mouse_state = mouse_start, nvme_drive = None, lapic_base = 0xFEE00000,
     canvases = (\<lambda>_. None), msr = (\<lambda>_. 0)\<rparr>"

lemma demo_kernel_fields:
  "mem demo_kernel = (\<lambda>_. 0)" "live demo_kernel = [(0x101000, 128), (0x100000, 512)]" "server demo_kernel = demo_server"
  "term_x demo_kernel = 20" "term_y demo_kernel = 0" "arp_table demo_kernel = arp_insert [10, 0, 2, 2] [2, 0, 0, 0, 0, 1] arp_new"
  "net_card demo_kernel = Some demo_nic" "mouse_state demo_kernel = mouse_start" "lapic_base demo_kernel = 0xFEE00000"
  "io_trace demo_kernel = []" "nvme_drive demo_kernel = None" "vram demo_kernel = (\<lambda>_. 0)"
  by (simp_all add: demo_kernel_def net.extend_def demo_net_def)

lemma mouse_start_ok: "mouse_ok mouse_start"
  by (simp add: mouse_ok_def mouse_start_def in_i32_def)

lemma demo_kernel_ok: "kernel_ok bump_env 0x100000 0x200000 demo_kernel"
proof -
  have g: "gfx_ok demo_kernel"
    using demo_screen_ok by (simp add: gfx_ok_def demo_kernel_fields term_ok_def canvas_ok_def demo_server_def)
  have "galloc bump_env 512 1 [] = (0x100000 :: u64)" "galloc bump_env 128 1 [(0x100000, 512)] = (0x101000 :: u64)"
    by (simp_all add: bump_env_def)
  then have h: "heap_inv bump_env 0x100000 0x200000 (live demo_kernel)"
    by (auto simp: heap_inv_def demo_kernel_fields in_heap_def apart_def intro!: exI [of _ 1])
  have n: "arp_ok (arp_table demo_net)" "\<forall>en\<in>set (arp_table demo_net). length (arp_mac en) = 6"
    "\<forall>nic. net_card demo_net = Some nic \<longrightarrow> nic_ok 0x100000 0x200000 (live demo_net) nic"
    using demo_net_ok unfolding net_ok_def by blast+
  have "net_ok bump_env 0x100000 0x200000 demo_kernel"
    unfolding net_ok_def using g h n by (simp add: demo_kernel_fields demo_net_def)
  then show ?thesis
    by (simp add: kernel_ok_def demo_kernel_fields mouse_start_ok lapic_ok_def mmio_region_def off_heap_def)
qed

end
