(* ===== verification/Interrupts.thy ===== *)
theory Interrupts
  imports Kernel
begin

text \<open>
  Interrupts (\<open>src/src/interrupts.rs\<close>): the descriptor table, the APIC set-up and the handlers.
\<close>

section \<open>The descriptor table\<close>

datatype handler = Breakpoint | Double_Fault | Timer | Keyboard | Mouse_Irq | Int80

record gate =
  g_handler :: handler
  g_dpl :: nat
  g_ist :: "u16 option"

definition TIMER_INT :: u8 where "TIMER_INT = 32"
definition KEYBOARD_INT :: u8 where "KEYBOARD_INT = 33"
definition MOUSE_INT :: u8 where "MOUSE_INT = 44"
definition SYSCALL_INT :: u8 where "SYSCALL_INT = 0x80"
definition DOUBLE_FAULT_IST_INDEX :: u16 where "DOUBLE_FAULT_IST_INDEX = 0"

lemmas vectors = TIMER_INT_def KEYBOARD_INT_def MOUSE_INT_def SYSCALL_INT_def

text \<open>\<open>breakpoint\<close> and \<open>double_fault\<close> are the processor's vectors 3 and 8.\<close>

definition IDT :: "u8 \<Rightarrow> gate option" where
  "IDT = Map.empty
     (3 \<mapsto> \<lparr>g_handler = Breakpoint, g_dpl = 0, g_ist = None\<rparr>,
      8 \<mapsto> \<lparr>g_handler = Double_Fault, g_dpl = 0, g_ist = Some DOUBLE_FAULT_IST_INDEX\<rparr>,
      SYSCALL_INT \<mapsto> \<lparr>g_handler = Int80, g_dpl = 3, g_ist = None\<rparr>,
      KEYBOARD_INT \<mapsto> \<lparr>g_handler = Keyboard, g_dpl = 3, g_ist = None\<rparr>,
      MOUSE_INT \<mapsto> \<lparr>g_handler = Mouse_Irq, g_dpl = 3, g_ist = None\<rparr>,
      TIMER_INT \<mapsto> \<lparr>g_handler = Timer, g_dpl = 0, g_ist = None\<rparr>)"

section \<open>The APIC\<close>

definition init_apic :: "('a kernel_scheme) env \<Rightarrow> u64 \<Rightarrow> u64 \<Rightarrow> 'a kernel_scheme \<Rightarrow> 'a kernel_scheme option" where
  "init_apic e lapic ioapic s = do {
     let s = s\<lparr>lapic_base := lapic\<rparr>;
     let s = port_write 0x21 0xFF s;
     let s = port_write 0xA1 0xFF s;
     if lapic = 0 \<or> ioapic = 0 then Some s
     else do {
       siv_ptr \<leftarrow> wadd lapic 0xF0;
       let (siv, s) = volatile_read32 e siv_ptr s;
       let s = volatile_write32 siv_ptr (siv OR 0x100 OR 0xFF) s;
       let ioregsel = ioapic;
       iowin \<leftarrow> wadd ioapic 0x10;
       let s = volatile_write32 ioregsel 0x12 s;
       let s = volatile_write32 iowin 33 s;
       let s = volatile_write32 ioregsel 0x13 s;
       let s = volatile_write32 iowin 0 s;
       let s = volatile_write32 ioregsel 0x28 s;
       let s = volatile_write32 iowin 44 s;
       let s = volatile_write32 ioregsel 0x29 s;
       Some (volatile_write32 iowin 0 s)
     }
   }"

definition notify_end_of_interrupt :: "u8 \<Rightarrow> 'a kernel_scheme \<Rightarrow> 'a kernel_scheme option" where
  "notify_end_of_interrupt int_id s =
     (if lapic_base s \<noteq> 0 then do {
        a \<leftarrow> wadd (lapic_base s) 0xB0;
        Some (volatile_write32 a 0 s)
      } else Some s)"

section \<open>Handlers\<close>

definition breakpoint_handler :: "'a kernel_scheme \<Rightarrow> 'a kernel_scheme option" where
  "breakpoint_handler s = Some s"

definition double_fault_handler :: "'a kernel_scheme \<Rightarrow> 'a kernel_scheme option" where
  "double_fault_handler s = None"

definition timer_interrupt_handler :: "'a kernel_scheme \<Rightarrow> 'a kernel_scheme option" where
  "timer_interrupt_handler s = notify_end_of_interrupt TIMER_INT s"

definition int80_handler :: "('a kernel_scheme) env \<Rightarrow> 'a kernel_scheme \<Rightarrow> 'a kernel_scheme option" where
  "int80_handler e s = do {
     s \<leftarrow> print_str (10 # lit ''SYS_NET_TX: UDP BROADCAST FIRED!'' @ [10]) 0xEF4444 s;
     case net_card s of
       None \<Rightarrow> Some s
     | Some nic \<Rightarrow> do {
         (nic, s) \<leftarrow> udp_broadcast e nic s;
         Some (s\<lparr>net_card := Some nic\<rparr>)
       }
   }"

definition scancode_keys :: "(u8 \<times> string) list" where
  "scancode_keys =
     [(0x10, ''Q''), (0x11, ''W''), (0x12, ''E''), (0x13, ''R''),
      (0x14, ''T''), (0x15, ''Y''), (0x16, ''U''), (0x17, ''I''),
      (0x18, ''O''), (0x19, ''P''), (0x1E, ''A''), (0x1F, ''S''),
      (0x20, ''D''), (0x21, ''F''), (0x22, ''G''), (0x23, ''H''),
      (0x24, ''J''), (0x25, ''K''), (0x26, ''L''), (0x2C, ''Z''),
      (0x2D, ''X''), (0x2E, ''C''), (0x2F, ''V''), (0x30, ''B''),
      (0x31, ''N''), (0x32, ''M''), (0x39, '' '')]"

definition keyboard_interrupt_handler :: "('a kernel_scheme) env \<Rightarrow> 'a kernel_scheme \<Rightarrow> 'a kernel_scheme option" where
  "keyboard_interrupt_handler e s = do {
     let (scancode, s) = port_in e 0x60 s;
     (char_opt, s) \<leftarrow>
       (case map_of scancode_keys scancode of
          Some c \<Rightarrow> Some (Some c, s)
        | None \<Rightarrow>
            if scancode = 0x1C then map_option (Pair None) (int80_handler e s)
            else Some (None, s));
     s \<leftarrow> (case char_opt of
             Some c \<Rightarrow> print_str (lit c) 0x10B981 s
           | None \<Rightarrow> Some s);
     notify_end_of_interrupt KEYBOARD_INT s
   }"

definition mouse_interrupt_handler :: "('a kernel_scheme) env \<Rightarrow> 'a kernel_scheme \<Rightarrow> 'a kernel_scheme option" where
  "mouse_interrupt_handler e s = do {
     let (packet, s) = port_in e 0x60 s;
     let s = s\<lparr>mouse_state := process_packet_byte packet (mouse_state s)\<rparr>;
     notify_end_of_interrupt MOUSE_INT s
   }"

fun run_handler :: "('a kernel_scheme) env \<Rightarrow> handler \<Rightarrow> 'a kernel_scheme \<Rightarrow> 'a kernel_scheme option" where
  "run_handler e Breakpoint s = breakpoint_handler s"
| "run_handler e Double_Fault s = double_fault_handler s"
| "run_handler e Timer s = timer_interrupt_handler s"
| "run_handler e Keyboard s = keyboard_interrupt_handler e s"
| "run_handler e Mouse_Irq s = mouse_interrupt_handler e s"
| "run_handler e Int80 s = int80_handler e s"

text \<open>Delivery by the processor. A vector without a gate raises a segment-not-present fault, for
  which there is no gate either: a double fault.\<close>

definition interrupt :: "('a kernel_scheme) env \<Rightarrow> u8 \<Rightarrow> 'a kernel_scheme \<Rightarrow> 'a kernel_scheme option" where
  "interrupt e vec s =
     (case IDT vec of
        Some g \<Rightarrow> run_handler e (g_handler g) s
      | None \<Rightarrow> double_fault_handler s)"

text \<open>An \<open>int\<close> instruction at privilege level \<open>cpl\<close>: a gate of a higher privilege raises a general
  protection fault, which has no gate.\<close>

definition software_int :: "('a kernel_scheme) env \<Rightarrow> nat \<Rightarrow> u8 \<Rightarrow> 'a kernel_scheme \<Rightarrow> 'a kernel_scheme option" where
  "software_int e cpl vec s =
     (case IDT vec of
        Some g \<Rightarrow> if cpl \<le> g_dpl g then run_handler e (g_handler g) s else double_fault_handler s
      | None \<Rightarrow> double_fault_handler s)"

section \<open>Lemmas\<close>

text \<open>The port read changes no state of the kernel.\<close>

definition port_pure :: "'s env \<Rightarrow> bool" where
  "port_pure e \<longleftrightarrow> (\<forall>p s. snd (port_in e p s) = s)"

lemma port_pureD: "port_pure e \<Longrightarrow> port_in e p s = (fst (port_in e p s), s)"
  by (metis port_pure_def prod.collapse)

definition eoi :: "u64 \<Rightarrow> io list" where
  "eoi lapic = (if lapic = 0 then [] else [Mmio32 (lapic + 0xB0) 0])"

text \<open>What a handler may change: as \<open>net_step\<close>, with the drive, the APIC base, the canvases and the
  machine registers and the screen size unchanged.\<close>

definition kernel_step :: "('a kernel_scheme) env \<Rightarrow> nat \<Rightarrow> nat \<Rightarrow> nat \<Rightarrow> 'a kernel_scheme \<Rightarrow> 'a kernel_scheme \<Rightarrow> bool" where
  "kernel_step e base sz n s s' \<longleftrightarrow> kernel_ok e base sz s' \<and> net_step e base sz n s s'
     \<and> nvme_drive s' = nvme_drive s \<and> lapic_base s' = lapic_base s \<and> canvases s' = canvases s \<and> msr s' = msr s
     \<and> sv_width (server s') = sv_width (server s) \<and> sv_height (server s') = sv_height (server s)"

lemma net_step_ok: "net_step e base sz n s s' \<Longrightarrow> net_ok e base sz s'"
  by (simp add: net_step_def)

lemma kernel_step_trans:
  "kernel_step e base sz n s t \<Longrightarrow> kernel_step e base sz k t u \<Longrightarrow> kernel_step e base sz (n + k) s u"
  unfolding kernel_step_def by (auto intro: net_step_trans)

lemma kernel_step_refl: "kernel_ok e base sz s \<Longrightarrow> kernel_step e base sz n s s"
  by (simp add: kernel_step_def net_step_refl kernel_ok_def)

lemma kernel_step_mono: "kernel_step e base sz n s t \<Longrightarrow> n \<le> k \<Longrightarrow> kernel_step e base sz k s t"
  unfolding kernel_step_def by (auto intro: net_step_mono)

lemma print_step:
  assumes "kernel_ok e base sz s"
  shows "\<exists>s'. print_str t c s = Some s' \<and> kernel_step e base sz 0 s s' \<and> mouse_state s' = mouse_state s
    \<and> io_trace s' = io_trace s \<and> net_card s' = net_card s \<and> mem s' = mem s \<and> live s' = live s \<and> same_but_terminal s s'"
proof -
  from kernel_print [OF assms, of t c] obtain s' where
    s': "print_str t c s = Some s'" "kernel_ok e base sz s'" "same_but_terminal s s'" "net_step e base sz 0 s s'" by blast
  with kernel_fields_more [OF same_but_terminal_net(4) [OF s'(3)]] same_but_terminal_net [OF s'(3)]
    same_but_terminal_fields [OF s'(3)] show ?thesis by (simp add: kernel_step_def)
qed

lemma eoi_step:
  assumes "kernel_ok e base sz s" and "base + sz < 2 ^ 64"
  shows "\<exists>s'. notify_end_of_interrupt v s = Some s' \<and> kernel_step e base sz 0 s s' \<and> mouse_state s' = mouse_state s
    \<and> io_trace s' = io_trace s @ eoi (lapic_base s) \<and> same_but_terminal (s'\<lparr>mem := mem s, io_trace := io_trace s\<rparr>) s"
proof (cases "lapic_base s = 0")
  case True
  with assms show ?thesis by (simp add: notify_end_of_interrupt_def eoi_def kernel_step_refl)
next
  case False
  let ?a = "lapic_base s + of_nat 0xB0"
  have r: "mmio_region base sz (lapic_base s) 0x1000" using False assms(1) by (simp add: kernel_ok_def lapic_ok_def)
  let ?s = "s\<lparr>mem := store_le (mem s) ?a 4 (0 :: u32), io_trace := io_trace s @ [Mmio32 ?a 0]\<rparr>"
  have k: "load_bytes (mem ?s) b k = load_bytes (mem s) b k" if "(b, k) \<in> set (live s)" "0 < k" for b k
  proof -
    have "in_heap base sz (b, k)" using that(1) assms(1) by (auto simp: kernel_ok_def net_ok_def heap_inv_def)
    from mmio_keeps [OF r _ _ this assms(2), of "0xB0" "to_le 4 (0 :: u32)" 0 k] that(2) show ?thesis
      by (simp add: store_le_def)
  qed
  have "net_ok e base sz ?s" using assms(1) by (simp add: kernel_ok_def net_ok_def gfx_ok_def)
  then have "net_step e base sz 0 s ?s"
    unfolding net_step_def using k by (auto split: option.splits simp: same_tx_bucket)
  then have "kernel_step e base sz 0 s ?s" using assms(1) by (simp add: kernel_step_def kernel_ok_def net_step_def)
  moreover have "notify_end_of_interrupt v s = Some ?s"
    using False mmio_addr(1) [OF r, of "0xB0" 4] by (simp add: notify_end_of_interrupt_def volatile_write32_def)
  ultimately show ?thesis using False by (simp add: eoi_def)
qed

lemma int80_step:
  assumes "heap_ok e base sz" and "kernel_ok e base sz s" and "heap_used (live s) + 60 + 4096 \<le> sz"
  shows "\<exists>s'. int80_handler e s = Some s' \<and> kernel_step e base sz 4156 s s' \<and> mouse_state s' = mouse_state s
    \<and> (case net_card s of None \<Rightarrow> io_trace s' = io_trace s | Some nic \<Rightarrow> sent udp_frame 60 s s')"
proof -
  from print_step [OF assms(2)] obtain s1 where
    s1: "print_str (10 # lit ''SYS_NET_TX: UDP BROADCAST FIRED!'' @ [10]) 0xEF4444 s = Some s1"
    "kernel_step e base sz 0 s s1" "mouse_state s1 = mouse_state s" "io_trace s1 = io_trace s"
    "net_card s1 = net_card s" "live s1 = live s" "same_but_terminal s s1" by blast
  show ?thesis
  proof (cases "net_card s")
    case None
    with s1 kernel_step_mono [OF s1(2)] show ?thesis by (simp add: int80_handler_def)
  next
    case (Some nic)
    have "net_ok e base sz s1" using s1(2) by (simp add: kernel_step_def kernel_ok_def)
    from udp_broadcast_step [OF assms(1) this] Some s1(5,6) assms(3) obtain nic' s2 where
      s2: "udp_broadcast e nic s1 = Some (nic', s2)" "net_step e base sz 4156 s1 (s2\<lparr>net_card := Some nic'\<rparr>)"
      "sent udp_frame 60 s1 (s2\<lparr>net_card := Some nic'\<rparr>)" "same_rest s1 s2" by fastforce
    note f = kernel_fields_more [OF s2(4)]
    have "kernel_step e base sz 4156 s1 (s2\<lparr>net_card := Some nic'\<rparr>)"
      using s1(2) s2(2) f net_step_ok [OF s2(2)] by (auto simp: kernel_step_def kernel_ok_def)
    from kernel_step_trans [OF s1(2) this] s1 s2 f print_sent [OF s1(7) s2(3)] Some show ?thesis
      by (simp add: int80_handler_def)
  qed
qed

text \<open>The register writes of a delivered interrupt: the transmit doorbell where the UDP broadcast goes
  out, then the end-of-interrupt of a device interrupt.\<close>

definition tx_writes :: "'a kernel_scheme \<Rightarrow> io list" where
  "tx_writes s = (case net_card s of None \<Rightarrow> [] | Some nic \<Rightarrow> [doorbell nic])"

definition handler_writes :: "('a kernel_scheme) env \<Rightarrow> handler \<Rightarrow> 'a kernel_scheme \<Rightarrow> io list" where
  "handler_writes e h s =
     (if h = Int80 \<or> (h = Keyboard \<and> fst (port_in e 0x60 s) = 0x1C) then tx_writes s else [])
     @ (if h \<in> {Timer, Keyboard, Mouse_Irq} then eoi (lapic_base s) else [])"

lemma int80_writes:
  assumes "case net_card s of None \<Rightarrow> io_trace s' = io_trace s | Some nic \<Rightarrow> sent udp_frame 60 s s'"
  shows "io_trace s' = io_trace s @ tx_writes s"
  using assms by (auto simp: tx_writes_def sent_def split: option.splits)

text \<open>The keyboard handler up to the end-of-interrupt.\<close>

definition keystroke :: "('a kernel_scheme) env \<Rightarrow> u8 \<Rightarrow> 'a kernel_scheme \<Rightarrow> 'a kernel_scheme option" where
  "keystroke e k s =
     (case map_of scancode_keys k of
        Some c \<Rightarrow> print_str (lit c) 0x10B981 s
      | None \<Rightarrow> if k = 0x1C then int80_handler e s else Some s)"

lemma keyboard_eq:
  assumes "port_pure e"
  shows "keyboard_interrupt_handler e s = do {
     s \<leftarrow> keystroke e (fst (port_in e 0x60 s)) s;
     notify_end_of_interrupt KEYBOARD_INT s
   }"
proof -
  obtain k where k: "port_in e 0x60 s = (k, s)" using port_pureD [OF assms] by blast
  show ?thesis
    by (cases "map_of scancode_keys k"; cases "int80_handler e s")
      (simp_all add: keyboard_interrupt_handler_def keystroke_def k)
qed

lemma enter_no_key: "map_of scancode_keys 0x1C = None"
  by (simp add: scancode_keys_def)

lemma keystroke_step:
  assumes "heap_ok e base sz" and "kernel_ok e base sz s" and "heap_used (live s) + 60 + 4096 \<le> sz"
  shows "\<exists>s'. keystroke e k s = Some s' \<and> kernel_step e base sz 4156 s s' \<and> mouse_state s' = mouse_state s
    \<and> io_trace s' = io_trace s @ (if k = 0x1C then tx_writes s else [])"
proof (cases "map_of scancode_keys k")
  case None
  show ?thesis
  proof (cases "k = 0x1C")
    case True
    from int80_step [OF assms] obtain s' where s': "int80_handler e s = Some s'" "kernel_step e base sz 4156 s s'"
      "mouse_state s' = mouse_state s"
      "case net_card s of None \<Rightarrow> io_trace s' = io_trace s | Some nic \<Rightarrow> sent udp_frame 60 s s'" by blast
    with int80_writes [OF s'(4)] True None show ?thesis by (simp add: keystroke_def)
  next
    case False
    with None assms(2) show ?thesis by (simp add: keystroke_def kernel_step_refl)
  qed
next
  case (Some c)
  then have "k \<noteq> 0x1C" using enter_no_key by auto
  moreover from print_step [OF assms(2), of "lit c" "0x10B981"] obtain s' where
    "print_str (lit c) 0x10B981 s = Some s'" "kernel_step e base sz 0 s s'" "mouse_state s' = mouse_state s"
    "io_trace s' = io_trace s" by blast
  ultimately show ?thesis using Some kernel_step_mono [of e base sz 0 s s' 4156] by (simp add: keystroke_def)
qed

lemma mouse_byte_ok:
  assumes "kernel_ok e base sz s"
  shows "kernel_step e base sz 0 s (s\<lparr>mouse_state := process_packet_byte b (mouse_state s)\<rparr>)"
proof -
  let ?s = "s\<lparr>mouse_state := process_packet_byte b (mouse_state s)\<rparr>"
  have n: "net_ok e base sz ?s" using assms by (simp add: kernel_ok_def net_ok_def gfx_ok_def)
  then have "net_step e base sz 0 s ?s" by (auto simp: net_step_def same_tx_bucket split: option.splits)
  with assms n show ?thesis by (simp add: kernel_step_def kernel_ok_def process_packet_byte_ok)
qed

lemma handler_step:
  assumes "heap_ok e base sz" and "port_pure e" and "kernel_ok e base sz s"
    and "heap_used (live s) + 60 + 4096 \<le> sz" and "h \<noteq> Double_Fault"
  shows "\<exists>s'. run_handler e h s = Some s' \<and> kernel_step e base sz 4156 s s'
    \<and> io_trace s' = io_trace s @ handler_writes e h s
    \<and> mouse_state s' = (if h = Mouse_Irq then process_packet_byte (fst (port_in e 0x60 s)) (mouse_state s) else mouse_state s)"
proof -
  have bd: "base + sz < 2 ^ 64" using assms(1) by (simp add: heap_ok_def)
  let ?k = "fst (port_in e 0x60 s)"
  have fin: "\<exists>s'. notify_end_of_interrupt v t = Some s' \<and> kernel_step e base sz 4156 s s'
      \<and> io_trace s' = io_trace t @ eoi (lapic_base s) \<and> mouse_state s' = mouse_state t"
    if t: "kernel_step e base sz 4156 s t" for v t
  proof -
    have "kernel_ok e base sz t" "lapic_base t = lapic_base s" using t by (simp_all add: kernel_step_def)
    with eoi_step [OF this(1) bd, of v] kernel_step_trans [OF t, of 0] show ?thesis by auto
  qed
  show ?thesis
  proof (cases h)
    case Breakpoint
    with assms(3) show ?thesis by (simp add: breakpoint_handler_def kernel_step_refl handler_writes_def)
  next
    case Double_Fault
    with assms(5) show ?thesis by simp
  next
    case Timer
    with fin [OF kernel_step_refl [OF assms(3)], of TIMER_INT] show ?thesis
      by (simp add: timer_interrupt_handler_def handler_writes_def)
  next
    case Keyboard
    from keystroke_step [OF assms(1,3,4), of ?k] obtain t where
      t: "keystroke e ?k s = Some t" "kernel_step e base sz 4156 s t" "mouse_state t = mouse_state s"
      "io_trace t = io_trace s @ (if ?k = 0x1C then tx_writes s else [])" by blast
    from fin [OF t(2), of KEYBOARD_INT] t Keyboard show ?thesis
      by (auto simp: keyboard_eq [OF assms(2)] handler_writes_def)
  next
    case Mouse_Irq
    obtain k where k: "port_in e 0x60 s = (k, s)" using port_pureD [OF assms(2)] by blast
    have "kernel_step e base sz 4156 s (s\<lparr>mouse_state := process_packet_byte k (mouse_state s)\<rparr>)"
      by (rule kernel_step_mono [OF mouse_byte_ok [OF assms(3)]]) simp
    from fin [OF this, of MOUSE_INT] Mouse_Irq show ?thesis
      by (simp add: mouse_interrupt_handler_def handler_writes_def k)
  next
    case Int80
    from int80_step [OF assms(1,3,4)] obtain s' where s': "int80_handler e s = Some s'" "kernel_step e base sz 4156 s s'"
      "mouse_state s' = mouse_state s"
      "case net_card s of None \<Rightarrow> io_trace s' = io_trace s | Some nic \<Rightarrow> sent udp_frame 60 s s'" by blast
    with int80_writes [OF s'(4)] Int80 show ?thesis by (simp add: handler_writes_def)
  qed
qed

lemma apic_routes:
  assumes "hw_mem_only e" and "lapic \<noteq> 0" and "ioapic \<noteq> 0"
    and "unat lapic + 0x1000 < 2 ^ 64" and "unat ioapic + 0x20 < 2 ^ 64"
  shows "\<exists>s' siv. init_apic e lapic ioapic s = Some s' \<and> lapic_base s' = lapic
    \<and> io_trace s' = io_trace s @ [PortOut 0x21 0xFF, PortOut 0xA1 0xFF, Mmio32 (lapic + 0xF0) (siv OR 0x1FF),
        Mmio32 ioapic 0x12, Mmio32 (ioapic + 0x10) 33, Mmio32 ioapic 0x13, Mmio32 (ioapic + 0x10) 0,
        Mmio32 ioapic 0x28, Mmio32 (ioapic + 0x10) 44, Mmio32 ioapic 0x29, Mmio32 (ioapic + 0x10) 0]"
proof -
  have a: "wadd lapic 0xF0 = Some (lapic + 0xF0)" "wadd ioapic 0x10 = Some (ioapic + 0x10)"
    using wadd_small [of lapic "0xF0"] wadd_small [of ioapic "0x10"] assms(4,5) by simp_all
  let ?t = "port_write 0xA1 0xFF (port_write 0x21 0xFF (s\<lparr>lapic_base := lapic\<rparr>))"
  obtain m where m: "hw e ?t = ?t\<lparr>mem := m\<rparr>" using assms(1) unfolding hw_mem_only_def by blast
  have o: "x OR 0x100 OR 0xFF = x OR 0x1FF" for x :: u32
    by (simp add: or.assoc)
  show ?thesis
    using assms(2,3) by (simp add: init_apic_def a volatile_read32_def m Let_def volatile_write32_def o)
      (auto simp: port_write_def)
qed

section \<open>Properties\<close>

text \<open>C11. Every interrupt that has a gate, the double fault apart, is handled without
  a panic, whatever byte the keyboard or mouse port delivers: the kernel's invariant holds again, at
  most one frame's worth of heap is used, live blocks other than the transmit ring keep their contents,
  the pointer state is that of the packet decoder, and the device registers are written exactly as
  intended: one transmit doorbell for the Enter key or \<open>int 0x80\<close>, and last, for a device interrupt,
  one end-of-interrupt.\<close>

theorem interrupt_delivered:
  assumes "heap_ok e base sz" and "port_pure e" and "kernel_ok e base sz s"
    and "heap_used (live s) + 60 + 4096 \<le> sz" and "IDT vec = Some g" and "g_handler g \<noteq> Double_Fault"
  shows "\<exists>s'. interrupt e vec s = Some s' \<and> kernel_step e base sz 4156 s s'
    \<and> io_trace s' = io_trace s @ handler_writes e (g_handler g) s
    \<and> mouse_state s' = (if vec = MOUSE_INT then process_packet_byte (fst (port_in e 0x60 s)) (mouse_state s) else mouse_state s)"
proof -
  have "vec = MOUSE_INT \<longleftrightarrow> g_handler g = Mouse_Irq"
    using assms(5) by (auto simp: IDT_def vectors split: if_splits)
  with handler_step [OF assms(1-4,6)] assms(5) show ?thesis by (simp add: interrupt_def)
qed

theorem interrupt_delivered_witness:
  "\<exists>s'. interrupt bump_env 44 demo_kernel = Some s' \<and> io_trace s' = [Mmio32 0xFEE000B0 0]"
proof -
  have g: "IDT 44 = Some \<lparr>g_handler = Mouse_Irq, g_dpl = 3, g_ist = None\<rparr>" by (simp add: IDT_def vectors)
  have p: "port_pure bump_env" by (simp add: port_pure_def bump_env_def)
  have r: "heap_used (live demo_kernel) + 60 + 4096 \<le> 0x200000" by (simp add: demo_kernel_fields)
  have w: "handler_writes bump_env Mouse_Irq demo_kernel = [Mmio32 0xFEE000B0 0]"
    by (simp add: handler_writes_def eoi_def demo_kernel_fields)
  from interrupt_delivered [OF bump_heap_ok p demo_kernel_ok r g] w show ?thesis
    by (auto simp: demo_kernel_fields)
qed

text \<open>C38. \<open>init_apic\<close> masks both legacy controllers, records the local APIC and
  routes exactly two device lines, the keyboard's to vector 33 and the mouse's to vector 44, both of
  which have handlers; the spurious-interrupt vector it enables in the local APIC is 0xFF, for which the
  descriptor table has no gate, so that a spurious interrupt halts the kernel.\<close>

theorem apic_spurious_unhandled:
  assumes "hw_mem_only e" and "lapic \<noteq> 0" and "ioapic \<noteq> 0"
    and "unat lapic + 0x1000 < 2 ^ 64" and "unat ioapic + 0x20 < 2 ^ 64"
  shows "\<exists>s' siv. init_apic e lapic ioapic s = Some s' \<and> lapic_base s' = lapic
    \<and> io_trace s' = io_trace s @ [PortOut 0x21 0xFF, PortOut 0xA1 0xFF, Mmio32 (lapic + 0xF0) siv,
        Mmio32 ioapic 0x12, Mmio32 (ioapic + 0x10) 33, Mmio32 ioapic 0x13, Mmio32 (ioapic + 0x10) 0,
        Mmio32 ioapic 0x28, Mmio32 (ioapic + 0x10) 44, Mmio32 ioapic 0x29, Mmio32 (ioapic + 0x10) 0]
    \<and> map_option g_handler (IDT 33) = Some Keyboard \<and> map_option g_handler (IDT 44) = Some Mouse_Irq
    \<and> bit siv 8 \<and> interrupt e (ucast siv) s' = None"
proof -
  from apic_routes [OF assms, of s] obtain s' siv where s': "init_apic e lapic ioapic s = Some s'" "lapic_base s' = lapic"
    "io_trace s' = io_trace s @ [PortOut 0x21 0xFF, PortOut 0xA1 0xFF, Mmio32 (lapic + 0xF0) (siv OR 0x1FF),
        Mmio32 ioapic 0x12, Mmio32 (ioapic + 0x10) 33, Mmio32 ioapic 0x13, Mmio32 (ioapic + 0x10) 0,
        Mmio32 ioapic 0x28, Mmio32 (ioapic + 0x10) 44, Mmio32 ioapic 0x29, Mmio32 (ioapic + 0x10) 0]" by blast
  have m: "(0x1FF :: u32) = mask 9" by (simp add: mask_eq_exp_minus_1)
  have b: "bit (siv OR 0x1FF) 8" unfolding m by (simp add: bit_simps)
  have "(ucast (siv OR 0x1FF) :: u8) = mask 8"
    unfolding m by (rule bit_word_eqI) (auto simp: bit_simps)
  then have "(ucast (siv OR 0x1FF) :: u8) = 0xFF" by (simp add: mask_eq_exp_minus_1)
  moreover have "IDT 0xFF = None" by (simp add: IDT_def vectors)
  ultimately have "interrupt e (ucast (siv OR 0x1FF)) s' = None" by (simp add: interrupt_def double_fault_handler_def)
  with s' b show ?thesis by (intro exI [of _ s'] exI [of _ "siv OR 0x1FF"]) (simp add: IDT_def vectors)
qed

theorem apic_spurious_unhandled_witness:
  "\<exists>s' siv. init_apic bump_env 0xFEE00000 0xFEC00000 demo_kernel = Some s' \<and> bit siv 8
    \<and> interrupt bump_env (ucast (siv :: u32)) s' = None"
proof -
  have "\<exists>s' siv. init_apic bump_env 0xFEE00000 0xFEC00000 demo_kernel = Some s' \<and> lapic_base s' = 0xFEE00000
    \<and> io_trace s' = io_trace demo_kernel @ [PortOut 0x21 0xFF, PortOut 0xA1 0xFF, Mmio32 (0xFEE00000 + 0xF0) siv,
        Mmio32 0xFEC00000 0x12, Mmio32 (0xFEC00000 + 0x10) 33, Mmio32 0xFEC00000 0x13, Mmio32 (0xFEC00000 + 0x10) 0,
        Mmio32 0xFEC00000 0x28, Mmio32 (0xFEC00000 + 0x10) 44, Mmio32 0xFEC00000 0x29, Mmio32 (0xFEC00000 + 0x10) 0]
    \<and> map_option g_handler (IDT 33) = Some Keyboard \<and> map_option g_handler (IDT 44) = Some Mouse_Irq
    \<and> bit siv 8 \<and> interrupt bump_env (ucast siv) s' = None"
    by (rule apic_spurious_unhandled [OF bump_hw]) simp_all
  then show ?thesis by blast
qed

end
