(* ===== verification/Cpu.thy ===== *)
theory Cpu
  imports Interrupts
begin

text \<open>
  The assembly of the kernel: the \<open>syscall\<close> entry stub (\<open>src/src/syscall.rs\<close>, \<open>syscall_entry\<close>), the
  drop to user mode (\<open>src/src/usermode.rs\<close>) and the segment descriptors (\<open>src/src/gdt.rs\<close>), over a
  register machine with the x86-64 instructions they use. The stack is ordinary memory.
\<close>

section \<open>Registers and instructions\<close>

datatype reg = RAX | RBX | RCX | RDX | RSI | RDI | RBP | RSP | R8 | R9 | R10 | R11 | R12 | R13 | R14 | R15
datatype sreg = CS | SS | DS | ES | FS | GS

record cpu =
  gpr :: "reg \<Rightarrow> u64"
  seg :: "sreg \<Rightarrow> u16"
  rip :: u64
  rflags :: u64

datatype instr =
    Push reg
  | Push_Imm u64
  | Pop reg
  | Mov reg reg
  | Mov_From_Seg reg sreg
  | Mov_Imm16 reg u16
  | Mov_Seg sreg reg
  | Call
  | Sysretq
  | Iretq

text \<open>What \<open>call\<close> reaches: the compiled handler takes its arguments in \<open>rdi\<close>, \<open>rsi\<close>, \<open>rdx\<close>, \<open>rcx\<close>,
  returns its result in \<open>rax\<close> and, by the System V calling convention, may leave any values in the
  other caller-saved registers; \<open>clobber\<close> stands for these.\<close>

type_synonym 's handler_fn = "u64 \<Rightarrow> u64 \<Rightarrow> u64 \<Rightarrow> u64 \<Rightarrow> 's \<Rightarrow> (u64 \<times> 's) option"

definition caller_saved :: "reg list" where
  "caller_saved = [RCX, RDX, RSI, RDI, R8, R9, R10, R11]"

definition set_low16 :: "u64 \<Rightarrow> u16 \<Rightarrow> u64" where
  "set_low16 v w = (v AND NOT 0xFFFF) OR ucast w"

definition star_sysret :: "u64 \<Rightarrow> u16" where
  "star_sysret star = ucast (drop_bit 48 star)"

text \<open>\<open>sysretq\<close> reloads \<open>rip\<close> from \<open>rcx\<close> and the flags from \<open>r11\<close> (resume, virtual-8086 and reserved
  bits masked), and derives both selectors from the \<open>STAR\<close> register. \<open>iretq\<close> pops five words.\<close>

definition cpu_step ::
  "('a kernel_scheme) handler_fn \<Rightarrow> (reg \<Rightarrow> u64) \<Rightarrow> instr \<Rightarrow> cpu \<times> 'a kernel_scheme \<Rightarrow> (cpu \<times> 'a kernel_scheme) option" where
  "cpu_step h clobber i = (\<lambda>(c, s).
     let sp = gpr c RSP in
     case i of
       Push r \<Rightarrow> Some (c\<lparr>gpr := (gpr c)(RSP := sp - 8)\<rparr>, s\<lparr>mem := store_le (mem s) (sp - 8) 8 (gpr c r)\<rparr>)
     | Push_Imm v \<Rightarrow> Some (c\<lparr>gpr := (gpr c)(RSP := sp - 8)\<rparr>, s\<lparr>mem := store_le (mem s) (sp - 8) 8 v\<rparr>)
     | Pop r \<Rightarrow> Some (c\<lparr>gpr := (gpr c)(r := load_le (mem s) sp 8, RSP := sp + 8)\<rparr>, s)
     | Mov d r \<Rightarrow> Some (c\<lparr>gpr := (gpr c)(d := gpr c r)\<rparr>, s)
     | Mov_From_Seg d g \<Rightarrow> Some (c\<lparr>gpr := (gpr c)(d := set_low16 (gpr c d) (seg c g))\<rparr>, s)
     | Mov_Imm16 d v \<Rightarrow> Some (c\<lparr>gpr := (gpr c)(d := set_low16 (gpr c d) v)\<rparr>, s)
     | Mov_Seg g r \<Rightarrow> Some (c\<lparr>seg := (seg c)(g := ucast (gpr c r))\<rparr>, s)
     | Call \<Rightarrow> (case h (gpr c RDI) (gpr c RSI) (gpr c RDX) (gpr c RCX) s of
          None \<Rightarrow> None
        | Some (v, s) \<Rightarrow> Some (c\<lparr>gpr := (\<lambda>r. if r = RAX then v else if r \<in> set caller_saved then clobber r else gpr c r)\<rparr>, s))
     | Sysretq \<Rightarrow> Some (c\<lparr>rip := gpr c RCX, rflags := (gpr c R11 AND 0x3C7FD7) OR 2,
          seg := (seg c)(CS := (star_sysret (msr s 0xC0000081) + 16) OR 3, SS := (star_sysret (msr s 0xC0000081) + 8) OR 3)\<rparr>, s)
     | Iretq \<Rightarrow> Some (c\<lparr>rip := load_le (mem s) sp 8, rflags := load_le (mem s) (sp + 16) 8,
          gpr := (gpr c)(RSP := load_le (mem s) (sp + 24) 8),
          seg := (seg c)(CS := ucast (load_le (mem s) (sp + 8) 8 :: u64), SS := ucast (load_le (mem s) (sp + 32) 8 :: u64))\<rparr>, s))"

definition exec ::
  "('a kernel_scheme) handler_fn \<Rightarrow> (reg \<Rightarrow> u64) \<Rightarrow> instr list \<Rightarrow> cpu \<times> 'a kernel_scheme \<Rightarrow> (cpu \<times> 'a kernel_scheme) option" where
  "exec h clobber = foldM (cpu_step h clobber)"

section \<open>The stubs\<close>

definition syscall_entry :: "instr list" where
  "syscall_entry =
     [Push RCX, Push R11,
      Push RAX, Push RDI, Push RSI, Push RDX, Push R8, Push R9, Push R10,
      Mov RCX RDX, Mov RDX RSI, Mov RSI RDI, Mov RDI RAX,
      Mov_From_Seg RAX DS, Push RAX,
      Mov_Imm16 RAX 0x10,
      Mov_Seg DS RAX, Mov_Seg ES RAX, Mov_Seg FS RAX, Mov_Seg GS RAX,
      Call,
      Mov R12 RAX,
      Pop RAX,
      Mov_Seg DS RAX, Mov_Seg ES RAX, Mov_Seg FS RAX, Mov_Seg GS RAX,
      Pop R10, Pop R9, Pop R8, Pop RDX, Pop RSI, Pop RDI, Pop RAX,
      Mov RAX R12,
      Pop R11, Pop RCX,
      Sysretq]"

definition drop_to_usermode :: "instr list" where
  "drop_to_usermode =
     [Mov_Seg DS RSI, Mov_Seg ES RSI, Mov_Seg FS RSI, Mov_Seg GS RSI,
      Push RSI, Push RCX, Push_Imm 0x002, Push RDI, Push RDX,
      Iretq]"

text \<open>The \<open>syscall\<close> instruction: the return address and the flags go to \<open>rcx\<close> and \<open>r11\<close>, the flags
  of \<open>FMASK\<close> are cleared, the selectors come from \<open>STAR\<close> and control goes to \<open>LSTAR\<close>; the stack
  pointer is left as it is.\<close>

definition cpu_syscall :: "(u32 \<Rightarrow> u64) \<Rightarrow> cpu \<Rightarrow> cpu" where
  "cpu_syscall ms c = c\<lparr>gpr := (gpr c)(RCX := rip c, R11 := rflags c), rflags := rflags c AND NOT (ms 0xC0000084),
     seg := (seg c)(CS := ucast (drop_bit 32 (ms 0xC0000081)) AND 0xFFFC, SS := (ucast (drop_bit 32 (ms 0xC0000081)) + 8)),
     rip := ms 0xC0000082\<rparr>"

section \<open>The descriptor table\<close>

text \<open>\<open>GlobalDescriptorTable::add_entry\<close> belongs to the crate \<open>x86_64\<close> and is a parameter.\<close>

datatype descriptor = Kernel_Code | Kernel_Data | Tss_Segment | User_Code | User_Data

record selectors =
  code_selector :: u16
  data_selector :: u16
  tss_selector :: u16
  user_code :: u16
  user_data :: u16

definition GDT :: "('g \<Rightarrow> descriptor \<Rightarrow> u16 \<times> 'g) \<Rightarrow> 'g \<Rightarrow> 'g \<times> selectors" where
  "GDT add_entry gdt =
     (let (code, gdt) = add_entry gdt Kernel_Code;
          (data, gdt) = add_entry gdt Kernel_Data;
          (tss, gdt) = add_entry gdt Tss_Segment;
          (ucode, gdt) = add_entry gdt User_Code;
          (udata, gdt) = add_entry gdt User_Data
      in (gdt, \<lparr>code_selector = code, data_selector = data, tss_selector = tss, user_code = ucode, user_data = udata\<rparr>))"

text \<open>\<open>gdt::init\<close> on the segment registers (loading the table and the task register changes nothing
  else the model has).\<close>

definition gdt_init :: "selectors \<Rightarrow> cpu \<Rightarrow> cpu" where
  "gdt_init sel c = c\<lparr>seg := (seg c)(CS := code_selector sel, DS := data_selector sel, ES := data_selector sel,
     FS := data_selector sel, GS := data_selector sel, SS := data_selector sel)\<rparr>"

section \<open>The system call registers\<close>

definition wrmsr :: "u32 \<Rightarrow> u32 \<Rightarrow> u32 \<Rightarrow> (u32 \<Rightarrow> u64) \<Rightarrow> u32 \<Rightarrow> u64" where
  "wrmsr ecx eax edx ms = ms(ecx := push_bit 32 (ucast edx) OR ucast eax)"

definition write_msr :: "u32 \<Rightarrow> u64 \<Rightarrow> (u32 \<Rightarrow> u64) \<Rightarrow> u32 \<Rightarrow> u64" where
  "write_msr r v = wrmsr r (ucast v) (ucast (drop_bit 32 v))"

text \<open>\<open>entry\<close> is the address of \<open>syscall_entry\<close>.\<close>

definition syscall_init ::
  "u64 \<Rightarrow> u16 \<Rightarrow> u16 \<Rightarrow> u16 \<Rightarrow> u16 \<Rightarrow> 'a kernel_scheme \<Rightarrow> 'a kernel_scheme option" where
  "syscall_init entry kernel_code_sel kernel_data_sel user_code_sel user_data_sel s = do {
     let efer = ucast (ucast (msr s 0xC0000080) :: u32) OR 1;
     let s = s\<lparr>msr := write_msr 0xC0000080 efer (msr s)\<rparr>;
     star_high \<leftarrow> wsub (user_code_sel AND 0xFFFC) 16;
     let star = push_bit 32 (ucast kernel_code_sel) OR push_bit 48 (ucast star_high);
     let s = s\<lparr>msr := write_msr 0xC0000081 star (msr s)\<rparr>;
     let s = s\<lparr>msr := write_msr 0xC0000082 entry (msr s)\<rparr>;
     let s = s\<lparr>msr := write_msr 0xC0000084 0x200 (msr s)\<rparr>;
     print_str (lit ''SYS: Fast SYSCALL Interface Armed.'' @ [10]) 0x3B82F6 s
   }"

section \<open>The stack\<close>

definition stack_at :: "memory \<Rightarrow> u64 \<Rightarrow> u64 list \<Rightarrow> bool" where
  "stack_at m sp vs \<longleftrightarrow> (\<forall>i < length vs. load_le m (sp + of_nat (8 * i)) 8 = vs ! i)"

lemma stack_at_Nil [simp]: "stack_at m sp []"
  by (simp add: stack_at_def)

lemma stack_at_Cons: "stack_at m sp (v # vs) \<longleftrightarrow> load_le m sp 8 = v \<and> stack_at m (sp + 8) vs"
proof -
  have a: "sp + of_nat (8 * Suc i) = sp + 8 + of_nat (8 * i)" for i by (simp add: add.assoc)
  have "stack_at m sp (v # vs) \<longleftrightarrow> load_le m sp 8 = v \<and> (\<forall>i < length vs. load_le m (sp + of_nat (8 * Suc i)) 8 = vs ! i)"
    unfolding stack_at_def by (auto simp: less_Suc_eq_0_disj nth_Cons')
  then show ?thesis unfolding stack_at_def a .
qed

lemma stack_at_push:
  assumes "stack_at m sp vs" and "8 * length vs + 8 \<le> 2 ^ 64"
  shows "stack_at (store_le m (sp - 8) 8 v) (sp - 8) (v # vs)"
proof -
  have "load_le (store_le m (sp - 8) 8 v) (sp + of_nat (8 * i)) 8 = vs ! i" if "i < length vs" for i
  proof -
    have "apart (sp - 8 + of_nat 0) 8 (sp - 8 + of_nat (8 + 8 * i)) 8"
      by (rule apart_offsets) (use that assms(2) in auto)
    then have "apart (sp - 8) 8 (sp + of_nat (8 * i)) 8" by (simp add: add.assoc)
    with assms(1) that show ?thesis by (simp add: stack_at_def)
  qed
  then show ?thesis unfolding stack_at_Cons by (simp add: stack_at_def)
qed

lemma exec_append: "exec h cl (is @ js) cs = Option.bind (exec h cl is cs) (exec h cl js)"
  unfolding exec_def by (rule foldM_append)

text \<open>The addresses that pushing \<open>n\<close> bytes below \<open>sp\<close> leaves alone.\<close>

definition same_above :: "u64 \<Rightarrow> nat \<Rightarrow> memory \<Rightarrow> memory \<Rightarrow> bool" where
  "same_above sp n m m' \<longleftrightarrow> (\<forall>x. n \<le> unat (x - (sp - of_nat n)) \<longrightarrow> m' x = m x)"

lemma same_above_trans:
  assumes "same_above sp a m m1" and "same_above (sp - of_nat a) b m1 m2" and "a + b < 2 ^ 64"
  shows "same_above sp (a + b) m m2"
  unfolding same_above_def
proof (intro allI impI)
  fix x assume "a + b \<le> unat (x - (sp - of_nat (a + b)))"
  moreover define d where "d = x - (sp - of_nat (a + b))"
  ultimately have x: "a + b \<le> unat d" by simp
  have u: "unat (of_nat b :: u64) = b" using assms(3) by (simp add: unat_of_nat take_bit_nat_eq_self_iff)
  have e: "x - (sp - of_nat a - of_nat b) = d" "x - (sp - of_nat a) = d - of_nat b" by (simp_all add: d_def)
  have "unat (d - of_nat b) = unat d - b" using x u by (simp add: unat_sub_if_size)
  with x have "b \<le> unat (x - (sp - of_nat a - of_nat b))" "a \<le> unat (x - (sp - of_nat a))" unfolding e by simp_all
  then show "m2 x = m x" using assms(1,2) by (simp add: same_above_def)
qed

lemma same_above_push:
  assumes "same_above (sp - 8) n (store_le m (sp - 8) 8 (v :: u64)) m'" and "n + 8 < 2 ^ 64"
  shows "same_above sp (n + 8) m m'"
proof -
  have "same_above sp 8 m (store_le m (sp - 8) 8 v)"
    by (simp add: same_above_def store_le_def store_bytes_outside)
  from same_above_trans [OF this, of n m'] assms show ?thesis by (simp add: add.commute)
qed

lemma exec_pushes:
  assumes "RSP \<notin> set rs" and "stack_at (mem s) (gpr c RSP) vs" and "8 * length vs + 8 * length rs < 2 ^ 64"
  shows "\<exists>m. exec h cl (map Push rs) (c, s) =
      Some (c\<lparr>gpr := (gpr c)(RSP := gpr c RSP - of_nat (8 * length rs))\<rparr>, s\<lparr>mem := m\<rparr>)
    \<and> stack_at m (gpr c RSP - of_nat (8 * length rs)) (rev (map (gpr c) rs) @ vs)
    \<and> same_above (gpr c RSP) (8 * length rs) (mem s) m"
  using assms
proof (induction rs arbitrary: c s vs)
  case Nil
  then show ?case by (intro exI [of _ "mem s"]) (simp add: exec_def same_above_def)
next
  case (Cons r rs)
  let ?sp = "gpr c RSP"
  let ?c = "c\<lparr>gpr := (gpr c)(RSP := ?sp - 8)\<rparr>" and ?s = "s\<lparr>mem := store_le (mem s) (?sp - 8) 8 (gpr c r)\<rparr>"
  have "stack_at (mem ?s) (gpr ?c RSP) (gpr c r # vs)" using stack_at_push [OF Cons.prems(2)] Cons.prems(3) by simp
  moreover have "RSP \<notin> set rs" "8 * length (gpr c r # vs) + 8 * length rs < 2 ^ 64" using Cons.prems(1,3) by simp_all
  ultimately obtain m where m: "exec h cl (map Push rs) (?c, ?s) =
      Some (?c\<lparr>gpr := (gpr ?c)(RSP := gpr ?c RSP - of_nat (8 * length rs))\<rparr>, ?s\<lparr>mem := m\<rparr>)"
    "stack_at m (gpr ?c RSP - of_nat (8 * length rs)) (rev (map (gpr ?c) rs) @ gpr c r # vs)"
    "same_above (gpr ?c RSP) (8 * length rs) (mem ?s) m"
    using Cons.IH by blast
  have "same_above ?sp (8 * length rs + 8) (mem s) m" using same_above_push [of ?sp "8 * length rs"] m(3) Cons.prems(3) by simp
  moreover have "map (gpr ?c) rs = map (gpr c) rs" using Cons.prems(1) by auto
  moreover have "gpr ?c RSP - of_nat (8 * length rs) = ?sp - of_nat (8 * length (r # rs))" by simp
  ultimately show ?case using m(1,2) Cons.prems(1)
    by (intro exI [of _ m]) (simp add: exec_def cpu_step_def Let_def diff_diff_eq add.commute del: fun_upd_apply)
qed

fun load_regs :: "reg list \<Rightarrow> u64 list \<Rightarrow> (reg \<Rightarrow> u64) \<Rightarrow> reg \<Rightarrow> u64" where
  "load_regs (r # rs) (v # vs) g = load_regs rs vs (g(r := v))"
| "load_regs _ _ g = g"

lemma load_regs_other: "r \<notin> set rs \<Longrightarrow> load_regs rs vs g r = g r"
  by (induction rs vs g rule: load_regs.induct) auto

lemma load_regs_rsp:
  "RSP \<notin> set rs \<Longrightarrow> load_regs rs vs (g(RSP := v)) = (load_regs rs vs g)(RSP := v)"
  by (induction rs vs g rule: load_regs.induct) (auto simp: fun_upd_twist)

lemma exec_pops:
  assumes "RSP \<notin> set rs" and "stack_at (mem s) (gpr c RSP) (vs @ ws)" and "length vs = length rs"
  shows "exec h cl (map Pop rs) (c, s) =
      Some (c\<lparr>gpr := (load_regs rs vs (gpr c))(RSP := gpr c RSP + of_nat (8 * length rs))\<rparr>, s)
    \<and> stack_at (mem s) (gpr c RSP + of_nat (8 * length rs)) ws"
  using assms
proof (induction rs arbitrary: c vs)
  case Nil
  then show ?case by (simp add: exec_def)
next
  case (Cons r rs)
  then obtain v vs' where vs: "vs = v # vs'" by (cases vs) auto
  let ?sp = "gpr c RSP"
  let ?c = "c\<lparr>gpr := (gpr c)(r := v, RSP := ?sp + 8)\<rparr>"
  have "stack_at (mem s) (gpr ?c RSP) (vs' @ ws)" "load_le (mem s) ?sp 8 = v"
    using Cons.prems(2) by (simp_all add: vs stack_at_Cons)
  moreover have "gpr ?c RSP + of_nat (8 * length rs) = ?sp + of_nat (8 * length (r # rs))" by (simp add: add.assoc)
  ultimately show ?case
    using Cons.IH [of ?c vs'] Cons.prems(1,3) vs load_regs_rsp [of rs vs' "(gpr c)(r := v)" "?sp + 8"]
    by (simp add: exec_def cpu_step_def Let_def add.assoc del: fun_upd_apply)
qed

lemma exec_Cons: "exec h cl (i # is) cs = Option.bind (cpu_step h cl i cs) (exec h cl is)"
  by (simp add: exec_def split: option.splits)

lemma exec_Nil [simp]: "exec h cl [] cs = Some cs"
  by (simp add: exec_def)

lemma low16 [simp]: "ucast (set_low16 v w) = w"
proof -
  have "(0xFFFF :: u64) = mask 16" by (simp add: mask_eq_exp_minus_1)
  then have "set_low16 v w = (v AND NOT (mask 16)) OR ucast w" by (simp only: set_low16_def)
  then show ?thesis by (intro bit_word_eqI) (auto simp: bit_simps)
qed

section \<open>The entry stub\<close>

text \<open>What the calling convention promises of the handler: it leaves the 80 bytes of the saved frame
  above its stack pointer alone; and it does not write the system call registers.\<close>

definition abi_ok :: "('a kernel_scheme) handler_fn \<Rightarrow> u64 \<Rightarrow> bool" where
  "abi_ok h sp \<longleftrightarrow> (\<forall>n a b d s r s'. h n a b d s = Some (r, s') \<longrightarrow>
     load_bytes (mem s') sp 80 = load_bytes (mem s) sp 80 \<and> msr s' = msr s)"

lemma stack_at_kept:
  assumes "stack_at m sp vs" and "load_bytes m' sp (8 * length vs) = load_bytes m sp (8 * length vs)"
  shows "stack_at m' sp vs"
  unfolding stack_at_def
proof (intro allI impI)
  fix i assume i: "i < length vs"
  have "load_bytes m' (sp + of_nat (8 * i)) 8 = load_bytes m (sp + of_nat (8 * i)) 8"
    using i load_bytes_field [OF assms(2), of "8 * i" 8] load_bytes_field [OF refl, of "8 * i" 8 "8 * length vs" m sp] by simp
  then show "load_le m' (sp + of_nat (8 * i)) 8 = vs ! i" using assms(1) i by (simp add: stack_at_def load_le_def)
qed

text \<open>The stub in pieces: saving, argument set-up, the call, restoring.\<close>

definition saved_regs :: "reg list" where
  "saved_regs = [RCX, R11, RAX, RDI, RSI, RDX, R8, R9, R10]"

definition entry_args :: "instr list" where
  "entry_args = [Mov RCX RDX, Mov RDX RSI, Mov RSI RDI, Mov RDI RAX, Mov_From_Seg RAX DS]"

definition load_segs :: "instr list" where
  "load_segs = [Mov_Seg DS RAX, Mov_Seg ES RAX, Mov_Seg FS RAX, Mov_Seg GS RAX]"

lemma syscall_entry_parts:
  "syscall_entry = map Push saved_regs @ entry_args @ map Push [RAX] @ (Mov_Imm16 RAX 0x10 # load_segs) @ [Call, Mov R12 RAX]
     @ map Pop [RAX] @ load_segs @ map Pop [R10, R9, R8, RDX, RSI, RDI, RAX] @ [Mov RAX R12] @ map Pop [R11, RCX] @ [Sysretq]"
  by (simp add: syscall_entry_def saved_regs_def entry_args_def load_segs_def)

lemma load_segs_exec:
  "exec h cl load_segs (c, s) = Some (c\<lparr>seg := (seg c)(DS := ucast (gpr c RAX), ES := ucast (gpr c RAX),
     FS := ucast (gpr c RAX), GS := ucast (gpr c RAX))\<rparr>, s)"
  by (simp add: load_segs_def exec_Cons cpu_step_def Let_def)

lemma entry_saves:
  fixes c :: cpu
  defines "sp \<equiv> gpr c RSP - 80"
  shows "\<exists>m. exec h cl (map Push saved_regs @ entry_args @ map Push [RAX] @ (Mov_Imm16 RAX 0x10 # load_segs)) (c, s)
      = Some (c\<lparr>gpr := (gpr c)(RCX := gpr c RDX, RDX := gpr c RSI, RSI := gpr c RDI, RDI := gpr c RAX,
            RAX := set_low16 (set_low16 (gpr c RAX) (seg c DS)) 0x10, RSP := sp),
          seg := (seg c)(DS := 0x10, ES := 0x10, FS := 0x10, GS := 0x10)\<rparr>, s\<lparr>mem := m\<rparr>)
    \<and> stack_at m sp (set_low16 (gpr c RAX) (seg c DS) # rev (map (gpr c) saved_regs))
    \<and> same_above (gpr c RSP) 80 (mem s) m"
proof -
  from exec_pushes [of saved_regs s c "[]" h cl] obtain m1 where
    m1: "exec h cl (map Push saved_regs) (c, s) = Some (c\<lparr>gpr := (gpr c)(RSP := gpr c RSP - 72)\<rparr>, s\<lparr>mem := m1\<rparr>)"
    "stack_at m1 (gpr c RSP - 72) (rev (map (gpr c) saved_regs))" "same_above (gpr c RSP) 72 (mem s) m1"
    by (auto simp: saved_regs_def simp del: fun_upd_apply)
  let ?w = "set_low16 (gpr c RAX) (seg c DS)"
  define g where "g = (gpr c)(RCX := gpr c RDX, RDX := gpr c RSI, RSI := gpr c RDI, RDI := gpr c RAX, RAX := ?w, RSP := gpr c RSP - 72)"
  have a: "exec h cl entry_args (c\<lparr>gpr := (gpr c)(RSP := gpr c RSP - 72)\<rparr>, s\<lparr>mem := m1\<rparr>) = Some (c\<lparr>gpr := g\<rparr>, s\<lparr>mem := m1\<rparr>)"
    by (simp add: entry_args_def exec_Cons cpu_step_def Let_def g_def fun_upd_twist)
  have "stack_at (mem (s\<lparr>mem := m1\<rparr>)) (gpr (c\<lparr>gpr := g\<rparr>) RSP) (rev (map (gpr c) saved_regs))" using m1(2) by (simp add: g_def)
  from exec_pushes [OF _ this, of "[RAX]" h cl] obtain m where
    m: "exec h cl (map Push [RAX]) (c\<lparr>gpr := g\<rparr>, s\<lparr>mem := m1\<rparr>) = Some (c\<lparr>gpr := g(RSP := g RSP - 8)\<rparr>, s\<lparr>mem := m\<rparr>)"
    "stack_at m (g RSP - 8) (g RAX # rev (map (gpr c) saved_regs))" "same_above (g RSP) 8 m1 m"
    by (auto simp: saved_regs_def simp del: fun_upd_apply)
  have g: "g RSP = gpr c RSP - 72" "g RAX = ?w" "g RSP - 8 = sp" by (simp_all add: g_def sp_def)
  have "same_above (gpr c RSP) (72 + 8) (mem s) m"
    by (rule same_above_trans [OF m1(3)]) (use m(3) g in simp_all)
  moreover have b: "exec h cl (Mov_Imm16 RAX 0x10 # load_segs) (c\<lparr>gpr := g(RSP := g RSP - 8)\<rparr>, s\<lparr>mem := m\<rparr>)
      = Some (c\<lparr>gpr := (gpr c)(RCX := gpr c RDX, RDX := gpr c RSI, RSI := gpr c RDI, RDI := gpr c RAX,
            RAX := set_low16 ?w 0x10, RSP := sp),
          seg := (seg c)(DS := 0x10, ES := 0x10, FS := 0x10, GS := 0x10)\<rparr>, s\<lparr>mem := m\<rparr>)"
    by (simp add: exec_Cons load_segs_exec cpu_step_def Let_def g_def sp_def fun_upd_twist)
  ultimately show ?thesis using m(2) g
    by (intro exI [of _ m] conjI) (simp only: exec_append m1(1) a m(1) b Option.bind.simps, simp_all)
qed

text \<open>Restoring, from the handler's return: \<open>vs\<close> is the saved frame.\<close>

lemma entry_restores:
  fixes c :: cpu
  assumes "stack_at (mem s) (gpr c RSP) (w # rev vs)" and "length vs = 9"
  shows "exec h cl (Mov R12 RAX # map Pop [RAX] @ load_segs @ map Pop [R10, R9, R8, RDX, RSI, RDI, RAX] @ [Mov RAX R12]
      @ map Pop [R11, RCX] @ [Sysretq]) (c, s)
    = Some (c\<lparr>gpr := (gpr c)(R12 := gpr c RAX, R10 := vs ! 8, R9 := vs ! 7, R8 := vs ! 6, RDX := vs ! 5, RSI := vs ! 4,
          RDI := vs ! 3, R11 := vs ! 1, RCX := vs ! 0, RSP := gpr c RSP + 80),
        seg := (seg c)(DS := ucast w, ES := ucast w, FS := ucast w, GS := ucast w,
          CS := (star_sysret (msr s 0xC0000081) + 16) OR 3, SS := (star_sysret (msr s 0xC0000081) + 8) OR 3),
        rip := vs ! 0, rflags := (vs ! 1 AND 0x3C7FD7) OR 2\<rparr>, s)"
proof -
  from assms(2) obtain v0 v1 v2 v3 v4 v5 v6 v7 v8 where vs: "vs = [v0, v1, v2, v3, v4, v5, v6, v7, v8]"
    by (auto simp: length_Suc_conv numeral_eq_Suc)
  define sp where "sp = gpr c RSP"
  have l: "load_le (mem s) sp 8 = w" "load_le (mem s) (sp + 8) 8 = v8" "load_le (mem s) (sp + 16) 8 = v7"
    "load_le (mem s) (sp + 24) 8 = v6" "load_le (mem s) (sp + 32) 8 = v5" "load_le (mem s) (sp + 40) 8 = v4"
    "load_le (mem s) (sp + 48) 8 = v3" "load_le (mem s) (sp + 56) 8 = v2" "load_le (mem s) (sp + 64) 8 = v1"
    "load_le (mem s) (sp + 72) 8 = v0"
    using assms(1) unfolding vs sp_def by (simp_all add: stack_at_Cons add.assoc)
  show ?thesis
    by (simp add: load_segs_def exec_Cons cpu_step_def Let_def vs sp_def [symmetric] l add.assoc fun_eq_iff)
qed

section \<open>A system call seen from user mode\<close>

text \<open>The registers a user program finds after \<open>syscall\<close>, when the handler returned \<open>r\<close>.\<close>

definition after_syscall :: "(u32 \<Rightarrow> u64) \<Rightarrow> cpu \<Rightarrow> u64 \<Rightarrow> cpu" where
  "after_syscall ms c r = c\<lparr>
     gpr := (gpr c)(RAX := r, RCX := rip c, R11 := rflags c, R12 := r),
     seg := (\<lambda>g. case g of CS \<Rightarrow> (star_sysret (ms 0xC0000081) + 16) OR 3 | SS \<Rightarrow> (star_sysret (ms 0xC0000081) + 8) OR 3
            | _ \<Rightarrow> seg c DS),
     rflags := (rflags c AND 0x3C7FD7) OR 2\<rparr>"


definition demo_cpu :: cpu where
  "demo_cpu = \<lparr>gpr = (\<lambda>r. if r = RAX then 4 else if r = RDI then 7 else if r = RSP then 0x9000 else 1),
     seg = (\<lambda>_. 0x33), rip = 0x400000, rflags = 0x202\<rparr>"


section \<open>Segments\<close>

text \<open>What the crate documents of \<open>add_entry\<close>: the table starts with one null entry, an entry is
  appended, a system segment takes two slots, and the selector is the slot's index with the
  descriptor's privilege level.\<close>

definition desc_slots :: "descriptor \<Rightarrow> nat" where
  "desc_slots d = (if d = Tss_Segment then 2 else 1)"

definition desc_rpl :: "descriptor \<Rightarrow> u16" where
  "desc_rpl d = (if d = User_Code \<or> d = User_Data then 3 else 0)"

definition gdt_api :: "('g \<Rightarrow> descriptor \<Rightarrow> u16 \<times> 'g) \<Rightarrow> ('g \<Rightarrow> nat) \<Rightarrow> 'g \<Rightarrow> bool" where
  "gdt_api add slots g0 \<longleftrightarrow> slots g0 = 1 \<and> (\<forall>g d. slots g + desc_slots d \<le> 8 \<longrightarrow>
     fst (add g d) = of_nat (8 * slots g) OR desc_rpl d \<and> slots (snd (add g d)) = slots g + desc_slots d)"

lemma gdt_selectors:
  assumes "gdt_api add slots g0"
  shows "snd (GDT add g0) = \<lparr>code_selector = 0x08, data_selector = 0x10, tss_selector = 0x18, user_code = 0x2B, user_data = 0x33\<rparr>"
proof -
  define g1 where "g1 = snd (add g0 Kernel_Code)"
  define g2 where "g2 = snd (add g1 Kernel_Data)"
  define g3 where "g3 = snd (add g2 Tss_Segment)"
  define g4 where "g4 = snd (add g3 User_Code)"
  note d = desc_slots_def desc_rpl_def
  have law: "fst (add g d) = of_nat (8 * slots g) OR desc_rpl d" "slots (snd (add g d)) = slots g + desc_slots d"
    if "slots g + desc_slots d \<le> 8" for g d using assms that by (simp_all add: gdt_api_def)
  have s0: "slots g0 = 1" using assms by (simp add: gdt_api_def)
  have s1: "slots g1 = 2" using law(2) [of g0 Kernel_Code] s0 by (simp add: d g1_def)
  have s2: "slots g2 = 3" using law(2) [of g1 Kernel_Data] s1 by (simp add: d g2_def)
  have s3: "slots g3 = 5" using law(2) [of g2 Tss_Segment] s2 by (simp add: d g3_def)
  have s4: "slots g4 = 6" using law(2) [of g3 User_Code] s3 by (simp add: d g4_def)
  show ?thesis
    using law(1) [of g0 Kernel_Code] law(1) [of g1 Kernel_Data] law(1) [of g2 Tss_Segment] law(1) [of g3 User_Code]
      law(1) [of g4 User_Data] s0 s1 s2 s3 s4
    by (simp add: GDT_def d g1_def g2_def g3_def g4_def case_prod_unfold)
qed

lemma write_msr_eq: "write_msr r v ms = ms(r := v)"
proof -
  have "push_bit 32 (ucast (ucast (drop_bit 32 v) :: u32)) OR ucast (ucast v :: u32) = v"
    by (rule bit_word_eqI) (auto simp: bit_simps)
  then show ?thesis by (simp add: write_msr_def wrmsr_def)
qed

lemma syscall_init_msrs:
  assumes "gfx_ok s \<or> terminal_layer (server s) = None"
  shows "\<exists>s'. syscall_init entry 0x08 0x10 0x2B 0x33 s = Some s'
    \<and> msr s' = (msr s)(0xC0000080 := ucast (ucast (msr s 0xC0000080) :: u32) OR 1, 0xC0000081 := 0x0018000800000000,
        0xC0000082 := entry, 0xC0000084 := 0x200)"
proof -
  let ?t = "s\<lparr>msr := (msr s)(0xC0000080 := ucast (ucast (msr s 0xC0000080) :: u32) OR 1, 0xC0000081 := 0x0018000800000000,
        0xC0000082 := entry, 0xC0000084 := 0x200)\<rparr>"
  let ?msg = "lit ''SYS: Fast SYSCALL Interface Armed.'' @ [10]"
  have "\<exists>s'. print_str ?msg 0x3B82F6 ?t = Some s' \<and> msr s' = msr ?t"
  proof (cases "terminal_layer (server s) = None")
    case True
    then show ?thesis by (simp add: print_str_def terminal_print_def)
  next
    case False
    with assms have "gfx_ok ?t" by (simp add: gfx_ok_def)
    from print_str_ok [OF this] obtain s' where s': "print_str ?msg 0x3B82F6 ?t = Some s'" "same_but_terminal ?t s'" by blast
    with kernel_fields_more(5) [OF same_but_terminal_net(4) [OF s'(2)]] show ?thesis by blast
  qed
  moreover have "wsub ((0x2B :: u16) AND 0xFFFC) 16 = Some 0x18" by (simp add: wsub_def)
  ultimately show ?thesis by (simp add: syscall_init_def write_msr_eq push_bit_eq_mult)
qed

text \<open>C39. With the descriptor table as \<open>gdt.rs\<close> builds it, \<open>syscall::init\<close> enables the
  \<open>syscall\<close> instruction so that it enters at the given address, with the kernel's code and data
  segments and interrupts off, and \<open>sysretq\<close> returns to the user code segment; but the stack segment
  it loads is 0x23, slot 4 of the table, which is the upper half of the task state segment's
  descriptor and not the user data segment (0x33).\<close>

theorem sysret_stack_segment:
  assumes "gdt_api add slots g0" and "snd (GDT add g0) = sel" and "gfx_ok s \<or> terminal_layer (server s) = None"
  shows "\<exists>s'. syscall_init entry (code_selector sel) (data_selector sel) (user_code sel) (user_data sel) s = Some s'
    \<and> (\<forall>c r. let k = cpu_syscall (msr s') c; u = after_syscall (msr s') c r in
         rip k = entry \<and> seg k CS = code_selector sel \<and> seg k SS = data_selector sel \<and> \<not> bit (rflags k) 9
         \<and> seg u CS = user_code sel \<and> seg u SS = 0x23 \<and> seg u SS \<noteq> user_data sel
         \<and> seg u SS AND 0xFFF8 = tss_selector sel + 8)
    \<and> bit (msr s' 0xC0000080) 0"
proof -
  have b: "\<not> bit (x AND NOT 0x200) 9" for x :: u64
  proof -
    have "(0x200 :: u64) = push_bit 9 1" by (simp add: push_bit_eq_mult)
    then show ?thesis by (simp add: bit_simps)
  qed
  from syscall_init_msrs [OF assms(3), of entry] obtain s' where s': "syscall_init entry 0x08 0x10 0x2B 0x33 s = Some s'"
    "msr s' = (msr s)(0xC0000080 := ucast (ucast (msr s 0xC0000080) :: u32) OR 1, 0xC0000081 := 0x0018000800000000,
        0xC0000082 := entry, 0xC0000084 := 0x200)" by blast
  show ?thesis
    using gdt_selectors [OF assms(1), unfolded assms(2)] s'(1) b
    by (intro exI [of _ s']) (simp add: s'(2) cpu_syscall_def after_syscall_def star_sysret_def Let_def
        drop_bit_eq_div bit_simps)
qed

definition list_gdt :: "descriptor list \<Rightarrow> descriptor \<Rightarrow> u16 \<times> descriptor list" where
  "list_gdt g d = (of_nat (8 * (1 + sum_list (map desc_slots g))) OR desc_rpl d, g @ [d])"

theorem sysret_stack_segment_witness:
  "\<exists>s'. syscall_init 0x200000 0x08 0x10 0x2B 0x33 demo_kernel = Some s' \<and> seg (after_syscall (msr s') demo_cpu 0) SS = 0x23"
proof -
  have api: "gdt_api list_gdt (\<lambda>g. 1 + sum_list (map desc_slots g)) []" by (simp add: gdt_api_def list_gdt_def)
  note sel = gdt_selectors [OF api]
  have "gfx_ok demo_kernel" using demo_kernel_ok by (simp add: kernel_ok_def net_ok_def)
  from sysret_stack_segment [OF api sel disjI1 [OF this], of "0x200000"] show ?thesis by (auto simp: Let_def)
qed

section \<open>Leaving for user mode\<close>

text \<open>\<open>drop_to_usermode\<close> continues at the given instruction with the given stack
  pointer, code and data selectors in all segment registers, every other register unchanged and
  all flags clear, interrupts off among them; it writes exactly the 40 bytes below the kernel's stack
  pointer.\<close>

lemma drop_enters_ring3:
  "\<exists>m c'. same_above (gpr c RSP) 40 (mem s) m \<and> exec h cl drop_to_usermode (c, s) = Some (c', s\<lparr>mem := m\<rparr>)
    \<and> c' = c\<lparr>gpr := (gpr c)(RSP := gpr c RCX), seg := (\<lambda>g. if g = CS then ucast (gpr c RDI) else ucast (gpr c RSI)),
        rip := gpr c RDX, rflags := 2\<rparr>
    \<and> \<not> bit (rflags c') 9"
proof -
  let ?sp = "gpr c RSP"
  define m1 where "m1 = store_le (store_le (mem s) (?sp - 8) 8 (gpr c RSI)) (?sp - 16) 8 (gpr c RCX)"
  define m2 where "m2 = store_le m1 (?sp - 24) 8 (2 :: u64)"
  define m where "m = store_le (store_le m2 (?sp - 32) 8 (gpr c RDI)) (?sp - 40) 8 (gpr c RDX)"
  have "stack_at (mem s) ?sp []" by simp
  from stack_at_push [OF this, of "gpr c RSI"] have "stack_at (store_le (mem s) (?sp - 8) 8 (gpr c RSI)) (?sp - 8) [gpr c RSI]" by simp
  from stack_at_push [OF this, of "gpr c RCX"] have "stack_at m1 (?sp - 16) [gpr c RCX, gpr c RSI]" by (simp add: m1_def)
  from stack_at_push [OF this, of 2] have "stack_at m2 (?sp - 24) [2, gpr c RCX, gpr c RSI]" by (simp add: m2_def)
  from stack_at_push [OF this, of "gpr c RDI"]
  have "stack_at (store_le m2 (?sp - 32) 8 (gpr c RDI)) (?sp - 32) [gpr c RDI, 2, gpr c RCX, gpr c RSI]" by simp
  from stack_at_push [OF this, of "gpr c RDX"] have "stack_at m (?sp - 40) [gpr c RDX, gpr c RDI, 2, gpr c RCX, gpr c RSI]"
    by (simp add: m_def)
  then have l: "load_le m (?sp - 40) 8 = gpr c RDX" "load_le m (?sp - 32) 8 = gpr c RDI" "load_le m (?sp - 24) 8 = (2 :: u64)"
    "load_le m (?sp - 16) 8 = gpr c RCX" "load_le m (?sp - 8) 8 = gpr c RSI"
    by (simp_all add: stack_at_Cons)
  have "same_above (?sp - 40) 0 m m" by (simp add: same_above_def)
  from same_above_push [of "?sp - 32" 0 _ "gpr c RDX" m] this
  have "same_above (?sp - 32) 8 (store_le m2 (?sp - 32) 8 (gpr c RDI)) m" by (simp add: m_def)
  from same_above_push [of "?sp - 24" 8 m2 "gpr c RDI" m] this have "same_above (?sp - 24) 16 m2 m" by simp
  from same_above_push [of "?sp - 16" 16 m1 2 m] this have "same_above (?sp - 16) 24 m1 m" by (simp add: m2_def)
  from same_above_push [of "?sp - 8" 24 _ "gpr c RCX" m] this
  have "same_above (?sp - 8) 32 (store_le (mem s) (?sp - 8) 8 (gpr c RSI)) m" by (simp add: m1_def)
  from same_above_push [of ?sp 32 "mem s" "gpr c RSI" m] this have "same_above ?sp 40 (mem s) m" by simp
  moreover have "(\<lambda>g. if g = CS then ucast (gpr c RDI) else ucast (gpr c RSI)) = (seg c)(DS := ucast (gpr c RSI), ES := ucast (gpr c RSI),
      FS := ucast (gpr c RSI), GS := ucast (gpr c RSI), CS := ucast (gpr c RDI), SS := ucast (gpr c RSI) :: u16)"
    by (auto simp: fun_eq_iff intro: sreg.exhaust)
  moreover have "\<not> bit (2 :: u64) 9" by (simp add: bit_numeral_rec)
  ultimately show ?thesis
    by (intro exI [of _ m] exI [of _ "c\<lparr>gpr := (gpr c)(RSP := gpr c RCX), seg := (\<lambda>g. if g = CS then ucast (gpr c RDI) else ucast (gpr c RSI)),
        rip := gpr c RDX, rflags := 2\<rparr>"]) (simp add: drop_to_usermode_def exec_Cons cpu_step_def Let_def m1_def [symmetric] m2_def [symmetric] m_def [symmetric] l)
qed

end
