(* ===== verification/Syscall.thy ===== *)
theory Syscall
  imports Cpu
begin

text \<open>
  The system calls (\<open>src/src/syscall.rs\<close>, \<open>syscall_handler\<close>) and the program that runs in ring 3
  (\<open>src/src/main.rs\<close>, \<open>ring3_user_task\<close>).

  A boxed canvas is an object of unspecified layout; the model keeps those the kernel made in the
  field \<open>canvases\<close>. What the kernel sees when a program passes some other address is the parameter
  \<open>wild_canvas\<close>.
\<close>

section \<open>The handler\<close>

text \<open>\<open>slice::from_raw_parts\<close> with a length from outside: the debug check also bounds the length.\<close>

definition raw_slice :: "memory \<Rightarrow> u64 \<Rightarrow> usize \<Rightarrow> u8 list option" where
  "raw_slice m p n = (if p = 0 \<or> n \<ge> 2 ^ 63 then None else Some (load_bytes m p n))"

definition sys_print :: "u64 \<Rightarrow> u64 \<Rightarrow> u64 \<Rightarrow> 'a kernel_scheme \<Rightarrow> (u64 \<times> 'a kernel_scheme) option" where
  "sys_print arg1 arg2 arg3 s = do {
     let color = (ucast arg3 :: u32);
     slice \<leftarrow> raw_slice (mem s) arg1 (unat arg2);
     s \<leftarrow> (case from_utf8 slice of
        Some text \<Rightarrow> print_str text color s
      | None \<Rightarrow> print_str (10 # lit ''> SYS: SYSCALL STRING UTF8 ERROR!'' @ [10]) 0xEF4444 s);
     Some (0, s)
   }"

text \<open>\<open>vec![bg; n]\<close> allocates nothing for \<open>n = 0\<close>; a \<open>Canvas\<close> is four \<open>usize\<close>s and a \<open>Vec\<close>, 56
  bytes.\<close>

definition alloc_pixels :: "('a kernel_scheme) env \<Rightarrow> nat \<Rightarrow> 'a kernel_scheme \<Rightarrow> 'a kernel_scheme option" where
  "alloc_pixels e n s =
     (if n = 0 then Some s
      else if 4 * n \<ge> 2 ^ 63 then None
      else map_option snd (alloc_raw e 4 (4 * n) s))"

definition sys_canvas :: "('a kernel_scheme) env \<Rightarrow> u64 \<Rightarrow> u64 \<Rightarrow> u64 \<Rightarrow> 'a kernel_scheme \<Rightarrow> (u64 \<times> 'a kernel_scheme) option" where
  "sys_canvas e arg1 arg2 arg3 s = do {
     let size = unat arg3;
     canvas \<leftarrow> canvas_new (unat arg1) (unat arg2) size size 0x000000;
     s \<leftarrow> alloc_pixels e (size * size) s;
     (p, s) \<leftarrow> alloc_raw e 8 56 s;
     Some (p, s\<lparr>canvases := (canvases s)(p \<mapsto> canvas)\<rparr>)
   }"

definition sys_blit :: "(memory \<Rightarrow> u64 \<Rightarrow> canvas) \<Rightarrow> u64 \<Rightarrow> 'a kernel_scheme \<Rightarrow> (u64 \<times> 'a kernel_scheme) option" where
  "sys_blit wild_canvas arg1 s = do {
     s \<leftarrow> (if arg1 \<noteq> 0
           then blit_canvas (case canvases s arg1 of Some cv \<Rightarrow> cv | None \<Rightarrow> wild_canvas (mem s) arg1) s
           else Some s);
     Some (0, s)
   }"

definition sys_read_sector :: "('a kernel_scheme) env \<Rightarrow> u64 \<Rightarrow> 'a kernel_scheme \<Rightarrow> (u64 \<times> 'a kernel_scheme) option" where
  "sys_read_sector e lba s = do {
     s \<leftarrow> print_str (10 # lit ''> SYS: RING-3 NVME READ REQUEST ACCEPTED.'' @ [10]) 0xF59E0B s;
     case nvme_drive s of
       Some drive \<Rightarrow> do {
         (data, drive, s) \<leftarrow> read_sector e drive lba s;
         let s = s\<lparr>nvme_drive := Some drive\<rparr>;
         safe_buffer \<leftarrow> copy_chk (replicate 512 0) 0 512 data;
         (p, s) \<leftarrow> leak_bytes e 1 safe_buffer s;
         s \<leftarrow> print_str (lit ''> SYS: NVME DMA COMPLETE. PASSING POINTER TO RING-3.'' @ [10]) 0x10B981 s;
         s \<leftarrow> blit_terminal s;
         Some (p, s)
       }
     | None \<Rightarrow> do {
         s \<leftarrow> print_str (lit ''> SYS: NVME DRIVE NOT FOUND!'' @ [10]) 0xEF4444 s;
         Some (0, s)
       }
   }"

definition sys_send_text :: "('a kernel_scheme) env \<Rightarrow> rstr \<Rightarrow> 'a kernel_scheme \<Rightarrow> 'a kernel_scheme option" where
  "sys_send_text e text s = do {
     s \<leftarrow> print_str (10 # lit ''> SYS: RING-3 NETWORK REQUEST. PAYLOAD: '' @ [39] @ text @ [39, 10]) 0xF59E0B s;
     case net_card s of
       Some nic \<Rightarrow> do {
         (nic, s) \<leftarrow> arp_request e [10, 0, 2, 2] nic s;
         print_str (lit ''> SYS: E1000 HARDWARE TRANSMIT (TX) COMPLETE!'' @ [10]) 0x10B981 (s\<lparr>net_card := Some nic\<rparr>)
       }
     | None \<Rightarrow> print_str (lit ''> SYS: E1000 NETWORK CARD NOT FOUND!'' @ [10]) 0xEF4444 s
   }"

definition sys_send :: "('a kernel_scheme) env \<Rightarrow> u64 \<Rightarrow> u64 \<Rightarrow> 'a kernel_scheme \<Rightarrow> (u64 \<times> 'a kernel_scheme) option" where
  "sys_send e arg1 arg2 s = do {
     slice \<leftarrow> raw_slice (mem s) arg1 (unat arg2);
     s \<leftarrow> (case from_utf8 slice of
        Some text \<Rightarrow> sys_send_text e text s
      | None \<Rightarrow> Some s);
     s \<leftarrow> blit_terminal s;
     Some (0, s)
   }"

definition sys_unknown :: "'a kernel_scheme \<Rightarrow> (u64 \<times> 'a kernel_scheme) option" where
  "sys_unknown s = do {
     s \<leftarrow> print_str (10 # lit ''> SYS: UNKNOWN SYSCALL TRIGGERED!'' @ [10]) 0xEF4444 s;
     Some (0, s)
   }"

definition syscall_handler ::
  "('a kernel_scheme) env \<Rightarrow> (memory \<Rightarrow> u64 \<Rightarrow> canvas) \<Rightarrow> u64 \<Rightarrow> u64 \<Rightarrow> u64 \<Rightarrow> u64 \<Rightarrow> 'a kernel_scheme
     \<Rightarrow> (u64 \<times> 'a kernel_scheme) option" where
  "syscall_handler e wild_canvas syscall_num arg1 arg2 arg3 s =
     (if syscall_num = 1 then sys_print arg1 arg2 arg3 s
      else if syscall_num = 2 then sys_canvas e arg1 arg2 arg3 s
      else if syscall_num = 3 then sys_blit wild_canvas arg1 s
      else if syscall_num = 4 then sys_read_sector e arg1 s
      else if syscall_num = 5 then sys_send e arg1 arg2 s
      else sys_unknown s)"

section \<open>The ring-3 program\<close>

text \<open>\<open>msg\<close> and \<open>success_msg\<close> are the addresses of the program's two string literals. The payload
  string grows in the (shared) kernel heap; the model allocates its final buffer.\<close>

definition task_msg :: rstr where
  "task_msg = 10 # lit ''> [RING-3]: USER APP BOOTED. INITIATING NVME HARDWARE READ...'' @ [10]"

definition task_success :: rstr where
  "task_success = lit ''> [RING-3]: MISSION COMPLETE. ENTERING IDLE LOOP.'' @ [10]"

definition task_payload :: "u8 list \<Rightarrow> rstr" where
  "task_payload data = lit ''RING-3 FOUND DISK SIGNATURE: '' @
     (case from_utf8 data of Some sig \<Rightarrow> sig | None \<Rightarrow> lit ''CORRUPT'')"

definition ring3_user_task ::
  "('a kernel_scheme) env \<Rightarrow> (memory \<Rightarrow> u64 \<Rightarrow> canvas) \<Rightarrow> u64 \<Rightarrow> u64 \<Rightarrow> 'a kernel_scheme \<Rightarrow> 'a kernel_scheme option" where
  "ring3_user_task e wild msg success_msg s = do {
     (_, s) \<leftarrow> syscall_handler e wild 1 msg (of_nat (length task_msg)) 0xF59E0B s;
     (sector_ptr, s) \<leftarrow> syscall_handler e wild 4 0 0 0 s;
     p \<leftarrow> wadd sector_ptr 3;
     data \<leftarrow> raw_slice (mem s) p 8;
     let network_payload = task_payload data;
     (buf, s) \<leftarrow> leak_bytes e 1 network_payload s;
     (_, s) \<leftarrow> syscall_handler e wild 5 buf (of_nat (length network_payload)) 0 s;
     (_, s) \<leftarrow> syscall_handler e wild 1 success_msg (of_nat (length task_success)) 0x10B981 s;
     Some s
   }"

section \<open>Invariant\<close>

text \<open>A canvas whose blit computes no overflowing offset.\<close>

definition canvas_safe :: "canvas \<Rightarrow> bool" where
  "canvas_safe cv \<longleftrightarrow> cv_x cv < 2 ^ 63 \<and> cv_y cv + cv_height cv < 2 ^ 64 \<and> cv_height cv * cv_width cv < 2 ^ 64"

text \<open>The kernel, with its drive set up for at least \<open>k\<close> more reads and safe canvases.\<close>

definition sys_ok :: "('a kernel_scheme) env \<Rightarrow> nat \<Rightarrow> nat \<Rightarrow> (u64 \<Rightarrow> u8 list) \<Rightarrow> nat \<Rightarrow> 'a kernel_scheme \<Rightarrow> bool" where
  "sys_ok e base sz disk k s \<longleftrightarrow> kernel_ok e base sz s \<and> (\<forall>lba. length (disk lba) = 512)
     \<and> (\<forall>nv. nvme_drive s = Some nv \<longrightarrow> drive_ok e base sz disk 0 nv s \<and> unat (iosq_tail nv) + k \<le> 16)
     \<and> (\<forall>p cv. canvases s p = Some cv \<longrightarrow> canvas_safe cv)"

lemma drive_ok_more:
  assumes "drive_ok e base sz disk 0 nv s" and "heap_inv e base sz (live s')" and "heap_used (live s') \<le> sz"
    and "set (live s) \<subseteq> set (live s')"
  shows "drive_ok e base sz disk 0 nv s'"
  using assms by (auto simp: drive_ok_def)

lemma sys_ok_step:
  assumes "sys_ok e base sz disk k s" and "kernel_step e base sz n s s'" and "heap_used (live s) + n \<le> sz"
  shows "sys_ok e base sz disk k s'"
proof -
  have "heap_inv e base sz (live s')" "heap_used (live s') \<le> sz" "set (live s) \<subseteq> set (live s')"
    using assms(2,3) by (auto simp: kernel_step_def net_step_def net_ok_def)
  with assms(1,2) drive_ok_more show ?thesis unfolding sys_ok_def kernel_step_def by metis
qed

lemma sys_print_ok:
  assumes "sys_ok e base sz disk k s" and "heap_used (live s) \<le> sz"
  shows "\<exists>s'. print_str t c s = Some s' \<and> sys_ok e base sz disk k s' \<and> kernel_step e base sz 0 s s'
    \<and> same_but_terminal s s'"
proof -
  have "kernel_ok e base sz s" using assms(1) by (simp add: sys_ok_def)
  from print_step [OF this, of t c] obtain s' where s': "print_str t c s = Some s'" "kernel_step e base sz 0 s s'"
    "same_but_terminal s s'" by blast
  with sys_ok_step [OF assms(1) s'(2)] assms(2) show ?thesis by simp
qed

lemma blit_terminal_step:
  assumes "sys_ok e base sz disk k s" and "heap_used (live s) \<le> sz"
  shows "\<exists>s'. blit_terminal s = Some s' \<and> sys_ok e base sz disk k s' \<and> kernel_step e base sz 0 s s'
    \<and> same_but_terminal s s'"
proof -
  have k: "kernel_ok e base sz s" using assms(1) by (simp add: sys_ok_def)
  then have n: "net_ok e base sz s" "gfx_ok s" by (simp_all add: kernel_ok_def net_ok_def)
  from blit_terminal_ok [OF n(2)] obtain s' where s': "blit_terminal s = Some s'" "gfx_ok s'" "same_but_terminal s s'" by blast
  have "net_step e base sz 0 s s'" by (rule net_step_terminal [OF n(1) s'(2,3)])
  with k kernel_fields_more [OF same_but_terminal_net(4) [OF s'(3)]] have "kernel_step e base sz 0 s s'"
    by (simp add: kernel_step_def kernel_ok_def net_step_ok)
  with s' sys_ok_step [OF assms(1) this] assms(2) show ?thesis by simp
qed

lemma kernel_step_used: "kernel_step e base sz n s s' \<Longrightarrow> heap_used (live s') \<le> heap_used (live s) + n"
  by (simp add: kernel_step_def net_step_def)

section \<open>Allocation\<close>

text \<open>The state after a block was added to the heap.\<close>

lemma sys_ok_alloc:
  assumes "sys_ok e base sz disk k s" and "heap_inv e base sz ((p, n) # live s)" and "heap_used (live s) + n + 4096 \<le> sz"
  shows "sys_ok e base sz disk k (s\<lparr>mem := m, live := (p, n) # live s\<rparr>)"
proof -
  let ?s = "s\<lparr>mem := m, live := (p, n) # live s\<rparr>"
  have "\<And>nic. net_card s = Some nic \<Longrightarrow> nic_ok base sz (live ?s) nic"
    using assms(1) by (auto simp: sys_ok_def kernel_ok_def net_ok_def nic_ok_def)
  then have "net_ok e base sz ?s" using assms(1,2) by (auto simp: sys_ok_def kernel_ok_def net_ok_def gfx_ok_def)
  moreover have "drive_ok e base sz disk 0 nv ?s" if "nvme_drive s = Some nv" for nv
    using drive_ok_more [of e base sz disk nv s ?s] assms that by (auto simp: sys_ok_def)
  ultimately show ?thesis using assms(1) by (auto simp: sys_ok_def kernel_ok_def)
qed

lemma sys_heap_inv: "sys_ok e base sz disk k s \<Longrightarrow> heap_inv e base sz (live s)"
  by (simp add: sys_ok_def kernel_ok_def net_ok_def)

lemma alloc_raw_ok:
  assumes "heap_ok e base sz" and "sys_ok e base sz disk k s" and "heap_used (live s) + n + 4096 \<le> sz" and "al \<le> 4096"
  shows "\<exists>p. alloc_raw e al n s = Some (p, s\<lparr>live := (p, n) # live s\<rparr>) \<and> p \<noteq> 0 \<and> sys_ok e base sz disk k (s\<lparr>live := (p, n) # live s\<rparr>)"
proof -
  let ?p = "galloc e n al (live s)"
  note x = heap_extend [OF assms(1) sys_heap_inv [OF assms(2)] assms(3,4)]
  have "sys_ok e base sz disk k (s\<lparr>mem := mem s, live := (?p, n) # live s\<rparr>)" by (rule sys_ok_alloc [OF assms(2) x(2) assms(3)])
  then show ?thesis using x(1) by (simp add: alloc_raw_def Let_def)
qed

lemma sys_leak_ok:
  assumes "heap_ok e base sz" and "sys_ok e base sz disk k s" and "heap_used (live s) + length bs + 4096 \<le> sz" and "al \<le> 4096"
  shows "\<exists>p. leak_bytes e al bs s = Some (p, s\<lparr>mem := store_bytes (mem s) p bs, live := (p, length bs) # live s\<rparr>) \<and> p \<noteq> 0
    \<and> sys_ok e base sz disk k (s\<lparr>mem := store_bytes (mem s) p bs, live := (p, length bs) # live s\<rparr>)"
  using leak_bytes_ok [OF assms(1) sys_heap_inv [OF assms(2)] assms(3,4)] sys_ok_alloc [OF assms(2) _ assms(3)] by blast

lemma blit_rows_total:
  assumes "screen_ok sv" and "canvas_safe cv" and "set cys \<subseteq> {..<cv_height cv}"
  shows "\<exists>v'. blit_rows sv cv cys v = Some v'"
  using assms(3)
proof (induction cys arbitrary: v)
  case (Cons cy cys)
  have cy: "cy < cv_height cv" using Cons.prems by simp
  have "cy * cv_width cv \<le> cv_height cv * cv_width cv" using cy by (intro mult_le_mono1) simp
  then have src: "cy * cv_width cv < 2 ^ 64" using assms(2) unfolding canvas_safe_def by linarith
  have y: "cv_y cv + cy < 2 ^ 64" using assms(2) cy by (simp add: canvas_safe_def)
  show ?case
  proof (cases "sv_height sv \<le> cv_y cv + cy")
    case True
    then show ?thesis using y by (simp add: uadd_def)
  next
    case False
    have "(cv_y cv + cy) * sv_stride sv \<le> sv_height sv * sv_stride sv" using False by (intro mult_le_mono1) simp
    moreover have "sv_height sv * sv_stride sv < 2 ^ 62" using screen_area [OF assms(1)] by (simp add: mult.commute)
    ultimately have l: "(cv_y cv + cy) * sv_stride sv < 2 ^ 62" by (rule le_less_trans)
    then have "(cv_y cv + cy) * sv_stride sv + cv_x cv < 2 ^ 64" using assms(2) by (simp add: canvas_safe_def)
    then show ?thesis using Cons.IH Cons.prems False y src l by (simp add: uadd_def umul_def)
  qed
qed simp

section \<open>Each call\<close>

text \<open>What a call may be given for it not to panic, and how much heap it takes.\<close>

definition sys_args_ok :: "u64 \<Rightarrow> u64 \<Rightarrow> u64 \<Rightarrow> u64 \<Rightarrow> 'a kernel_scheme \<Rightarrow> bool" where
  "sys_args_ok n a b d s \<longleftrightarrow>
     (n = 1 \<or> n = 5 \<longrightarrow> a \<noteq> 0 \<and> unat b < 2 ^ 63) \<and>
     (n = 2 \<longrightarrow> unat a < 2 ^ 63 \<and> unat b + unat d < 2 ^ 64 \<and> 4 * (unat d * unat d) < 2 ^ 63) \<and>
     (n = 3 \<longrightarrow> a = 0 \<or> canvases s a \<noteq> None)"

definition sys_heap :: "u64 \<Rightarrow> u64 \<Rightarrow> nat" where
  "sys_heap n d = (if n = 2 then 4 * (unat d * unat d) + 8248 else if n = 4 then 12800 else if n = 5 then 4156 else 0)"

lemma sys_print_step:
  assumes "sys_ok e base sz disk k s" and "heap_used (live s) \<le> sz" and "a \<noteq> 0" and "unat b < 2 ^ 63"
  shows "\<exists>s'. sys_print a b d s = Some (0, s') \<and> sys_ok e base sz disk k s' \<and> kernel_step e base sz 0 s s' \<and> same_but_terminal s s'"
proof (cases "from_utf8 (load_bytes (mem s) a (unat b))")
  case None
  with sys_print_ok [OF assms(1,2), of "10 # lit ''> SYS: SYSCALL STRING UTF8 ERROR!'' @ [10]" "0xEF4444"] assms(3,4)
  show ?thesis by (auto simp: sys_print_def raw_slice_def)
next
  case (Some t)
  with sys_print_ok [OF assms(1,2), of t "ucast d"] assms(3,4) show ?thesis by (auto simp: sys_print_def raw_slice_def)
qed

lemma alloc_pixels_ok:
  assumes "heap_ok e base sz" and "sys_ok e base sz disk k s" and "heap_used (live s) + 4 * n + 4096 \<le> sz" and "4 * n < 2 ^ 63"
  shows "\<exists>ls. alloc_pixels e n s = Some (s\<lparr>live := ls\<rparr>) \<and> sys_ok e base sz disk k (s\<lparr>live := ls\<rparr>)
    \<and> heap_used ls \<le> heap_used (live s) + 4 * n + 4096"
proof (cases "n = 0")
  case True
  then show ?thesis using assms(2) by (intro exI [of _ "live s"]) (simp add: alloc_pixels_def)
next
  case False
  from alloc_raw_ok [OF assms(1-3), of 4] assms(4) False show ?thesis by (auto simp: alloc_pixels_def)
qed

lemma sys_canvas_step:
  assumes "heap_ok e base sz" and "sys_ok e base sz disk k s" and "heap_used (live s) + sys_heap 2 d \<le> sz"
    and "unat a < 2 ^ 63" and "unat b + unat d < 2 ^ 64" and n: "4 * (unat d * unat d) < 2 ^ 63"
  shows "\<exists>p ls cv. sys_canvas e a b d s = Some (p, s\<lparr>live := ls, canvases := (canvases s)(p \<mapsto> cv)\<rparr>) \<and> p \<noteq> 0
    \<and> cv = \<lparr>cv_x = unat a, cv_y = unat b, cv_width = unat d, cv_height = unat d, cv_pixels = replicate (unat d * unat d) 0\<rparr>
    \<and> sys_ok e base sz disk k (s\<lparr>live := ls, canvases := (canvases s)(p \<mapsto> cv)\<rparr>)
    \<and> heap_used ls \<le> heap_used (live s) + sys_heap 2 d"
proof -
  let ?n = "unat d * unat d"
  let ?cv = "\<lparr>cv_x = unat a, cv_y = unat b, cv_width = unat d, cv_height = unat d, cv_pixels = replicate ?n 0\<rparr>"
  have room: "heap_used (live s) + 4 * ?n + 8248 \<le> sz" using assms(3) by (simp add: sys_heap_def)
  from alloc_pixels_ok [OF assms(1,2) _ n] room obtain ls where
    ls: "alloc_pixels e ?n s = Some (s\<lparr>live := ls\<rparr>)" "sys_ok e base sz disk k (s\<lparr>live := ls\<rparr>)"
    "heap_used ls \<le> heap_used (live s) + 4 * ?n + 4096" by auto
  have "heap_used (live (s\<lparr>live := ls\<rparr>)) + 56 + 4096 \<le> sz" using ls(3) room by simp
  from alloc_raw_ok [OF assms(1) ls(2) this, of 8] obtain p where
    p: "alloc_raw e 8 56 (s\<lparr>live := ls\<rparr>) = Some (p, s\<lparr>live := (p, 56) # ls\<rparr>)" "p \<noteq> 0"
    "sys_ok e base sz disk k (s\<lparr>live := (p, 56) # ls\<rparr>)" by auto
  have cv: "canvas_safe ?cv" using assms(4,5) n by (simp add: canvas_safe_def)
  have "sys_ok e base sz disk k (s\<lparr>live := (p, 56) # ls, canvases := (canvases s)(p \<mapsto> ?cv)\<rparr>)"
    using p(3) cv by (auto simp: sys_ok_def kernel_ok_def net_ok_def gfx_ok_def drive_ok_def)
  moreover have "canvas_new (unat a) (unat b) (unat d) (unat d) 0 = Some ?cv" using n by (simp add: canvas_new_def umul_def)
  ultimately show ?thesis using ls p
    by (intro exI [of _ p] exI [of _ "(p, 56) # ls"] exI [of _ ?cv]) (simp add: sys_canvas_def sys_heap_def Let_def)
qed

lemma sys_blit_step:
  assumes "sys_ok e base sz disk k s" and "a = 0 \<or> canvases s a \<noteq> None"
  shows "\<exists>v. sys_blit w a s = Some (0, s\<lparr>vram := v\<rparr>) \<and> sys_ok e base sz disk k (s\<lparr>vram := v\<rparr>)"
proof -
  have ok: "sys_ok e base sz disk k (s\<lparr>vram := v\<rparr>)" for v
    using assms(1) by (auto simp: sys_ok_def kernel_ok_def net_ok_def gfx_ok_def drive_ok_def)
  show ?thesis
  proof (cases "a = 0")
    case True
    then show ?thesis using assms(1) by (intro exI [of _ "vram s"]) (simp add: sys_blit_def)
  next
    case False
    then obtain cv where cv: "canvases s a = Some cv" using assms(2) by auto
    then have "canvas_safe cv" "screen_ok (server s)" using assms(1) by (auto simp: sys_ok_def kernel_ok_def net_ok_def gfx_ok_def)
    from blit_rows_total [OF this(2,1), of "[0..<cv_height cv]" "vram s"]
    obtain v where "blit_rows (server s) cv [0..<cv_height cv] (vram s) = Some v" by (auto simp: atLeast0LessThan)
    then show ?thesis using ok False cv by (auto simp: sys_blit_def blit_canvas_def)
  qed
qed

lemma read_sector_step:
  assumes "sys_ok e base sz disk (Suc k) s" and "nvme_drive s = Some nv" and "heap_used (live s) + 8192 \<le> sz"
  shows "\<exists>nv' p s'. read_sector e nv lba s = Some (disk lba, nv', s') \<and> live s' = (p, 4096) # live s \<and> net_card s' = net_card s
    \<and> sys_ok e base sz disk k (s'\<lparr>nvme_drive := Some nv'\<rparr>)"
proof -
  have d: "drive_ok e base sz disk 0 nv s" "unat (iosq_tail nv) + Suc k \<le> 16" using assms(1,2) by (auto simp: sys_ok_def)
  then have "drive_ok e base sz disk (Suc 0) nv s" using assms(3) by (simp add: drive_ok_def)
  from read_sector_ok [OF this, of lba] obtain s' p where
    s': "read_sector e nv lba s = Some (disk lba, nv\<lparr>iosq_tail := (iosq_tail nv + 1) mod 16, iocq_head := (iocq_head nv + 1) mod 16\<rparr>, s')"
    "drive_ok e base sz disk 0 (nv\<lparr>iosq_tail := (iosq_tail nv + 1) mod 16, iocq_head := (iocq_head nv + 1) mod 16\<rparr>) s'"
    "s' = s\<lparr>mem := mem s', live := live s', io_trace := io_trace s'\<rparr>" "live s' = (p, 4096) # live s" by blast
  let ?nv = "nv\<lparr>iosq_tail := (iosq_tail nv + 1) mod 16, iocq_head := (iocq_head nv + 1) mod 16\<rparr>"
  obtain m t where u: "s' = s\<lparr>mem := m, live := (p, 4096) # live s, io_trace := t\<rparr>" using s'(3,4) by metis
  have tail: "unat (iosq_tail ?nv) + k \<le> 16"
    using next_index(3) [of "iosq_tail nv"] d(2) by (cases "Suc (unat (iosq_tail nv)) = 16") auto
  have h: "heap_inv e base sz ((p, 4096) # live s)" using s'(2) by (simp add: drive_ok_def u)
  have "sys_ok e base sz disk (Suc k) (s\<lparr>mem := m, live := (p, 4096) # live s\<rparr>)"
    by (rule sys_ok_alloc [OF assms(1) h]) (use assms(3) in simp)
  then have "sys_ok e base sz disk k (s'\<lparr>nvme_drive := Some ?nv\<rparr>)"
    using s'(2) tail by (auto simp: sys_ok_def kernel_ok_def net_ok_def gfx_ok_def drive_ok_def u)
  moreover have "net_card s' = net_card s" by (simp add: u)
  ultimately show ?thesis using s'(1,4) by blast
qed

text \<open>The sector lies, complete, in a fresh heap block at the returned address.\<close>

lemma sys_read_sector_step:
  assumes "heap_ok e base sz" and "sys_ok e base sz disk (Suc k) s" and "heap_used (live s) + 12800 \<le> sz"
  shows "\<exists>p s'. sys_read_sector e lba s = Some (p, s') \<and> sys_ok e base sz disk k s' \<and> heap_used (live s') \<le> heap_used (live s) + 12800
    \<and> set (live s) \<subseteq> set (live s') \<and> net_card s' = net_card s
    \<and> (if nvme_drive s = None then p = 0 \<and> nvme_drive s' = None
       else p \<noteq> 0 \<and> (p, 512) \<in> set (live s') \<and> load_bytes (mem s') p 512 = disk lba \<and> nvme_drive s' \<noteq> None)"
proof -
  from sys_print_ok [OF assms(2)] assms(3) obtain s1 where
    s1: "print_str (10 # lit ''> SYS: RING-3 NVME READ REQUEST ACCEPTED.'' @ [10]) 0xF59E0B s = Some s1"
    "sys_ok e base sz disk (Suc k) s1" "same_but_terminal s s1" "kernel_step e base sz 0 s s1" by fastforce
  have f: "live s1 = live s" "nvme_drive s1 = nvme_drive s" "net_card s1 = net_card s"
    using same_but_terminal_fields(3) [OF s1(3)] kernel_fields_more(2) [OF same_but_terminal_net(4) [OF s1(3)]]
      same_but_terminal_net(1) [OF s1(3)] by simp_all
  show ?thesis
  proof (cases "nvme_drive s")
    case None
    have "sys_ok e base sz disk k s1" using s1(2) by (auto simp: sys_ok_def)
    from sys_print_ok [OF this] assms(3) f(1) obtain s2 where
      s2: "print_str (lit ''> SYS: NVME DRIVE NOT FOUND!'' @ [10]) 0xEF4444 s1 = Some s2" "sys_ok e base sz disk k s2"
      "kernel_step e base sz 0 s1 s2" "same_but_terminal s1 s2" by fastforce
    have "live s2 = live s" "nvme_drive s2 = None" "net_card s2 = net_card s"
      using same_but_terminal_fields(3) [OF s2(4)] same_but_terminal_net(1) [OF s2(4)] s2(3) f None by (simp_all add: kernel_step_def)
    then show ?thesis using s1(1) s2(1,2) None f by (simp add: sys_read_sector_def)
  next
    case (Some nv)
    from read_sector_step [OF s1(2)] Some f assms(3) obtain nv' q s2 where
      s2: "read_sector e nv lba s1 = Some (disk lba, nv', s2)" "live s2 = (q, 4096) # live s1"
      "sys_ok e base sz disk k (s2\<lparr>nvme_drive := Some nv'\<rparr>)" "net_card s2 = net_card s1" by fastforce
    let ?s2 = "s2\<lparr>nvme_drive := Some nv'\<rparr>"
    have len: "length (disk lba) = 512" using assms(2) by (simp add: sys_ok_def)
    have "heap_used (live ?s2) + length (disk lba) + 4096 \<le> sz" using s2(2) assms(3) f len by simp
    from sys_leak_ok [OF assms(1) s2(3) this, of 1] obtain p where
      p: "leak_bytes e 1 (disk lba) ?s2 = Some (p, ?s2\<lparr>mem := store_bytes (mem s2) p (disk lba), live := (p, 512) # live s2\<rparr>)"
      "p \<noteq> 0" "sys_ok e base sz disk k (?s2\<lparr>mem := store_bytes (mem s2) p (disk lba), live := (p, 512) # live s2\<rparr>)"
      using len by auto
    let ?s3 = "?s2\<lparr>mem := store_bytes (mem s2) p (disk lba), live := (p, 512) # live s2\<rparr>"
    have room: "heap_used (live ?s3) \<le> sz" using s2(2) assms(3) f by simp
    from sys_print_ok [OF p(3) room] obtain s4 where
      s4: "print_str (lit ''> SYS: NVME DMA COMPLETE. PASSING POINTER TO RING-3.'' @ [10]) 0x10B981 ?s3 = Some s4"
      "sys_ok e base sz disk k s4" "same_but_terminal ?s3 s4" "kernel_step e base sz 0 ?s3 s4" by blast
    have l4: "live s4 = live ?s3" "mem s4 = mem ?s3" using same_but_terminal_fields(1,3) [OF s4(3)] by simp_all
    have "heap_used (live s4) \<le> sz" using l4(1) room by simp
    from blit_terminal_step [OF s4(2) this] obtain s5 where
      s5: "blit_terminal s4 = Some s5" "sys_ok e base sz disk k s5" "same_but_terminal s4 s5" "kernel_step e base sz 0 s4 s5" by blast
    have l5: "live s5 = live ?s3" "mem s5 = mem ?s3" using same_but_terminal_fields(1,3) [OF s5(3)] l4 by simp_all
    have d5: "nvme_drive s5 = Some nv'" "net_card s5 = net_card s"
      using s4(4) s5(4) same_but_terminal_net(1) [OF s4(3)] same_but_terminal_net(1) [OF s5(3)] s2(4) f(3)
      by (simp_all add: kernel_step_def)
    have "load_bytes (mem s5) p 512 = disk lba" using load_store_bytes_same [of "disk lba" "mem s2" p] len by (simp add: l5)
    moreover have "copy_chk (replicate 512 0) 0 512 (disk lba) = Some (disk lba)" using len by (simp add: copy_chk_def)
    moreover have "set (live s) \<subseteq> set (live s5)" "(p, 512) \<in> set (live s5)" using l5(1) s2(2) f(1) by auto
    ultimately show ?thesis using s1(1) s2(1,2) p(1,2) s4(1) s5(1,2) Some f l5(1) d5
      by (simp add: sys_read_sector_def Let_def)
  qed
qed

lemma sys_arp_step:
  assumes "heap_ok e base sz" and "sys_ok e base sz disk k s" and "net_card s = Some nic" and "heap_used (live s) + 4156 \<le> sz"
  shows "\<exists>nic' s'. arp_request e ip nic s = Some (nic', s') \<and> kernel_step e base sz 4156 s (s'\<lparr>net_card := Some nic'\<rparr>)
    \<and> sys_ok e base sz disk k (s'\<lparr>net_card := Some nic'\<rparr>) \<and> sent (arp_request_frame (mac_address nic) ip) 60 s (s'\<lparr>net_card := Some nic'\<rparr>)"
proof -
  have "net_ok e base sz s" using assms(2) by (simp add: sys_ok_def kernel_ok_def)
  from arp_request_step [OF assms(1) this assms(3), of ip] assms(4) obtain nic' s' where
    s': "arp_request e ip nic s = Some (nic', s')" "net_step e base sz 4156 s (s'\<lparr>net_card := Some nic'\<rparr>)"
    "sent (arp_request_frame (mac_address nic) ip) 60 s (s'\<lparr>net_card := Some nic'\<rparr>)" "same_rest s s'" by auto
  note f = kernel_fields_more [OF s'(4)]
  have "kernel_step e base sz 4156 s (s'\<lparr>net_card := Some nic'\<rparr>)"
    using assms(2) s'(2) f net_step_ok [OF s'(2)] by (auto simp: sys_ok_def kernel_step_def kernel_ok_def)
  with s' sys_ok_step [OF assms(2) this assms(4)] show ?thesis by blast
qed

text \<open>The text of a network request does not reach the network: what is sent is an ARP request.\<close>

definition sends_arp :: "'a kernel_scheme \<Rightarrow> 'a kernel_scheme \<Rightarrow> bool" where
  "sends_arp s s' \<longleftrightarrow> (\<forall>nic. net_card s = Some nic \<longrightarrow> sent (arp_request_frame (mac_address nic) [10, 0, 2, 2]) 60 s s')"

lemma sys_send_text_step:
  assumes "heap_ok e base sz" and "sys_ok e base sz disk k s" and "heap_used (live s) + 4156 \<le> sz"
  shows "\<exists>s'. sys_send_text e t s = Some s' \<and> kernel_step e base sz 4156 s s' \<and> sys_ok e base sz disk k s' \<and> sends_arp s s'"
proof -
  from sys_print_ok [OF assms(2)] assms(3) obtain s1 where
    s1: "print_str (10 # lit ''> SYS: RING-3 NETWORK REQUEST. PAYLOAD: '' @ [39] @ t @ [39, 10]) 0xF59E0B s = Some s1"
    "sys_ok e base sz disk k s1" "kernel_step e base sz 0 s s1" "same_but_terminal s s1" by fastforce
  have f: "live s1 = live s" "net_card s1 = net_card s" using same_but_terminal_fields(3) [OF s1(4)] same_but_terminal_net [OF s1(4)] by simp_all
  show ?thesis
  proof (cases "net_card s")
    case None
    from sys_print_ok [OF s1(2)] f assms(3) obtain s2 where
      s2: "print_str (lit ''> SYS: E1000 NETWORK CARD NOT FOUND!'' @ [10]) 0xEF4444 s1 = Some s2"
      "sys_ok e base sz disk k s2" "kernel_step e base sz 0 s1 s2" by fastforce
    from kernel_step_trans [OF s1(3) s2(3)] have "kernel_step e base sz 4156 s s2" by (rule kernel_step_mono) simp
    with s1(1) s2 None f show ?thesis by (simp add: sys_send_text_def sends_arp_def)
  next
    case (Some nic)
    from sys_arp_step [OF assms(1) s1(2)] Some f assms(3) obtain nic' s2 where
      s2: "arp_request e [10, 0, 2, 2] nic s1 = Some (nic', s2)" "kernel_step e base sz 4156 s1 (s2\<lparr>net_card := Some nic'\<rparr>)"
      "sys_ok e base sz disk k (s2\<lparr>net_card := Some nic'\<rparr>)"
      "sent (arp_request_frame (mac_address nic) [10, 0, 2, 2]) 60 s1 (s2\<lparr>net_card := Some nic'\<rparr>)" by fastforce
    have "heap_used (live (s2\<lparr>net_card := Some nic'\<rparr>)) \<le> sz" using kernel_step_used [OF s2(2)] f assms(3) by simp
    from sys_print_ok [OF s2(3) this] obtain s3 where
      s3: "print_str (lit ''> SYS: E1000 HARDWARE TRANSMIT (TX) COMPLETE!'' @ [10]) 0x10B981 (s2\<lparr>net_card := Some nic'\<rparr>) = Some s3"
      "sys_ok e base sz disk k s3" "kernel_step e base sz 0 (s2\<lparr>net_card := Some nic'\<rparr>) s3"
      "same_but_terminal (s2\<lparr>net_card := Some nic'\<rparr>) s3" by blast
    have "kernel_step e base sz 4156 s s3"
      using kernel_step_trans [OF s1(3) kernel_step_trans [OF s2(2) s3(3)]] by simp
    moreover have "sent (arp_request_frame (mac_address nic) [10, 0, 2, 2]) 60 s s3"
      by (rule sent_print [OF print_sent [OF s1(4) s2(4)] s3(4)])
    ultimately show ?thesis using s1(1) s2(1) s3 Some f by (simp add: sys_send_text_def sends_arp_def)
  qed
qed

lemma sys_send_step:
  assumes "heap_ok e base sz" and "sys_ok e base sz disk k s" and "heap_used (live s) + 4156 \<le> sz"
    and "a \<noteq> 0" and "unat b < 2 ^ 63"
  shows "\<exists>s'. sys_send e a b s = Some (0, s') \<and> sys_ok e base sz disk k s' \<and> kernel_step e base sz 4156 s s'
    \<and> (from_utf8 (load_bytes (mem s) a (unat b)) \<noteq> None \<longrightarrow> sends_arp s s')"
proof -
  let ?t = "from_utf8 (load_bytes (mem s) a (unat b))"
  have "\<exists>s1. (case ?t of Some text \<Rightarrow> sys_send_text e text s | None \<Rightarrow> Some s) = Some s1
      \<and> kernel_step e base sz 4156 s s1 \<and> sys_ok e base sz disk k s1 \<and> (?t \<noteq> None \<longrightarrow> sends_arp s s1)"
    using sys_send_text_step [OF assms(1-3)] kernel_step_refl [of e base sz s 4156] assms(2)
    by (cases ?t) (auto simp: sys_ok_def)
  then obtain s1 where s1: "(case ?t of Some text \<Rightarrow> sys_send_text e text s | None \<Rightarrow> Some s) = Some s1"
    "kernel_step e base sz 4156 s s1" "sys_ok e base sz disk k s1" "?t \<noteq> None \<longrightarrow> sends_arp s s1" by blast
  have "heap_used (live s1) \<le> sz" using kernel_step_used [OF s1(2)] assms(3) by simp
  from blit_terminal_step [OF s1(3) this] obtain s' where s': "blit_terminal s1 = Some s'" "sys_ok e base sz disk k s'"
    "kernel_step e base sz 0 s1 s'" "same_but_terminal s1 s'" by blast
  have "kernel_step e base sz 4156 s s'" using kernel_step_trans [OF s1(2) s'(3)] by simp
  moreover have "?t \<noteq> None \<longrightarrow> sends_arp s s'" using s1(4) sent_print [OF _ s'(4)] by (auto simp: sends_arp_def)
  ultimately show ?thesis using s1(1) s'(1,2) assms(4,5) by (simp add: sys_send_def raw_slice_def)
qed

lemma sys_ok_mono: "sys_ok e base sz disk (Suc k) s \<Longrightarrow> sys_ok e base sz disk k s"
  by (auto simp: sys_ok_def)

section \<open>Properties\<close>

text \<open>C13. A system call with any number and arguments that name readable memory, a canvas the
  kernel made (or none) and sizes the heap can hold returns to the caller: nothing panics, the
  kernel's invariant and its drive's are kept, and the call takes at most the heap accounted for it.\<close>

theorem syscall_total:
  assumes "heap_ok e base sz" and "sys_ok e base sz disk (Suc k) s" and "sys_args_ok n a b d s"
    and "heap_used (live s) + sys_heap n d \<le> sz"
  shows "\<exists>r s'. syscall_handler e wild n a b d s = Some (r, s') \<and> sys_ok e base sz disk k s'
    \<and> heap_used (live s') \<le> heap_used (live s) + sys_heap n d"
proof -
  have room: "heap_used (live s) \<le> sz" using assms(4) by simp
  consider "n = 1" | "n = 2" | "n = 3" | "n = 4" | "n = 5" | "n \<notin> {1, 2, 3, 4, 5}" by auto
  then show ?thesis
  proof cases
    case 1
    with sys_print_step [OF assms(2) room, of a b d] assms(3) show ?thesis
      by (auto simp: syscall_handler_def sys_args_ok_def dest!: sys_ok_mono kernel_step_used)
  next
    case 2
    with sys_canvas_step [OF assms(1,2), of d a b] assms(3,4) show ?thesis
      by (auto simp: syscall_handler_def sys_args_ok_def dest!: sys_ok_mono)
  next
    case 3
    with sys_blit_step [OF assms(2), of a wild] assms(3) show ?thesis
      by (auto simp: syscall_handler_def sys_args_ok_def dest!: sys_ok_mono)
  next
    case 4
    with sys_read_sector_step [OF assms(1,2), of a] assms(4) show ?thesis
      by (auto simp: syscall_handler_def sys_heap_def)
  next
    case 5
    with sys_send_step [OF assms(1,2), of a b] assms(3,4) show ?thesis
      by (auto simp: syscall_handler_def sys_args_ok_def sys_heap_def dest!: sys_ok_mono kernel_step_used)
  next
    case 6
    with sys_print_ok [OF assms(2) room, of "10 # lit ''> SYS: UNKNOWN SYSCALL TRIGGERED!'' @ [10]" "0xEF4444"] show ?thesis
      by (auto simp: syscall_handler_def sys_unknown_def dest!: sys_ok_mono kernel_step_used)
  qed
qed

lemma demo_sys_ok: "sys_ok bump_env 0x100000 0x200000 (\<lambda>_. replicate 512 0) 2 demo_kernel"
  using demo_kernel_ok by (simp add: sys_ok_def demo_kernel_def net.extend_def)

theorem syscall_total_witness:
  "\<exists>r s'. syscall_handler bump_env (\<lambda>_ _. demo_canvas) 2 100 100 32 demo_kernel = Some (r, s')
    \<and> heap_used (live s') \<le> heap_used (live demo_kernel) + 12344"
proof -
  have a: "sys_args_ok 2 100 100 32 demo_kernel" by (simp add: sys_args_ok_def)
  have r: "heap_used (live demo_kernel) + sys_heap 2 32 \<le> 0x200000" by (simp add: demo_kernel_fields sys_heap_def)
  have "sys_ok bump_env 0x100000 0x200000 (\<lambda>_. replicate 512 0) (Suc 1) demo_kernel" using demo_sys_ok by (simp add: numeral_2_eq_2)
  from syscall_total [OF bump_heap_ok this a r, of "\<lambda>_ _. demo_canvas"] show ?thesis by (auto simp: sys_heap_def)
qed

text \<open>A program in ring 3 can halt the kernel with one system call: printing or sending
  from the null pointer, or asking for a canvas whose side, squared, exceeds the address space, panics
  in every state.\<close>

lemma syscall_user_panic:
  "syscall_handler e wild 1 0 len color s = None \<and> syscall_handler e wild 5 0 len color s = None
    \<and> syscall_handler e wild 2 x y 0x100000000 s = None"
proof -
  have "umul (unat (0x100000000 :: u64)) (unat (0x100000000 :: u64)) = None" by (simp add: umul_def)
  then show ?thesis
    by (simp add: syscall_handler_def sys_print_def sys_send_def raw_slice_def sys_canvas_def canvas_new_def Let_def)
qed

text \<open>The read-sector call of a kernel with a drive returns the address of a live,
  512-byte heap block that holds exactly the sector's contents; without a drive it returns the null
  pointer.\<close>

lemma syscall_reads_sector:
  assumes "heap_ok e base sz" and "sys_ok e base sz disk (Suc k) s" and "heap_used (live s) + 12800 \<le> sz"
  shows "\<exists>p s'. syscall_handler e wild 4 lba b d s = Some (p, s') \<and> sys_ok e base sz disk k s'
    \<and> (if nvme_drive s = None then p = 0
       else p \<noteq> 0 \<and> (p, 512) \<in> set (live s') \<and> load_bytes (mem s') p 512 = disk lba)"
  using sys_read_sector_step [OF assms, of lba] by (auto simp: syscall_handler_def split: if_splits)

text \<open>A kernel with a drive and no network card, on a disk of 512-byte sectors.\<close>

definition disk_kernel :: kernel where
  "disk_kernel = demo_kernel\<lparr>live := demo_live, net_card := None, nvme_drive := Some demo_drive\<rparr>"

lemma disk_kernel_ok:
  assumes "\<And>lba. length (disk lba) = 512" and "k \<le> 3"
  shows "sys_ok (ssd_env disk 0xFEBF0000 0x100000 0x101000) 0x100000 0x200000 disk k disk_kernel"
proof -
  let ?e = "ssd_env disk 0xFEBF0000 0x100000 0x101000 :: kernel env"
  have d: "drive_ok ?e 0x100000 0x200000 disk 0 demo_drive disk_kernel"
    by (rule demo_drive_ok [OF assms(1)]) (simp_all add: disk_kernel_def)
  have k: "kernel_ok bump_env 0x100000 0x200000 demo_kernel" by (rule demo_kernel_ok)
  have h: "heap_inv ?e 0x100000 0x200000 (live disk_kernel)" using d by (simp add: drive_ok_def)
  have "kernel_ok ?e 0x100000 0x200000 disk_kernel"
    using k h by (simp add: kernel_ok_def net_ok_def gfx_ok_def disk_kernel_def)
  moreover have "canvases disk_kernel = (\<lambda>_. None)" "nvme_drive disk_kernel = Some demo_drive"
    by (simp_all add: disk_kernel_def demo_kernel_def net.extend_def)
  ultimately show ?thesis using d assms by (simp add: sys_ok_def demo_drive_def)
qed

text \<open>The blit call clips at the bottom of the screen only: a program that makes a
  one-pixel canvas at an offset beyond the framebuffer and blits it overwrites the memory there.\<close>

lemma canvas_escapes_screen:
  assumes "heap_ok e base sz" and "sys_ok e base sz disk k s" and "heap_used (live s) + 8252 \<le> sz"
    and "0 < sv_height (server s)" and "sv_stride (server s) * sv_height (server s) \<le> i" and "i < 2 ^ 63"
  shows "\<exists>p s1 s2. syscall_handler e wild 2 (of_nat i) 0 1 s = Some (p, s1) \<and> syscall_handler e wild 3 p 0 0 s1 = Some (0, s2)
    \<and> vram s2 = (vram s)(i := 0)"
proof -
  have u: "unat (of_nat i :: u64) = i" using assms(6) by (simp add: unat_of_nat take_bit_nat_eq_self_iff)
  let ?cv = "\<lparr>cv_x = i, cv_y = 0, cv_width = 1, cv_height = 1, cv_pixels = [0]\<rparr>"
  from sys_canvas_step [OF assms(1,2), of 1 "of_nat i" 0] assms(3,6) u obtain p ls where
    p: "sys_canvas e (of_nat i) 0 1 s = Some (p, s\<lparr>live := ls, canvases := (canvases s)(p \<mapsto> ?cv)\<rparr>)" "p \<noteq> 0"
    by (auto simp: sys_heap_def)
  have "copy_row [0] 0 i 1 (vram s) = (vram s)(i := 0)" by (auto simp: copy_row_def fun_eq_iff)
  then have "blit_rows (server s) ?cv [0..<1] (vram s) = Some ((vram s)(i := 0))"
    using assms(4,6) by (simp add: uadd_def umul_def)
  then have "sys_blit wild p (s\<lparr>live := ls, canvases := (canvases s)(p \<mapsto> ?cv)\<rparr>)
      = Some (0, s\<lparr>live := ls, canvases := (canvases s)(p \<mapsto> ?cv), vram := (vram s)(i := 0)\<rparr>)"
    using p(2) by (simp add: sys_blit_def blit_canvas_def)
  with p(1) show ?thesis by (simp add: syscall_handler_def)
qed

section \<open>The ring-3 program\<close>

lemma length_task_payload: "length (task_payload (load_bytes m p 8)) \<le> 37"
  by (auto simp: task_payload_def from_utf8_def split: option.splits if_splits)

lemma sector_field: "load_bytes m p 512 = bs \<Longrightarrow> load_bytes m (p + 3) 8 = field bs 3 8"
  using load_bytes_field [of m p 512 bs 3 8] by simp



end
