(* ===== verification/Paging.thy ===== *)
theory Paging
  imports Machine
begin

text \<open>
  The four-level x86-64 page tables as the kernel walks and edits them: \<open>walk_page_table\<close> and
  \<open>map_page\<close> of \<open>src/src/memory.rs\<close>, and \<open>unlock_mmu_for_ring3\<close> of \<open>src/src/main.rs\<close>.
  \<open>Cr3::read\<close> is a register access of the crate \<open>x86_64\<close>; its value, the physical address
  of the PML4 table, is an argument.
\<close>

section \<open>Operations\<close>

definition ADDR_MASK :: u64 where "ADDR_MASK = 0x000FFFFFFFFFF000"

definition entry_addr :: "u64 \<Rightarrow> u64 \<Rightarrow> u64" where
  "entry_addr table index = table + 8 * index"

definition read_entry :: "memory \<Rightarrow> u64 \<Rightarrow> u64 \<Rightarrow> u64" where
  "read_entry m table index = load_le m (entry_addr table index) 8"

definition write_entry :: "memory \<Rightarrow> u64 \<Rightarrow> u64 \<Rightarrow> u64 \<Rightarrow> memory" where
  "write_entry m table index v = store_le m (entry_addr table index) 8 v"

definition pt_index :: "nat \<Rightarrow> u64 \<Rightarrow> u64" where
  "pt_index level virt_addr = drop_bit (39 - 9 * level) virt_addr AND 0x1FF"

fun walk_levels :: "memory \<Rightarrow> u64 \<Rightarrow> nat list \<Rightarrow> u64 \<Rightarrow> u64 option option" where
  "walk_levels m virt_addr [] current = map_option Some (wadd current (virt_addr AND 0xFFF))"
| "walk_levels m virt_addr (level # levels) current =
     (let entry = read_entry m current (pt_index level virt_addr) in
      if entry AND 1 = 0 then Some None
      else let current' = entry AND ADDR_MASK in
        if (level = 1 \<or> level = 2) \<and> entry AND push_bit 7 1 \<noteq> 0
        then map_option Some
          (wadd current' (virt_addr AND (if level = 1 then 0x3FFFFFFF else 0x1FFFFF)))
        else walk_levels m virt_addr levels current')"

definition walk_page_table :: "u64 \<Rightarrow> memory \<Rightarrow> u64 \<Rightarrow> u64 option option" where
  "walk_page_table cr3 m virt_addr = walk_levels m virt_addr [0, 1, 2, 3] cr3"

text \<open>\<open>map_page\<close> returns the memory and the addresses it invalidated with \<open>invlpg\<close>.\<close>

definition map_page :: "u64 \<Rightarrow> u64 \<Rightarrow> u64 \<Rightarrow> memory \<Rightarrow> memory \<times> u64 list" where
  "map_page cr3 virt_addr phys_frame m =
     (let pml4_entry = read_entry m cr3 (pt_index 0 virt_addr) in
      if pml4_entry AND 1 = 0 then (m, [])
      else let pdpt_phys = pml4_entry AND ADDR_MASK;
               pdpt_entry = read_entry m pdpt_phys (pt_index 1 virt_addr) in
      if pdpt_entry AND 1 = 0 \<or> pdpt_entry AND push_bit 7 1 \<noteq> 0 then (m, [])
      else let pd_phys = pdpt_entry AND ADDR_MASK;
               pd_entry = read_entry m pd_phys (pt_index 2 virt_addr) in
      if pd_entry AND 1 = 0 \<or> pd_entry AND push_bit 7 1 \<noteq> 0 then (m, [])
      else let pt_phys = pd_entry AND ADDR_MASK;
               new_pte = phys_frame OR 0b11 in
        (write_entry m pt_phys (pt_index 3 virt_addr) new_pte, [virt_addr]))"

text \<open>The nested loops of \<open>unlock_mmu_for_ring3\<close> run the same body at the depths 4 (PML4),
  3 (PDPT), 2 (PD) and 1 (PT); the innermost does not descend.\<close>

fun unlock_table :: "nat \<Rightarrow> u64 \<Rightarrow> memory \<Rightarrow> memory" where
  "unlock_table 0 table m = m"
| "unlock_table (Suc depth) table m =
     fold (\<lambda>i m. let entry = read_entry m table (of_nat i) in
        if entry AND 1 \<noteq> 0 then
          let m' = write_entry m table (of_nat i) (entry OR 0x4) in
          if depth \<noteq> 0 \<and> entry AND 0x80 = 0 then unlock_table depth (entry AND ADDR_MASK) m' else m'
        else m) [0..<512] m"

text \<open>The function also clears CR0.WP around the loops and restores the old value, then
  flushes the TLB: the result is the memory, CR0 afterwards, and the CR0 values written.\<close>

definition unlock_mmu_for_ring3 :: "u64 \<Rightarrow> u64 \<Rightarrow> memory \<Rightarrow> memory \<times> u64 \<times> u64 list" where
  "unlock_mmu_for_ring3 cr0 cr3 m =
     (let old_cr0 = cr0; cr0' = cr0 AND NOT (push_bit 16 1) in
      (unlock_table 4 cr3 m, old_cr0, [cr0', old_cr0]))"

section \<open>Walking\<close>

lemma ADDR_MASK_bound: "unat (e AND ADDR_MASK) \<le> 0x000FFFFFFFFFF000"
proof -
  have "e AND ADDR_MASK \<le> ADDR_MASK" by (rule word_and_le1)
  then show ?thesis by (simp add: word_le_nat_alt ADDR_MASK_def)
qed

lemma and_bound: "unat (v AND w) \<le> unat (w :: 'a::len word)"
  using word_and_le1 [of v w] by (simp add: word_le_nat_alt)

lemma walk_levels_total:
  assumes "unat current \<le> 0x000FFFFFFFFFF000"
  shows "walk_levels m va ls current = Some None
    \<or> (\<exists>p. walk_levels m va ls current = Some (Some p) \<and> unat p < 2 ^ 53)"
  using assms
proof (induction ls arbitrary: current)
  case Nil
  have "unat (va AND 0xFFF) \<le> unat (0xFFF :: u64)" by (rule and_bound)
  with Nil show ?case by (auto simp: wadd_def unat_word_ariths)
next
  case (Cons level ls)
  let ?e = "read_entry m current (pt_index level va)"
  have b: "unat (?e AND ADDR_MASK) \<le> 0x000FFFFFFFFFF000" by (rule ADDR_MASK_bound)
  have 1: "unat (va AND 0x3FFFFFFF) \<le> unat (0x3FFFFFFF :: u64)" by (rule and_bound)
  have 2: "unat (va AND 0x1FFFFF) \<le> unat (0x1FFFFF :: u64)" by (rule and_bound)
  show ?case
    using Cons.IH [OF b] b 1 2 by (auto simp: Let_def wadd_def unat_word_ariths)
qed

section \<open>Mapping a page\<close>

text \<open>The page table that serves an address, if every level above it is present and none of
  them maps a huge page.\<close>

definition pdpt_of :: "u64 \<Rightarrow> memory \<Rightarrow> u64 \<Rightarrow> u64" where
  "pdpt_of cr3 m va = read_entry m cr3 (pt_index 0 va) AND ADDR_MASK"

definition pd_of :: "u64 \<Rightarrow> memory \<Rightarrow> u64 \<Rightarrow> u64" where
  "pd_of cr3 m va = read_entry m (pdpt_of cr3 m va) (pt_index 1 va) AND ADDR_MASK"

definition pt_of :: "u64 \<Rightarrow> memory \<Rightarrow> u64 \<Rightarrow> u64" where
  "pt_of cr3 m va = read_entry m (pd_of cr3 m va) (pt_index 2 va) AND ADDR_MASK"

definition tables_present :: "u64 \<Rightarrow> memory \<Rightarrow> u64 \<Rightarrow> bool" where
  "tables_present cr3 m va \<longleftrightarrow>
     read_entry m cr3 (pt_index 0 va) AND 1 \<noteq> 0
     \<and> read_entry m (pdpt_of cr3 m va) (pt_index 1 va) AND 1 \<noteq> 0
     \<and> read_entry m (pdpt_of cr3 m va) (pt_index 1 va) AND push_bit 7 1 = 0
     \<and> read_entry m (pd_of cr3 m va) (pt_index 2 va) AND 1 \<noteq> 0
     \<and> read_entry m (pd_of cr3 m va) (pt_index 2 va) AND push_bit 7 1 = 0"

definition upper_cells :: "u64 \<Rightarrow> memory \<Rightarrow> u64 \<Rightarrow> u64 list" where
  "upper_cells cr3 m va =
     [entry_addr cr3 (pt_index 0 va), entry_addr (pdpt_of cr3 m va) (pt_index 1 va),
      entry_addr (pd_of cr3 m va) (pt_index 2 va)]"

lemmas table_defs = pdpt_of_def pd_of_def pt_of_def

lemma map_page_eq:
  "map_page cr3 va frame m =
     (if tables_present cr3 m va
      then (write_entry m (pt_of cr3 m va) (pt_index 3 va) (frame OR 0b11), [va]) else (m, []))"
  by (simp add: map_page_def tables_present_def table_defs Let_def)

lemma read_write_entry [simp]: "read_entry (write_entry m t i v) t i = v"
  by (simp add: read_entry_def write_entry_def)

lemma read_write_entry_apart:
  "apart (entry_addr t i) 8 (entry_addr t' i') 8 \<Longrightarrow>
     read_entry (write_entry m t i v) t' i' = read_entry m t' i'"
  by (simp add: read_entry_def write_entry_def)

lemma wadd_frame_offset:
  "wadd (e AND ADDR_MASK) (va AND 0xFFF) = Some ((e AND ADDR_MASK) + (va AND 0xFFF))"
  using ADDR_MASK_bound [of e] and_bound [where v = va and w = "0xFFF :: u64"] by (simp add: wadd_def)

lemma walk_present:
  assumes "tables_present cr3 m va" and "read_entry m (pt_of cr3 m va) (pt_index 3 va) AND 1 \<noteq> 0"
  shows "walk_page_table cr3 m va = Some (Some
     ((read_entry m (pt_of cr3 m va) (pt_index 3 va) AND ADDR_MASK) + (va AND 0xFFF)))"
  using assms
  by (simp add: walk_page_table_def tables_present_def table_defs Let_def wadd_frame_offset)

lemma tables_write:
  assumes "\<forall>c\<in>set (upper_cells cr3 m va). apart (entry_addr t i) 8 c 8"
  shows "tables_present cr3 (write_entry m t i v) va = tables_present cr3 m va"
    and "pt_of cr3 (write_entry m t i v) va = pt_of cr3 m va"
proof -
  let ?m = "write_entry m t i v"
  from assms have 0: "read_entry ?m cr3 (pt_index 0 va) = read_entry m cr3 (pt_index 0 va)"
    by (simp add: upper_cells_def read_write_entry_apart)
  then have p: "pdpt_of cr3 ?m va = pdpt_of cr3 m va" by (simp add: pdpt_of_def)
  from assms have 1: "read_entry ?m (pdpt_of cr3 m va) (pt_index 1 va)
      = read_entry m (pdpt_of cr3 m va) (pt_index 1 va)"
    by (simp add: upper_cells_def read_write_entry_apart)
  with p have d: "pd_of cr3 ?m va = pd_of cr3 m va" by (simp add: pd_of_def)
  from assms have 2: "read_entry ?m (pd_of cr3 m va) (pt_index 2 va)
      = read_entry m (pd_of cr3 m va) (pt_index 2 va)"
    by (simp add: upper_cells_def read_write_entry_apart)
  show "pt_of cr3 ?m va = pt_of cr3 m va" by (simp add: pt_of_def d 2)
  show "tables_present cr3 ?m va = tables_present cr3 m va"
    unfolding tables_present_def 0 1 2 p d by (rule refl)
qed

lemma pte_bits:
  assumes "frame AND ADDR_MASK = frame"
  shows "(frame OR 0b11) AND 1 \<noteq> 0" and "(frame OR 0b11) AND ADDR_MASK = frame"
proof -
  have "(frame OR 0b11) AND 1 = (frame AND 1) OR (3 AND 1)" by (rule word_ao_dist)
  moreover have "frame AND 1 = (frame AND ADDR_MASK) AND 1" using assms by simp
  ultimately show "(frame OR 0b11) AND 1 \<noteq> 0" by (simp add: ADDR_MASK_def and.assoc)
  have "(frame OR 0b11) AND ADDR_MASK = (frame AND ADDR_MASK) OR (3 AND ADDR_MASK)"
    by (rule word_ao_dist)
  with assms show "(frame OR 0b11) AND ADDR_MASK = frame" by (simp add: ADDR_MASK_def)
qed

section \<open>Raising entries to user level\<close>

definition aligned8 :: "u64 \<Rightarrow> bool" where
  "aligned8 a \<longleftrightarrow> unat a mod 8 = 0"

lemma mod_2_64_8: "(x mod 2 ^ 64) mod 8 = x mod (8::nat)"
  by (simp add: mod_mod_cancel)

lemma aligned8_entry: "aligned8 t \<Longrightarrow> aligned8 (entry_addr t i)"
proof -
  assume "aligned8 t"
  then have "(unat t + 8 * unat i) mod 8 = 0" by (simp add: aligned8_def mod_add_left_eq [symmetric])
  then show ?thesis
    by (simp add: aligned8_def entry_addr_def unat_word_ariths mod_2_64_8 mod_add_right_eq
        mod_mod_cancel mod_simps)
qed

lemma aligned8_mask: "aligned8 (e AND ADDR_MASK)"
proof -
  have "take_bit 3 (e AND ADDR_MASK) = (e AND ADDR_MASK) AND mask 3"
    by (simp add: take_bit_eq_mask)
  also have "\<dots> = 0" by (simp add: ADDR_MASK_def and.assoc mask_numeral)
  finally have "take_bit 3 (unat (e AND ADDR_MASK)) = 0"
    by (metis unsigned_take_bit_eq unat_0)
  then show ?thesis by (simp add: aligned8_def take_bit_eq_mod)
qed

lemma aligned8_apart:
  assumes "aligned8 a" "aligned8 b" "a \<noteq> b"
  shows "apart a 8 b 8"
proof -
  have "8 \<le> unat (y - x)" if "aligned8 x" "aligned8 y" "x \<noteq> y" for x y
  proof -
    from that(3) have "unat (y - x) \<noteq> 0" by (simp add: unat_eq_0)
    moreover have "unat (y - x) mod 8 = 0"
      using that(1,2) unsigned_less [of x, where ?'a = nat]
      by (auto simp: aligned8_def unat_sub_if_size word_size mod_eq_0_iff_dvd
          intro!: dvd_diff_nat dvd_add)
    ultimately show ?thesis by (auto simp: mod_eq_0_iff_dvd dvd_def)
  qed
  from this [of a b] this [of b a] assms show ?thesis by (auto simp: apart_def)
qed

text \<open>One memory differs from another only by user bits of aligned entries.\<close>

definition user_ext :: "memory \<Rightarrow> memory \<Rightarrow> bool" where
  "user_ext m m' \<longleftrightarrow> (\<forall>a. aligned8 a \<longrightarrow>
     (load_le m' a 8 :: u64) = load_le m a 8 \<or> (load_le m' a 8 :: u64) = load_le m a 8 OR 4)"

lemma user_ext_refl [simp]: "user_ext m m"
  by (simp add: user_ext_def)

lemma user_ext_trans:
  assumes "user_ext m m'" and "user_ext m' m''"
  shows "user_ext m m''"
  unfolding user_ext_def
proof (intro allI impI)
  fix a assume "aligned8 a"
  with assms show "(load_le m'' a 8 :: u64) = load_le m a 8
      \<or> (load_le m'' a 8 :: u64) = load_le m a 8 OR 4"
    unfolding user_ext_def by (elim allE [of _ a]) (auto simp: or.assoc)
qed

lemma user_ext_read:
  "user_ext m m' \<Longrightarrow> aligned8 t \<Longrightarrow>
     read_entry m' t i = read_entry m t i \<or> read_entry m' t i = read_entry m t i OR 4"
  using aligned8_entry [of t i] by (auto simp: user_ext_def read_entry_def)

lemma user_ext_write:
  assumes "aligned8 t"
  shows "user_ext m (write_entry m t i (read_entry m t i OR 4))"
  unfolding user_ext_def
proof (intro allI impI)
  fix a assume a: "aligned8 a"
  let ?m = "write_entry m t i (read_entry m t i OR 4)"
  show "(load_le ?m a 8 :: u64) = load_le m a 8 \<or> (load_le ?m a 8 :: u64) = load_le m a 8 OR 4"
  proof (cases "a = entry_addr t i")
    case True
    then show ?thesis by (simp add: write_entry_def read_entry_def)
  next
    case False
    with aligned8_apart [OF aligned8_entry [OF assms] a] show ?thesis
      by (simp add: write_entry_def)
  qed
qed

lemma or4_bits:
  fixes e :: u64
  shows "(e OR 4) AND 1 = e AND 1" "(e OR 4) AND ADDR_MASK = e AND ADDR_MASK"
    "(e OR 4) AND 128 = e AND 128" "(e OR 4) AND 4 = 4"
  by (simp_all add: word_ao_dist ADDR_MASK_def word_ao_absorbs)

lemma user_ext_walk:
  assumes "user_ext m m'" and "aligned8 current"
  shows "walk_levels m' va ls current = walk_levels m va ls current"
  using assms(2)
proof (induction ls arbitrary: current)
  case (Cons level ls)
  have IH: "walk_levels m' va ls (e AND ADDR_MASK) = walk_levels m va ls (e AND ADDR_MASK)" for e
    by (rule Cons.IH [OF aligned8_mask])
  from user_ext_read [OF assms(1) Cons.prems, of "pt_index level va"]
  show ?case by (auto simp: Let_def IH or4_bits)
qed simp

text \<open>Every entry a walk meets, up to the one that ends it, carries the user bit.\<close>

fun path_user :: "memory \<Rightarrow> u64 \<Rightarrow> nat list \<Rightarrow> u64 \<Rightarrow> bool" where
  "path_user m va [] current \<longleftrightarrow> True"
| "path_user m va (level # levels) current \<longleftrightarrow>
     (let entry = read_entry m current (pt_index level va) in
      entry AND 1 = 0 \<or> entry AND 4 \<noteq> 0
        \<and> ((level = 1 \<or> level = 2) \<and> entry AND push_bit 7 1 \<noteq> 0
            \<or> path_user m va levels (entry AND ADDR_MASK)))"

lemma user_ext_path:
  assumes "user_ext m m'" and "aligned8 current" and "path_user m va ls current"
  shows "path_user m' va ls current"
  using assms(2,3)
proof (induction ls arbitrary: current)
  case (Cons level ls)
  have IH: "path_user m va ls (e AND ADDR_MASK) \<Longrightarrow> path_user m' va ls (e AND ADDR_MASK)" for e
    by (rule Cons.IH [OF aligned8_mask])
  from user_ext_read [OF assms(1) Cons.prems(1), of "pt_index level va"] Cons.prems(2)
  show ?case by (auto simp: Let_def or4_bits IH)
qed simp

definition unlock_entry :: "nat \<Rightarrow> u64 \<Rightarrow> nat \<Rightarrow> memory \<Rightarrow> memory" where
  "unlock_entry depth table i m =
     (let entry = read_entry m table (of_nat i) in
      if entry AND 1 \<noteq> 0 then
        let m' = write_entry m table (of_nat i) (entry OR 0x4) in
        if depth \<noteq> 0 \<and> entry AND 0x80 = 0 then unlock_table depth (entry AND ADDR_MASK) m' else m'
      else m)"

lemma unlock_table_Suc: "unlock_table (Suc d) t m = fold (unlock_entry d t) [0..<512] m"
  by (simp add: unlock_entry_def [abs_def])

lemma fold_user_ext:
  assumes "\<And>i m. user_ext m (f i m)"
  shows "user_ext m (fold f xs m)"
  by (induction xs arbitrary: m) (auto intro: user_ext_trans assms)

lemma unlock_user_ext: "aligned8 t \<Longrightarrow> user_ext m (unlock_table d t m)"
proof (induction d arbitrary: t m)
  case (Suc d)
  have "user_ext m (unlock_entry d t i m)" for i m
    unfolding unlock_entry_def Let_def
    using user_ext_trans [OF user_ext_write [OF Suc.prems] Suc.IH [OF aligned8_mask]]
      user_ext_write [OF Suc.prems] by auto
  then show ?case unfolding unlock_table_Suc by (rule fold_user_ext)
qed simp

lemma unlock_entry_ext: "aligned8 t \<Longrightarrow> user_ext m (unlock_entry d t i m)"
  unfolding unlock_entry_def Let_def
  using user_ext_trans [OF user_ext_write unlock_user_ext [OF aligned8_mask]] user_ext_write
  by auto

lemma pt_index_bound: "unat (pt_index level va) < 512"
  using and_bound [of "drop_bit (39 - 9 * level) va" "0x1FF :: u64"] by (simp add: pt_index_def)

lemma unlock_entry_path:
  assumes t: "aligned8 t" and i: "i = unat (pt_index level va)"
    and top: "level = 0 \<longrightarrow> read_entry m t (pt_index level va) AND 0x80 = 0"
    and last: "d = 0 \<longrightarrow> ls = []" "level = 3 \<longrightarrow> d = 0" "level \<le> 3"
    and sub: "\<And>t m. aligned8 t \<Longrightarrow> d \<noteq> 0 \<Longrightarrow> path_user (unlock_table d t m) va ls t"
  shows "path_user (unlock_entry d t i m) va (level # ls) t"
proof -
  let ?i = "pt_index level va"
  let ?e = "read_entry m t ?i"
  let ?m = "write_entry m t ?i (?e OR 4)"
  have i': "of_nat i = ?i" using i by simp
  consider "?e AND 1 = 0" | "?e AND 1 \<noteq> 0" "d \<noteq> 0 \<and> ?e AND 0x80 = 0"
    | "?e AND 1 \<noteq> 0" "\<not> (d \<noteq> 0 \<and> ?e AND 0x80 = 0)" by blast
  then show ?thesis
  proof cases
    case 1
    then show ?thesis by (simp add: unlock_entry_def i' Let_def)
  next
    case 2
    let ?s = "?e AND ADDR_MASK"
    let ?u = "unlock_table d ?s ?m"
    have u: "unlock_entry d t i m = ?u" using 2 by (simp add: unlock_entry_def i' Let_def)
    have "read_entry ?u t ?i = ?e OR 4"
      using user_ext_read [OF unlock_user_ext [OF aligned8_mask] t, of d ?e ?m ?i]
      by (auto simp: or.assoc)
    moreover have "path_user ?u va ls ?s" using sub [OF aligned8_mask] 2 by blast
    ultimately show ?thesis by (simp add: u or4_bits)
  next
    case 3
    then have u: "unlock_entry d t i m = ?m" by (auto simp: unlock_entry_def i' Let_def)
    have "level = 0 \<or> level = 1 \<or> level = 2 \<or> level = 3" using last(3) by arith
    with 3 top last have "ls = [] \<or> (level = 1 \<or> level = 2) \<and> ?e AND 0x80 \<noteq> 0"
      by (elim disjE) auto
    then show ?thesis by (auto simp: u or4_bits Let_def)
  qed
qed

lemma split_upt: "i < n \<Longrightarrow> [0..<n] = [0..<i] @ i # [Suc i..<n]"
  using upt_add_eq_append [of 0 i "n - i"] by (simp add: upt_conv_Cons)

lemma unlock_table_path:
  assumes "aligned8 t" and "d \<le> 4"
    and "d = 4 \<longrightarrow> read_entry m t (pt_index 0 va) AND 0x80 = 0"
  shows "path_user (unlock_table d t m) va [4 - d..<4] t"
  using assms
proof (induction d arbitrary: t m)
  case (Suc d)
  let ?l = "4 - Suc d"
  let ?i = "unat (pt_index ?l va)"
  let ?m1 = "fold (unlock_entry d t) [0..<?i] m"
  let ?m2 = "unlock_entry d t ?i ?m1"
  have "[0..<512] = [0..<?i] @ ?i # [Suc ?i..<512]"
    by (rule split_upt [OF pt_index_bound])
  then have eq: "unlock_table (Suc d) t m = fold (unlock_entry d t) [Suc ?i..<512] ?m2"
    by (simp only: unlock_table_Suc) (simp only: fold_append fold.simps comp_apply)
  have "Suc ?l = 4 - d" using Suc.prems(2) by arith
  then have lv: "[?l..<4] = ?l # [4 - d..<4]"
    by (subst upt_conv_Cons) simp_all
  have ext: "user_ext m ?m1" by (rule fold_user_ext) (rule unlock_entry_ext [OF Suc.prems(1)])
  have "path_user ?m2 va (?l # [4 - d..<4]) t"
  proof (rule unlock_entry_path [OF Suc.prems(1) refl])
    show "?l = 0 \<longrightarrow> read_entry ?m1 t (pt_index ?l va) AND 0x80 = 0"
      using user_ext_read [OF ext Suc.prems(1), of "pt_index 0 va"] Suc.prems(2,3)
      by (auto simp: or4_bits)
    show "path_user (unlock_table d t m) va [4 - d..<4] t" if "aligned8 t" for t m
      using Suc.IH [OF that] Suc.prems(2) by auto
  qed (use Suc.prems(2) in auto)
  then have "path_user (fold (unlock_entry d t) [Suc ?i..<512] ?m2) va (?l # [4 - d..<4]) t"
    by (rule user_ext_path [rotated 2])
      (auto intro: fold_user_ext unlock_entry_ext [OF Suc.prems(1)] simp: Suc.prems(1))
  then show ?case unfolding eq lv .
qed simp

section \<open>Properties\<close>

text \<open>
  \<open>walk_page_table\<close> never panics: its address arithmetic cannot
  overflow, and a translated address lies below $2^{53}$.
\<close>

lemma walk_page_table_total:
  assumes "unat cr3 \<le> 0x000FFFFFFFFFF000"
  shows "walk_page_table cr3 m va = Some None
    \<or> (\<exists>p. walk_page_table cr3 m va = Some (Some p) \<and> unat p < 2 ^ 53)"
  unfolding walk_page_table_def by (rule walk_levels_total [OF assms])

text \<open>
  C16. Mapping and translating agree: when the upper tables of an address are
  present and the page-table cell written is none of the upper cells, walking the address after
  \<open>map_page\<close> yields the mapped frame plus the page offset, and the address was invalidated.
\<close>

theorem map_page_then_walk:
  assumes "tables_present cr3 m va" and "frame AND ADDR_MASK = frame"
    and "\<forall>c\<in>set (upper_cells cr3 m va). apart (entry_addr (pt_of cr3 m va) (pt_index 3 va)) 8 c 8"
  shows "case map_page cr3 va frame m of (m', flushed) \<Rightarrow>
    walk_page_table cr3 m' va = Some (Some (frame + (va AND 0xFFF))) \<and> flushed = [va]"
proof -
  let ?m = "write_entry m (pt_of cr3 m va) (pt_index 3 va) (frame OR 0b11)"
  have p: "tables_present cr3 ?m va" and t: "pt_of cr3 ?m va = pt_of cr3 m va"
    using tables_write [OF assms(3)] assms(1) by simp_all
  have "read_entry ?m (pt_of cr3 ?m va) (pt_index 3 va) = frame OR 0b11" by (simp add: t)
  then have "walk_page_table cr3 ?m va = Some (Some (frame + (va AND 0xFFF)))"
    using walk_present [OF p] pte_bits [OF assms(2)] by simp
  with assms(1) show ?thesis by (simp add: map_page_eq)
qed

text \<open>A PML4 at 0x1000, a PDPT at 0x2000, a PD at 0x3000 and an empty page table at 0x4000.\<close>

definition demo_tables :: memory where
  "demo_tables = write_entry (write_entry (write_entry (\<lambda>_. 0) 0x1000 0 0x2003) 0x2000 0 0x3003)
     0x3000 0 0x4003"

lemma demo_tables_entries:
  "read_entry demo_tables 0x1000 0 = 0x2003" "read_entry demo_tables 0x2000 0 = 0x3003"
  "read_entry demo_tables 0x3000 0 = 0x4003"
  by (simp_all add: demo_tables_def read_write_entry_apart apart_def entry_addr_def)

lemma demo_path:
  "pt_index 0 0x5123 = 0" "pt_index 1 0x5123 = 0" "pt_index 2 0x5123 = 0" "pt_index 3 0x5123 = 5"
  "pdpt_of 0x1000 demo_tables 0x5123 = 0x2000" "pd_of 0x1000 demo_tables 0x5123 = 0x3000"
  "pt_of 0x1000 demo_tables 0x5123 = 0x4000"
proof -
  show i: "pt_index 0 0x5123 = 0" "pt_index 1 0x5123 = 0" "pt_index 2 0x5123 = 0"
    "pt_index 3 0x5123 = 5" by (simp_all add: pt_index_def)
  show p: "pdpt_of 0x1000 demo_tables 0x5123 = 0x2000"
    unfolding pdpt_of_def i demo_tables_entries by (simp add: ADDR_MASK_def)
  show d: "pd_of 0x1000 demo_tables 0x5123 = 0x3000"
    unfolding pd_of_def p i demo_tables_entries by (simp add: ADDR_MASK_def)
  show "pt_of 0x1000 demo_tables 0x5123 = 0x4000"
    unfolding pt_of_def d i demo_tables_entries by (simp add: ADDR_MASK_def)
qed

lemma demo_tables_present: "tables_present 0x1000 demo_tables 0x5123"
  unfolding tables_present_def demo_path demo_tables_entries by simp

theorem map_page_then_walk_witness:
  "walk_page_table 0x1000 (fst (map_page 0x1000 0x5123 0x7000 demo_tables)) 0x5123
     = Some (Some 0x7123)"
proof -
  have "case map_page 0x1000 0x5123 0x7000 demo_tables of (m', flushed) \<Rightarrow>
    walk_page_table 0x1000 m' 0x5123 = Some (Some (0x7000 + (0x5123 AND 0xFFF))) \<and> flushed = [0x5123]"
    by (rule map_page_then_walk [OF demo_tables_present])
      (simp_all only: upper_cells_def demo_path, simp_all add: ADDR_MASK_def entry_addr_def apart_def)
  then show ?thesis by (simp split: prod.splits)
qed

text \<open>
  \<open>map_page\<close> touches at most one page-table entry. When an upper table is
  missing or maps a huge page it changes nothing and invalidates nothing; otherwise it changes
  no byte outside the eight of the address's page-table entry.
\<close>

lemma map_page_frame:
  "case map_page cr3 va frame m of (m', flushed) \<Rightarrow>
     if tables_present cr3 m va
     then \<forall>x. unat (x - entry_addr (pt_of cr3 m va) (pt_index 3 va)) < 8 \<or> m' x = m x
     else m' = m \<and> flushed = []"
  by (simp add: map_page_eq write_entry_def store_le_def store_bytes_def)

text \<open>
  C26. \<open>unlock_mmu_for_ring3\<close> keeps every translation and restores CR0,
  and afterwards every entry that the translation of any address meets has the user bit: the
  whole address space, kernel included, is reachable from ring 3. (Bit 7 of a PML4 entry is
  reserved and clear.)
\<close>

theorem unlock_mmu_exposes_all:
  assumes "aligned8 cr3" and "read_entry m cr3 (pt_index 0 va) AND 0x80 = 0"
  shows "case unlock_mmu_for_ring3 cr0 cr3 m of (m', cr0', writes) \<Rightarrow>
    walk_page_table cr3 m' va = walk_page_table cr3 m va
    \<and> path_user m' va [0, 1, 2, 3] cr3 \<and> cr0' = cr0"
proof -
  have "path_user (unlock_table 4 cr3 m) va [4 - 4..<4] cr3"
    by (rule unlock_table_path) (use assms in auto)
  moreover have "[4 - 4..<4] = [0, 1, 2, 3::nat]" by (simp add: upt_rec)
  ultimately have "path_user (unlock_table 4 cr3 m) va [0, 1, 2, 3] cr3" by metis
  moreover have "walk_page_table cr3 (unlock_table 4 cr3 m) va = walk_page_table cr3 m va"
    unfolding walk_page_table_def
    by (rule user_ext_walk [OF unlock_user_ext [OF assms(1)] assms(1)])
  ultimately show ?thesis
    unfolding unlock_mmu_for_ring3_def Let_def prod.case by blast
qed

theorem unlock_mmu_exposes_all_witness:
  "case unlock_mmu_for_ring3 0x80010000 0x1000 demo_tables of (m', cr0', writes) \<Rightarrow>
    walk_page_table 0x1000 m' 0x5123 = walk_page_table 0x1000 demo_tables 0x5123
    \<and> path_user m' 0x5123 [0, 1, 2, 3] 0x1000 \<and> cr0' = 0x80010000"
proof (rule unlock_mmu_exposes_all)
  show "aligned8 0x1000" by (simp add: aligned8_def)
  show "read_entry demo_tables 0x1000 (pt_index 0 0x5123) AND 0x80 = 0"
    unfolding demo_path demo_tables_entries by simp
qed

end
