(* ===== verification/Desktop.thy ===== *)
theory Desktop
  imports Syscall Paging
begin

text \<open>
  The desktop: the main loop of \<open>_start\<close> (\<open>src/src/main.rs\<close>). One iteration polls the network card,
  clamps the mouse pointer, reacts to clicks (closing, dragging, dropping to ring 3), redraws the
  screen and halts until the next interrupt.
\<close>

section \<open>State\<close>

record desktop =
  old_mbtn :: u8
  desktop_win :: window
  is_dragging :: bool
  drag_offset_x :: i32
  drag_offset_y :: i32

definition desktop_start :: desktop where
  "desktop_start = \<lparr>old_mbtn = 0,
     desktop_win = window_new 100 200 600 300 (lit ''EDGECORE DIAGNOSTICS'') 0x334155,
     is_dragging = False, drag_offset_x = 0, drag_offset_y = 0\<rparr>"

text \<open>Casts: \<open>usize as i32\<close> truncates, \<open>i32 as usize\<close> extends the sign.\<close>

definition to_i32 :: "usize \<Rightarrow> i32" where
  "to_i32 n = wrap32 (int n)"

definition to_usize :: "i32 \<Rightarrow> usize" where
  "to_usize x = nat (x mod 2 ^ 64)"

text \<open>What the boot found, as the diagnostics window shows it.\<close>

record diagnostics =
  dg_nvme :: bool
  dg_hda :: bool
  dg_sector :: rstr

section \<open>The pointer\<close>

definition clamp_pointer :: "'a kernel_scheme \<Rightarrow> (i32 \<times> i32 \<times> 'a kernel_scheme) option" where
  "clamp_pointer s = do {
     let mx = MOUSE_X (mouse_state s);
     let my = MOUSE_Y (mouse_state s);
     let (mx, s) = (if mx < 0 then (0, s\<lparr>mouse_state := (mouse_state s)\<lparr>MOUSE_X := 0\<rparr>\<rparr>) else (mx, s));
     let (my, s) = (if my < 0 then (0, s\<lparr>mouse_state := (mouse_state s)\<lparr>MOUSE_Y := 0\<rparr>\<rparr>) else (my, s));
     (mx, s) \<leftarrow> (if mx \<ge> to_i32 (sv_width (server s)) then do {
         mx \<leftarrow> isub (to_i32 (sv_width (server s))) 10;
         Some (mx, s\<lparr>mouse_state := (mouse_state s)\<lparr>MOUSE_X := mx\<rparr>\<rparr>)
       } else Some (mx, s));
     (my, s) \<leftarrow> (if my \<ge> to_i32 (sv_height (server s)) then do {
         my \<leftarrow> isub (to_i32 (sv_height (server s))) 10;
         Some (my, s\<lparr>mouse_state := (mouse_state s)\<lparr>MOUSE_Y := my\<rparr>\<rparr>)
       } else Some (my, s));
     Some (mx, my, s)
   }"

text \<open>\<open>lo <= v && v <= lo + n\<close>: the sum is computed only when the first test succeeds.\<close>

definition in_span :: "i32 \<Rightarrow> i32 \<Rightarrow> i32 \<Rightarrow> bool option" where
  "in_span v lo n = (if lo \<le> v then do { hi \<leftarrow> iadd lo n; Some (v \<le> hi) } else Some False)"

definition in_span_u :: "i32 \<Rightarrow> usize \<Rightarrow> usize \<Rightarrow> bool option" where
  "in_span_u v lo n = (if to_i32 lo \<le> v then do { hi \<leftarrow> uadd lo n; Some (v \<le> to_i32 hi) } else Some False)"

definition and_then :: "bool option \<Rightarrow> bool option \<Rightarrow> bool option" where
  "and_then p q = do { b \<leftarrow> p; if b then q else Some False }"

section \<open>Input\<close>

definition drag_window :: "compositor \<Rightarrow> i32 \<Rightarrow> i32 \<Rightarrow> desktop \<Rightarrow> desktop option" where
  "drag_window sv mx my dk = do {
     let win = desktop_win dk;
     x \<leftarrow> isub mx (drag_offset_x dk);
     y \<leftarrow> isub my (drag_offset_y dk);
     let x = (if x < 0 then 0 else x);
     let y = (if y < 40 then 40 else y);
     right \<leftarrow> iadd x (to_i32 (win_width win));
     x \<leftarrow> (if right > to_i32 (sv_width sv) then isub (to_i32 (sv_width sv)) (to_i32 (win_width win)) else Some x);
     bottom \<leftarrow> iadd y (to_i32 (win_height win));
     y \<leftarrow> (if bottom > to_i32 (sv_height sv) then isub (to_i32 (sv_height sv)) (to_i32 (win_height win)) else Some y);
     Some (dk\<lparr>desktop_win := win\<lparr>win_x := x, win_y := y\<rparr>\<rparr>)
   }"

definition left_button :: "compositor \<Rightarrow> i32 \<Rightarrow> i32 \<Rightarrow> desktop \<Rightarrow> desktop option" where
  "left_button sv mx my dk =
     (if \<not> is_dragging dk then do {
        let win = desktop_win dk;
        hit \<leftarrow> and_then (in_span mx (win_x win) (to_i32 (win_width win))) (in_span my (win_y win) 24);
        if hit then do {
          ox \<leftarrow> isub mx (win_x win);
          oy \<leftarrow> isub my (win_y win);
          Some (dk\<lparr>is_dragging := True, drag_offset_x := ox, drag_offset_y := oy\<rparr>)
        } else Some dk
      } else drag_window sv mx my dk)"

datatype action = Close | Drop_Ring3 | Other

text \<open>Which of the three arms of the click handling is taken.\<close>

definition click_action :: "bool \<Rightarrow> i32 \<Rightarrow> i32 \<Rightarrow> usize \<Rightarrow> usize \<Rightarrow> window \<Rightarrow> action option" where
  "click_action click_just_pressed mx my drop_btn_x drop_btn_y win = do {
     right \<leftarrow> iadd (win_x win) (to_i32 (win_width win));
     close_x \<leftarrow> isub right 20;
     close_y \<leftarrow> iadd (win_y win) 4;
     close \<leftarrow> (if click_just_pressed then and_then (in_span mx close_x 16) (in_span my close_y 16) else Some False);
     if close then Some Close
     else do {
       drop_it \<leftarrow> (if click_just_pressed then and_then (in_span_u mx drop_btn_x 380) (in_span_u my drop_btn_y 24) else Some False);
       Some (if drop_it then Drop_Ring3 else Other)
     }
   }"

section \<open>Drawing\<close>

definition on_screen :: "(compositor \<Rightarrow> vram \<Rightarrow> vram option) \<Rightarrow> 'a kernel_scheme \<Rightarrow> 'a kernel_scheme option" where
  "on_screen f s = do {
     v \<leftarrow> f (server s) (vram s);
     Some (s\<lparr>vram := v\<rparr>)
   }"

definition draw_text :: "usize \<Rightarrow> usize \<Rightarrow> rstr \<Rightarrow> u32 \<Rightarrow> usize \<Rightarrow> 'a kernel_scheme \<Rightarrow> 'a kernel_scheme option" where
  "draw_text x y t color scale = on_screen (\<lambda>sv. screen_draw_string sv x y (chars t) color scale)"

definition draw_rect :: "usize \<Rightarrow> usize \<Rightarrow> usize \<Rightarrow> usize \<Rightarrow> u32 \<Rightarrow> 'a kernel_scheme \<Rightarrow> 'a kernel_scheme option" where
  "draw_rect x y w h color = on_screen (\<lambda>sv. screen_fill_rect sv x y w h color)"

definition draw_bar :: "'a kernel_scheme \<Rightarrow> 'a kernel_scheme option" where
  "draw_bar s = do {
     s \<leftarrow> draw_rect 0 0 (sv_width (server s)) 40 0x1E293B s;
     s \<leftarrow> draw_text 20 10 (lit ''QOREOS UNIKERNEL SECURE CONSOLE'') 0xFFFFFF 2 s;
     blit_terminal s
   }"

text \<open>A line of text at an offset below \<open>text_y\<close>.\<close>

definition draw_line :: "usize \<Rightarrow> usize \<Rightarrow> usize \<Rightarrow> rstr \<Rightarrow> u32 \<Rightarrow> 'a kernel_scheme \<Rightarrow> 'a kernel_scheme option" where
  "draw_line text_x text_y dy t color s = do {
     y \<leftarrow> uadd text_y dy;
     draw_text text_x y t color 1 s
   }"

definition draw_diagnostics ::
  "diagnostics \<Rightarrow> i32 \<Rightarrow> i32 \<Rightarrow> usize \<Rightarrow> usize \<Rightarrow> window \<Rightarrow> 'a kernel_scheme \<Rightarrow> 'a kernel_scheme option" where
  "draw_diagnostics dg mx my drop_btn_x drop_btn_y win s = do {
     s \<leftarrow> on_screen (\<lambda>sv. draw_window sv win) s;
     text_x \<leftarrow> uadd (to_usize (win_x win)) 20;
     text_y \<leftarrow> uadd (to_usize (win_y win)) 50;
     s \<leftarrow> draw_text text_x text_y (lit ''MOUSE X: '' @ dec_int mx @ lit ''   MOUSE Y: '' @ dec_int my) 0x10B981 2 s;
     s \<leftarrow> draw_line text_x text_y 40 (lit ''SYS: 2MB RING-0 SAFE ZONE ACTIVE'') 0xFFFFFF s;
     s \<leftarrow> draw_line text_x text_y 60 (lit ''SYS: E1000 NETWORK CARD ONLINE'') 0xFFFFFF s;
     s \<leftarrow> draw_line text_x text_y 80 (lit ''STORAGE: NVME CONTROLLER '' @
            (if dg_nvme dg then lit ''DATA SECURED'' else lit ''NOT DETECTED'')) 0x3B82F6 s;
     s \<leftarrow> draw_line text_x text_y 100 (lit ''AUDIO: INTEL HDA '' @
            (if dg_hda dg then lit ''PLAYING 440HZ TONE'' else lit ''OFFLINE'')) 0x3B82F6 s;
     s \<leftarrow> (if length (dg_sector dg) > 0 then do {
            s \<leftarrow> draw_line text_x text_y 130 (lit ''FAT32 PAYLOAD DECRYPTED:'') 0x10B981 s;
            draw_line text_x text_y 150 (dg_sector dg) 0xF59E0B s
          } else Some s);
     s \<leftarrow> draw_rect drop_btn_x drop_btn_y 380 24 0xEF4444 s;
     x \<leftarrow> uadd drop_btn_x 10;
     y \<leftarrow> uadd drop_btn_y 6;
     draw_text x y (lit ''INITIATE SECURE RING-3 DROP (LOCKS GUI)'') 0xFFFFFF 1 s
   }"

definition draw_cursor :: "i32 \<Rightarrow> i32 \<Rightarrow> bool \<Rightarrow> 'a kernel_scheme \<Rightarrow> 'a kernel_scheme option" where
  "draw_cursor mx my dragging s = do {
     let cursor_color = (if dragging then 0x10B981 else 0x3B82F6);
     s \<leftarrow> draw_rect (to_usize mx) (to_usize my) 8 8 0x000000 s;
     x \<leftarrow> uadd (to_usize mx) 1;
     y \<leftarrow> uadd (to_usize my) 1;
     draw_rect x y 6 6 cursor_color s
   }"

section \<open>One iteration\<close>

text \<open>\<open>cr0\<close> and \<open>cr3\<close> are the control registers, \<open>stack\<close> the address of the static user stack. After
  the drop control is in ring 3 and the loop is not resumed.\<close>

datatype 's outcome = Running desktop 's | In_Ring3 's

definition drop_ring3 :: "u64 \<Rightarrow> u64 \<Rightarrow> 'a kernel_scheme \<Rightarrow> 'a kernel_scheme option" where
  "drop_ring3 cr0 cr3 s = do {
     s \<leftarrow> print_str (10 # lit ''> [WARNING] EJECTING FROM KERNEL MODE. DROPPING TO RING-3...'' @ [10]) 0xEF4444 s;
     s \<leftarrow> blit_terminal s;
     s \<leftarrow> print_str (lit ''> SYS: DISABLING CR0.WP & UNLOCKING MMU...'' @ [10]) 0xF59E0B s;
     s \<leftarrow> blit_terminal s;
     let (m, cr0, _) = unlock_mmu_for_ring3 cr0 cr3 (mem s);
     s \<leftarrow> print_str (lit ''> SYS: MMU UNLOCKED! FIRING IRETQ...'' @ [10]) 0x10B981 (s\<lparr>mem := m\<rparr>);
     blit_terminal s
   }"

definition draw_desktop :: "diagnostics \<Rightarrow> i32 \<Rightarrow> i32 \<Rightarrow> usize \<Rightarrow> usize \<Rightarrow> desktop \<Rightarrow> 'a kernel_scheme \<Rightarrow> 'a kernel_scheme option" where
  "draw_desktop dg mx my drop_btn_x drop_btn_y dk s = do {
     s \<leftarrow> draw_bar s;
     s \<leftarrow> (if is_open (desktop_win dk) then draw_diagnostics dg mx my drop_btn_x drop_btn_y (desktop_win dk) s else Some s);
     draw_cursor mx my (is_dragging dk) s
   }"

definition handle_input ::
  "u8 \<Rightarrow> compositor \<Rightarrow> i32 \<Rightarrow> i32 \<Rightarrow> usize \<Rightarrow> usize \<Rightarrow> desktop \<Rightarrow> (bool \<times> desktop) option" where
  "handle_input mbtn sv mx my drop_btn_x drop_btn_y dk =
     (let left_click = (mbtn AND 0x01 \<noteq> 0);
          click_just_pressed = (left_click \<and> old_mbtn dk AND 0x01 = 0)
      in if is_open (desktop_win dk) then do {
           act \<leftarrow> click_action click_just_pressed mx my drop_btn_x drop_btn_y (desktop_win dk);
           case act of
             Close \<Rightarrow> Some (False, dk\<lparr>desktop_win := (desktop_win dk)\<lparr>is_open := False\<rparr>, is_dragging := False\<rparr>)
           | Drop_Ring3 \<Rightarrow> Some (True, dk)
           | Other \<Rightarrow>
               if left_click then map_option (Pair False) (left_button sv mx my dk)
               else Some (False, dk\<lparr>is_dragging := False\<rparr>)
         } else Some (False, dk))"

definition desktop_iter ::
  "('a kernel_scheme) env \<Rightarrow> u64 \<Rightarrow> u64 \<Rightarrow> diagnostics \<Rightarrow> desktop \<Rightarrow> 'a kernel_scheme \<Rightarrow> ('a kernel_scheme) outcome option" where
  "desktop_iter e cr0 cr3 dg dk s = do {
     s \<leftarrow> poll_net_card e s;
     let mbtn = MOUSE_BTN (mouse_state s);
     (mx, my, s) \<leftarrow> clamp_pointer s;
     drop_btn_x \<leftarrow> uadd (to_usize (win_x (desktop_win dk))) 20;
     drop_btn_y \<leftarrow> uadd (to_usize (win_y (desktop_win dk))) 240;
     (drop_it, dk) \<leftarrow> handle_input mbtn (server s) mx my drop_btn_x drop_btn_y dk;
     if drop_it then map_option In_Ring3 (drop_ring3 cr0 cr3 s)
     else do {
       s \<leftarrow> draw_desktop dg mx my drop_btn_x drop_btn_y dk s;
       Some (Running (dk\<lparr>old_mbtn := mbtn\<rparr>) s)
     }
   }"

section \<open>Pointer and window\<close>

text \<open>The screen holds the window where the desktop first shows it.\<close>

definition roomy :: "compositor \<Rightarrow> bool" where
  "roomy sv \<longleftrightarrow> 700 \<le> sv_width sv \<and> sv_width sv < 2 ^ 30 \<and> 500 \<le> sv_height sv \<and> sv_height sv < 2 ^ 30"

definition desk_ok :: "compositor \<Rightarrow> desktop \<Rightarrow> bool" where
  "desk_ok sv dk \<longleftrightarrow> win_width (desktop_win dk) = 600 \<and> win_height (desktop_win dk) = 300
     \<and> title (desktop_win dk) = lit ''EDGECORE DIAGNOSTICS''
     \<and> 0 \<le> win_x (desktop_win dk) \<and> win_x (desktop_win dk) + 600 \<le> int (sv_width sv)
     \<and> 40 \<le> win_y (desktop_win dk) \<and> win_y (desktop_win dk) + 300 \<le> int (sv_height sv)
     \<and> 0 \<le> drag_offset_x dk \<and> drag_offset_x dk \<le> 600 \<and> 0 \<le> drag_offset_y dk \<and> drag_offset_y dk \<le> 24"

definition on_pointer :: "compositor \<Rightarrow> i32 \<Rightarrow> i32 \<Rightarrow> bool" where
  "on_pointer sv mx my \<longleftrightarrow> 0 \<le> mx \<and> mx < int (sv_width sv) \<and> 0 \<le> my \<and> my < int (sv_height sv)"

text \<open>A coordinate limited to an interval, as the drag code does it.\<close>

definition clip :: "int \<Rightarrow> int \<Rightarrow> int \<Rightarrow> int" where
  "clip lo hi v = (if v < lo then lo else if v > hi then hi else v)"

definition clamped :: "int \<Rightarrow> int \<Rightarrow> int" where
  "clamped n v = (if v < 0 then 0 else if v \<ge> n then n - 10 else v)"

lemma to_i32_small: "n < 2 ^ 31 \<Longrightarrow> to_i32 n = int n"
  by (simp add: to_i32_def wrap32_def)

lemma to_usize_small: "0 \<le> x \<Longrightarrow> x < 2 ^ 31 \<Longrightarrow> to_usize x = nat x"
  by (simp add: to_usize_def)

lemma desktop_start_ok: "roomy sv \<Longrightarrow> desk_ok sv desktop_start"
  by (simp add: desk_ok_def roomy_def desktop_start_def window_new_def)

lemma clamp_pointer_eq:
  assumes "roomy (server s)" and "mouse_ok (mouse_state s)"
  shows "clamp_pointer s = Some (clamped (int (sv_width (server s))) (MOUSE_X (mouse_state s)),
      clamped (int (sv_height (server s))) (MOUSE_Y (mouse_state s)),
      s\<lparr>mouse_state := (mouse_state s)\<lparr>MOUSE_X := clamped (int (sv_width (server s))) (MOUSE_X (mouse_state s)),
        MOUSE_Y := clamped (int (sv_height (server s))) (MOUSE_Y (mouse_state s))\<rparr>\<rparr>)"
  using assms by (auto simp: clamp_pointer_def roomy_def to_i32_small clamped_def isub_def in_i32_def Let_def)

lemma clamped_on_screen: "roomy sv \<Longrightarrow> on_pointer sv (clamped (int (sv_width sv)) x) (clamped (int (sv_height sv)) y)"
  by (auto simp: on_pointer_def clamped_def roomy_def)

lemma drag_window_eq:
  assumes "roomy sv" and "desk_ok sv dk" and "on_pointer sv mx my"
  shows "drag_window sv mx my dk = Some (dk\<lparr>desktop_win := (desktop_win dk)
      \<lparr>win_x := clip 0 (int (sv_width sv) - 600) (mx - drag_offset_x dk),
       win_y := clip 40 (int (sv_height sv) - 300) (my - drag_offset_y dk)\<rparr>\<rparr>)"
  using assms
  by (auto simp: drag_window_def desk_ok_def roomy_def on_pointer_def to_i32_small clip_def isub_def iadd_def in_i32_def Let_def)

text \<open>The parts of the window that react to the pointer, edges included.\<close>

definition in_box :: "int \<Rightarrow> int \<Rightarrow> int \<Rightarrow> int \<Rightarrow> window \<Rightarrow> i32 \<Rightarrow> i32 \<Rightarrow> bool" where
  "in_box dx dy w h win mx my \<longleftrightarrow> win_x win + dx \<le> mx \<and> mx \<le> win_x win + dx + w
     \<and> win_y win + dy \<le> my \<and> my \<le> win_y win + dy + h"

abbreviation on_close :: "window \<Rightarrow> i32 \<Rightarrow> i32 \<Rightarrow> bool" where
  "on_close \<equiv> in_box 580 4 16 16"

abbreviation on_drop :: "window \<Rightarrow> i32 \<Rightarrow> i32 \<Rightarrow> bool" where
  "on_drop \<equiv> in_box 20 240 380 24"

abbreviation on_title :: "window \<Rightarrow> i32 \<Rightarrow> i32 \<Rightarrow> bool" where
  "on_title \<equiv> in_box 0 0 600 24"

lemma drop_button_pos:
  assumes "roomy sv" and "desk_ok sv dk"
  shows "uadd (to_usize (win_x (desktop_win dk))) 20 = Some (nat (win_x (desktop_win dk)) + 20)"
    and "uadd (to_usize (win_y (desktop_win dk))) 240 = Some (nat (win_y (desktop_win dk)) + 240)"
  using assms by (auto simp: to_usize_small desk_ok_def roomy_def uadd_def nat_less_iff)

lemma spans:
  assumes "roomy sv" and "desk_ok sv dk" and "on_pointer sv mx my"
  defines "win \<equiv> desktop_win dk"
  shows "in_span mx (win_x win + 580) 16 = Some (win_x win + 580 \<le> mx \<and> mx \<le> win_x win + 596)"
    "in_span my (win_y win + 4) 16 = Some (win_y win + 4 \<le> my \<and> my \<le> win_y win + 20)"
    "in_span mx (win_x win) 600 = Some (win_x win \<le> mx \<and> mx \<le> win_x win + 600)"
    "in_span my (win_y win) 24 = Some (win_y win \<le> my \<and> my \<le> win_y win + 24)"
    "in_span_u mx (nat (win_x win) + 20) 380 = Some (win_x win + 20 \<le> mx \<and> mx \<le> win_x win + 400)"
    "in_span_u my (nat (win_y win) + 240) 24 = Some (win_y win + 240 \<le> my \<and> my \<le> win_y win + 264)"
  using assms
  by (auto simp: in_span_def in_span_u_def desk_ok_def roomy_def on_pointer_def iadd_def uadd_def in_i32_def to_i32_small nat_less_iff)

lemma click_action_eq:
  assumes "roomy sv" and "desk_ok sv dk" and "on_pointer sv mx my"
  defines "win \<equiv> desktop_win dk"
  shows "click_action pressed mx my (nat (win_x win) + 20) (nat (win_y win) + 240) win
    = Some (if pressed \<and> on_close win mx my then Close else if pressed \<and> on_drop win mx my then Drop_Ring3 else Other)"
proof -
  have i: "iadd (win_x win) (to_i32 (win_width win)) = Some (win_x win + 600)" "isub (win_x win + 600) 20 = Some (win_x win + 580)"
    "iadd (win_y win) 4 = Some (win_y win + 4)"
    using assms(1,2) by (auto simp: desk_ok_def roomy_def iadd_def isub_def in_i32_def to_i32_small win_def)
  show ?thesis
    using spans [OF assms(1-3), folded win_def]
    by (auto simp: click_action_def i and_then_def in_box_def)
qed

lemma left_button_eq:
  assumes "roomy sv" and "desk_ok sv dk" and "on_pointer sv mx my"
  defines "win \<equiv> desktop_win dk"
  shows "left_button sv mx my dk = Some (
    if is_dragging dk then dk\<lparr>desktop_win := win
      \<lparr>win_x := clip 0 (int (sv_width sv) - 600) (mx - drag_offset_x dk),
       win_y := clip 40 (int (sv_height sv) - 300) (my - drag_offset_y dk)\<rparr>\<rparr>
    else if on_title win mx my then dk\<lparr>is_dragging := True, drag_offset_x := mx - win_x win, drag_offset_y := my - win_y win\<rparr>
    else dk)"
proof -
  have "to_i32 (win_width win) = 600" using assms(2) by (simp add: desk_ok_def to_i32_small win_def)
  moreover have "isub mx (win_x win) = Some (mx - win_x win)" "isub my (win_y win) = Some (my - win_y win)"
    using assms(1-3) by (auto simp: desk_ok_def roomy_def on_pointer_def isub_def in_i32_def win_def)
  ultimately show ?thesis
    using spans [OF assms(1-3), folded win_def] drag_window_eq [OF assms(1-3), folded win_def]
    by (auto simp: left_button_def and_then_def in_box_def win_def [symmetric] Let_def)
qed

text \<open>What the window manager does with the pointer and the buttons.\<close>

definition input_spec :: "u8 \<Rightarrow> compositor \<Rightarrow> i32 \<Rightarrow> i32 \<Rightarrow> desktop \<Rightarrow> bool \<times> desktop" where
  "input_spec mbtn sv mx my dk =
     (let win = desktop_win dk; left = bit mbtn 0; pressed = (left \<and> \<not> bit (old_mbtn dk) 0) in
      if \<not> is_open win then (False, dk)
      else if pressed \<and> on_close win mx my then (False, dk\<lparr>desktop_win := win\<lparr>is_open := False\<rparr>, is_dragging := False\<rparr>)
      else if pressed \<and> on_drop win mx my then (True, dk)
      else if \<not> left then (False, dk\<lparr>is_dragging := False\<rparr>)
      else if is_dragging dk then (False, dk\<lparr>desktop_win := win
        \<lparr>win_x := clip 0 (int (sv_width sv) - 600) (mx - drag_offset_x dk),
         win_y := clip 40 (int (sv_height sv) - 300) (my - drag_offset_y dk)\<rparr>\<rparr>)
      else if on_title win mx my then (False, dk\<lparr>is_dragging := True, drag_offset_x := mx - win_x win, drag_offset_y := my - win_y win\<rparr>)
      else (False, dk))"

lemma and_1_bit: "(b :: u8) AND 1 = 0 \<longleftrightarrow> \<not> bit b 0"
  by (simp add: and_one_eq bit_0 odd_iff_mod_2_eq_one)

lemma handle_input_eq:
  assumes "roomy sv" and "desk_ok sv dk" and "on_pointer sv mx my"
  shows "handle_input mbtn sv mx my (nat (win_x (desktop_win dk)) + 20) (nat (win_y (desktop_win dk)) + 240) dk
    = Some (input_spec mbtn sv mx my dk)"
  using click_action_eq [OF assms] left_button_eq [OF assms]
  by (auto simp: handle_input_def input_spec_def and_1_bit Let_def)

lemma desk_ok_updates:
  assumes "desk_ok sv dk"
  shows "desk_ok sv (dk\<lparr>is_dragging := d\<rparr>)" "desk_ok sv (dk\<lparr>old_mbtn := b\<rparr>)"
    "desk_ok sv (dk\<lparr>desktop_win := (desktop_win dk)\<lparr>is_open := v\<rparr>, is_dragging := d\<rparr>)"
  using assms by (simp_all add: desk_ok_def)

lemma desk_ok_dragged:
  assumes "roomy sv" and "desk_ok sv dk"
  shows "desk_ok sv (dk\<lparr>desktop_win := (desktop_win dk)\<lparr>win_x := clip 0 (int (sv_width sv) - 600) x,
    win_y := clip 40 (int (sv_height sv) - 300) y\<rparr>\<rparr>)"
  using assms unfolding desk_ok_def roomy_def clip_def by simp

lemma desk_ok_grabbed:
  assumes "desk_ok sv dk" and "on_title (desktop_win dk) mx my"
  shows "desk_ok sv (dk\<lparr>is_dragging := True, drag_offset_x := mx - win_x (desktop_win dk), drag_offset_y := my - win_y (desktop_win dk)\<rparr>)"
  using assms unfolding desk_ok_def in_box_def by simp

lemma input_spec_ok:
  assumes "roomy sv" and "desk_ok sv dk"
  shows "desk_ok sv (snd (input_spec mbtn sv mx my dk))"
  using assms desk_ok_updates [OF assms(2)] desk_ok_dragged [OF assms] desk_ok_grabbed [OF assms(2), of mx my]
  unfolding input_spec_def Let_def by simp

section \<open>Drawing is safe\<close>

lemma utf8_chars_length: "utf8_chars bs = Some cs \<Longrightarrow> length cs \<le> length bs"
  by (induction bs arbitrary: cs rule: utf8_chars.induct) (auto split: if_splits list.splits, fastforce+)

lemma chars_length: "length (chars t) \<le> length t"
  by (auto simp: chars_def dest: utf8_chars_length split: option.splits)

lemma dec_digits_length: "length (dec_digits n) \<le> Suc n"
proof (induction n rule: dec_digits.induct)
  case (1 n)
  then show ?case by (subst dec_digits.simps) (auto simp: not_less intro: order_trans)
qed

text \<open>\<open>f\<close> succeeds in every state whose graphics are in order on a roomy screen, keeps them in order, and changes only the
  terminal and visible pixels.\<close>

definition draws :: "('a gfx_scheme \<Rightarrow> 'a gfx_scheme option) \<Rightarrow> bool" where
  "draws f \<longleftrightarrow> (\<forall>s. gfx_ok s \<and> roomy (server s) \<longrightarrow> (\<exists>s'. f s = Some s' \<and> gfx_ok s' \<and> same_but_terminal s s'))"

lemma same_but_terminal_roomy: "same_but_terminal s s' \<Longrightarrow> roomy (server s') = roomy (server s)"
  by (simp add: roomy_def same_but_terminal_fields)

lemma draws_bind: "draws f \<Longrightarrow> draws g \<Longrightarrow> draws (\<lambda>s. f s \<bind> g)"
  unfolding draws_def by (metis same_but_terminal_trans same_but_terminal_roomy bind.bind_lunit)

lemma draws_if: "(c \<Longrightarrow> draws f) \<Longrightarrow> draws (\<lambda>s. if c then f s else Some s)"
  by (auto simp: draws_def)

lemma draws_print: "draws (print_str t c)"
  by (simp add: draws_def print_str_ok)

lemma draws_blit: "draws blit_terminal"
  by (simp add: draws_def blit_terminal_ok)

lemma draws_on_screen:
  assumes "\<And>sv v. screen_ok sv \<Longrightarrow> roomy sv \<Longrightarrow> \<exists>v'. f sv v = Some v' \<and> below_screen_same sv v v'"
  shows "draws (on_screen f :: 'a kernel_scheme \<Rightarrow> _)"
  unfolding draws_def
proof (intro allI impI)
  fix s :: "'a kernel_scheme" assume g: "gfx_ok s \<and> roomy (server s)"
  then have "screen_ok (server s)" "roomy (server s)" by (simp_all add: gfx_ok_def)
  with assms obtain v where v: "f (server s) (vram s) = Some v" "below_screen_same (server s) (vram s) v" by blast
  have "same_but_terminal s (s\<lparr>vram := v\<rparr>)"
    unfolding same_but_terminal_def using v(2)
    by (intro exI [of _ "terminal_layer (server s)"] exI [of _ "term_x s"] exI [of _ "term_y s"] exI [of _ v]) simp
  with v(1) g show "\<exists>s'. on_screen f s = Some s' \<and> gfx_ok s' \<and> same_but_terminal s s'"
    by (simp add: on_screen_def gfx_ok_def)
qed

lemma draws_rect:
  assumes "x + n < 2 ^ 64" and "y + k < 2 ^ 64"
  shows "draws (draw_rect x y n k c)"
  unfolding draw_rect_def
proof (rule draws_on_screen)
  fix sv v assume "screen_ok sv"
  then have "screen_ok sv \<and> below_screen_same sv v v" by (simp add: below_screen_same_def)
  with rect_keeps [OF assms order_refl, of sv v c] show "\<exists>v'. screen_fill_rect sv x y n k c v = Some v' \<and> below_screen_same sv v v'"
    unfolding screen.keeps_def by blast
qed

lemma draws_text:
  assumes "x + 10 * scale * length t < 2 ^ 64" and "y + 8 * scale < 2 ^ 64"
  shows "draws (draw_text x y t c scale)"
  unfolding draw_text_def
proof (rule draws_on_screen)
  fix sv v assume "screen_ok sv"
  then have "screen_ok sv \<and> below_screen_same sv v v" by (simp add: below_screen_same_def)
  moreover have "10 * scale * length (chars t) \<le> 10 * scale * length t" using chars_length by (intro mult_le_mono2)
  then have "x + 10 * scale * length (chars t) < 2 ^ 64" using assms(1) by linarith
  ultimately show "\<exists>v'. screen_draw_string sv x y (chars t) c scale v = Some v' \<and> below_screen_same sv v v'"
    using string_keeps [OF _ assms(2), of x "chars t" sv v c] unfolding screen.keeps_def by blast
qed

lemma draws_line:
  assumes "x + 10 * length t < 2 ^ 64" and "y + dy + 8 < 2 ^ 64"
  shows "draws (draw_line x y dy t c)"
proof -
  have "uadd y dy = Some (y + dy)" using assms(2) by simp
  moreover have "draws (draw_text x (y + dy) t c 1)" using assms by (intro draws_text) simp_all
  ultimately show ?thesis unfolding draw_line_def by (simp del: uadd_Some_iff)
qed

lemma draws_window: "window_fits win \<Longrightarrow> draws (on_screen (\<lambda>sv. draw_window sv win))"
  by (rule draws_on_screen) (use draw_window_pixels in blast)

text \<open>The texts of the window are short, except that the payload line is as long as the file's first
  line.\<close>

lemma desk_window_fits:
  assumes "roomy sv" and "desk_ok sv dk"
  shows "window_fits (desktop_win dk)"
proof -
  have "length (chars (lit ''EDGECORE DIAGNOSTICS'')) \<le> 20"
    using chars_length [of "lit ''EDGECORE DIAGNOSTICS''"] by simp
  with assms show ?thesis by (auto simp: window_fits_def desk_ok_def roomy_def in_i32_def)
qed

lemma pointer_text_length:
  assumes "roomy sv" and "on_pointer sv mx my"
  shows "length (lit ''MOUSE X: '' @ dec_int mx @ lit ''   MOUSE Y: '' @ dec_int my) < 2 ^ 32"
proof -
  have "length (dec_int mx) \<le> Suc (nat mx)" "length (dec_int my) \<le> Suc (nat my)"
    using assms(2) dec_digits_length by (auto simp: dec_int_def on_pointer_def)
  moreover have "nat mx < 2 ^ 30" "nat my < 2 ^ 30" using assms by (auto simp: on_pointer_def roomy_def)
  ultimately show ?thesis by simp
qed

lemma draws_diagnostics:
  assumes "roomy sv" and "desk_ok sv dk" and "on_pointer sv mx my" and "length (dg_sector dg) < 2 ^ 32"
    and "bx < 2 ^ 31" and "by' < 2 ^ 31"
  defines "win \<equiv> desktop_win dk"
  shows "draws (draw_diagnostics dg mx my bx by' win)"
proof -
  let ?x = "nat (win_x win)" and ?y = "nat (win_y win)"
  have b: "?x < 2 ^ 30" "?y < 2 ^ 30" using assms(1,2) by (auto simp: desk_ok_def roomy_def win_def)
  have u: "uadd (to_usize (win_x win)) 20 = Some (?x + 20)" "uadd (to_usize (win_y win)) 50 = Some (?y + 50)"
    "uadd bx 10 = Some (bx + 10)" "uadd by' 6 = Some (by' + 6)"
    using assms(1,2,5,6) b by (auto simp: desk_ok_def roomy_def to_usize_small win_def)
  note p = pointer_text_length [OF assms(1,3)]
  show ?thesis
    unfolding draw_diagnostics_def u bind.bind_lunit
    apply (intro draws_bind draws_if)
    apply (rule draws_window, use desk_window_fits [OF assms(1,2)] in \<open>simp add: win_def\<close>)
    using b p assms(4-6) by (auto intro!: draws_text draws_line draws_rect)
qed

lemma draws_bar_fill: "draws (\<lambda>s. draw_rect 0 0 (sv_width (server s)) 40 c s)"
proof -
  have "draws (on_screen (\<lambda>sv. screen_fill_rect sv 0 0 (sv_width sv) 40 c))"
  proof (rule draws_on_screen)
    fix sv v assume "screen_ok sv" and r: "roomy sv"
    then have "screen_ok sv \<and> below_screen_same sv v v" by (simp add: below_screen_same_def)
    moreover have "0 + sv_width sv < 2 ^ 64" "0 + (40 :: nat) < 2 ^ 64" using r by (simp_all add: roomy_def)
    ultimately show "\<exists>v'. screen_fill_rect sv 0 0 (sv_width sv) 40 c v = Some v' \<and> below_screen_same sv v v'"
      using rect_keeps [OF _ _ order_refl, of 0 "sv_width sv" 0 40 sv v] unfolding screen.keeps_def by blast
  qed
  then show ?thesis unfolding draw_rect_def on_screen_def .
qed

lemma draws_bar: "draws draw_bar"
  unfolding draw_bar_def by (intro draws_bind draws_blit draws_text draws_bar_fill) simp_all

lemma draws_cursor:
  assumes "roomy sv" and "on_pointer sv mx my"
  shows "draws (draw_cursor mx my d)"
proof -
  have b: "to_usize mx < 2 ^ 30" "to_usize my < 2 ^ 30"
    using assms by (auto simp: on_pointer_def roomy_def to_usize_small nat_less_iff)
  then have "uadd (to_usize mx) 1 = Some (to_usize mx + 1)" "uadd (to_usize my) 1 = Some (to_usize my + 1)" by simp_all
  note u = this
  show ?thesis unfolding draw_cursor_def Let_def u bind.bind_lunit using b by (intro draws_bind draws_rect) simp_all
qed

lemma draws_desktop:
  assumes "roomy sv" and "desk_ok sv dk" and "on_pointer sv mx my" and "length (dg_sector dg) < 2 ^ 32"
    and "x < 2 ^ 31" and "y < 2 ^ 31"
  shows "draws (draw_desktop dg mx my x y dk)"
  unfolding draw_desktop_def
  using assms by (auto intro!: draws_bind draws_if draws_bar draws_cursor draws_diagnostics)

lemma draws_kernel:
  assumes "draws f" and "kernel_ok e base sz s" and "roomy (server s)"
  shows "\<exists>s'. f s = Some s' \<and> kernel_step e base sz 0 s s' \<and> mouse_state s' = mouse_state s"
proof -
  have n: "net_ok e base sz s" "gfx_ok s" using assms(2) by (simp_all add: kernel_ok_def net_ok_def)
  with assms(1,3) obtain s' where s': "f s = Some s'" "gfx_ok s'" "same_but_terminal s s'" by (auto simp: draws_def)
  from net_step_terminal [OF n(1) s'(2,3)] have st: "net_step e base sz 0 s s'" .
  with kernel_fields_more [OF same_but_terminal_net(4) [OF s'(3)]] assms(2) net_step_ok [OF st] s'(1) show ?thesis
    by (simp add: kernel_step_def kernel_ok_def)
qed

section \<open>The iteration\<close>

text \<open>What the card may have delivered: nothing, or a frame of at least 42 bytes in a buffer.\<close>

definition rx_sane :: "('a kernel_scheme) env \<Rightarrow> 'a kernel_scheme \<Rightarrow> bool" where
  "rx_sane e s \<longleftrightarrow> (\<forall>nic. net_card s = Some nic \<longrightarrow>
     (let d = rx_head nic (mem (hw e s)) in rx_status d AND 1 = 0 \<or> 42 \<le> unat (rx_length d) \<and> rx_buffer_address d \<noteq> 0))"

text \<open>What an iteration keeps of the kernel, and the heap it may use.\<close>

definition loop_step :: "('a kernel_scheme) env \<Rightarrow> nat \<Rightarrow> nat \<Rightarrow> nat \<Rightarrow> 'a kernel_scheme \<Rightarrow> 'a kernel_scheme \<Rightarrow> bool" where
  "loop_step e base sz n s s' \<longleftrightarrow> kernel_ok e base sz s' \<and> heap_used (live s') \<le> heap_used (live s) + n
     \<and> http_payload s' = http_payload s \<and> nvme_drive s' = nvme_drive s \<and> lapic_base s' = lapic_base s
     \<and> sv_width (server s') = sv_width (server s) \<and> sv_height (server s') = sv_height (server s)"

lemma loop_step_trans: "loop_step e base sz n s t \<Longrightarrow> loop_step e base sz k t u \<Longrightarrow> loop_step e base sz (n + k) s u"
  by (simp add: loop_step_def)

lemma kernel_step_loop: "kernel_step e base sz n s s' \<Longrightarrow> loop_step e base sz n s s'"
  by (simp add: kernel_step_def net_step_def loop_step_def)

lemma kernel_ok_upd:
  "kernel_ok e base sz (s\<lparr>mem := m\<rparr>) = kernel_ok e base sz s"
  "mouse_ok ms \<Longrightarrow> kernel_ok e base sz s \<Longrightarrow> kernel_ok e base sz (s\<lparr>mouse_state := ms\<rparr>)"
  by (simp_all add: kernel_ok_def net_ok_def gfx_ok_def)

lemma poll_kernel:
  assumes "heap_ok e base sz" and "hw_mem_only e" and "kernel_ok e base sz s" and "reply_room sz s" and "rx_sane e s"
  shows "\<exists>s'. poll_net_card e s = Some s' \<and> loop_step e base sz (reply_size s + 4096) s s' \<and> mouse_state s' = mouse_state s"
proof (cases "net_card s")
  case None
  with assms(3) show ?thesis by (simp add: poll_net_card_def loop_step_def)
next
  case (Some nic)
  have n: "net_ok e base sz s" using assms(3) by (simp add: kernel_ok_def)
  show ?thesis
  proof (cases "rx_status (rx_head nic (mem (hw e s))) AND 1 = 0")
    case True
    obtain m where m: "hw e s = s\<lparr>mem := m\<rparr>" using assms(2) unfolding hw_mem_only_def by blast
    from poll_idle [OF assms(1) n Some True] Some have "poll_net_card e s = Some (s\<lparr>mem := m\<rparr>)"
      by (simp add: poll_net_card_def m)
    with assms(3) show ?thesis by (simp add: loop_step_def kernel_ok_upd)
  next
    case False
    with assms(5) Some have "42 \<le> unat (rx_length (rx_head nic (mem (hw e s))))" "rx_buffer_address (rx_head nic (mem (hw e s))) \<noteq> 0"
      by (auto simp: rx_sane_def Let_def)
    from poll_step [OF assms(1,2) n assms(4) Some False this] obtain s' where
      s': "poll e nic s = Some (True, s')" "net_ok e base sz s'" "http_payload s' = http_payload s" "same_rest s s'"
      "heap_used (live s') \<le> heap_used (live s) + (reply_size s + 4096)" by blast
    with kernel_fields_more [OF s'(4)] assms(3) Some show ?thesis
      by (simp add: poll_net_card_def loop_step_def kernel_ok_def)
  qed
qed

lemma drop_ring3_ok:
  assumes "kernel_ok e base sz s" and "roomy (server s)"
  shows "\<exists>s'. drop_ring3 cr0 cr3 s = Some s' \<and> loop_step e base sz 0 s s'"
proof -
  have d: "draws (\<lambda>s. print_str t c s \<bind> blit_terminal)" for t c by (intro draws_bind draws_print draws_blit)
  let ?pb = "\<lambda>t c s. print_str t c s \<bind> blit_terminal"
  from draws_kernel [OF draws_bind [OF d d] assms] obtain s1 where
    s1: "(?pb (10 # lit ''> [WARNING] EJECTING FROM KERNEL MODE. DROPPING TO RING-3...'' @ [10]) 0xEF4444 s
        \<bind> ?pb (lit ''> SYS: DISABLING CR0.WP & UNLOCKING MMU...'' @ [10]) 0xF59E0B) = Some s1" "kernel_step e base sz 0 s s1" by blast
  obtain m cr0' b where m: "unlock_mmu_for_ring3 cr0 cr3 (mem s1) = (m, cr0', b)" by (cases "unlock_mmu_for_ring3 cr0 cr3 (mem s1)") auto
  have "kernel_ok e base sz (s1\<lparr>mem := m\<rparr>)" "roomy (server (s1\<lparr>mem := m\<rparr>))"
    using s1(2) assms(2) by (simp_all add: kernel_ok_upd kernel_step_def roomy_def)
  from draws_kernel [OF d this] obtain s2 where
    s2: "?pb (lit ''> SYS: MMU UNLOCKED! FIRING IRETQ...'' @ [10]) 0x10B981 (s1\<lparr>mem := m\<rparr>) = Some s2"
    "kernel_step e base sz 0 (s1\<lparr>mem := m\<rparr>) s2" by blast
  have "loop_step e base sz 0 s s2"
    using kernel_step_loop [OF s1(2)] kernel_step_loop [OF s2(2)] by (simp add: loop_step_def)
  moreover have "drop_ring3 cr0 cr3 s = Some s2"
    unfolding drop_ring3_def using s1(1) s2(1) m by (auto simp: bind_eq_Some_conv Let_def)
  ultimately show ?thesis by blast
qed

text \<open>Pointer position after clamping.\<close>

abbreviation pointer_x :: "'a kernel_scheme \<Rightarrow> i32" where
  "pointer_x s \<equiv> clamped (int (sv_width (server s))) (MOUSE_X (mouse_state s))"

abbreviation pointer_y :: "'a kernel_scheme \<Rightarrow> i32" where
  "pointer_y s \<equiv> clamped (int (sv_height (server s))) (MOUSE_Y (mouse_state s))"

definition desktop_spec :: "desktop \<Rightarrow> 'a kernel_scheme \<Rightarrow> bool \<times> desktop" where
  "desktop_spec dk s = input_spec (MOUSE_BTN (mouse_state s)) (server s) (pointer_x s) (pointer_y s) dk"

lemma same_size:
  assumes "sv_width sv' = sv_width sv" and "sv_height sv' = sv_height sv"
  shows "input_spec b sv' mx my dk = input_spec b sv mx my dk" "desk_ok sv' dk = desk_ok sv dk" "roomy sv' = roomy sv"
  using assms by (simp_all add: input_spec_def desk_ok_def roomy_def Let_def)

lemma desktop_iter_step:
  assumes "heap_ok e base sz" and "hw_mem_only e" and "kernel_ok e base sz s" and "reply_room sz s" and "rx_sane e s"
    and "roomy (server s)" and "desk_ok (server s) dk" and "length (dg_sector dg) < 2 ^ 32"
  shows "\<exists>s'. desktop_iter e cr0 cr3 dg dk s = Some (if fst (desktop_spec dk s) then In_Ring3 s'
      else Running ((snd (desktop_spec dk s))\<lparr>old_mbtn := MOUSE_BTN (mouse_state s)\<rparr>) s')
    \<and> loop_step e base sz (reply_size s + 4096) s s'
    \<and> (\<not> fst (desktop_spec dk s) \<longrightarrow> mouse_state s' = (mouse_state s)\<lparr>MOUSE_X := pointer_x s, MOUSE_Y := pointer_y s\<rparr>
      \<and> (\<exists>s1. poll_net_card e s = Some s1 \<and> net_step e base sz 0 s1 s'))"
proof -
  let ?ms = "(mouse_state s)\<lparr>MOUSE_X := pointer_x s, MOUSE_Y := pointer_y s\<rparr>"
  from poll_kernel [OF assms(1-5)] obtain s1 where
    s1: "poll_net_card e s = Some s1" "loop_step e base sz (reply_size s + 4096) s s1" "mouse_state s1 = mouse_state s" by blast
  have k1: "kernel_ok e base sz s1" using s1(2) by (simp add: loop_step_def)
  then have m1: "mouse_ok (mouse_state s1)" by (simp add: kernel_ok_def)
  have sz1: "sv_width (server s1) = sv_width (server s)" "sv_height (server s1) = sv_height (server s)"
    using s1(2) by (simp_all add: loop_step_def)
  note sv1 = same_size [OF sz1]
  have r1: "roomy (server s1)" "desk_ok (server s1) dk" using assms(6,7) sv1 by simp_all
  define s2 where "s2 = s1\<lparr>mouse_state := ?ms\<rparr>"
  have c: "clamp_pointer s1 = Some (pointer_x s, pointer_y s, s2)"
    using clamp_pointer_eq [OF r1(1) m1] sz1 s1(3) by (simp add: s2_def)
  have p: "on_pointer (server s1) (pointer_x s) (pointer_y s)" using clamped_on_screen [OF r1(1)] sz1 by metis
  have "mouse_ok ?ms"
    using m1 p r1(1) unfolding s1(3) by (auto simp: mouse_ok_def on_pointer_def roomy_def in_i32_def)
  then have k2: "kernel_ok e base sz s2" unfolding s2_def by (rule kernel_ok_upd(2) [OF _ k1])
  have l2: "loop_step e base sz (reply_size s + 4096) s s2" using s1(2) k2 by (simp add: loop_step_def s2_def)
  have r2: "roomy (server s2)" "server s2 = server s1" using r1 by (simp_all add: s2_def)
  have h: "handle_input (MOUSE_BTN (mouse_state s)) (server s2) (pointer_x s) (pointer_y s)
      (nat (win_x (desktop_win dk)) + 20) (nat (win_y (desktop_win dk)) + 240) dk = Some (desktop_spec dk s)"
    unfolding r2(2) handle_input_eq [OF r1 p] desktop_spec_def sv1 ..
  have run: "desktop_iter e cr0 cr3 dg dk s =
    (let (drop_it, dk') = desktop_spec dk s in
     if drop_it then map_option In_Ring3 (drop_ring3 cr0 cr3 s2)
     else map_option (Running (dk'\<lparr>old_mbtn := MOUSE_BTN (mouse_state s)\<rparr>)) (draw_desktop dg (pointer_x s) (pointer_y s)
       (nat (win_x (desktop_win dk)) + 20) (nat (win_y (desktop_win dk)) + 240) dk' s2))"
    unfolding desktop_iter_def s1(1) bind.bind_lunit c s1(3) drop_button_pos [OF r1] h Let_def prod.case
    by (auto simp: map_option_case h split: prod.splits option.splits)
  show ?thesis
  proof (cases "fst (desktop_spec dk s)")
    case True
    from drop_ring3_ok [OF k2 r2(1)] obtain s3 where "drop_ring3 cr0 cr3 s2 = Some s3" "loop_step e base sz 0 s2 s3" by blast
    with loop_step_trans [OF l2, of 0 s3] True show ?thesis
      unfolding run by (auto simp: case_prod_beta)
  next
    case False
    let ?dk = "snd (desktop_spec dk s)"
    have "desk_ok (server s2) ?dk" using input_spec_ok [OF r1] unfolding r2(2) desktop_spec_def sv1 by simp
    moreover have "nat (win_x (desktop_win dk)) + 20 < 2 ^ 31" "nat (win_y (desktop_win dk)) + 240 < 2 ^ 31"
      using r1 by (auto simp: desk_ok_def roomy_def)
    ultimately have "draws (draw_desktop dg (pointer_x s) (pointer_y s) (nat (win_x (desktop_win dk)) + 20)
        (nat (win_y (desktop_win dk)) + 240) ?dk)"
      using r2 p assms(8) by (intro draws_desktop) simp_all
    from draws_kernel [OF this k2 r2(1)] obtain s3 where
      s3: "draw_desktop dg (pointer_x s) (pointer_y s) (nat (win_x (desktop_win dk)) + 20) (nat (win_y (desktop_win dk)) + 240) ?dk s2 = Some s3"
      "kernel_step e base sz 0 s2 s3" "mouse_state s3 = mouse_state s2" by blast
    have l3: "loop_step e base sz (reply_size s + 4096) s s3" using loop_step_trans [OF l2 kernel_step_loop [OF s3(2)]] by simp
    have "net_step e base sz 0 s2 s3" using s3(2) by (simp add: kernel_step_def)
    then have "net_step e base sz 0 s1 s3" unfolding net_step_def s2_def by (auto split: option.splits)
    with l3 s1(1) s3 False show ?thesis unfolding run by (auto simp: case_prod_beta s2_def)
  qed
qed

section \<open>Properties\<close>

text \<open>C3. One iteration of the main loop, in a kernel whose invariant holds, on a screen that holds
  the window, with whatever pointer position and buttons and whatever frame the card has delivered
  (of at least 42 bytes), does not panic. The window, the drag state and the decision to enter ring 3
  are those of the window-manager specification at the clamped pointer; the window stays on the screen
  below the top bar; the pointer is stored back clamped; the kernel's invariant holds again and at most
  one reply's worth of heap is used.\<close>

theorem desktop_iter_correct:
  assumes "heap_ok e base sz" and "hw_mem_only e" and "kernel_ok e base sz s" and "reply_room sz s" and "rx_sane e s"
    and "roomy (server s)" and "desk_ok (server s) dk" and "length (dg_sector dg) < 2 ^ 32"
  shows "\<exists>s'. desktop_iter e cr0 cr3 dg dk s = Some (if fst (desktop_spec dk s) then In_Ring3 s'
      else Running ((snd (desktop_spec dk s))\<lparr>old_mbtn := MOUSE_BTN (mouse_state s)\<rparr>) s')
    \<and> loop_step e base sz (reply_size s + 4096) s s' \<and> desk_ok (server s') (snd (desktop_spec dk s))
    \<and> (\<not> fst (desktop_spec dk s) \<longrightarrow> mouse_state s' = (mouse_state s)\<lparr>MOUSE_X := pointer_x s, MOUSE_Y := pointer_y s\<rparr>)"
proof -
  have "desk_ok (server s) (snd (desktop_spec dk s))" unfolding desktop_spec_def by (rule input_spec_ok [OF assms(6,7)])
  then have "desk_ok (server s') (snd (desktop_spec dk s))" if "loop_step e base sz (reply_size s + 4096) s s'" for s'
    using that same_size(2) [of "server s'" "server s"] by (simp add: loop_step_def)
  moreover from desktop_iter_step [OF assms] obtain s' where
    "desktop_iter e cr0 cr3 dg dk s = Some (if fst (desktop_spec dk s) then In_Ring3 s'
      else Running ((snd (desktop_spec dk s))\<lparr>old_mbtn := MOUSE_BTN (mouse_state s)\<rparr>) s')"
    "loop_step e base sz (reply_size s + 4096) s s'"
    "\<not> fst (desktop_spec dk s) \<longrightarrow> mouse_state s' = (mouse_state s)\<lparr>MOUSE_X := pointer_x s, MOUSE_Y := pointer_y s\<rparr>" by metis
  ultimately show ?thesis by (intro exI [of _ s'] conjI)
qed

text \<open>A kernel with an 800 by 600 screen and its terminal.\<close>

definition big_pixels :: "u32 list" where
  "big_pixels = replicate 448000 0xFFFFFF"

definition big_server :: compositor where
  "big_server = \<lparr>framebuffer = 0x80000000, sv_width = 800, sv_height = 600, sv_stride = 800,
     terminal_layer = Some \<lparr>cv_x = 0, cv_y = 40, cv_width = 800, cv_height = 560, cv_pixels = big_pixels\<rparr>\<rparr>"

definition desk_kernel :: kernel where
  "desk_kernel = demo_kernel\<lparr>server := big_server\<rparr>"

lemma desk_kernel_ok: "kernel_ok bump_env 0x100000 0x200000 desk_kernel"
proof -
  have "length big_pixels = 448000" unfolding big_pixels_def by (rule length_replicate)
  then have "gfx_ok desk_kernel"
    by (simp add: gfx_ok_def desk_kernel_def screen_ok_def term_ok_def canvas_ok_def big_server_def demo_kernel_fields)
  then show ?thesis
    using demo_kernel_ok by (simp add: kernel_ok_def net_ok_def desk_kernel_def)
qed

lemma desk_kernel_idle: "rx_sane bump_env desk_kernel"
  by (simp add: rx_sane_def desk_kernel_def demo_kernel_fields bump_env_def rx_head_def rx_decode_def load_bytes_def field_def Let_def)

lemma desk_kernel_room: "reply_room 0x200000 desk_kernel"
  using demo_room by (simp add: reply_room_def reply_size_def desk_kernel_def demo_kernel_def net.extend_def)

lemma desk_kernel_roomy: "roomy (server desk_kernel)"
  by (simp add: roomy_def desk_kernel_def big_server_def)

theorem desktop_iter_correct_witness:
  "\<exists>s'. desktop_iter bump_env 0 0 \<lparr>dg_nvme = True, dg_hda = False, dg_sector = lit ''FILE CONTENT: HELLO''\<rparr> desktop_start desk_kernel
    = Some (Running desktop_start s') \<and> mouse_state s' = mouse_start"
proof -
  have sp: "desktop_spec desktop_start desk_kernel = (False, desktop_start)"
    by (simp add: desktop_spec_def input_spec_def desk_kernel_def demo_kernel_fields mouse_start_def desktop_start_def window_new_def)
  have m: "mouse_state desk_kernel = mouse_start" "MOUSE_BTN mouse_start = 0" "old_mbtn desktop_start = 0"
    by (simp_all add: desk_kernel_def demo_kernel_fields mouse_start_def desktop_start_def)
  have c: "mouse_start\<lparr>MOUSE_X := pointer_x desk_kernel, MOUSE_Y := pointer_y desk_kernel\<rparr> = mouse_start"
    by (simp add: m(1)) (simp add: mouse_start_def clamped_def desk_kernel_def big_server_def)
  have o: "desktop_start\<lparr>old_mbtn := 0\<rparr> = desktop_start" by (simp add: desktop_start_def)
  from desktop_iter_correct [OF bump_heap_ok bump_hw desk_kernel_ok desk_kernel_room desk_kernel_idle desk_kernel_roomy
      desktop_start_ok [OF desk_kernel_roomy], of "\<lparr>dg_nvme = True, dg_hda = False, dg_sector = lit ''FILE CONTENT: HELLO''\<rparr>" 0 0]
  show ?thesis unfolding sp by (auto simp: m o c [unfolded m])
qed

text \<open>Pressing the left button on the title bar (but not on the close button) grabs the window
  without moving it; while the button stays down the window moves by exactly the pointer's displacement,
  limited so that it stays on the screen and below the top bar; releasing the button lets it go where
  it is.\<close>

lemma drag_follows:
  assumes "roomy sv" and "desk_ok sv dk" and "is_open (desktop_win dk)" and "\<not> is_dragging dk" and "\<not> bit (old_mbtn dk) 0"
    and "bit b 0" and "bit b' 0" and "on_pointer sv mx my" and "on_pointer sv mx' my'"
    and "in_box 0 0 600 24 (desktop_win dk) mx my" and "\<not> in_box 580 4 16 16 (desktop_win dk) mx my"
  defines "bx \<equiv> \<lambda>dk. nat (win_x (desktop_win dk)) + 20" and "by' \<equiv> \<lambda>dk. nat (win_y (desktop_win dk)) + 240"
  shows "\<exists>dk1 dk2. handle_input b sv mx my (bx dk) (by' dk) dk = Some (False, dk1) \<and> desktop_win dk1 = desktop_win dk
    \<and> handle_input b' sv mx' my' (bx dk1) (by' dk1) (dk1\<lparr>old_mbtn := b\<rparr>) = Some (False, dk2)
    \<and> win_x (desktop_win dk2) = clip 0 (int (sv_width sv) - 600) (win_x (desktop_win dk) + (mx' - mx))
    \<and> win_y (desktop_win dk2) = clip 40 (int (sv_height sv) - 300) (win_y (desktop_win dk) + (my' - my))
    \<and> handle_input 0 sv mx' my' (bx dk2) (by' dk2) dk2 = Some (False, dk2\<lparr>is_dragging := False\<rparr>)"
proof -
  let ?w = "desktop_win dk"
  let ?dk1 = "dk\<lparr>is_dragging := True, drag_offset_x := mx - win_x ?w, drag_offset_y := my - win_y ?w\<rparr>"
  let ?dk2 = "?dk1\<lparr>old_mbtn := b, desktop_win := ?w\<lparr>win_x := clip 0 (int (sv_width sv) - 600) (mx' - (mx - win_x ?w)),
      win_y := clip 40 (int (sv_height sv) - 300) (my' - (my - win_y ?w))\<rparr>\<rparr>"
  have nd: "\<not> in_box 20 240 380 24 ?w mx my" using assms(10) by (auto simp: in_box_def)
  have ok1: "desk_ok sv (?dk1\<lparr>old_mbtn := b\<rparr>)" using desk_ok_updates(2) [OF desk_ok_grabbed [OF assms(2,10)]] .
  have ok2: "desk_ok sv ?dk2" using desk_ok_dragged [OF assms(1) ok1] by simp
  have "input_spec b sv mx my dk = (False, ?dk1)"
    using assms(3-6,10,11) nd by (simp add: input_spec_def Let_def)
  moreover have "input_spec b' sv mx' my' (?dk1\<lparr>old_mbtn := b\<rparr>) = (False, ?dk2)"
    using assms(3,6,7) by (simp add: input_spec_def Let_def)
  moreover have "input_spec 0 sv mx' my' ?dk2 = (False, ?dk2\<lparr>is_dragging := False\<rparr>)"
    using assms(3) by (simp add: input_spec_def Let_def)
  ultimately show ?thesis
    using handle_input_eq [OF assms(1,2,8), of b] handle_input_eq [OF assms(1) ok1 assms(9), of b']
      handle_input_eq [OF assms(1) ok2 assms(9), of 0]
    by (intro exI [of _ ?dk1] exI [of _ ?dk2]) (simp add: bx_def by'_def algebra_simps)
qed

end
