(* ===== verification/KernelLoop.thy ===== *)
theory KernelLoop
  imports Desktop
begin

text \<open>
  The running kernel: the main loop of \<open>_start\<close> (\<open>src/src/main.rs\<close>) and the interrupt handlers of
  \<open>src/src/interrupts.rs\<close> as one event system. After the boot the processor sits in \<open>hlt\<close>; an interrupt
  runs its handler, and the loop goes round once when it is woken. Handlers are atomic here: they
  are interleaved with whole iterations of the loop.
\<close>

section \<open>Event systems\<close>

text \<open>\<open>reaches run ok weight n s r\<close>: from \<open>s\<close>, after admissible events that weigh \<open>n\<close> together, the outcome is \<open>r\<close>,
  where \<open>None\<close> is a halted system.\<close>

inductive reaches :: "('ev \<Rightarrow> 's \<Rightarrow> 's option) \<Rightarrow> ('ev \<Rightarrow> 's \<Rightarrow> bool) \<Rightarrow> ('ev \<Rightarrow> 's \<Rightarrow> nat) \<Rightarrow> nat \<Rightarrow> 's \<Rightarrow> 's option \<Rightarrow> bool"
  for run ok weight where
  start: "reaches run ok weight 0 s (Some s)"
| event: "reaches run ok weight n s (Some t) \<Longrightarrow> ok ev t \<Longrightarrow> reaches run ok weight (n + weight ev t) s (run ev t)"

text \<open>A system whose events keep an invariant and use an amount of a resource bounded by their weight.\<close>

locale metered =
  fixes run :: "'ev \<Rightarrow> 's \<Rightarrow> 's option" and ok :: "'ev \<Rightarrow> 's \<Rightarrow> bool" and weight :: "'ev \<Rightarrow> 's \<Rightarrow> nat" and inv :: "'s \<Rightarrow> bool"
    and used :: "'s \<Rightarrow> nat" and cost :: nat and cap :: nat
  assumes event_safe: "inv s \<Longrightarrow> ok ev s \<Longrightarrow> used s + weight ev s * cost \<le> cap
    \<Longrightarrow> \<exists>s'. run ev s = Some s' \<and> inv s' \<and> used s' \<le> used s + weight ev s * cost"
begin

lemma never_halts:
  assumes "reaches run ok weight n s r" and "inv s" and "used s + n * cost \<le> cap"
  shows "\<exists>t. r = Some t \<and> inv t \<and> used t \<le> used s + n * cost"
  using assms
proof (induction rule: reaches.induct)
  case (event n s t ev)
  then have t: "inv t" "used t \<le> used s + n * cost" by (auto simp: add_mult_distrib)
  with event(5) have "used t + weight ev t * cost \<le> cap" by (simp add: add_mult_distrib)
  from event_safe [OF t(1) event(2) this] t(2) show ?case by (auto simp: add_mult_distrib)
qed simp

end

section \<open>The kernel's events\<close>

text \<open>An interrupt, with the byte its handler finds at the keyboard controller's data port, or a
  round of the main loop.\<close>

datatype event = Irq u8 u8 | Round

definition with_port :: "u8 \<Rightarrow> 's env \<Rightarrow> 's env" where
  "with_port b e = e\<lparr>port_in := \<lambda>p s. (b, s)\<rparr>"

text \<open>Once control is in ring 3 interrupts are off and the loop is never resumed.\<close>

fun on_event :: "('a kernel_scheme) env \<Rightarrow> u64 \<Rightarrow> u64 \<Rightarrow> diagnostics \<Rightarrow> event \<Rightarrow> ('a kernel_scheme) outcome
    \<Rightarrow> ('a kernel_scheme) outcome option" where
  "on_event e cr0 cr3 dg (Irq vec b) (Running dk s) = map_option (Running dk) (interrupt (with_port b e) vec s)"
| "on_event e cr0 cr3 dg Round (Running dk s) = desktop_iter e cr0 cr3 dg dk s"
| "on_event e cr0 cr3 dg ev (In_Ring3 s) = Some (In_Ring3 s)"

text \<open>Device interrupts of the lines the kernel routes, and rounds in which the card has delivered
  nothing or a frame that is no runt.\<close>

fun admissible :: "('a kernel_scheme) env \<Rightarrow> event \<Rightarrow> ('a kernel_scheme) outcome \<Rightarrow> bool" where
  "admissible e (Irq vec b) out \<longleftrightarrow> vec \<in> {TIMER_INT, KEYBOARD_INT, MOUSE_INT, SYSCALL_INT}"
| "admissible e Round (Running dk s) \<longleftrightarrow> rx_sane e s"
| "admissible e Round (In_Ring3 s) \<longleftrightarrow> True"

fun kernel_of :: "('a kernel_scheme) outcome \<Rightarrow> 'a kernel_scheme" where
  "kernel_of (Running dk s) = s"
| "kernel_of (In_Ring3 s) = s"

fun loop_inv :: "('a kernel_scheme) env \<Rightarrow> nat \<Rightarrow> nat \<Rightarrow> rstr option \<Rightarrow> ('a kernel_scheme) outcome \<Rightarrow> bool" where
  "loop_inv e base sz pl (Running dk s) \<longleftrightarrow> kernel_ok e base sz s \<and> roomy (server s) \<and> desk_ok (server s) dk \<and> http_payload s = pl"
| "loop_inv e base sz pl (In_Ring3 s) \<longleftrightarrow> kernel_ok e base sz s \<and> http_payload s = pl"

definition heap_of :: "('a kernel_scheme) outcome \<Rightarrow> nat" where
  "heap_of out = heap_used (live (kernel_of out))"

text \<open>The heap one event may use: the largest reply and its bookkeeping.\<close>

definition event_cost :: "rstr option \<Rightarrow> nat" where
  "event_cost pl = 54 + length (http_body pl) + 4096"

lemma built_port: "built (with_port b e) ls = built e ls"
  by (induction ls) (auto simp: with_port_def)

lemma with_port_simps:
  "heap_ok (with_port b e) base sz = heap_ok e base sz" "kernel_ok (with_port b e) base sz s = kernel_ok e base sz s"
  "kernel_step (with_port b e) base sz n s s' = kernel_step e base sz n s s'" "port_pure (with_port b e)"
proof -
  have g: "galloc (with_port b e) = galloc e" by (simp add: with_port_def)
  then show "heap_ok (with_port b e) base sz = heap_ok e base sz" by (simp add: heap_ok_def built_port)
  have n: "net_ok (with_port b e) base sz s = net_ok e base sz s" for s :: "'a kernel_scheme"
    by (simp add: net_ok_def heap_inv_def built_port)
  then show "kernel_ok (with_port b e) base sz s = kernel_ok e base sz s" by (simp add: kernel_ok_def)
  with n show "kernel_step (with_port b e) base sz n s s' = kernel_step e base sz n s s'"
    by (simp add: kernel_step_def net_step_def kernel_ok_def)
  show "port_pure (with_port b e)" by (simp add: port_pure_def with_port_def)
qed

lemma reply_size_cost: "reply_size s + 4096 = event_cost (http_payload s)"
  by (simp add: reply_size_def event_cost_def)

lemma irq_gate:
  assumes "vec \<in> {TIMER_INT, KEYBOARD_INT, MOUSE_INT, SYSCALL_INT}"
  shows "\<exists>g. IDT vec = Some g \<and> g_handler g \<noteq> Double_Fault \<and> (g_handler g = Mouse_Irq \<longrightarrow> vec = MOUSE_INT)"
  using assms by (auto simp: IDT_def vectors)

lemma event_cost_min: "4156 \<le> event_cost (http_payload s)"
  using reply_size_60 [of s] reply_size_cost [of s] by simp

lemma irq_step:
  assumes "heap_ok e base sz" and "kernel_ok e base sz s" and "heap_used (live s) + 4156 \<le> sz"
    and "vec \<in> {TIMER_INT, KEYBOARD_INT, MOUSE_INT, SYSCALL_INT}"
  shows "\<exists>s'. interrupt (with_port b e) vec s = Some s' \<and> kernel_step e base sz 4156 s s'
    \<and> (vec \<noteq> MOUSE_INT \<longrightarrow> mouse_state s' = mouse_state s)"
proof -
  let ?e = "with_port b e"
  obtain g where
    g: "IDT vec = Some g" "g_handler g \<noteq> Double_Fault" "g_handler g = Mouse_Irq \<longrightarrow> vec = MOUSE_INT" using irq_gate [OF assms(4)] by blast
  have "heap_ok ?e base sz" "kernel_ok ?e base sz s" "heap_used (live s) + 60 + 4096 \<le> sz"
    using assms(1-3) by (simp_all add: with_port_simps)
  from handler_step [OF this(1) with_port_simps(4) this(2,3) g(2)] g(1,3) show ?thesis
    by (auto simp: interrupt_def with_port_simps)
qed

lemma irq_safe:
  assumes "heap_ok e base sz" and "loop_inv e base sz pl (Running dk s)" and "heap_used (live s) + event_cost pl \<le> sz"
    and "vec \<in> {TIMER_INT, KEYBOARD_INT, MOUSE_INT, SYSCALL_INT}"
  shows "\<exists>s'. interrupt (with_port b e) vec s = Some s' \<and> loop_inv e base sz pl (Running dk s')
    \<and> heap_used (live s') \<le> heap_used (live s) + event_cost pl \<and> net_step e base sz 4156 s s'
    \<and> (vec \<noteq> MOUSE_INT \<longrightarrow> mouse_state s' = mouse_state s)"
proof -
  have c: "4156 \<le> event_cost pl" "kernel_ok e base sz s" using event_cost_min [of s] assms(2) by simp_all
  with assms(3) have "heap_used (live s) + 4156 \<le> sz" by simp
  from irq_step [OF assms(1) c(2) this assms(4), of b] obtain s' where
    s': "interrupt (with_port b e) vec s = Some s'" "kernel_step e base sz 4156 s s'"
    "vec \<noteq> MOUSE_INT \<longrightarrow> mouse_state s' = mouse_state s" by blast
  from s'(2) have "sv_width (server s') = sv_width (server s)" "sv_height (server s') = sv_height (server s)"
    by (simp_all add: kernel_step_def)
  note sz' = same_size [OF this]
  from s'(2) assms(2) c have "loop_inv e base sz pl (Running dk s')" "heap_used (live s') \<le> heap_used (live s) + event_cost pl"
    unfolding loop_inv.simps sz' by (auto simp: kernel_step_def net_step_def)
  with s' show ?thesis by (auto simp: kernel_step_def)
qed

lemma round_safe:
  assumes "heap_ok e base sz" and "hw_mem_only e" and "loop_inv e base sz pl (Running dk s)" and "heap_used (live s) + event_cost pl \<le> sz"
    and "event_cost pl \<le> 64096" and "rx_sane e s" and "length (dg_sector dg) < 2 ^ 32"
  shows "\<exists>out. desktop_iter e cr0 cr3 dg dk s = Some out \<and> loop_inv e base sz pl out
    \<and> heap_of out \<le> heap_used (live s) + event_cost pl"
proof -
  have k: "kernel_ok e base sz s" "roomy (server s)" "desk_ok (server s) dk" "http_payload s = pl" using assms(3) by simp_all
  have r: "reply_room sz s" using assms(4,5) reply_size_cost [of s] k(4) by (simp add: reply_room_def)
  from desktop_iter_step [OF assms(1,2) k(1) r assms(6) k(2,3) assms(7), of cr0 cr3] obtain s' where
    s': "desktop_iter e cr0 cr3 dg dk s = Some (if fst (desktop_spec dk s) then In_Ring3 s'
      else Running ((snd (desktop_spec dk s))\<lparr>old_mbtn := MOUSE_BTN (mouse_state s)\<rparr>) s')"
    "loop_step e base sz (event_cost pl) s s'" unfolding reply_size_cost k(4) by metis
  from s'(2) have "sv_width (server s') = sv_width (server s)" "sv_height (server s') = sv_height (server s)"
    by (simp_all add: loop_step_def)
  note sz' = same_size [OF this]
  have "desk_ok (server s') ((snd (desktop_spec dk s))\<lparr>old_mbtn := MOUSE_BTN (mouse_state s)\<rparr>)"
    unfolding sz' desktop_spec_def by (rule desk_ok_updates(2) [OF input_spec_ok [OF k(2,3)]])
  with s' k(2,4) sz'(3) show ?thesis by (auto simp: loop_step_def heap_of_def)
qed

definition sized :: "('a kernel_scheme) env \<Rightarrow> nat \<Rightarrow> nat \<Rightarrow> rstr option \<Rightarrow> diagnostics \<Rightarrow> bool" where
  "sized e base sz pl dg \<longleftrightarrow> heap_ok e base sz \<and> hw_mem_only e \<and> event_cost pl \<le> 64096 \<and> length (dg_sector dg) < 2 ^ 32"

interpretation kernel: metered "on_event e cr0 cr3 dg" "admissible e" "\<lambda>_ _. 1" "\<lambda>out. sized e base sz pl dg \<and> loop_inv e base sz pl out"
    heap_of "event_cost pl" sz for e cr0 cr3 dg base sz pl
proof unfold_locales
  fix out :: "('a kernel_scheme) outcome" and ev
  assume inv: "sized e base sz pl dg \<and> loop_inv e base sz pl out" and ok: "admissible e ev out" and "heap_of out + 1 * event_cost pl \<le> sz"
  then have room: "heap_of out + event_cost pl \<le> sz" by simp
  show "\<exists>s'. on_event e cr0 cr3 dg ev out = Some s' \<and> (sized e base sz pl dg \<and> loop_inv e base sz pl s') \<and> heap_of s' \<le> heap_of out + 1 * event_cost pl"
  proof (cases out)
    case (In_Ring3 s)
    with inv show ?thesis by (cases ev) simp_all
  next
    case (Running dk s)
    show ?thesis
    proof (cases ev)
      case (Irq vec b)
      with irq_safe [of e base sz pl dk s vec b] inv ok room Running show ?thesis by (auto simp: sized_def heap_of_def)
    next
      case Round
      with round_safe [of e base sz pl dk s dg cr0 cr3] inv ok room Running show ?thesis by (auto simp: sized_def heap_of_def)
    qed
  qed
qed

section \<open>Properties\<close>

text \<open>From a booted kernel no sequence of timer, keyboard, mouse and \<open>int 0x80\<close> interrupts,
  with any bytes at the keyboard controller, interleaved with rounds of the main loop that receive
  anything but runt frames, halts the kernel, as long as the heap has room for one reply per event
  (every sent frame is leaked, so without that bound the heap runs out). The invariants of the
  compositor, the network card and the desktop hold throughout.\<close>

lemma kernel_never_halts:
  assumes "heap_ok e base sz" and "hw_mem_only e" and "kernel_ok e base sz s" and "roomy (server s)"
    and "event_cost (http_payload s) \<le> 64096" and "length (dg_sector dg) < 2 ^ 32"
    and "heap_used (live s) + n * event_cost (http_payload s) \<le> sz"
    and "reaches (on_event e cr0 cr3 dg) (admissible e) (\<lambda>_ _. 1) n (Running desktop_start s) r"
  shows "\<exists>out. r = Some out \<and> loop_inv e base sz (http_payload s) out
    \<and> heap_of out \<le> heap_used (live s) + n * event_cost (http_payload s)"
  using kernel.never_halts [OF assms(8), of base sz "http_payload s"] assms(1-7) desktop_start_ok [OF assms(4)]
  by (simp add: sized_def heap_of_def)

end
