(* ===== verification/Preempt.thy ===== *)
theory Preempt
  imports KernelLoop
begin

text \<open>
  Interrupts inside a round of the main loop (\<open>src/src/main.rs\<close>). A round is cut at the calls and at the accesses to the
  mouse driver's atomics, and an interrupt may come at every cut. What stays atomic is a call of \<open>poll\<close>, of
  \<open>terminal_print\<close> and of the drawing functions, and a handler.
\<close>

section \<open>The round as a sequence of calls\<close>

type_synonym 's call = "'s \<Rightarrow> 's option"

text \<open>The four conditional stores that clamp the pointer, over the locals \<open>mx\<close> and \<open>my\<close>.\<close>

definition low_x :: "i32 \<times> i32 \<times> 'a kernel_scheme \<Rightarrow> (i32 \<times> i32 \<times> 'a kernel_scheme) option" where
  "low_x = (\<lambda>(mx, my, s). Some (if mx < 0 then (0, my, s\<lparr>mouse_state := (mouse_state s)\<lparr>MOUSE_X := 0\<rparr>\<rparr>) else (mx, my, s)))"

definition low_y :: "i32 \<times> i32 \<times> 'a kernel_scheme \<Rightarrow> (i32 \<times> i32 \<times> 'a kernel_scheme) option" where
  "low_y = (\<lambda>(mx, my, s). Some (if my < 0 then (mx, 0, s\<lparr>mouse_state := (mouse_state s)\<lparr>MOUSE_Y := 0\<rparr>\<rparr>) else (mx, my, s)))"

definition high_x :: "i32 \<times> i32 \<times> 'a kernel_scheme \<Rightarrow> (i32 \<times> i32 \<times> 'a kernel_scheme) option" where
  "high_x = (\<lambda>(mx, my, s). if mx \<ge> to_i32 (sv_width (server s)) then do {
       mx \<leftarrow> isub (to_i32 (sv_width (server s))) 10;
       Some (mx, my, s\<lparr>mouse_state := (mouse_state s)\<lparr>MOUSE_X := mx\<rparr>\<rparr>)
     } else Some (mx, my, s))"

definition high_y :: "i32 \<times> i32 \<times> 'a kernel_scheme \<Rightarrow> (i32 \<times> i32 \<times> 'a kernel_scheme) option" where
  "high_y = (\<lambda>(mx, my, s). if my \<ge> to_i32 (sv_height (server s)) then do {
       my \<leftarrow> isub (to_i32 (sv_height (server s))) 10;
       Some (mx, my, s\<lparr>mouse_state := (mouse_state s)\<lparr>MOUSE_Y := my\<rparr>\<rparr>)
     } else Some (mx, my, s))"

definition clamp_stmts :: "(i32 \<times> i32 \<times> 'a kernel_scheme \<Rightarrow> (i32 \<times> i32 \<times> 'a kernel_scheme) option) list" where
  "clamp_stmts = [low_x, low_y, high_x, high_y]"

text \<open>The drawing calls. The corner of the texts is computed once in the code, from the window.\<close>

definition bar_calls :: "('a kernel_scheme) call list" where
  "bar_calls = [\<lambda>s. draw_rect 0 0 (sv_width (server s)) 40 0x1E293B s,
     draw_text 20 10 (lit ''QOREOS UNIKERNEL SECURE CONSOLE'') 0xFFFFFF 2,
     blit_terminal]"

definition at_text :: "window \<Rightarrow> (usize \<Rightarrow> usize \<Rightarrow> 's call) \<Rightarrow> 's call" where
  "at_text win f s = do {
     text_x \<leftarrow> uadd (to_usize (win_x win)) 20;
     text_y \<leftarrow> uadd (to_usize (win_y win)) 50;
     f text_x text_y s
   }"

definition diagnostics_calls :: "diagnostics \<Rightarrow> i32 \<Rightarrow> i32 \<Rightarrow> usize \<Rightarrow> usize \<Rightarrow> window \<Rightarrow> ('a kernel_scheme) call list" where
  "diagnostics_calls dg mx my drop_btn_x drop_btn_y win =
     [on_screen (\<lambda>sv. draw_window sv win),
      at_text win (\<lambda>x y. draw_text x y (lit ''MOUSE X: '' @ dec_int mx @ lit ''   MOUSE Y: '' @ dec_int my) 0x10B981 2),
      at_text win (\<lambda>x y. draw_line x y 40 (lit ''SYS: 2MB RING-0 SAFE ZONE ACTIVE'') 0xFFFFFF),
      at_text win (\<lambda>x y. draw_line x y 60 (lit ''SYS: E1000 NETWORK CARD ONLINE'') 0xFFFFFF),
      at_text win (\<lambda>x y. draw_line x y 80 (lit ''STORAGE: NVME CONTROLLER '' @
        (if dg_nvme dg then lit ''DATA SECURED'' else lit ''NOT DETECTED'')) 0x3B82F6),
      at_text win (\<lambda>x y. draw_line x y 100 (lit ''AUDIO: INTEL HDA '' @
        (if dg_hda dg then lit ''PLAYING 440HZ TONE'' else lit ''OFFLINE'')) 0x3B82F6)]
     @ (if length (dg_sector dg) > 0 then
          [at_text win (\<lambda>x y. draw_line x y 130 (lit ''FAT32 PAYLOAD DECRYPTED:'') 0x10B981),
           at_text win (\<lambda>x y. draw_line x y 150 (dg_sector dg) 0xF59E0B)]
        else [])
     @ [draw_rect drop_btn_x drop_btn_y 380 24 0xEF4444,
        \<lambda>s. do {
          x \<leftarrow> uadd drop_btn_x 10;
          y \<leftarrow> uadd drop_btn_y 6;
          draw_text x y (lit ''INITIATE SECURE RING-3 DROP (LOCKS GUI)'') 0xFFFFFF 1 s
        }]"

definition cursor_calls :: "i32 \<Rightarrow> i32 \<Rightarrow> bool \<Rightarrow> ('a kernel_scheme) call list" where
  "cursor_calls mx my dragging =
     [draw_rect (to_usize mx) (to_usize my) 8 8 0x000000,
      \<lambda>s. do {
        x \<leftarrow> uadd (to_usize mx) 1;
        y \<leftarrow> uadd (to_usize my) 1;
        draw_rect x y 6 6 (if dragging then 0x10B981 else 0x3B82F6) s
      }]"

definition draw_calls :: "diagnostics \<Rightarrow> i32 \<Rightarrow> i32 \<Rightarrow> usize \<Rightarrow> usize \<Rightarrow> desktop \<Rightarrow> ('a kernel_scheme) call list" where
  "draw_calls dg mx my drop_btn_x drop_btn_y dk =
     bar_calls
     @ (if is_open (desktop_win dk) then diagnostics_calls dg mx my drop_btn_x drop_btn_y (desktop_win dk) else [])
     @ cursor_calls mx my (is_dragging dk)"

definition drop_calls :: "u64 \<Rightarrow> u64 \<Rightarrow> ('a kernel_scheme) call list" where
  "drop_calls cr0 cr3 =
     [print_str (10 # lit ''> [WARNING] EJECTING FROM KERNEL MODE. DROPPING TO RING-3...'' @ [10]) 0xEF4444,
      blit_terminal,
      print_str (lit ''> SYS: DISABLING CR0.WP & UNLOCKING MMU...'' @ [10]) 0xF59E0B,
      blit_terminal,
      \<lambda>s. case unlock_mmu_for_ring3 cr0 cr3 (mem s) of (m, _) \<Rightarrow> Some (s\<lparr>mem := m\<rparr>),
      print_str (lit ''> SYS: MMU UNLOCKED! FIRING IRETQ...'' @ [10]) 0x10B981,
      blit_terminal]"

section \<open>The main loop as a state machine\<close>

text \<open>Where the main loop is, with its locals: about to poll, to read \<open>MOUSE_X\<close>, \<open>MOUSE_Y\<close> and \<open>MOUSE_BTN\<close>, to run the \<open>k\<close>-th
  clamping store, to act on the pointer, in the middle of its drawing calls or of the calls that end in \<open>iretq\<close>, or gone.\<close>

datatype 's loop_at =
    Polling desktop
  | Load_X desktop
  | Load_Y desktop i32
  | Load_Btn desktop i32 i32
  | Clamp desktop u8 i32 i32 nat
  | Act desktop u8 i32 i32
  | Draw desktop u8 "'s call list"
  | Drop "'s call list"
  | Ring3

fun loop_next :: "('a kernel_scheme) env \<Rightarrow> u64 \<Rightarrow> u64 \<Rightarrow> diagnostics \<Rightarrow> ('a kernel_scheme) loop_at \<Rightarrow> 'a kernel_scheme
    \<Rightarrow> (('a kernel_scheme) loop_at \<times> 'a kernel_scheme) option" where
  "loop_next e cr0 cr3 dg (Polling dk) s = map_option (Pair (Load_X dk)) (poll_net_card e s)"
| "loop_next e cr0 cr3 dg (Load_X dk) s = Some (Load_Y dk (MOUSE_X (mouse_state s)), s)"
| "loop_next e cr0 cr3 dg (Load_Y dk mx) s = Some (Load_Btn dk mx (MOUSE_Y (mouse_state s)), s)"
| "loop_next e cr0 cr3 dg (Load_Btn dk mx my) s = Some (Clamp dk (MOUSE_BTN (mouse_state s)) mx my 0, s)"
| "loop_next e cr0 cr3 dg (Clamp dk mbtn mx my k) s = do {
     (mx, my, s) \<leftarrow> (clamp_stmts ! k) (mx, my, s);
     Some (if k < 3 then Clamp dk mbtn mx my (Suc k) else Act dk mbtn mx my, s)
   }"
| "loop_next e cr0 cr3 dg (Act dk mbtn mx my) s = do {
     drop_btn_x \<leftarrow> uadd (to_usize (win_x (desktop_win dk))) 20;
     drop_btn_y \<leftarrow> uadd (to_usize (win_y (desktop_win dk))) 240;
     (drop_it, dk) \<leftarrow> handle_input mbtn (server s) mx my drop_btn_x drop_btn_y dk;
     Some (if drop_it then Drop (drop_calls cr0 cr3) else Draw dk mbtn (draw_calls dg mx my drop_btn_x drop_btn_y dk), s)
   }"
| "loop_next e cr0 cr3 dg (Draw dk mbtn []) s = Some (Polling (dk\<lparr>old_mbtn := mbtn\<rparr>), s)"
| "loop_next e cr0 cr3 dg (Draw dk mbtn (f # fs)) s = map_option (Pair (Draw dk mbtn fs)) (f s)"
| "loop_next e cr0 cr3 dg (Drop []) s = Some (Ring3, s)"
| "loop_next e cr0 cr3 dg (Drop (f # fs)) s = map_option (Pair (Drop fs)) (f s)"
| "loop_next e cr0 cr3 dg Ring3 s = Some (Ring3, s)"

text \<open>The loop runs on to the end of its round when nothing interrupts it, with at most \<open>fuel\<close> steps.\<close>

fun finish_round :: "nat \<Rightarrow> ('a kernel_scheme) env \<Rightarrow> u64 \<Rightarrow> u64 \<Rightarrow> diagnostics \<Rightarrow> ('a kernel_scheme) loop_at \<Rightarrow> 'a kernel_scheme
    \<Rightarrow> (('a kernel_scheme) outcome option) option" where
  "finish_round 0 e cr0 cr3 dg at s = None"
| "finish_round (Suc n) e cr0 cr3 dg at s =
     (case loop_next e cr0 cr3 dg at s of
        None \<Rightarrow> Some None
      | Some (Polling dk, s) \<Rightarrow> Some (Some (Running dk s))
      | Some (Ring3, s) \<Rightarrow> Some (Some (In_Ring3 s))
      | Some (at, s) \<Rightarrow> finish_round n e cr0 cr3 dg at s)"

section \<open>The steps add up to the round\<close>

abbreviation calls :: "'s call list \<Rightarrow> 's \<Rightarrow> 's option" where
  "calls \<equiv> foldM (\<lambda>f. f)"

lemma calls_append: "calls (fs @ gs) = (\<lambda>s. calls fs s \<bind> calls gs)"
  by (rule ext) (rule foldM_append)

lemma calls_Nil: "calls [] = Some"
  by (rule ext) simp

lemma calls_Cons: "calls (f # fs) = (\<lambda>s. f s \<bind> calls fs)"
  by (rule ext) (simp add: Option.bind_def split: option.splits)

lemma calls_single: "calls [f] = f"
  by (simp add: calls_Cons calls_Nil del: foldM.simps)

lemmas calls_simps = calls_single calls_Cons calls_Nil calls_append

lemma clamp_pointer_calls: "clamp_pointer s = calls clamp_stmts (MOUSE_X (mouse_state s), MOUSE_Y (mouse_state s), s)"
  unfolding clamp_pointer_def clamp_stmts_def calls_simps low_x_def low_y_def high_x_def high_y_def
  by (cases "MOUSE_X (mouse_state s) < 0"; cases "MOUSE_Y (mouse_state s) < 0") (simp_all del: foldM.simps)

lemma draw_bar_calls: "draw_bar s = calls bar_calls s"
  unfolding draw_bar_def bar_calls_def calls_simps by simp

lemma draw_cursor_calls: "draw_cursor mx my d s = calls (cursor_calls mx my d) s"
  unfolding draw_cursor_def cursor_calls_def calls_simps by simp

lemma drop_ring3_calls: "drop_ring3 cr0 cr3 s = calls (drop_calls cr0 cr3) s"
  unfolding drop_ring3_def drop_calls_def calls_simps by (simp add: case_prod_beta Let_def)

lemma draw_diagnostics_calls: "draw_diagnostics dg mx my bx by' win s = calls (diagnostics_calls dg mx my bx by' win) s"
proof (cases "uadd (to_usize (win_x win)) 20 = None \<or> uadd (to_usize (win_y win)) 50 = None")
  case True
  then show ?thesis
    unfolding draw_diagnostics_def diagnostics_calls_def calls_simps append_Cons append_Nil at_text_def
    by (auto simp del: foldM.simps uadd_Some_iff)
next
  case False
  then obtain tx ty where "uadd (to_usize (win_x win)) 20 = Some tx" "uadd (to_usize (win_y win)) 50 = Some ty" by auto
  then show ?thesis
    unfolding draw_diagnostics_def diagnostics_calls_def calls_append calls_simps append_Cons append_Nil at_text_def
    by (cases "dg_sector dg = []") (simp_all add: calls_simps del: foldM.simps uadd_Some_iff)
qed

lemma draw_desktop_calls: "draw_desktop dg mx my bx by' dk s = calls (draw_calls dg mx my bx by' dk) s"
  unfolding draw_desktop_def draw_calls_def calls_append draw_bar_calls draw_diagnostics_calls draw_cursor_calls
  by (simp add: calls_Nil del: foldM.simps)

lemma finish_drop: "length fs < n \<Longrightarrow> finish_round n e cr0 cr3 dg (Drop fs) s = Some (map_option In_Ring3 (calls fs s))"
proof (induction n arbitrary: fs s)
  case (Suc n)
  then show ?case by (cases fs) (auto simp: map_option_case split: option.splits)
qed simp

lemma finish_draw:
  "length fs < n \<Longrightarrow> finish_round n e cr0 cr3 dg (Draw dk mbtn fs) s
    = Some (map_option (Running (dk\<lparr>old_mbtn := mbtn\<rparr>)) (calls fs s))"
proof (induction n arbitrary: fs s)
  case (Suc n)
  then show ?case by (cases fs) (auto simp: map_option_case split: option.splits)
qed simp

lemma call_counts: "length (draw_calls dg mx my bx by' dk) \<le> 15" "length (drop_calls cr0 cr3) = 7"
  by (simp_all add: draw_calls_def bar_calls_def diagnostics_calls_def cursor_calls_def drop_calls_def)

lemma finish_act:
  assumes "16 \<le> n"
  shows "finish_round (Suc n) e cr0 cr3 dg (Act dk mbtn mx my) s = Some (do {
     drop_btn_x \<leftarrow> uadd (to_usize (win_x (desktop_win dk))) 20;
     drop_btn_y \<leftarrow> uadd (to_usize (win_y (desktop_win dk))) 240;
     (drop_it, dk) \<leftarrow> handle_input mbtn (server s) mx my drop_btn_x drop_btn_y dk;
     if drop_it then map_option In_Ring3 (drop_ring3 cr0 cr3 s)
     else do {
       s \<leftarrow> draw_desktop dg mx my drop_btn_x drop_btn_y dk s;
       Some (Running (dk\<lparr>old_mbtn := mbtn\<rparr>) s)
     }
   })"
proof -
  have c: "length (drop_calls cr0 cr3 :: ('a kernel_scheme) call list) < n"
    "length (draw_calls dg mx my bx by' dk' :: ('a kernel_scheme) call list) < n" for bx by' dk'
    using assms by (simp_all add: order_le_less_trans [OF call_counts(1)] call_counts(2))
  show ?thesis
    by (auto simp: finish_drop [OF c(1)] finish_draw [OF c(2)] drop_ring3_calls draw_desktop_calls map_option_case
        simp del: uadd_Some_iff foldM.simps split: bind_splits option.splits prod.splits)
qed

lemma finish_clamp:
  assumes "16 \<le> n"
  shows "finish_round (Suc (Suc (Suc (Suc (Suc n))))) e cr0 cr3 dg (Clamp dk mbtn mx my 0) s
    = (case calls clamp_stmts (mx, my, s) of None \<Rightarrow> Some None
       | Some (mx, my, s) \<Rightarrow> finish_round (Suc n) e cr0 cr3 dg (Act dk mbtn mx my) s)"
proof -
  have k: "finish_round (Suc (Suc m)) e cr0 cr3 dg (Clamp dk mbtn mx my k) s = (case (clamp_stmts ! k) (mx, my, s) of None \<Rightarrow> Some None
     | Some (mx, my, s) \<Rightarrow> finish_round (Suc m) e cr0 cr3 dg (if k < 3 then Clamp dk mbtn mx my (Suc k) else Act dk mbtn mx my) s)" for m k mx my s
    by (auto simp del: finish_round.simps(2) simp: finish_round.simps(2) [of "Suc m"] split: option.splits)
  show ?thesis
    by (auto simp: k clamp_stmts_def simp del: finish_round.simps split: option.splits)
qed

section \<open>Interrupts at every cut\<close>

text \<open>An interrupt, with the byte at the keyboard controller's port, or the next step of the main loop. In ring 3
  interrupts are off.\<close>

datatype moment = Interrupt u8 u8 | Next

fun preempt :: "('a kernel_scheme) env \<Rightarrow> u64 \<Rightarrow> u64 \<Rightarrow> diagnostics \<Rightarrow> moment \<Rightarrow> ('a kernel_scheme) loop_at \<times> 'a kernel_scheme
    \<Rightarrow> (('a kernel_scheme) loop_at \<times> 'a kernel_scheme) option" where
  "preempt e cr0 cr3 dg (Interrupt vec b) (at, s) =
     (case at of Ring3 \<Rightarrow> Some (Ring3, s) | _ \<Rightarrow> map_option (Pair at) (interrupt (with_port b e) vec s))"
| "preempt e cr0 cr3 dg Next (at, s) = loop_next e cr0 cr3 dg at s"

fun may_come :: "('a kernel_scheme) env \<Rightarrow> moment \<Rightarrow> ('a kernel_scheme) loop_at \<times> 'a kernel_scheme \<Rightarrow> bool" where
  "may_come e (Interrupt vec b) (at, s) \<longleftrightarrow> vec \<in> {TIMER_INT, KEYBOARD_INT, MOUSE_INT, SYSCALL_INT}"
| "may_come e Next (at, s) \<longleftrightarrow> (case at of Polling dk \<Rightarrow> rx_sane e s | _ \<Rightarrow> True)"

text \<open>Interrupts and polls may send a frame, nothing else does.\<close>

fun sends :: "moment \<Rightarrow> ('a kernel_scheme) loop_at \<times> 'a kernel_scheme \<Rightarrow> nat" where
  "sends (Interrupt vec b) (at, s) = 1"
| "sends Next (at, s) = (case at of Polling dk \<Rightarrow> 1 | _ \<Rightarrow> 0)"

definition safe_call :: "('a kernel_scheme) env \<Rightarrow> nat \<Rightarrow> nat \<Rightarrow> ('a kernel_scheme) call \<Rightarrow> bool" where
  "safe_call e base sz f \<longleftrightarrow> (\<forall>s. kernel_ok e base sz s \<and> roomy (server s) \<longrightarrow> (\<exists>s'. f s = Some s' \<and> loop_step e base sz 0 s s'))"

lemma draws_safe: "draws f \<Longrightarrow> safe_call e base sz f"
  unfolding safe_call_def using draws_kernel kernel_step_loop by blast

fun at_ok :: "('a kernel_scheme) env \<Rightarrow> nat \<Rightarrow> nat \<Rightarrow> compositor \<Rightarrow> ('a kernel_scheme) loop_at \<Rightarrow> bool" where
  "at_ok e base sz sv (Polling dk) \<longleftrightarrow> desk_ok sv dk"
| "at_ok e base sz sv (Load_X dk) \<longleftrightarrow> desk_ok sv dk"
| "at_ok e base sz sv (Load_Y dk mx) \<longleftrightarrow> desk_ok sv dk \<and> in_i32 mx"
| "at_ok e base sz sv (Load_Btn dk mx my) \<longleftrightarrow> desk_ok sv dk \<and> in_i32 mx \<and> in_i32 my"
| "at_ok e base sz sv (Clamp dk mbtn mx my k) \<longleftrightarrow> desk_ok sv dk \<and> in_i32 mx \<and> in_i32 my \<and> k \<le> 3
     \<and> (1 \<le> k \<longrightarrow> 0 \<le> mx) \<and> (2 \<le> k \<longrightarrow> 0 \<le> my) \<and> (3 \<le> k \<longrightarrow> mx < int (sv_width sv))"
| "at_ok e base sz sv (Act dk mbtn mx my) \<longleftrightarrow> desk_ok sv dk \<and> on_pointer sv mx my"
| "at_ok e base sz sv (Draw dk mbtn fs) \<longleftrightarrow> desk_ok sv dk \<and> list_all (safe_call e base sz) fs"
| "at_ok e base sz sv (Drop fs) \<longleftrightarrow> list_all (safe_call e base sz) fs"
| "at_ok e base sz sv Ring3 \<longleftrightarrow> True"

lemma at_ok_size:
  assumes "sv_width sv' = sv_width sv" and "sv_height sv' = sv_height sv"
  shows "at_ok e base sz sv' at = at_ok e base sz sv at"
  using assms by (cases at) (simp_all add: same_size(2) [OF assms] on_pointer_def)

definition loop_ok :: "('a kernel_scheme) env \<Rightarrow> nat \<Rightarrow> nat \<Rightarrow> rstr option \<Rightarrow> ('a kernel_scheme) loop_at \<times> 'a kernel_scheme \<Rightarrow> bool" where
  "loop_ok e base sz pl = (\<lambda>(at, s). kernel_ok e base sz s \<and> roomy (server s) \<and> http_payload s = pl \<and> at_ok e base sz (server s) at)"

lemma loop_step_ok:
  assumes "loop_step e base sz n s s'" and "roomy (server s)" and "http_payload s = pl" and "at_ok e base sz (server s) at"
  shows "loop_ok e base sz pl (at, s')"
proof -
  have d: "sv_width (server s') = sv_width (server s)" "sv_height (server s') = sv_height (server s)"
    using assms(1) by (simp_all add: loop_step_def)
  show ?thesis
    using assms unfolding loop_ok_def by (simp add: at_ok_size [OF d] same_size(3) [OF d] loop_step_def)
qed

section \<open>Every step is safe\<close>

lemma at_text_eq:
  assumes "roomy sv" and "desk_ok sv dk"
  shows "at_text (desktop_win dk) f = f (nat (win_x (desktop_win dk)) + 20) (nat (win_y (desktop_win dk)) + 50)"
proof -
  have "uadd (to_usize (win_x (desktop_win dk))) 20 = Some (nat (win_x (desktop_win dk)) + 20)"
    "uadd (to_usize (win_y (desktop_win dk))) 50 = Some (nat (win_y (desktop_win dk)) + 50)"
    using assms by (auto simp: desk_ok_def roomy_def to_usize_small)
  then show ?thesis by (intro ext) (simp add: at_text_def del: uadd_Some_iff)
qed

lemma diagnostics_calls_draw:
  assumes "roomy sv" and "desk_ok sv dk" and "on_pointer sv mx my" and "length (dg_sector dg) < 2 ^ 32"
    and "bx < 2 ^ 31" and "by' < 2 ^ 31" and "f \<in> set (diagnostics_calls dg mx my bx by' (desktop_win dk))"
  shows "draws f"
proof -
  let ?x = "nat (win_x (desktop_win dk))" and ?y = "nat (win_y (desktop_win dk))"
  have b: "?x < 2 ^ 30" "?y < 2 ^ 30" using assms(1,2) by (auto simp: desk_ok_def roomy_def)
  have u: "uadd bx 10 = Some (bx + 10)" "uadd by' 6 = Some (by' + 6)" using assms(5,6) by simp_all
  note p = pointer_text_length [OF assms(1,3)]
  have w: "draws (on_screen (\<lambda>sv. draw_window sv (desktop_win dk)))" by (rule draws_window [OF desk_window_fits [OF assms(1,2)]])
  have button: "draws (draw_text (bx + 10) (by' + 6) (lit ''INITIATE SECURE RING-3 DROP (LOCKS GUI)'') 0xFFFFFF 1)"
    using assms(5,6) by (intro draws_text) simp_all
  have texts: "draws (draw_text (?x + 20) (?y + 50) (lit ''MOUSE X: '' @ dec_int mx @ lit ''   MOUSE Y: '' @ dec_int my) 0x10B981 2)"
    using b p by (intro draws_text) simp_all
  have lines: "draws (draw_line (?x + 20) (?y + 50) dy t c)" if "length t < 2 ^ 32" "dy \<le> 150" for dy t c
    using b that by (intro draws_line) simp_all
  show ?thesis
    using assms(4-7) w button texts
    by (auto simp: diagnostics_calls_def at_text_eq [OF assms(1,2)] u bind.bind_lunit simp del: uadd_Some_iff intro!: lines draws_rect split: if_splits)
qed

lemma cursor_calls_draw:
  assumes "roomy sv" and "on_pointer sv mx my" and "f \<in> set (cursor_calls mx my d)"
  shows "draws f"
proof -
  have b: "to_usize mx < 2 ^ 30" "to_usize my < 2 ^ 30"
    using assms(1,2) by (auto simp: on_pointer_def roomy_def to_usize_small nat_less_iff)
  then have "uadd (to_usize mx) 1 = Some (to_usize mx + 1)" "uadd (to_usize my) 1 = Some (to_usize my + 1)" by simp_all
  with b assms(3) show ?thesis
    by (auto simp: cursor_calls_def bind.bind_lunit simp del: uadd_Some_iff intro!: draws_rect)
qed

lemma bar_calls_draw: "f \<in> set bar_calls \<Longrightarrow> draws f"
  using draws_bar_fill by (auto simp: bar_calls_def draws_blit intro!: draws_text)

lemma draw_calls_safe:
  assumes "roomy sv" and "desk_ok sv dk" and "on_pointer sv mx my" and "length (dg_sector dg) < 2 ^ 32"
    and "bx < 2 ^ 31" and "by' < 2 ^ 31"
  shows "list_all (safe_call e base sz) (draw_calls dg mx my bx by' dk)"
  using bar_calls_draw diagnostics_calls_draw [OF assms] cursor_calls_draw [OF assms(1,3)]
  by (auto simp: list_all_iff draw_calls_def intro!: draws_safe)

lemma drop_calls_safe: "list_all (safe_call e base sz) (drop_calls cr0 cr3)"
proof -
  have "safe_call e base sz (\<lambda>s. case unlock_mmu_for_ring3 cr0 cr3 (mem s) of (m, _) \<Rightarrow> Some (s\<lparr>mem := m\<rparr>))"
    by (auto simp: safe_call_def kernel_ok_upd loop_step_def split: prod.splits)
  then show ?thesis by (simp add: drop_calls_def draws_safe draws_print draws_blit)
qed

lemma clamp_step:
  assumes "kernel_ok e base sz s" and "roomy (server s)" and "at_ok e base sz (server s) (Clamp dk mbtn mx my k)"
  shows "\<exists>mx' my' s'. (clamp_stmts ! k) (mx, my, s) = Some (mx', my', s') \<and> loop_step e base sz 0 s s'
    \<and> at_ok e base sz (server s) (if k < 3 then Clamp dk mbtn mx' my' (Suc k) else Act dk mbtn mx' my')"
proof -
  have w: "to_i32 (sv_width (server s)) = int (sv_width (server s))" "to_i32 (sv_height (server s)) = int (sv_height (server s))"
    "isub (int (sv_width (server s))) 10 = Some (int (sv_width (server s)) - 10)"
    "isub (int (sv_height (server s))) 10 = Some (int (sv_height (server s)) - 10)"
    using assms(2) by (simp_all add: to_i32_small roomy_def isub_def in_i32_def)
  have m: "mouse_ok (mouse_state s)" using assms(1) by (simp add: kernel_ok_def)
  have store: "loop_step e base sz 0 s (s\<lparr>mouse_state := (mouse_state s)\<lparr>MOUSE_X := v\<rparr>\<rparr>)"
    "loop_step e base sz 0 s (s\<lparr>mouse_state := (mouse_state s)\<lparr>MOUSE_Y := v\<rparr>\<rparr>)" if "in_i32 v" for v
    using m that kernel_ok_upd(2) [OF _ assms(1)] by (simp_all add: loop_step_def mouse_ok_def)
  have k: "k \<in> {0, 1, 2, 3}" using assms(3) by auto
  have i: "in_i32 0" "in_i32 (int (sv_width (server s)) - 10)" "in_i32 (int (sv_height (server s)) - 10)"
    using assms(2) by (simp_all add: roomy_def in_i32_def)
  have r: "loop_step e base sz 0 s s" using assms(1) by (simp add: loop_step_def)
  show ?thesis
    using k assms(2,3) store i r
    by (auto simp: clamp_stmts_def low_x_def low_y_def high_x_def high_y_def w on_pointer_def roomy_def in_i32_def)
qed

lemma next_safe:
  assumes "sized e base sz pl dg" and "loop_ok e base sz pl (at, s)" and "may_come e Next (at, s)"
    and "heap_used (live s) + sends Next (at, s) * event_cost pl \<le> sz"
  shows "\<exists>at' s'. loop_next e cr0 cr3 dg at s = Some (at', s') \<and> loop_ok e base sz pl (at', s')
    \<and> heap_used (live s') \<le> heap_used (live s) + sends Next (at, s) * event_cost pl"
proof -
  have z: "heap_ok e base sz" "hw_mem_only e" "event_cost pl \<le> 64096" "length (dg_sector dg) < 2 ^ 32"
    using assms(1) by (simp_all add: sized_def)
  have k: "kernel_ok e base sz s" "roomy (server s)" "http_payload s = pl" "at_ok e base sz (server s) at"
    using assms(2) by (simp_all add: loop_ok_def)
  have keep: "loop_ok e base sz pl (at', s) \<longleftrightarrow> at_ok e base sz (server s) at'" for at'
    using k by (simp add: loop_ok_def)
  have call: "\<exists>s'. f s = Some s' \<and> loop_ok e base sz pl (at', s') \<and> heap_used (live s') \<le> heap_used (live s)"
    if "safe_call e base sz f" "at_ok e base sz (server s) at'" for f at'
  proof -
    from that(1) k(1,2) obtain s' where s': "f s = Some s'" "loop_step e base sz 0 s s'" unfolding safe_call_def by blast
    with loop_step_ok [OF s'(2) k(2,3) that(2)] show ?thesis by (auto simp: loop_step_def)
  qed
  show ?thesis
  proof (cases at)
    case (Polling dk)
    have r: "reply_room sz s" using z(3) assms(4) reply_size_cost [of s] k(3) Polling by (simp add: reply_room_def)
    from poll_kernel [OF z(1,2) k(1) r] assms(3) Polling obtain s' where
      s': "poll_net_card e s = Some s'" "loop_step e base sz (event_cost pl) s s'" unfolding reply_size_cost k(3) by auto
    with loop_step_ok [OF s'(2) k(2,3), of "Load_X dk"] k(4) Polling show ?thesis by (auto simp: loop_step_def)
  next
    case (Clamp dk mbtn mx my i)
    from clamp_step [OF k(1,2) k(4) [unfolded Clamp]] obtain mx' my' s' where
      s': "(clamp_stmts ! i) (mx, my, s) = Some (mx', my', s')" "loop_step e base sz 0 s s'"
      "at_ok e base sz (server s) (if i < 3 then Clamp dk mbtn mx' my' (Suc i) else Act dk mbtn mx' my')" by blast
    with loop_step_ok [OF s'(2) k(2,3) s'(3)] Clamp show ?thesis by (auto simp: loop_step_def)
  next
    case (Act dk mbtn mx my)
    have d: "desk_ok (server s) dk" "on_pointer (server s) mx my" using k(4) Act by simp_all
    have "nat (win_x (desktop_win dk)) + 20 < 2 ^ 31" "nat (win_y (desktop_win dk)) + 240 < 2 ^ 31"
      using d(1) k(2) by (auto simp: desk_ok_def roomy_def)
    note ds = draw_calls_safe [OF k(2) input_spec_ok [OF k(2) d(1)] d(2) z(4) this]
    obtain b dk' where i: "input_spec mbtn (server s) mx my dk = (b, dk')" by (cases "input_spec mbtn (server s) mx my dk")
    have "desk_ok (server s) dk'" using input_spec_ok [OF k(2) d(1), of mbtn mx my] i by simp
    moreover have "list_all (safe_call e base sz) (draw_calls dg mx my (nat (win_x (desktop_win dk)) + 20) (nat (win_y (desktop_win dk)) + 240) dk')"
      using ds [of e base sz mbtn mx my] i by simp
    ultimately show ?thesis
      using Act by (auto simp: drop_button_pos [OF k(2) d(1)] handle_input_eq [OF k(2) d] i keep drop_calls_safe simp del: uadd_Some_iff)
  next
    case (Draw dk mbtn fs)
    with k(4) call show ?thesis by (cases fs) (auto simp: keep desk_ok_updates)
  next
    case (Drop fs)
    with k(4) call show ?thesis by (cases fs) (auto simp: keep)
  qed (use k in \<open>auto simp: keep kernel_ok_def mouse_ok_def\<close>)
qed

lemma interrupt_safe:
  assumes "heap_ok e base sz" and "loop_ok e base sz pl (at, s)" and "heap_used (live s) + event_cost pl \<le> sz"
    and "vec \<in> {TIMER_INT, KEYBOARD_INT, MOUSE_INT, SYSCALL_INT}"
  shows "\<exists>s'. interrupt (with_port b e) vec s = Some s' \<and> loop_ok e base sz pl (at, s')
    \<and> heap_used (live s') \<le> heap_used (live s) + event_cost pl"
proof -
  have k: "kernel_ok e base sz s" "roomy (server s)" "http_payload s = pl" "at_ok e base sz (server s) at"
    using assms(2) by (simp_all add: loop_ok_def)
  have c: "4156 \<le> event_cost pl" using event_cost_min [of s] k(3) by simp
  then have "heap_used (live s) + 4156 \<le> sz" using assms(3) by simp
  from irq_step [OF assms(1) k(1) this assms(4), of b] obtain s' where
    s': "interrupt (with_port b e) vec s = Some s'" "kernel_step e base sz 4156 s s'" by blast
  note l = kernel_step_loop [OF s'(2)]
  with loop_step_ok [OF l k(2,3,4)] s'(1) c show ?thesis by (auto simp: loop_step_def)
qed

interpretation preempted: metered "preempt e cr0 cr3 dg" "may_come e" sends "\<lambda>c. sized e base sz pl dg \<and> loop_ok e base sz pl c"
    "\<lambda>c. heap_used (live (snd c))" "event_cost pl" sz for e cr0 cr3 dg base sz pl
proof unfold_locales
  fix c :: "('a kernel_scheme) loop_at \<times> 'a kernel_scheme" and ev
  assume inv: "sized e base sz pl dg \<and> loop_ok e base sz pl c" and ok: "may_come e ev c"
    and room: "heap_used (live (snd c)) + sends ev c * event_cost pl \<le> sz"
  obtain at s where c: "c = (at, s)" by (cases c)
  show "\<exists>c'. preempt e cr0 cr3 dg ev c = Some c' \<and> (sized e base sz pl dg \<and> loop_ok e base sz pl c')
      \<and> heap_used (live (snd c')) \<le> heap_used (live (snd c)) + sends ev c * event_cost pl"
  proof (cases ev)
    case (Interrupt vec b)
    have "heap_ok e base sz" using inv by (simp add: sized_def)
    from interrupt_safe [OF this, of pl at s vec b] inv ok room c Interrupt show ?thesis by (auto split: loop_at.splits)
  next
    case Next
    with next_safe [of e base sz pl dg at s cr0 cr3] inv ok room c show ?thesis by (force simp del: may_come.simps sends.simps)
  qed
qed

section \<open>A lost movement\<close>

lemma mouse_irq:
  assumes "unat (lapic_base s) + 0xB0 < 2 ^ 64"
  shows "\<exists>s'. interrupt (with_port b e) MOUSE_INT s = Some s' \<and> mouse_state s' = process_packet_byte b (mouse_state s)
    \<and> lapic_base s' = lapic_base s"
proof -
  have "IDT MOUSE_INT = Some \<lparr>g_handler = Mouse_Irq, g_dpl = 3, g_ist = None\<rparr>" by (simp add: IDT_def vectors)
  moreover have "wadd (lapic_base s) 0xB0 = Some (lapic_base s + 0xB0)" using assms by (simp add: wadd_def)
  ultimately show ?thesis
    by (simp add: interrupt_def mouse_interrupt_handler_def notify_end_of_interrupt_def with_port_def volatile_write32_def Let_def)
qed

lemma mouse_irqs:
  assumes "unat (lapic_base s) + 0xB0 < 2 ^ 64"
  shows "\<exists>s'. foldM (preempt e cr0 cr3 dg) (map (Interrupt MOUSE_INT) bs) (Load_X dk, s) = Some (Load_X dk, s')
      \<and> mouse_state s' = fold process_packet_byte bs (mouse_state s)"
    and "\<exists>s'. foldM (preempt e cr0 cr3 dg) (map (Interrupt MOUSE_INT) bs) (Load_Y dk mx, s) = Some (Load_Y dk mx, s')
      \<and> mouse_state s' = fold process_packet_byte bs (mouse_state s)"
proof -
  have "\<exists>s'. foldM (preempt e cr0 cr3 dg) (map (Interrupt MOUSE_INT) bs) (at, s) = Some (at, s')
      \<and> mouse_state s' = fold process_packet_byte bs (mouse_state s)" if "at = Load_X dk \<or> at = Load_Y dk mx" for at
    using assms
  proof (induction bs arbitrary: s)
    case (Cons b bs)
    from mouse_irq [OF Cons.prems, of b e] obtain s1 where
      s1: "interrupt (with_port b e) MOUSE_INT s = Some s1" "mouse_state s1 = process_packet_byte b (mouse_state s)" "lapic_base s1 = lapic_base s"
      by blast
    from Cons.IH [of s1] Cons.prems s1 that show ?case by auto
  qed simp
  then show "\<exists>s'. foldM (preempt e cr0 cr3 dg) (map (Interrupt MOUSE_INT) bs) (Load_X dk, s) = Some (Load_X dk, s')
      \<and> mouse_state s' = fold process_packet_byte bs (mouse_state s)"
    and "\<exists>s'. foldM (preempt e cr0 cr3 dg) (map (Interrupt MOUSE_INT) bs) (Load_Y dk mx, s) = Some (Load_Y dk mx, s')
      \<and> mouse_state s' = fold process_packet_byte bs (mouse_state s)" by simp_all
qed

section \<open>Properties\<close>


text \<open>C31. The clamping of the pointer races with the mouse interrupt. While the pointer is off the left edge, a
  movement whose packet arrives just before the loop reads \<open>MOUSE_X\<close> counts; one that arrives just after it is
  overwritten by the store of zero, however far it went.\<close>

theorem pointer_move_lost:
  assumes "kernel_ok e base sz s" and "MOUSE_CYCLE (mouse_state s) = 0" and "motion_ok p" and "MOUSE_X (mouse_state s) < 0"
  shows "(\<exists>at s'. foldM (preempt e cr0 cr3 dg) (map (Interrupt MOUSE_INT) (motion_bytes p) @ [Next, Next, Next, Next]) (Load_X dk, s)
      = Some (at, s') \<and> MOUSE_X (mouse_state s') = max 0 (wrap32 (MOUSE_X (mouse_state s) + mo_dx p)))
    \<and> (\<exists>at s'. foldM (preempt e cr0 cr3 dg) (Next # map (Interrupt MOUSE_INT) (motion_bytes p) @ [Next, Next, Next]) (Load_X dk, s)
      = Some (at, s') \<and> MOUSE_X (mouse_state s') = 0)"
proof -
  have l: "unat (lapic_base s) + 0xB0 < 2 ^ 64"
    using assms(1) by (cases "lapic_base s = 0") (auto simp: kernel_ok_def lapic_ok_def mmio_region_def)
  have "mouse_ok (mouse_state s)" using assms(1) by (simp add: kernel_ok_def)
  then have m: "MOUSE_X (fold process_packet_byte (motion_bytes p) (mouse_state s)) = wrap32 (MOUSE_X (mouse_state s) + mo_dx p)"
    using packet_decoded [OF _ assms(2,3)] by (simp add: moved_def)
  from mouse_irqs(1) [OF l, of e cr0 cr3 dg "motion_bytes p" dk] mouse_irqs(2) [OF l, of e cr0 cr3 dg "motion_bytes p" dk "MOUSE_X (mouse_state s)"]
  obtain s1 s2 where
    "foldM (preempt e cr0 cr3 dg) (map (Interrupt MOUSE_INT) (motion_bytes p)) (Load_X dk, s) = Some (Load_X dk, s1)"
    "mouse_state s1 = fold process_packet_byte (motion_bytes p) (mouse_state s)"
    "foldM (preempt e cr0 cr3 dg) (map (Interrupt MOUSE_INT) (motion_bytes p)) (Load_Y dk (MOUSE_X (mouse_state s)), s)
      = Some (Load_Y dk (MOUSE_X (mouse_state s)), s2)" by blast
  with m assms(4) show ?thesis by (auto simp: foldM_append clamp_stmts_def low_x_def)
qed

text \<open>The pointer 20 pixels off the edge and a movement of 50 to the right: it ends at 30, or at 0.\<close>

theorem pointer_move_lost_witness:
  "(\<exists>at s'. foldM (preempt bump_env 0 0 \<lparr>dg_nvme = True, dg_hda = True, dg_sector = []\<rparr>)
      (map (Interrupt MOUSE_INT) [0x08, 50, 0] @ [Next, Next, Next, Next])
      (Load_X desktop_start, desk_kernel\<lparr>mouse_state := mouse_start\<lparr>MOUSE_X := -20\<rparr>\<rparr>) = Some (at, s') \<and> MOUSE_X (mouse_state s') = 30)
    \<and> (\<exists>at s'. foldM (preempt bump_env 0 0 \<lparr>dg_nvme = True, dg_hda = True, dg_sector = []\<rparr>)
      (Next # map (Interrupt MOUSE_INT) [0x08, 50, 0] @ [Next, Next, Next])
      (Load_X desktop_start, desk_kernel\<lparr>mouse_state := mouse_start\<lparr>MOUSE_X := -20\<rparr>\<rparr>) = Some (at, s') \<and> MOUSE_X (mouse_state s') = 0)"
proof -
  let ?m = "mouse_start\<lparr>MOUSE_X := -20\<rparr>"
  have "mouse_ok ?m" by (simp add: mouse_ok_def mouse_start_def in_i32_def)
  then have k: "kernel_ok bump_env 0x100000 0x200000 (desk_kernel\<lparr>mouse_state := ?m\<rparr>)" by (rule kernel_ok_upd(2) [OF _ desk_kernel_ok])
  have b: "motion_bytes \<lparr>mo_btn = 0, mo_dx = 50, mo_dy = 0\<rparr> = [0x08, 50, 0]" by (simp add: motion_bytes_def motion_head_def)
  show ?thesis
    using pointer_move_lost [OF k, of "\<lparr>mo_btn = 0, mo_dx = 50, mo_dy = 0\<rparr>"] unfolding b
    by (simp add: mouse_start_def motion_ok_def wrap32_def)
qed

end
