(* ===== verification/Boot.thy ===== *)
theory Boot
  imports Machine
begin

text \<open>
  Device discovery at boot (\<open>src/src/main.rs\<close>, first half of \<open>_start\<close>): the ACPI tables, the
  enumeration of PCI Express functions through their memory-mapped configuration space, and the
  interrupt controllers' addresses.
\<close>

section \<open>What the scan finds\<close>

record devices =
  e1000_bar0 :: "u64 option"
  nvme_found :: bool
  nvme_bar0 :: u64
  hda_found :: bool
  hda_bar0 :: u64
  xhci_found :: bool
  xhci_bar0 :: u64

definition no_devices :: devices where
  "no_devices = \<lparr>e1000_bar0 = None, nvme_found = False, nvme_bar0 = 0, hda_found = False, hda_bar0 = 0,
     xhci_found = False, xhci_bar0 = 0\<rparr>"

section \<open>ACPI\<close>

text \<open>\<open>read_unaligned\<close> at a computed address; the address arithmetic is checked.\<close>

definition peek :: "memory \<Rightarrow> u64 \<Rightarrow> u64 \<Rightarrow> nat \<Rightarrow> 'b::len word option" where
  "peek m base off n = do {
     a \<leftarrow> wadd base off;
     Some (load_le m a n)
   }"

definition xsdt_entry :: "memory \<Rightarrow> u64 \<Rightarrow> nat \<Rightarrow> u64 \<times> u64 \<Rightarrow> u64 \<times> u64" where
  "xsdt_entry m entries_start i = (\<lambda>(mcfg_address, madt_address).
     let entry_address = load_le m (entries_start + of_nat (8 * i)) 8;
         table_sig = load_bytes m entry_address 4
     in case from_utf8 table_sig of
          Some sig \<Rightarrow> (if sig = lit ''MCFG'' then entry_address else mcfg_address,
                       if sig = lit ''APIC'' then entry_address else madt_address)
        | None \<Rightarrow> (mcfg_address, madt_address))"

definition scan_xsdt :: "memory \<Rightarrow> u64 \<Rightarrow> (u64 \<times> u64) option" where
  "scan_xsdt m rsdp = do {
     xsdt_address \<leftarrow> peek m rsdp 24 8;
     xsdt_length \<leftarrow> (peek m xsdt_address 4 4 :: u32 option);
     body \<leftarrow> wsub xsdt_length 36;
     let entry_count = unat (body div 8);
     entries_start \<leftarrow> wadd xsdt_address 36;
     Some (fold (xsdt_entry m entries_start) [0..<entry_count] (0, 0))
   }"

section \<open>PCI Express\<close>

definition pci_address :: "u64 \<Rightarrow> nat \<Rightarrow> nat \<Rightarrow> nat \<Rightarrow> u64 option" where
  "pci_address base bus device function = do {
     a \<leftarrow> wadd base (push_bit 20 (of_nat bus));
     a \<leftarrow> wadd a (push_bit 15 (of_nat device));
     wadd a (push_bit 12 (of_nat function))
   }"

definition vread8 :: "('a machine_scheme) env \<Rightarrow> u64 \<Rightarrow> u64 \<Rightarrow> 'a machine_scheme \<Rightarrow> (u8 \<times> 'a machine_scheme) option" where
  "vread8 e a off s = map_option (\<lambda>p. volatile_read8 e p s) (wadd a off)"

definition vread32 :: "('a machine_scheme) env \<Rightarrow> u64 \<Rightarrow> u64 \<Rightarrow> 'a machine_scheme \<Rightarrow> (u32 \<times> 'a machine_scheme) option" where
  "vread32 e a off s = map_option (\<lambda>p. volatile_read32 e p s) (wadd a off)"

definition bus_master :: "('a machine_scheme) env \<Rightarrow> u64 \<Rightarrow> 'a machine_scheme \<Rightarrow> 'a machine_scheme option" where
  "bus_master e pci_addr s = do {
     cmd_addr \<leftarrow> wadd pci_addr 0x04;
     let (cmd, s) = volatile_read16 e cmd_addr s;
     Some (volatile_write16 cmd_addr (cmd OR (push_bit 1 1 OR push_bit 2 1)) s)
   }"

text \<open>The 32- or 64-bit base address of the NVMe and audio controllers.\<close>

definition bar_low :: "u32 \<Rightarrow> u64" where
  "bar_low raw = ucast (raw AND 0xFFFFFFF0)"

definition read_bar :: "('a machine_scheme) env \<Rightarrow> u64 \<Rightarrow> 'a machine_scheme \<Rightarrow> (u64 \<times> 'a machine_scheme) option" where
  "read_bar e pci_addr s = do {
     (bar0_raw, s) \<leftarrow> vread32 e pci_addr 0x10 s;
     if drop_bit 1 bar0_raw AND 0x03 = 2 then do {
       (bar1_raw, s) \<leftarrow> vread32 e pci_addr 0x14 s;
       Some (push_bit 32 (ucast bar1_raw) OR bar_low bar0_raw, s)
     } else Some (bar_low bar0_raw, s)
   }"

definition scan_nic ::
  "('a machine_scheme) env \<Rightarrow> u64 \<Rightarrow> u8 \<Rightarrow> u8 \<Rightarrow> devices \<times> 'a machine_scheme \<Rightarrow> (devices \<times> 'a machine_scheme) option" where
  "scan_nic e pci_addr class_code subclass = (\<lambda>(d, s).
     if class_code = 0x02 \<and> subclass = 0x00 then do {
       (bar0_raw, s) \<leftarrow> vread32 e pci_addr 0x10 s;
       s \<leftarrow> bus_master e pci_addr s;
       Some (d\<lparr>e1000_bar0 := Some (bar_low bar0_raw)\<rparr>, s)
     } else Some (d, s))"

definition scan_nvme ::
  "('a machine_scheme) env \<Rightarrow> u64 \<Rightarrow> u8 \<Rightarrow> u8 \<Rightarrow> devices \<times> 'a machine_scheme \<Rightarrow> (devices \<times> 'a machine_scheme) option" where
  "scan_nvme e pci_addr class_code subclass = (\<lambda>(d, s).
     if class_code = 0x01 \<and> subclass = 0x08 then do {
       (bar, s) \<leftarrow> read_bar e pci_addr s;
       s \<leftarrow> bus_master e pci_addr s;
       Some (d\<lparr>nvme_found := True, nvme_bar0 := bar\<rparr>, s)
     } else Some (d, s))"

definition scan_hda ::
  "('a machine_scheme) env \<Rightarrow> u64 \<Rightarrow> u8 \<Rightarrow> u8 \<Rightarrow> devices \<times> 'a machine_scheme \<Rightarrow> (devices \<times> 'a machine_scheme) option" where
  "scan_hda e pci_addr class_code subclass = (\<lambda>(d, s).
     if class_code = 0x04 \<and> subclass = 0x03 then do {
       (bar, s) \<leftarrow> read_bar e pci_addr s;
       s \<leftarrow> bus_master e pci_addr s;
       Some (d\<lparr>hda_found := True, hda_bar0 := bar\<rparr>, s)
     } else Some (d, s))"

definition scan_xhci ::
  "('a machine_scheme) env \<Rightarrow> u64 \<Rightarrow> u8 \<Rightarrow> u8 \<Rightarrow> u8 \<Rightarrow> devices \<times> 'a machine_scheme \<Rightarrow> (devices \<times> 'a machine_scheme) option" where
  "scan_xhci e pci_addr class_code subclass prog_if = (\<lambda>(d, s).
     if class_code = 0x0C \<and> subclass = 0x03 \<and> prog_if = 0x30 then do {
       (bar0_raw, s) \<leftarrow> vread32 e pci_addr 0x10 s;
       Some (d\<lparr>xhci_found := True, xhci_bar0 := bar_low bar0_raw\<rparr>, s)
     } else Some (d, s))"

definition scan_function ::
  "('a machine_scheme) env \<Rightarrow> u64 \<Rightarrow> nat \<Rightarrow> nat \<Rightarrow> nat \<Rightarrow> devices \<times> 'a machine_scheme \<Rightarrow> (devices \<times> 'a machine_scheme) option" where
  "scan_function e base bus device function = (\<lambda>(d, s). do {
     pci_addr \<leftarrow> pci_address base bus device function;
     let (vendor_id, s) = volatile_read16 e pci_addr s;
     if vendor_id \<noteq> 0xFFFF then do {
       (class_code, s) \<leftarrow> vread8 e pci_addr 0x0B s;
       (subclass, s) \<leftarrow> vread8 e pci_addr 0x0A s;
       (prog_if, s) \<leftarrow> vread8 e pci_addr 0x09 s;
       r \<leftarrow> scan_nic e pci_addr class_code subclass (d, s);
       r \<leftarrow> scan_nvme e pci_addr class_code subclass r;
       r \<leftarrow> scan_hda e pci_addr class_code subclass r;
       scan_xhci e pci_addr class_code subclass prog_if r
     } else Some (d, s)
   })"

definition scan_pci :: "('a machine_scheme) env \<Rightarrow> u64 \<Rightarrow> devices \<times> 'a machine_scheme \<Rightarrow> (devices \<times> 'a machine_scheme) option" where
  "scan_pci e base =
     foldM (\<lambda>bus. foldM (\<lambda>device. foldM (scan_function e base bus device) [0..<8]) [0..<32]) [0..<256]"

section \<open>Interrupt controllers\<close>

text \<open>The loop over the entries of the MADT. The outer option is \<open>None\<close> when the loop does not end,
  the inner one when it panics.\<close>

definition madt_byte :: "memory \<Rightarrow> u64 \<Rightarrow> u32 \<Rightarrow> u64 \<Rightarrow> nat \<Rightarrow> 'b::len word option" where
  "madt_byte m madt offset k n = do {
     a \<leftarrow> wadd madt (ucast offset);
     peek m a k n
   }"

definition madt_entry :: "memory \<Rightarrow> u64 \<Rightarrow> u32 \<Rightarrow> u64 \<Rightarrow> (u32 \<times> u64) option" where
  "madt_entry m madt offset ioapic = do {
     entry_type \<leftarrow> (madt_byte m madt offset 0 1 :: u8 option);
     entry_len \<leftarrow> (madt_byte m madt offset 1 1 :: u8 option);
     ioapic \<leftarrow> (if entry_type = 1 then map_option ucast (madt_byte m madt offset 4 4 :: u32 option) else Some ioapic);
     offset \<leftarrow> wadd offset (ucast entry_len);
     Some (offset, ioapic)
   }"

partial_function (option) madt_loop :: "memory \<Rightarrow> u64 \<Rightarrow> u32 \<Rightarrow> u32 \<Rightarrow> u64 \<Rightarrow> u64 option option" where
  "madt_loop m madt len offset ioapic =
     (if offset < len then
        case madt_entry m madt offset ioapic of
          None \<Rightarrow> Some None
        | Some (offset, ioapic) \<Rightarrow> madt_loop m madt len offset ioapic
      else Some (Some ioapic))"

definition scan_madt :: "memory \<Rightarrow> u64 \<Rightarrow> (u64 \<times> u64) option option" where
  "scan_madt m madt =
     (case (peek m madt 0x24 4 :: u32 option, peek m madt 4 4 :: u32 option) of
        (Some local_apic_base, Some madt_length) \<Rightarrow>
          map_option (map_option (Pair (ucast local_apic_base))) (madt_loop m madt madt_length 0x2C 0)
      | _ \<Rightarrow> Some None)"

section \<open>The whole discovery\<close>

definition discover ::
  "('a machine_scheme) env \<Rightarrow> u64 \<Rightarrow> 'a machine_scheme \<Rightarrow> (devices \<times> u64 \<times> u64 \<times> 'a machine_scheme) option option" where
  "discover e rsdp s =
     (case from_utf8 (load_bytes (mem s) rsdp 8) of
        None \<Rightarrow> Some (Some (no_devices, 0, 0, s))
      | Some _ \<Rightarrow>
          (case do {
             (mcfg_address, madt_address) \<leftarrow> scan_xsdt (mem s) rsdp;
             (d, s) \<leftarrow> (if mcfg_address \<noteq> 0 then do {
                 pcie_base_addr \<leftarrow> peek (mem s) mcfg_address 44 8;
                 scan_pci e pcie_base_addr (no_devices, s)
               } else Some (no_devices, s));
             Some (madt_address, d, s)
           } of
             None \<Rightarrow> Some None
           | Some (madt_address, d, s) \<Rightarrow>
               if madt_address \<noteq> 0 then
                 map_option (map_option (\<lambda>(lapic, ioapic). (d, lapic, ioapic, s))) (scan_madt (mem s) madt_address)
               else Some (Some (d, 0, 0, s))))"

section \<open>The interrupt controller table\<close>

text \<open>Entries as the ACPI specification lays them out: the second byte is the entry's length.\<close>

definition madt_entry_ok :: "u8 list \<Rightarrow> bool" where
  "madt_entry_ok b \<longleftrightarrow> 2 \<le> length b \<and> unat (b ! 1) = length b \<and> (b ! 0 = 1 \<longrightarrow> 8 \<le> length b)"

definition ioapic_of :: "u8 list list \<Rightarrow> u64 \<Rightarrow> u64" where
  "ioapic_of = fold (\<lambda>b io. if b ! 0 = 1 then ucast (of_le (field b 4 4) :: u32) else io)"

lemma ucast_offset: "off < 2 ^ 32 \<Longrightarrow> (ucast (of_nat off :: u32) :: u64) = of_nat off"
  unfolding word_unat_eq_iff by (simp add: unsigned_ucast_eq unat_of_nat take_bit_nat_eq_self_iff)

lemma madt_byte_ok:
  assumes "load_bytes m (madt + of_nat off) (length b) = b" and "unat madt + off + length b < 2 ^ 64"
    and "off < 2 ^ 32" and "k + n \<le> length b"
  shows "madt_byte m madt (of_nat off) (of_nat k) n = Some (of_le (field b k n))"
proof -
  have "wadd madt (of_nat off) = Some (madt + of_nat off)" by (rule wadd_small) (use assms in simp)
  moreover have "wadd (madt + of_nat off) (of_nat k) = Some (madt + of_nat off + of_nat k)"
    by (rule wadd_small) (use assms unat_add_small [of madt off] in simp)
  ultimately show ?thesis
    using load_bytes_field [OF assms(1,4)] assms(3) by (simp add: madt_byte_def peek_def ucast_offset load_le_def)
qed

lemma field_1: "i < length b \<Longrightarrow> field b i 1 = [b ! i]"
  by (simp add: field_def take_Suc_conv_app_nth hd_drop_conv_nth take_Suc)

lemma madt_entry_step:
  assumes "load_bytes m (madt + of_nat off) (length b) = b" and "unat madt + off + length b < 2 ^ 64"
    and "off + length b < 2 ^ 32" and "madt_entry_ok b"
  shows "madt_entry m madt (of_nat off) io = Some (of_nat (off + length b), ioapic_of [b] io)"
proof -
  have o: "off < 2 ^ 32" using assms(3) by simp
  have l: "2 \<le> length b" "unat (b ! 1) = length b" "b ! 0 = 1 \<Longrightarrow> 8 \<le> length b" using assms(4) by (auto simp: madt_entry_ok_def)
  have "0 < length b" "1 < length b" using l(1) by linarith+
  note f = field_1 [OF this(1)] field_1 [OF this(2)]
  have t: "(madt_byte m madt (of_nat off) 0 1 :: u8 option) = Some (b ! 0)"
    using madt_byte_ok [OF assms(1,2) o, of 0 1, where ?'a = 8] l(1) f by simp
  have n: "(madt_byte m madt (of_nat off) 1 1 :: u8 option) = Some (b ! 1)"
    using madt_byte_ok [OF assms(1,2) o, of 1 1, where ?'a = 8] l(1) f by simp
  have a: "(madt_byte m madt (of_nat off) 4 4 :: u32 option) = Some (of_le (field b 4 4))" if "b ! 0 = 1"
    using madt_byte_ok [OF assms(1,2) o, of 4 4, where ?'a = 32] l(3) [OF that] by simp
  have "unat (of_nat off :: u32) = off" using o by (simp add: unat_of_nat take_bit_nat_eq_self_iff)
  moreover have u: "unat (ucast (b ! 1) :: u32) = length b"
    using l(2) assms(3) by (simp add: unsigned_ucast_eq take_bit_nat_eq_self_iff)
  ultimately have w: "wadd (of_nat off :: u32) (ucast (b ! 1)) = Some (of_nat off + ucast (b ! 1))"
    using assms(3) by (simp add: wadd_def)
  have "(ucast (b ! 1) :: u32) = of_nat (length b)" unfolding word_unat_eq_iff
    using u assms(3) by (simp add: unat_of_nat take_bit_nat_eq_self_iff)
  with w t n a show ?thesis by (simp add: madt_entry_def ioapic_of_def)
qed

lemma madt_loop_entries:
  assumes "load_bytes m (madt + of_nat off) (length (concat bs)) = concat bs" and "list_all madt_entry_ok bs"
    and "unat madt + off + length (concat bs) < 2 ^ 64" and "off + length (concat bs) < 2 ^ 32"
  shows "madt_loop m madt (of_nat (off + length (concat bs))) (of_nat off) io = Some (Some (ioapic_of bs io))"
  using assms
proof (induction bs arbitrary: off io)
  case Nil
  show ?case by (subst madt_loop.simps) (simp add: ioapic_of_def)
next
  case (Cons b bs)
  let ?n = "off + length (concat (b # bs))"
  have b: "madt_entry_ok b" "list_all madt_entry_ok bs" using Cons.prems(2) by simp_all
  have l: "load_bytes m (madt + of_nat off) (length b) = b"
    "load_bytes m (madt + of_nat (off + length b)) (length (concat bs)) = concat bs"
    using Cons.prems(1) load_bytes_append [of m "madt + of_nat off" b "concat bs"] by (simp_all add: add.assoc)
  have "2 \<le> length b" using b(1) by (simp add: madt_entry_ok_def)
  then have "(of_nat off :: u32) < of_nat ?n" using Cons.prems(4)
    by (auto simp: word_less_nat_alt unat_of_nat take_bit_nat_eq_self_iff simp del: of_nat_add)
  moreover have "madt_entry m madt (of_nat off) io = Some (of_nat (off + length b), ioapic_of [b] io)"
    by (rule madt_entry_step [OF l(1) _ _ b(1)]) (use Cons.prems(3,4) in simp_all)
  moreover have "madt_loop m madt (of_nat (off + length b + length (concat bs))) (of_nat (off + length b)) (ioapic_of [b] io)
      = Some (Some (ioapic_of bs (ioapic_of [b] io)))"
    by (rule Cons.IH [OF l(2) b(2)]) (use Cons.prems(3,4) in simp_all)
  ultimately show ?case by (subst madt_loop.simps) (simp add: ioapic_of_def add.assoc)
qed

text \<open>An entry that claims length 0 is met again and again.\<close>

lemma madt_loop_stuck:
  assumes "madt_loop m madt len off io = Some r" and "off < len"
    and "(madt_byte m madt off 0 1 :: u8 option) \<noteq> Some 1" and "(madt_byte m madt off 0 1 :: u8 option) \<noteq> None"
    and "(madt_byte m madt off 1 1 :: u8 option) = Some 0"
  shows False
proof -
  have "off < len \<longrightarrow> (madt_byte m madt off 0 1 :: u8 option) \<noteq> Some 1 \<longrightarrow> (madt_byte m madt off 0 1 :: u8 option) \<noteq> None \<longrightarrow>
      (madt_byte m madt off 1 1 :: u8 option) \<noteq> Some 0"
  proof (rule madt_loop.raw_induct [where P = "\<lambda>m madt len off io r. off < len \<longrightarrow> (madt_byte m madt off 0 1 :: u8 option) \<noteq> Some 1 \<longrightarrow>
      (madt_byte m madt off 0 1 :: u8 option) \<noteq> None \<longrightarrow> (madt_byte m madt off 1 1 :: u8 option) \<noteq> Some 0", OF _ assms(1)])
    fix loop :: "memory \<Rightarrow> u64 \<Rightarrow> u32 \<Rightarrow> u32 \<Rightarrow> u64 \<Rightarrow> u64 option option" and m madt len off io r
    assume IH: "\<And>m madt len off io r. loop m madt len off io = Some r \<Longrightarrow> off < len \<longrightarrow> (madt_byte m madt off 0 1 :: u8 option) \<noteq> Some 1 \<longrightarrow>
      (madt_byte m madt off 0 1 :: u8 option) \<noteq> None \<longrightarrow> (madt_byte m madt off 1 1 :: u8 option) \<noteq> Some 0"
      and ret: "(if off < len then case madt_entry m madt off io of None \<Rightarrow> Some None | Some (offset, ioapic) \<Rightarrow> loop m madt len offset ioapic
        else Some (Some io)) = Some r"
    show "off < len \<longrightarrow> (madt_byte m madt off 0 1 :: u8 option) \<noteq> Some 1 \<longrightarrow>
      (madt_byte m madt off 0 1 :: u8 option) \<noteq> None \<longrightarrow> (madt_byte m madt off 1 1 :: u8 option) \<noteq> Some 0"
    proof (intro impI notI)
      assume a: "off < len" "(madt_byte m madt off 0 1 :: u8 option) \<noteq> Some 1" "(madt_byte m madt off 0 1 :: u8 option) \<noteq> None"
        "(madt_byte m madt off 1 1 :: u8 option) = Some 0"
      then have "madt_entry m madt off io = Some (off, io)" 
        using unsigned_less [of off, where ?'a = nat] by (auto simp: madt_entry_def wadd_def)
      with ret a(1) have "loop m madt len off io = Some r" by simp
      from IH [OF this] a show False by blast
    qed
  qed
  with assms show False by blast
qed

section \<open>Enumeration against a reference\<close>

text \<open>The configuration header of a function, and the devices a list of headers stands for: the last
  function of each kind counts.\<close>

record pci_cfg =
  pc_vendor :: u16
  pc_class :: u8
  pc_subclass :: u8
  pc_prog_if :: u8
  pc_bar0 :: u32
  pc_bar1 :: u32

definition cfg_view :: "memory \<Rightarrow> u64 \<Rightarrow> pci_cfg" where
  "cfg_view m a = \<lparr>pc_vendor = load_le m a 2, pc_class = load_le m (a + 0x0B) 1, pc_subclass = load_le m (a + 0x0A) 1,
     pc_prog_if = load_le m (a + 0x09) 1, pc_bar0 = load_le m (a + 0x10) 4, pc_bar1 = load_le m (a + 0x14) 4\<rparr>"

definition pc_kind :: "u8 \<Rightarrow> u8 \<Rightarrow> pci_cfg \<Rightarrow> bool" where
  "pc_kind c sub v \<longleftrightarrow> pc_vendor v \<noteq> 0xFFFF \<and> pc_class v = c \<and> pc_subclass v = sub"

definition pc_xhci :: "pci_cfg \<Rightarrow> bool" where
  "pc_xhci v \<longleftrightarrow> pc_kind 0x0C 0x03 v \<and> pc_prog_if v = 0x30"

definition pc_master :: "pci_cfg \<Rightarrow> bool" where
  "pc_master v \<longleftrightarrow> pc_kind 0x02 0x00 v \<or> pc_kind 0x01 0x08 v \<or> pc_kind 0x04 0x03 v"

definition pc_bar :: "pci_cfg \<Rightarrow> u64" where
  "pc_bar v = (if drop_bit 1 (pc_bar0 v) AND 0x03 = 2 then push_bit 32 (ucast (pc_bar1 v)) OR bar_low (pc_bar0 v)
     else bar_low (pc_bar0 v))"

definition last_of :: "(pci_cfg \<Rightarrow> bool) \<Rightarrow> pci_cfg list \<Rightarrow> pci_cfg option" where
  "last_of P vs = List.find P (rev vs)"

definition devices_of :: "pci_cfg list \<Rightarrow> devices" where
  "devices_of vs = \<lparr>
     e1000_bar0 = map_option (\<lambda>v. bar_low (pc_bar0 v)) (last_of (pc_kind 0x02 0x00) vs),
     nvme_found = (last_of (pc_kind 0x01 0x08) vs \<noteq> None),
     nvme_bar0 = (case last_of (pc_kind 0x01 0x08) vs of None \<Rightarrow> 0 | Some v \<Rightarrow> pc_bar v),
     hda_found = (last_of (pc_kind 0x04 0x03) vs \<noteq> None),
     hda_bar0 = (case last_of (pc_kind 0x04 0x03) vs of None \<Rightarrow> 0 | Some v \<Rightarrow> pc_bar v),
     xhci_found = (last_of pc_xhci vs \<noteq> None),
     xhci_bar0 = (case last_of pc_xhci vs of None \<Rightarrow> 0 | Some v \<Rightarrow> bar_low (pc_bar0 v))\<rparr>"

lemma last_of_snoc: "last_of P (vs @ [v]) = (if P v then Some v else last_of P vs)"
  by (simp add: last_of_def)

text \<open>The effect of one header on the findings so far.\<close>

definition note_device :: "pci_cfg \<Rightarrow> devices \<Rightarrow> devices" where
  "note_device v d =
     (if pc_kind 0x02 0x00 v then d\<lparr>e1000_bar0 := Some (bar_low (pc_bar0 v))\<rparr>
      else if pc_kind 0x01 0x08 v then d\<lparr>nvme_found := True, nvme_bar0 := pc_bar v\<rparr>
      else if pc_kind 0x04 0x03 v then d\<lparr>hda_found := True, hda_bar0 := pc_bar v\<rparr>
      else if pc_xhci v then d\<lparr>xhci_found := True, xhci_bar0 := bar_low (pc_bar0 v)\<rparr>
      else d)"

lemma devices_of_fold: "fold note_device vs no_devices = devices_of vs"
proof (induction vs rule: rev_induct)
  case Nil
  show ?case by (simp add: devices_of_def no_devices_def last_of_def)
next
  case (snoc v vs)
  have "fold note_device (vs @ [v]) no_devices = note_device v (devices_of vs)" using snoc by simp
  also have "\<dots> = devices_of (vs @ [v])"
    by (auto simp: note_device_def devices_of_def last_of_snoc pc_kind_def pc_xhci_def)
  finally show ?case .
qed

text \<open>Configuration space: function \<open>i\<close> has the \<open>i\<close>-th page.\<close>

definition cfg_addr :: "u64 \<Rightarrow> nat \<Rightarrow> u64" where
  "cfg_addr base i = base + of_nat (4096 * i)"

definition ecam_fits :: "u64 \<Rightarrow> bool" where
  "ecam_fits base \<longleftrightarrow> unat base + 0x10000000 < 2 ^ 64"

lemma pci_address_ok:
  assumes "ecam_fits base" and "b < 256" and "d < 32" and "f < 8"
  shows "pci_address base b d f = Some (cfg_addr base (256 * b + 8 * d + f))"
proof -
  have p: "push_bit 20 (of_nat b :: u64) = of_nat (1048576 * b)" "push_bit 15 (of_nat d :: u64) = of_nat (32768 * d)"
    "push_bit 12 (of_nat f :: u64) = of_nat (4096 * f)" by (simp_all add: push_bit_eq_mult mult.commute)
  have u: "unat base + 1048576 * b + 32768 * d + 4096 * f < 2 ^ 64" using assms by (simp add: ecam_fits_def)
  have 1: "wadd base (of_nat (1048576 * b)) = Some (base + of_nat (1048576 * b))" by (rule wadd_small) (use u in simp)
  have u1: "unat (base + of_nat (1048576 * b)) = unat base + 1048576 * b" by (rule unat_add_small) (use u in simp)
  have 2: "wadd (base + of_nat (1048576 * b)) (of_nat (32768 * d)) = Some (base + of_nat (1048576 * b) + of_nat (32768 * d))"
    by (rule wadd_small) (use u u1 in simp)
  have u2: "unat (base + of_nat (1048576 * b) + of_nat (32768 * d)) = unat base + 1048576 * b + 32768 * d"
    using unat_add_small [of "base + of_nat (1048576 * b)" "32768 * d"] u u1 by simp
  have 3: "wadd (base + of_nat (1048576 * b) + of_nat (32768 * d)) (of_nat (4096 * f))
      = Some (base + of_nat (1048576 * b) + of_nat (32768 * d) + of_nat (4096 * f))"
    by (rule wadd_small) (use u u2 in simp)
  have "base + of_nat (1048576 * b) + of_nat (32768 * d) + of_nat (4096 * f) = cfg_addr base (256 * b + 8 * d + f)"
    by (simp add: cfg_addr_def algebra_simps)
  with 1 2 3 show ?thesis by (simp add: pci_address_def p del: of_nat_mult)
qed

text \<open>The command registers apart (bytes 4 and 5 of a header), configuration space stays the same.\<close>

definition cfg_same :: "u64 \<Rightarrow> memory \<Rightarrow> memory \<Rightarrow> bool" where
  "cfg_same base m m' \<longleftrightarrow> (\<forall>i < 65536. \<forall>k < 4096. k \<noteq> 4 \<and> k \<noteq> 5 \<longrightarrow>
     m' (cfg_addr base i + of_nat k) = m (cfg_addr base i + of_nat k))"

definition ecam_quiet :: "('a machine_scheme) env \<Rightarrow> u64 \<Rightarrow> bool" where
  "ecam_quiet e base \<longleftrightarrow> hw_mem_only e \<and> (\<forall>s. cfg_same base (mem s) (mem (hw e s)))"

definition ecam_inv :: "u64 \<Rightarrow> 'a machine_scheme \<Rightarrow> 'a machine_scheme \<Rightarrow> bool" where
  "ecam_inv base s0 s \<longleftrightarrow> (\<exists>m t. s = s0\<lparr>mem := m, io_trace := t\<rparr> \<and> cfg_same base (mem s0) m)"

lemma cfg_load:
  assumes "cfg_same base m m'" and "i < 65536" and "o' + n \<le> 4 \<or> 6 \<le> o' \<and> o' + n \<le> 4096"
  shows "load_le m' (cfg_addr base i + of_nat o') n = load_le m (cfg_addr base i + of_nat o') n"
proof -
  have "m' (cfg_addr base i + of_nat o' + of_nat j) = m (cfg_addr base i + of_nat o' + of_nat j)" if "j < n" for j
  proof -
    have "o' + j < 4096" "o' + j \<noteq> 4" "o' + j \<noteq> 5" using that assms(3) by auto
    then have "m' (cfg_addr base i + of_nat (o' + j)) = m (cfg_addr base i + of_nat (o' + j))"
      using assms(1,2) by (simp add: cfg_same_def del: of_nat_add)
    then show ?thesis by (simp add: add.assoc)
  qed
  then have "load_bytes m' (cfg_addr base i + of_nat o') n = load_bytes m (cfg_addr base i + of_nat o') n"
    unfolding load_bytes_def by (intro map_cong) simp_all
  then show ?thesis by (simp add: load_le_def)
qed

lemma cfg_view_same:
  assumes "cfg_same base m m'" and "i < 65536"
  shows "cfg_view m' (cfg_addr base i) = cfg_view m (cfg_addr base i)"
  using cfg_load [OF assms, of 0 2] cfg_load [OF assms, of "0x0B" 1] cfg_load [OF assms, of "0x0A" 1]
    cfg_load [OF assms, of "0x09" 1] cfg_load [OF assms, of "0x10" 4] cfg_load [OF assms, of "0x14" 4]
  by (simp add: cfg_view_def)

lemma cfg_same_trans: "cfg_same base m m1 \<Longrightarrow> cfg_same base m1 m2 \<Longrightarrow> cfg_same base m m2"
  by (simp add: cfg_same_def)

lemma of_nat_u64_inj: "(of_nat a :: u64) = of_nat b \<Longrightarrow> a < 2 ^ 64 \<Longrightarrow> b < 2 ^ 64 \<Longrightarrow> a = b"
  by (drule arg_cong [of _ _ unat]) (simp add: unat_of_nat take_bit_nat_eq_self_iff)

lemma cfg_same_write:
  assumes "i < 65536"
  shows "cfg_same base m (store_le m (cfg_addr base i + 4) 2 (w :: u16))"
  unfolding cfg_same_def
proof (intro allI impI)
  fix j k :: nat
  assume j: "j < 65536" "k < 4096" "k \<noteq> 4 \<and> k \<noteq> 5"
  define d where "d = cfg_addr base j + of_nat k - (cfg_addr base i + 4)"
  have "\<not> unat d < 2"
  proof
    assume "unat d < 2"
    moreover define t where "t = unat d"
    ultimately have t: "t < 2" "d = of_nat t" by simp_all
    have "of_nat (4096 * j + k) = (of_nat (4096 * i + 4 + t) :: u64)" using t(2) by (simp add: d_def cfg_addr_def algebra_simps)
    moreover have "4096 * j + k < 2 ^ 64" "4096 * i + 4 + t < 2 ^ 64" using j assms t(1) by simp_all
    ultimately have "4096 * j + k = 4096 * i + 4 + t"
      by (rule of_nat_u64_inj)
    then have "(4096 * j + k) mod 4096 = (4096 * i + (4 + t)) mod 4096" by (simp only: add.assoc)
    then have "k = 4 + t" using j(2) t(1) by simp
    then show False using j t(1) by auto
  qed
  then show "store_le m (cfg_addr base i + 4) 2 w (cfg_addr base j + of_nat k) = m (cfg_addr base j + of_nat k)"
    by (simp add: store_le_def store_bytes_def d_def)
qed

lemma ecam_hw:
  assumes "ecam_quiet e base" and "ecam_inv base s0 s"
  shows "ecam_inv base s0 (hw e s)" and "io_trace (hw e s) = io_trace s"
proof -
  obtain m where m: "hw e s = s\<lparr>mem := m\<rparr>" using assms(1) unfolding ecam_quiet_def hw_mem_only_def by blast
  then show "io_trace (hw e s) = io_trace s" by simp
  obtain m0 t where s: "s = s0\<lparr>mem := m0, io_trace := t\<rparr>" "cfg_same base (mem s0) m0" using assms(2) by (auto simp: ecam_inv_def)
  have "cfg_same base (mem s) (mem (hw e s))" using assms(1) by (simp add: ecam_quiet_def)
  then have "cfg_same base m0 m" unfolding m by (simp add: s(1))
  from cfg_same_trans [OF s(2) this] have "cfg_same base (mem s0) m" .
  then show "ecam_inv base s0 (hw e s)" unfolding m ecam_inv_def by (intro exI [of _ m] exI [of _ t]) (simp add: s(1))
qed

lemma ecam_view: "ecam_inv base s0 s \<Longrightarrow> i < 65536 \<Longrightarrow> cfg_view (mem s) (cfg_addr base i) = cfg_view (mem s0) (cfg_addr base i)"
  by (auto simp: ecam_inv_def cfg_view_same)

lemma cfg_offset:
  assumes "ecam_fits base" and "i < 65536" and "k < 4096"
  shows "wadd (cfg_addr base i) (of_nat k) = Some (cfg_addr base i + of_nat k)"
proof -
  have "unat (cfg_addr base i) = unat base + 4096 * i"
    unfolding cfg_addr_def by (rule unat_add_small) (use assms in \<open>simp add: ecam_fits_def\<close>)
  then show ?thesis by (intro wadd_small) (use assms in \<open>simp add: ecam_fits_def\<close>)
qed

text \<open>Reads of a header during the scan see the header as it was.\<close>

lemma ecam_reads:
  assumes "ecam_fits base" and "ecam_quiet e base" and "ecam_inv base s0 s" and "i < 65536"
  defines "a \<equiv> cfg_addr base i" and "v \<equiv> cfg_view (mem s0) (cfg_addr base i)"
  shows "volatile_read16 e a s = (pc_vendor v, hw e s)"
    and "vread8 e a 0x0B s = Some (pc_class v, hw e s)" and "vread8 e a 0x0A s = Some (pc_subclass v, hw e s)"
    and "vread8 e a 0x09 s = Some (pc_prog_if v, hw e s)"
    and "vread32 e a 0x10 s = Some (pc_bar0 v, hw e s)" and "vread32 e a 0x14 s = Some (pc_bar1 v, hw e s)"
proof -
  have v: "cfg_view (mem (hw e s)) a = v"
    using ecam_view [OF ecam_hw(1) [OF assms(2,3)] assms(4)] by (simp add: a_def v_def)
  note w = cfg_offset [OF assms(1,4), folded a_def]
  have w: "wadd a 0x0B = Some (a + 0x0B)" "wadd a 0x0A = Some (a + 0x0A)" "wadd a 0x09 = Some (a + 0x09)"
    "wadd a 0x10 = Some (a + 0x10)" "wadd a 0x14 = Some (a + 0x14)"
    using w [of "0x0B"] w [of "0x0A"] w [of "0x09"] w [of "0x10"] w [of "0x14"] by simp_all
  show "volatile_read16 e a s = (pc_vendor v, hw e s)"
    "vread8 e a 0x0B s = Some (pc_class v, hw e s)" "vread8 e a 0x0A s = Some (pc_subclass v, hw e s)"
    "vread8 e a 0x09 s = Some (pc_prog_if v, hw e s)"
    "vread32 e a 0x10 s = Some (pc_bar0 v, hw e s)" "vread32 e a 0x14 s = Some (pc_bar1 v, hw e s)"
    unfolding v [symmetric] by (simp_all add: cfg_view_def vread8_def vread32_def w volatile_defs Let_def)
qed

definition master_write :: "u64 \<Rightarrow> io \<Rightarrow> bool" where
  "master_write a w \<longleftrightarrow> (\<exists>c. w = Mmio16 (a + 4) c \<and> bit c 1 \<and> bit c 2)"

lemma bus_master_step:
  assumes "ecam_fits base" and "ecam_quiet e base" and "ecam_inv base s0 s" and "i < 65536"
  shows "\<exists>w s'. bus_master e (cfg_addr base i) s = Some s' \<and> ecam_inv base s0 s'
    \<and> io_trace s' = io_trace s @ [w] \<and> master_write (cfg_addr base i) w"
proof -
  let ?a = "cfg_addr base i + 4" and ?c = "load_le (mem (hw e s)) (cfg_addr base i + 4) 2 OR (push_bit 1 1 OR push_bit 2 1) :: u16"
  have "wadd (cfg_addr base i) 4 = Some ?a" using cfg_offset [OF assms(1,4), of 4] by simp
  then have r: "bus_master e (cfg_addr base i) s = Some (volatile_write16 ?a ?c (hw e s))"
    by (simp add: bus_master_def volatile_read16_def Let_def)
  obtain m t where m: "hw e s = s0\<lparr>mem := m, io_trace := t\<rparr>" "cfg_same base (mem s0) m"
    using ecam_hw(1) [OF assms(2,3)] by (auto simp: ecam_inv_def)
  have "cfg_same base (mem s0) (store_le m ?a 2 ?c)" by (rule cfg_same_trans [OF m(2) cfg_same_write [OF assms(4)]])
  then have "ecam_inv base s0 (volatile_write16 ?a ?c (hw e s))"
    unfolding ecam_inv_def volatile_write16_def
    by (intro exI [of _ "store_le m ?a 2 ?c"] exI [of _ "t @ [Mmio16 ?a ?c]"]) (simp add: m(1))
  moreover have "io_trace (volatile_write16 ?a ?c (hw e s)) = io_trace s @ [Mmio16 ?a ?c]"
    using ecam_hw(2) [OF assms(2,3)] by (simp add: volatile_write16_def)
  moreover have "master_write (cfg_addr base i) (Mmio16 ?a ?c)"
    by (auto simp: master_write_def bit_simps)
  ultimately show ?thesis using r by blast
qed

lemma read_bar_step:
  assumes "ecam_fits base" and "ecam_quiet e base" and "ecam_inv base s0 s" and "i < 65536"
  shows "\<exists>s'. read_bar e (cfg_addr base i) s = Some (pc_bar (cfg_view (mem s0) (cfg_addr base i)), s') \<and> ecam_inv base s0 s'
    \<and> io_trace s' = io_trace s"
proof -
  note h = ecam_hw [OF assms(2,3)]
  note h2 = ecam_hw [OF assms(2) h(1)]
  from ecam_reads(5) [OF assms] ecam_reads(6) [OF assms(1,2) h(1) assms(4)] h h2
  show ?thesis by (auto simp: read_bar_def pc_bar_def)
qed

text \<open>One function: the findings change as \<open>note_device\<close> says, and a bus-master write follows
  exactly for the three kinds of devices the kernel drives.\<close>

definition noted :: "u64 \<Rightarrow> 'a machine_scheme \<Rightarrow> nat \<Rightarrow> devices \<times> 'a machine_scheme \<Rightarrow> (devices \<times> 'a machine_scheme) option \<Rightarrow> bool" where
  "noted base s0 i = (\<lambda>(d, s) r. \<exists>s' ws. r = Some (note_device (cfg_view (mem s0) (cfg_addr base i)) d, s') \<and> ecam_inv base s0 s'
     \<and> io_trace s' = io_trace s @ ws
     \<and> list_all2 master_write (if pc_master (cfg_view (mem s0) (cfg_addr base i)) then [cfg_addr base i] else []) ws)"

lemma scan_function_step:
  assumes "ecam_fits base" and "ecam_quiet e base" and "ecam_inv base s0 s" and "b < 256" "dv < 32" "f < 8"
  shows "noted base s0 (256 * b + 8 * dv + f) (d, s) (scan_function e base b dv f (d, s))"
proof -
  define i where "i = 256 * b + 8 * dv + f"
  have i: "i < 65536" using assms(4-6) by (simp add: i_def)
  define v where "v = cfg_view (mem s0) (cfg_addr base i)"
  let ?a = "cfg_addr base i"
  define s1 where "s1 = hw e s"
  define s2 where "s2 = hw e s1"
  define s3 where "s3 = hw e s2"
  define s4 where "s4 = hw e s3"
  note q = assms(1,2)
  have i1: "ecam_inv base s0 s1" "io_trace s1 = io_trace s" using ecam_hw [OF assms(2,3)] by (simp_all add: s1_def)
  have i2: "ecam_inv base s0 s2" "io_trace s2 = io_trace s" using ecam_hw [OF assms(2) i1(1)] i1(2) by (simp_all add: s2_def)
  have i3: "ecam_inv base s0 s3" "io_trace s3 = io_trace s" using ecam_hw [OF assms(2) i2(1)] i2(2) by (simp_all add: s3_def)
  have i4: "ecam_inv base s0 s4" "io_trace s4 = io_trace s" using ecam_hw [OF assms(2) i3(1)] i3(2) by (simp_all add: s4_def)
  note r = ecam_reads(1) [OF q assms(3) i, folded v_def s1_def] ecam_reads(2) [OF q i1(1) i, folded v_def s2_def]
    ecam_reads(3) [OF q i2(1) i, folded v_def s3_def] ecam_reads(4) [OF q i3(1) i, folded v_def s4_def]
  have run: "scan_function e base b dv f (d, s) = (if pc_vendor v \<noteq> 0xFFFF then do {
       r \<leftarrow> scan_nic e ?a (pc_class v) (pc_subclass v) (d, s4);
       r \<leftarrow> scan_nvme e ?a (pc_class v) (pc_subclass v) r;
       r \<leftarrow> scan_hda e ?a (pc_class v) (pc_subclass v) r;
       scan_xhci e ?a (pc_class v) (pc_subclass v) (pc_prog_if v) r
     } else Some (d, s1))"
    using pci_address_ok [OF assms(1,4-6)] by (simp add: scan_function_def i_def [symmetric] r)
  have h: "ecam_inv base s0 (hw e s4)" "io_trace (hw e s4) = io_trace s" using ecam_hw [OF assms(2) i4(1)] i4(2) by simp_all
  have nic: "vread32 e ?a 0x10 s4 = Some (pc_bar0 v, hw e s4)" using ecam_reads(5) [OF q i4(1) i] by (simp add: v_def)
  note defs = noted_def scan_nic_def scan_nvme_def scan_hda_def scan_xhci_def note_device_def pc_kind_def pc_xhci_def pc_master_def
  consider "pc_vendor v = 0xFFFF" | "pc_kind 2 0 v" | "pc_kind 1 8 v" | "pc_kind 4 3 v"
    | "pc_vendor v \<noteq> 0xFFFF" "\<not> pc_kind 2 0 v" "\<not> pc_kind 1 8 v" "\<not> pc_kind 4 3 v" by blast
  then have "noted base s0 i (d, s) (scan_function e base b dv f (d, s))"
  proof cases
    case 1
    then show ?thesis unfolding run using i1 by (simp add: defs v_def [symmetric])
  next
    case 2
    from bus_master_step [OF q h(1) i] obtain w s' where "bus_master e ?a (hw e s4) = Some s'" "ecam_inv base s0 s'"
      "io_trace s' = io_trace s @ [w]" "master_write ?a w" using h(2) by auto
    then show ?thesis unfolding run using 2 nic by (simp add: defs v_def [symmetric])
  next
    case 3
    from read_bar_step [OF q i4(1) i] obtain t where t: "read_bar e ?a s4 = Some (pc_bar v, t)" "ecam_inv base s0 t" "io_trace t = io_trace s"
      using i4(2) by (auto simp: v_def)
    from bus_master_step [OF q t(2) i] obtain w s' where "bus_master e ?a t = Some s'" "ecam_inv base s0 s'"
      "io_trace s' = io_trace s @ [w]" "master_write ?a w" using t(3) by auto
    then show ?thesis unfolding run using 3 t(1) by (simp add: defs v_def [symmetric])
  next
    case 4
    from read_bar_step [OF q i4(1) i] obtain t where t: "read_bar e ?a s4 = Some (pc_bar v, t)" "ecam_inv base s0 t" "io_trace t = io_trace s"
      using i4(2) by (auto simp: v_def)
    from bus_master_step [OF q t(2) i] obtain w s' where "bus_master e ?a t = Some s'" "ecam_inv base s0 s'"
      "io_trace s' = io_trace s @ [w]" "master_write ?a w" using t(3) by auto
    then show ?thesis unfolding run using 4 t(1) by (simp add: defs v_def [symmetric])
  next
    case 5
    then show ?thesis unfolding run using i4 h nic by (auto simp: defs v_def [symmetric])
  qed
  then show ?thesis by (simp add: i_def)
qed

lemma foldM_product:
  "foldM (\<lambda>x. foldM (g x) ys) xs s = foldM (\<lambda>(x, y). g x y) (List.product xs ys) s"
proof (induction xs arbitrary: s)
  case (Cons x xs)
  have "foldM (\<lambda>(x, y). g x y) (map (Pair x) ys) s = foldM (g x) ys s" by (simp add: foldM_map)
  with Cons show ?case by (cases "foldM (g x) ys s") (simp_all add: foldM_append)
qed simp

lemma product_index: "map (\<lambda>(x, y). k * x + y) (List.product [0..<n] [0..<k]) = [0..<k * n]"
proof (induction n)
  case (Suc n)
  have "map (\<lambda>y. y + k * n) [0..<k] = [k * n..<k * n + k]" by (rule nth_equalityI) simp_all
  moreover have "[0..<k * n + k] = [0..<k * n] @ [k * n..<k * n + k]" by (rule upt_add_eq_append) simp
  ultimately show ?case using Suc by (simp add: product_concat_map o_def add.commute)
qed simp

definition pci_slots :: "(nat \<times> nat \<times> nat) list" where
  "pci_slots = List.product [0..<256] (List.product [0..<32] [0..<8])"

definition slot_index :: "nat \<times> nat \<times> nat \<Rightarrow> nat" where
  "slot_index = (\<lambda>(b, d, f). 256 * b + 8 * d + f)"

lemma scan_pci_slots: "scan_pci e base = foldM (\<lambda>(b, d, f). scan_function e base b d f) pci_slots"
proof (rule ext)
  fix s
  have i: "foldM (\<lambda>device. foldM (scan_function e base b device) [0..<8]) [0..<32]
      = foldM (\<lambda>(d, f). scan_function e base b d f) (List.product [0..<32] [0..<8])" for b
    by (rule ext) (rule foldM_product)
  show "scan_pci e base s = foldM (\<lambda>(b, d, f). scan_function e base b d f) pci_slots s"
    unfolding scan_pci_def i pci_slots_def
    using foldM_product [of "\<lambda>b (d, f). scan_function e base b d f"] by simp
qed

lemma slots_in_order: "map slot_index pci_slots = [0..<65536]"
proof -
  have "map slot_index pci_slots
      = map (\<lambda>(x, y). 256 * x + y) (map (\<lambda>(b, t). (b, (\<lambda>(x, y). 8 * x + y) t)) pci_slots)"
    by (simp add: slot_index_def case_prod_unfold)
  also have "map (\<lambda>(b, t). (b, (\<lambda>(x, y). 8 * x + y) t)) pci_slots
      = List.product [0..<256] (map (\<lambda>(x, y). 8 * x + y) (List.product [0..<32] [0..<8]))"
    unfolding pci_slots_def by (simp add: product_concat_map map_concat o_def case_prod_unfold)
  also have "\<dots> = List.product [0..<256] [0..<256]" using product_index [of 8 32] by simp
  also have "map (\<lambda>(x, y). 256 * x + y) \<dots> = [0..<256 * 256]" by (rule product_index)
  finally show ?thesis by simp
qed

lemma scan_slots:
  assumes "ecam_fits base" and "ecam_quiet e base" and "ecam_inv base s0 s"
    and "\<forall>(b, d, f) \<in> set ts. b < 256 \<and> d < 32 \<and> f < 8"
  shows "\<exists>s' ws. foldM (\<lambda>(b, d, f). scan_function e base b d f) ts (d, s)
      = Some (fold note_device (map (\<lambda>i. cfg_view (mem s0) (cfg_addr base i)) (map slot_index ts)) d, s')
    \<and> ecam_inv base s0 s' \<and> io_trace s' = io_trace s @ ws
    \<and> list_all2 master_write (map (cfg_addr base) (filter (\<lambda>i. pc_master (cfg_view (mem s0) (cfg_addr base i))) (map slot_index ts))) ws"
  using assms(3,4)
proof (induction ts arbitrary: d s)
  case (Cons t ts)
  obtain b dv f where t: "t = (b, dv, f)" by (cases t)
  have ti: "slot_index t = 256 * b + 8 * dv + f" by (simp add: t slot_index_def)
  have "b < 256" "dv < 32" "f < 8" using Cons.prems(2) by (auto simp: t)
  from scan_function_step [OF assms(1,2) Cons.prems(1) this, of d] obtain s1 ws1 where
    s1: "scan_function e base b dv f (d, s) = Some (note_device (cfg_view (mem s0) (cfg_addr base (slot_index t))) d, s1)"
    "ecam_inv base s0 s1" "io_trace s1 = io_trace s @ ws1"
    "list_all2 master_write (if pc_master (cfg_view (mem s0) (cfg_addr base (slot_index t))) then [cfg_addr base (slot_index t)] else []) ws1"
    unfolding ti noted_def by blast
  from Cons.IH [OF s1(2)] Cons.prems(2) obtain s' ws2 where
    s': "foldM (\<lambda>(b, d, f). scan_function e base b d f) ts (note_device (cfg_view (mem s0) (cfg_addr base (slot_index t))) d, s1)
      = Some (fold note_device (map (\<lambda>i. cfg_view (mem s0) (cfg_addr base i)) (map slot_index ts)) (note_device (cfg_view (mem s0) (cfg_addr base (slot_index t))) d), s')"
    "ecam_inv base s0 s'" "io_trace s' = io_trace s1 @ ws2"
    "list_all2 master_write (map (cfg_addr base) (filter (\<lambda>i. pc_master (cfg_view (mem s0) (cfg_addr base i))) (map slot_index ts))) ws2"
    by fastforce
  have "list_all2 master_write (map (cfg_addr base) (filter (\<lambda>i. pc_master (cfg_view (mem s0) (cfg_addr base i))) (map slot_index (t # ts)))) (ws1 @ ws2)"
    using list_all2_appendI [OF s1(4) s'(4)] by (simp split: if_splits)
  with s1(1,3) s' show ?case by (intro exI [of _ s'] exI [of _ "ws1 @ ws2"]) (simp add: t)
qed simp

section \<open>Properties\<close>

text \<open>C15. The PCI enumeration, over every bus, device and function of a configuration space
  that the devices leave alone (their command registers apart), never panics and finds what the
  reference says: of each kind of device the last function in bus, device, function order, with its
  32- or 64-bit base address; and it writes exactly the command registers of the network, NVMe and
  audio functions, each once, in that order, with memory decoding and bus mastering enabled.\<close>

theorem pci_scan_finds_last:
  assumes "ecam_fits base" and "ecam_quiet e base"
  shows "\<exists>s' ws. scan_pci e base (no_devices, s) = Some (devices_of (map (\<lambda>i. cfg_view (mem s) (cfg_addr base i)) [0..<65536]), s')
    \<and> io_trace s' = io_trace s @ ws
    \<and> list_all2 master_write (map (cfg_addr base) (filter (\<lambda>i. pc_master (cfg_view (mem s) (cfg_addr base i))) [0..<65536])) ws"
proof -
  have "ecam_inv base s s" unfolding ecam_inv_def by (intro exI [of _ "mem s"] exI [of _ "io_trace s"]) (simp add: cfg_same_def)
  moreover have "\<forall>(b, d, f) \<in> set pci_slots. b < 256 \<and> d < 32 \<and> f < 8" by (auto simp: pci_slots_def)
  ultimately show ?thesis
    using scan_slots [OF assms(1,2), of s s pci_slots no_devices]
    unfolding scan_pci_slots slots_in_order devices_of_fold by blast
qed

text \<open>A configuration space with one function, an NVMe controller with a 64-bit address at slot 3.\<close>

definition demo_cfg :: memory where
  "demo_cfg = (\<lambda>a. if unat (a - 0xB0018000) < 0x18
     then [0x86, 0x80, 0, 0, 0, 0, 0, 0, 0, 0x02, 0x08, 0x01, 0, 0, 0, 0, 0x04, 0, 0xBF, 0xFE, 1, 0, 0, 0] ! unat (a - 0xB0018000)
     else 0xFF)"

theorem pci_scan_finds_last_witness:
  "\<exists>d s'. scan_pci bump_env 0xB0000000 (no_devices, \<lparr>mem = demo_cfg, io_trace = [], live = []\<rparr>) = Some (d, s')"
proof -
  have f: "ecam_fits 0xB0000000" by (simp add: ecam_fits_def)
  have q: "ecam_quiet (bump_env :: machine env) 0xB0000000" by (simp add: ecam_quiet_def hw_mem_only_def bump_env_def cfg_same_def)
  from pci_scan_finds_last [OF f q, of "\<lparr>mem = demo_cfg, io_trace = [], live = []\<rparr>"] show ?thesis by auto
qed


definition demo_madt :: "u8 list list" where
  "demo_madt = [[0, 8, 0, 0, 1, 0, 0, 0], [1, 12, 0, 0, 0, 0, 0xC0, 0xFE, 0, 0, 0, 0]]"


end
