(* ===== verification/Hda.thy ===== *)
theory Hda
  imports Terminal
begin

text \<open>
  The audio driver (\<open>src/src/hda.rs\<close>): controller reset, the command and response rings, and the
  output stream that plays a square wave by DMA. The controller is the environment's \<open>hw\<close>, which
  acts before each read of a register.
\<close>

section \<open>The driver\<close>

record intel_hda =
  hda_bar0 :: u64
  corb_ptr :: u64
  rirb_ptr :: u64

definition hda_new :: "u64 \<Rightarrow> intel_hda" where
  "hda_new bar0 = \<lparr>hda_bar0 = bar0, corb_ptr = 0, rirb_ptr = 0\<rparr>"

definition hda_read_reg :: "('a machine_scheme) env \<Rightarrow> intel_hda \<Rightarrow> u64 \<Rightarrow> 'a machine_scheme \<Rightarrow> (u32 \<times> 'a machine_scheme) option" where
  "hda_read_reg e h offset s = do { a \<leftarrow> wadd (hda_bar0 h) offset; Some (volatile_read32 e a s) }"

definition hda_read_reg16 :: "('a machine_scheme) env \<Rightarrow> intel_hda \<Rightarrow> u64 \<Rightarrow> 'a machine_scheme \<Rightarrow> (u16 \<times> 'a machine_scheme) option" where
  "hda_read_reg16 e h offset s = do { a \<leftarrow> wadd (hda_bar0 h) offset; Some (volatile_read16 e a s) }"

definition hda_read_reg8 :: "('a machine_scheme) env \<Rightarrow> intel_hda \<Rightarrow> u64 \<Rightarrow> 'a machine_scheme \<Rightarrow> (u8 \<times> 'a machine_scheme) option" where
  "hda_read_reg8 e h offset s = do { a \<leftarrow> wadd (hda_bar0 h) offset; Some (volatile_read8 e a s) }"

definition hda_write_reg :: "intel_hda \<Rightarrow> u64 \<Rightarrow> u32 \<Rightarrow> 'a machine_scheme \<Rightarrow> 'a machine_scheme option" where
  "hda_write_reg h offset v s = do { a \<leftarrow> wadd (hda_bar0 h) offset; Some (volatile_write32 a v s) }"

definition hda_write_reg16 :: "intel_hda \<Rightarrow> u64 \<Rightarrow> u16 \<Rightarrow> 'a machine_scheme \<Rightarrow> 'a machine_scheme option" where
  "hda_write_reg16 h offset v s = do { a \<leftarrow> wadd (hda_bar0 h) offset; Some (volatile_write16 a v s) }"

definition hda_write_reg8 :: "intel_hda \<Rightarrow> u64 \<Rightarrow> u8 \<Rightarrow> 'a machine_scheme \<Rightarrow> 'a machine_scheme option" where
  "hda_write_reg8 h offset v s = do { a \<leftarrow> wadd (hda_bar0 h) offset; Some (volatile_write8 a v s) }"

section \<open>Initialisation\<close>

text \<open>The rings: both engines stopped, base addresses, sizes, pointers reset, both engines started.\<close>

definition hda_rings :: "('a machine_scheme) env \<Rightarrow> intel_hda \<Rightarrow> 'a machine_scheme \<Rightarrow> (intel_hda \<times> 'a machine_scheme) option" where
  "hda_rings e h s = do {
     let (corb, s) = alloc_zeroed e 4096 4096 s;
     let (rirb, s) = alloc_zeroed e 4096 4096 s;
     let h = h\<lparr>corb_ptr := corb, rirb_ptr := rirb\<rparr>;
     s \<leftarrow> hda_write_reg8 h 0x4C 0 s;
     s \<leftarrow> hda_write_reg8 h 0x5C 0 s;
     s \<leftarrow> hda_write_reg h 0x40 (ucast (corb_ptr h AND 0xFFFFFFFF)) s;
     s \<leftarrow> hda_write_reg h 0x44 (ucast (drop_bit 32 (corb_ptr h))) s;
     s \<leftarrow> hda_write_reg h 0x50 (ucast (rirb_ptr h AND 0xFFFFFFFF)) s;
     s \<leftarrow> hda_write_reg h 0x54 (ucast (drop_bit 32 (rirb_ptr h))) s;
     s \<leftarrow> hda_write_reg8 h 0x4E 0x02 s;
     s \<leftarrow> hda_write_reg8 h 0x5E 0x02 s;
     s \<leftarrow> hda_write_reg16 h 0x4A (push_bit 15 1) s;
     s \<leftarrow> hda_write_reg16 h 0x4A 0 s;
     s \<leftarrow> hda_write_reg16 h 0x48 0 s;
     s \<leftarrow> hda_write_reg16 h 0x58 (push_bit 15 1) s;
     s \<leftarrow> hda_write_reg8 h 0x4C (push_bit 1 1) s;
     s \<leftarrow> hda_write_reg8 h 0x5C (push_bit 1 1) s;
     Some (h, s)
   }"

definition hda_init :: "('a gfx_scheme) env \<Rightarrow> intel_hda \<Rightarrow> 'a gfx_scheme \<Rightarrow> (intel_hda \<times> 'a gfx_scheme) option" where
  "hda_init e h s = do {
     (gcap, s) \<leftarrow> hda_read_reg e h 0x00 s;
     s \<leftarrow> print_str (10 # lit ''> HDA: AUDIO SILICON DETECTED AND MAPPED.'' @ [10]) 0x3B82F6 s;
     s \<leftarrow> hda_write_reg h 0x08 1 s;
     a \<leftarrow> wadd (hda_bar0 h) 0x08;
     let (awake, s) = spin 10000000 (\<lambda>s. let (v, s) = volatile_read32 e a s in (v AND 1 \<noteq> 0, s)) s;
     if \<not> awake then do {
       s \<leftarrow> print_str (lit ''> HDA ERROR: CONTROLLER RESET TIMEOUT!'' @ [10]) 0xEF4444 s;
       Some (h, s)
     } else do {
       s \<leftarrow> print_str (lit ''> HDA: CONTROLLER AWAKE. ALLOCATING DMA RINGS...'' @ [10]) 0x3B82F6 s;
       (h, s) \<leftarrow> hda_rings e h s;
       s \<leftarrow> print_str (lit ''> HDA: CORB & RIRB RINGS DMA MAPPED AND RUNNING.'' @ [10]) 0x10B981 s;
       (statests, s) \<leftarrow> hda_read_reg16 e h 0x0E s;
       s \<leftarrow> (if statests \<noteq> 0
             then print_str (lit ''> HDA: EXTERNAL AUDIO CODEC DETECTED ON LINK!'' @ [10]) 0x10B981 s
             else Some s);
       Some (h, s)
     }
   }"

section \<open>Commands\<close>

definition send_corb_cmd :: "('a machine_scheme) env \<Rightarrow> intel_hda \<Rightarrow> u32 \<Rightarrow> 'a machine_scheme \<Rightarrow> 'a machine_scheme option" where
  "send_corb_cmd e h cmd s = do {
     corb \<leftarrow> raw_parts (corb_ptr h);
     (wp, s) \<leftarrow> hda_read_reg16 e h 0x48 s;
     wp \<leftarrow> wadd wp 1;
     let wp = wp mod 256;
     let s = s\<lparr>mem := store_le (mem s) (corb + of_nat (4 * unat wp)) 4 cmd\<rparr>;
     hda_write_reg16 h 0x48 wp s
   }"

section \<open>The tone\<close>

text \<open>Sixteen-bit samples in two's complement.\<close>

definition tone_sample :: "nat \<Rightarrow> u16" where
  "tone_sample i = (if i mod 109 < 109 div 2 then 8000 else - 8000)"

definition fill_tone :: "u64 \<Rightarrow> nat \<Rightarrow> memory \<Rightarrow> memory" where
  "fill_tone buf n m = fold (\<lambda>i m. store_le m (buf + of_nat (2 * i)) 2 (tone_sample i)) [0..<n] m"

text \<open>A write through a null pointer panics in a debug build, as \<open>raw_parts\<close> does.\<close>

definition tone_buffers :: "('a machine_scheme) env \<Rightarrow> 'a machine_scheme \<Rightarrow> (u64 \<times> 'a machine_scheme) option" where
  "tone_buffers e s = do {
     let (audio_buf, s) = alloc_zeroed e 65536 4096 s;
     buf \<leftarrow> raw_parts audio_buf;
     let s = s\<lparr>mem := fill_tone buf (65536 div 2) (mem s)\<rparr>;
     let (bdl_ptr, s) = alloc_zeroed e 4096 128 s;
     bdl \<leftarrow> raw_parts bdl_ptr;
     let m = store_le (mem s) bdl 4 (ucast (buf AND 0xFFFFFFFF) :: u32);
     let m = store_le m (bdl + 4) 4 (ucast (drop_bit 32 buf) :: u32);
     let m = store_le m (bdl + 8) 4 (65536 :: u32);
     let m = store_le m (bdl + 12) 4 (0 :: u32);
     Some (bdl, s\<lparr>mem := m\<rparr>)
   }"

definition stream_wait :: "('a machine_scheme) env \<Rightarrow> intel_hda \<Rightarrow> u64 \<Rightarrow> bool \<Rightarrow> 'a machine_scheme \<Rightarrow> 'a machine_scheme option" where
  "stream_wait e h off up s = do {
     a \<leftarrow> wadd (hda_bar0 h) off;
     let (_, s) = spin 10000 (\<lambda>s. let (v, s) = volatile_read8 e a s in ((v AND 1 \<noteq> 0) = up, s)) s;
     Some s
   }"

definition stream_setup :: "('a machine_scheme) env \<Rightarrow> intel_hda \<Rightarrow> u64 \<Rightarrow> u64 \<Rightarrow> 'a machine_scheme \<Rightarrow> 'a machine_scheme option" where
  "stream_setup e h off bdl s = do {
     s \<leftarrow> hda_write_reg8 h off 0 s;
     s \<leftarrow> hda_write_reg8 h off 1 s;
     s \<leftarrow> stream_wait e h off True s;
     s \<leftarrow> hda_write_reg8 h off 0 s;
     s \<leftarrow> stream_wait e h off False s;
     s \<leftarrow> hda_write_reg h (off + 0x18) (ucast (bdl AND 0xFFFFFFFF)) s;
     s \<leftarrow> hda_write_reg h (off + 0x1C) (ucast (drop_bit 32 bdl)) s;
     s \<leftarrow> hda_write_reg h (off + 0x08) 65536 s;
     s \<leftarrow> hda_write_reg16 h (off + 0x0C) 0 s;
     hda_write_reg16 h (off + 0x12) 0x0011 s
   }"

definition codec_cmds :: "u32 list" where
  "codec_cmds = [0x00270500, 0x00370500, 0x00270610, 0x00220011, 0x0023B07F, 0x00370740, 0x0033B07F]"

definition play_tone :: "('a gfx_scheme) env \<Rightarrow> intel_hda \<Rightarrow> 'a gfx_scheme \<Rightarrow> 'a gfx_scheme option" where
  "play_tone e h s = do {
     (bdl, s) \<leftarrow> tone_buffers e s;
     (gcap, s) \<leftarrow> hda_read_reg e h 0x00 s;
     let iss = drop_bit 8 gcap AND 0x0F;
     let stream_offset = 0x80 + ucast (iss * 0x20);
     s \<leftarrow> stream_setup e h stream_offset bdl s;
     s \<leftarrow> foldM (send_corb_cmd e h) codec_cmds s;
     (sdctl, s) \<leftarrow> hda_read_reg8 e h stream_offset s;
     let sdctl = sdctl OR push_bit 4 1;
     s \<leftarrow> hda_write_reg8 h stream_offset sdctl s;
     s \<leftarrow> hda_write_reg8 h stream_offset (sdctl OR push_bit 1 1) s;
     print_str (lit ''> HDA: DMA OUTPUT FIRED. 440HZ TONE STREAMING!'' @ [10]) 0xF59E0B s
   }"

section \<open>Frames\<close>

text \<open>The register window, and what the driver relies on of the controller: it writes to no live heap block
  but its response ring, and its write pointer register counts to 255.\<close>

definition hda_regs :: "nat \<Rightarrow> nat \<Rightarrow> intel_hda \<Rightarrow> bool" where
  "hda_regs base sz h \<longleftrightarrow> mmio_region base sz (hda_bar0 h) 0x1000 \<and> base + sz < 2 ^ 64"

definition hda_device :: "('a machine_scheme) env \<Rightarrow> nat \<Rightarrow> nat \<Rightarrow> intel_hda \<Rightarrow> bool" where
  "hda_device e base sz h \<longleftrightarrow> hw_mem_only e
     \<and> (\<forall>s b k. (b, k) \<in> set (live s) \<longrightarrow> in_heap base sz (b, k) \<longrightarrow> 0 < k \<longrightarrow> b \<noteq> rirb_ptr h \<longrightarrow> load_bytes (mem (hw e s)) b k = load_bytes (mem s) b k)
     \<and> (\<forall>s. (load_le (mem (hw e s)) (hda_bar0 h + 0x48) 2 :: u16) \<le> 255)"

text \<open>A step that keeps the graphics in order, the live blocks, and the contents of the given ones.\<close>

definition hda_keeps :: "nat \<Rightarrow> nat \<Rightarrow> block list \<Rightarrow> 'a gfx_scheme \<Rightarrow> 'a gfx_scheme \<Rightarrow> bool" where
  "hda_keeps base sz bl s s' \<longleftrightarrow> (gfx_ok s \<longrightarrow> gfx_ok s') \<and> live s' = live s
     \<and> (set bl \<subseteq> set (live s) \<and> (\<forall>b\<in>set bl. in_heap base sz b \<and> 0 < snd b)
        \<longrightarrow> (\<forall>(b, k)\<in>set bl. load_bytes (mem s') b k = load_bytes (mem s) b k))"

lemma hda_keeps_refl: "hda_keeps base sz bl s s"
  by (simp add: hda_keeps_def)

lemma hda_keeps_trans: "hda_keeps base sz bl s t \<Longrightarrow> hda_keeps base sz bl t u \<Longrightarrow> hda_keeps base sz bl s u"
  unfolding hda_keeps_def by fastforce

lemma hda_keeps_store:
  assumes "hda_regs base sz h" and "unat off + length bs \<le> 0x1000" and "bs \<noteq> []"
  shows "hda_keeps base sz bl s (s\<lparr>mem := store_bytes (mem s) (hda_bar0 h + off) bs, io_trace := t\<rparr>)"
proof -
  have r: "mmio_region base sz (hda_bar0 h) 0x1000" "base + sz < 2 ^ 64" using assms(1) by (simp_all add: hda_regs_def)
  have "load_bytes (store_bytes (mem s) (hda_bar0 h + off) bs) b k = load_bytes (mem s) b k"
    if "in_heap base sz (b, k)" "0 < k" for b k
    using mmio_keeps [OF r(1) assms(2,3) that(1) r(2), of 0 k] that(2) by simp
  then show ?thesis by (fastforce simp: hda_keeps_def gfx_ok_def)
qed

lemma hda_addr:
  assumes "hda_regs base sz h" and "unat off + 4 \<le> 0x1000"
  shows "wadd (hda_bar0 h) off = Some (hda_bar0 h + off)"
  using mmio_addr(1) [of base sz "hda_bar0 h" "0x1000" "unat off" 4] assms by (simp add: hda_regs_def)

lemma hda_writes:
  assumes "hda_regs base sz h" and "unat off + 4 \<le> 0x1000"
  shows "\<exists>s'. hda_write_reg h off v s = Some s' \<and> hda_keeps base sz bl s s' \<and> io_trace s' = io_trace s @ [Mmio32 (hda_bar0 h + off) v]"
    and "\<exists>s'. hda_write_reg16 h off v16 s = Some s' \<and> hda_keeps base sz bl s s' \<and> io_trace s' = io_trace s @ [Mmio16 (hda_bar0 h + off) v16]"
    and "\<exists>s'. hda_write_reg8 h off v8 s = Some s' \<and> hda_keeps base sz bl s s' \<and> io_trace s' = io_trace s @ [Mmio8 (hda_bar0 h + off) v8]"
proof -
  note a = hda_addr [OF assms]
  show "\<exists>s'. hda_write_reg h off v s = Some s' \<and> hda_keeps base sz bl s s' \<and> io_trace s' = io_trace s @ [Mmio32 (hda_bar0 h + off) v]"
    using hda_keeps_store [OF assms(1), of off "to_le 4 v" bl s] assms(2)
    by (simp add: hda_write_reg_def a volatile_write32_def store_le_def)
  show "\<exists>s'. hda_write_reg16 h off v16 s = Some s' \<and> hda_keeps base sz bl s s' \<and> io_trace s' = io_trace s @ [Mmio16 (hda_bar0 h + off) v16]"
    using hda_keeps_store [OF assms(1), of off "to_le 2 v16" bl s] assms(2)
    by (simp add: hda_write_reg16_def a volatile_write16_def store_le_def)
  show "\<exists>s'. hda_write_reg8 h off v8 s = Some s' \<and> hda_keeps base sz bl s s' \<and> io_trace s' = io_trace s @ [Mmio8 (hda_bar0 h + off) v8]"
    using hda_keeps_store [OF assms(1), of off "to_le 1 v8" bl s] assms(2)
    by (simp add: hda_write_reg8_def a volatile_write8_def store_le_def del: One_nat_def)
qed

lemma hda_hw_keeps:
  assumes "hda_device e base sz h" and "\<forall>b\<in>set bl. fst b \<noteq> rirb_ptr h"
  shows "hda_keeps base sz bl s (hw e s)" and "io_trace (hw e s) = io_trace s"
proof -
  obtain m where m: "hw e s = s\<lparr>mem := m\<rparr>" using assms(1) unfolding hda_device_def hw_mem_only_def by blast
  have "load_bytes (mem (hw e s)) b k = load_bytes (mem s) b k"
    if "(b, k) \<in> set bl" "set bl \<subseteq> set (live s)" "\<forall>b\<in>set bl. in_heap base sz b \<and> 0 < snd b" for b k
    using that assms by (fastforce simp: hda_device_def)
  then show "hda_keeps base sz bl s (hw e s)" unfolding hda_keeps_def by (auto simp: m gfx_ok_def)
  show "io_trace (hw e s) = io_trace s" by (simp add: m)
qed

text \<open>States in which the rings are allocated and the given blocks, none of them a ring, are live; and
  operations that always succeed in them, keep those blocks and write registers as one of the given
  sequences says.\<close>

definition tone_ok :: "('a gfx_scheme) env \<Rightarrow> nat \<Rightarrow> nat \<Rightarrow> intel_hda \<Rightarrow> block list \<Rightarrow> 'a gfx_scheme \<Rightarrow> bool" where
  "tone_ok e base sz h bl s \<longleftrightarrow> gfx_ok s \<and> heap_inv e base sz (live s) \<and> (corb_ptr h, 4096) \<in> set (live s) \<and> corb_ptr h \<noteq> 0
     \<and> set bl \<subseteq> set (live s) \<and> (\<forall>b\<in>set bl. 0 < snd b \<and> b \<noteq> (corb_ptr h, 4096) \<and> fst b \<noteq> rirb_ptr h)"

definition hda_safe :: "('a gfx_scheme) env \<Rightarrow> nat \<Rightarrow> nat \<Rightarrow> intel_hda \<Rightarrow> block list \<Rightarrow> io list set
    \<Rightarrow> ('a gfx_scheme \<Rightarrow> 'a gfx_scheme option) \<Rightarrow> bool" where
  "hda_safe e base sz h bl W f \<longleftrightarrow> (\<forall>s. tone_ok e base sz h bl s \<longrightarrow>
     (\<exists>s' w. f s = Some s' \<and> hda_keeps base sz bl s s' \<and> io_trace s' = io_trace s @ w \<and> w \<in> W))"

definition conc :: "io list set \<Rightarrow> io list set \<Rightarrow> io list set" where
  "conc U W = {u @ w |u w. u \<in> U \<and> w \<in> W}"

lemma conc_single [simp]: "conc {u} W = (@) u ` W"
  by (auto simp: conc_def)

lemma tone_ok_keeps: "tone_ok e base sz h bl s \<Longrightarrow> hda_keeps base sz bl s s' \<Longrightarrow> tone_ok e base sz h bl s'"
  by (simp add: tone_ok_def hda_keeps_def)

lemma hda_safe_bind:
  assumes "hda_safe e base sz h bl U f" and "hda_safe e base sz h bl W g"
  shows "hda_safe e base sz h bl (conc U W) (\<lambda>s. f s \<bind> g)"
  unfolding hda_safe_def
proof (intro allI impI)
  fix s assume ok: "tone_ok e base sz h bl s"
  with assms(1) obtain t u where t: "f s = Some t" "hda_keeps base sz bl s t" "io_trace t = io_trace s @ u" "u \<in> U"
    unfolding hda_safe_def by blast
  with assms(2) tone_ok_keeps [OF ok t(2)] obtain r w where
    r: "g t = Some r" "hda_keeps base sz bl t r" "io_trace r = io_trace t @ w" "w \<in> W" unfolding hda_safe_def by blast
  then show "\<exists>s' w. f s \<bind> g = Some s' \<and> hda_keeps base sz bl s s' \<and> io_trace s' = io_trace s @ w \<and> w \<in> conc U W"
    using t hda_keeps_trans [OF t(2) r(2)] by (intro exI [of _ r] exI [of _ "u @ w"]) (auto simp: conc_def)
qed

lemma hda_safe_mono: "hda_safe e base sz h bl U f \<Longrightarrow> U \<subseteq> W \<Longrightarrow> hda_safe e base sz h bl W f"
  unfolding hda_safe_def by (meson subsetD)

lemma hda_safe_write:
  assumes "hda_regs base sz h" and "unat off + 4 \<le> 0x1000"
  shows "hda_safe e base sz h bl {[Mmio32 (hda_bar0 h + off) v]} (hda_write_reg h off v)"
    "hda_safe e base sz h bl {[Mmio16 (hda_bar0 h + off) v16]} (hda_write_reg16 h off v16)"
    "hda_safe e base sz h bl {[Mmio8 (hda_bar0 h + off) v8]} (hda_write_reg8 h off v8)"
  using hda_writes [OF assms] unfolding hda_safe_def by (metis singletonI)+

lemma hda_safe_print: "hda_safe e base sz h bl {[]} (print_str t c)"
  unfolding hda_safe_def
proof (intro allI impI)
  fix s assume "tone_ok e base sz h bl s"
  then obtain s' where s': "print_str t c s = Some s'" "gfx_ok s'" "same_but_terminal s s'"
    using print_str_ok [of s t c] by (auto simp: tone_ok_def)
  with same_but_terminal_fields [OF s'(3)] show "\<exists>s' w. print_str t c s = Some s' \<and> hda_keeps base sz bl s s' \<and> io_trace s' = io_trace s @ w \<and> w \<in> {[]}"
    by (simp add: hda_keeps_def)
qed

lemma tone_ok_hw:
  assumes "hda_device e base sz h" and "tone_ok e base sz h bl s"
  shows "hda_keeps base sz bl s (hw e s)"
  using hda_hw_keeps(1) [OF assms(1)] assms(2) by (simp add: tone_ok_def)

lemma hda_safe_wait:
  assumes "hda_regs base sz h" and "hda_device e base sz h" and "unat off + 4 \<le> 0x1000"
  shows "hda_safe e base sz h bl {[]} (stream_wait e h off up)"
  unfolding hda_safe_def
proof (intro allI impI)
  fix s assume ok: "tone_ok e base sz h bl s"
  let ?t = "\<lambda>s. let (v, s) = volatile_read8 e (hda_bar0 h + off) s in ((v AND 1 \<noteq> 0) = up, s)"
  obtain b s' where s': "spin 10000 ?t s = (b, s')" by (cases "spin 10000 ?t s")
  have "tone_ok e base sz h bl s' \<and> hda_keeps base sz bl s s' \<and> io_trace s' = io_trace s"
    by (rule spin_inv [OF s', of "\<lambda>t. tone_ok e base sz h bl t \<and> hda_keeps base sz bl s t \<and> io_trace t = io_trace s"])
      (use ok in \<open>auto simp: hda_keeps_refl volatile_read8_def Let_def hda_hw_keeps(2) [OF assms(2), of "[]"]
        dest: tone_ok_hw [OF assms(2)] intro: tone_ok_keeps hda_keeps_trans\<close>)
  then show "\<exists>s' w. stream_wait e h off up s = Some s' \<and> hda_keeps base sz bl s s' \<and> io_trace s' = io_trace s @ w \<and> w \<in> {[]}"
    using s' by (simp add: stream_wait_def hda_addr [OF assms(1,3)])
qed

lemma heap_block:
  assumes "heap_inv e base sz ls" and "(b, k) \<in> set ls"
  shows "in_heap base sz (b, k)"
  using assms by (auto simp: heap_inv_def)

lemma hda_safe_corb:
  assumes "hda_regs base sz h" and "hda_device e base sz h"
  shows "hda_safe e base sz h bl {[Mmio16 (hda_bar0 h + 0x48) wp] |wp. wp < 256} (send_corb_cmd e h cmd)"
  unfolding hda_safe_def
proof (intro allI impI)
  fix s assume ok: "tone_ok e base sz h bl s"
  define t where "t = hw e s"
  have kt: "hda_keeps base sz bl s t" and okt: "tone_ok e base sz h bl t"
    using tone_ok_hw [OF assms(2) ok] tone_ok_keeps [OF ok] by (auto simp: t_def)
  define wp where "wp = (load_le (mem t) (hda_bar0 h + 0x48) 2 :: u16)"
  have "unat wp \<le> 255" using assms(2) by (simp add: hda_device_def wp_def t_def word_le_nat_alt)
  then have w: "wadd wp 1 = Some (wp + 1)" by (simp add: wadd_def)
  define i where "i = unat ((wp + 1) mod 256)"
  have i: "i < 256" by (simp add: i_def unat_mod)
  define u where "u = t\<lparr>mem := store_le (mem t) (corb_ptr h + of_nat (4 * i)) 4 cmd\<rparr>"
  have "load_bytes (mem u) b k = load_bytes (mem t) b k" if "(b, k) \<in> set bl" "in_heap base sz (b, k)" for b k
  proof -
    have "(b, k) \<in> set (live t)" "(corb_ptr h, 4096) \<in> set (live t)" "(b, k) \<noteq> (corb_ptr h, 4096)" "0 < k"
      "heap_inv e base sz (live t)"
      using okt that by (auto simp: tone_ok_def)
    then have "apart b k (corb_ptr h) 4096" using heap_inv_apart [of e base sz "live t" b k "corb_ptr h" 4096] by blast
    from apart_sub [OF this, of "4 * i" 4] i have "apart (corb_ptr h + of_nat (4 * i)) 4 b k" by (simp add: apart_sym)
    then show ?thesis by (simp add: u_def store_le_def del: of_nat_mult)
  qed
  then have ku: "hda_keeps base sz bl t u" by (fastforce simp: hda_keeps_def u_def gfx_ok_def)
  from hda_writes(2) [OF assms(1), of "0x48" "(wp + 1) mod 256" u bl] obtain s' where
    s': "hda_write_reg16 h 0x48 ((wp + 1) mod 256) u = Some s'" "hda_keeps base sz bl u s'"
      "io_trace s' = io_trace u @ [Mmio16 (hda_bar0 h + 0x48) ((wp + 1) mod 256)]" by auto
  have tr: "io_trace s' = io_trace s @ [Mmio16 (hda_bar0 h + 0x48) ((wp + 1) mod 256)]"
    using s'(3) hda_hw_keeps(2) [OF assms(2), of "[]" s] by (simp add: u_def t_def)
  have lt: "(wp + 1) mod 256 < 256" using i by (simp add: i_def word_less_nat_alt)
  have "send_corb_cmd e h cmd s = Some s'"
    using ok s'(1) hda_addr [OF assms(1), of "0x48"] w
    by (simp add: send_corb_cmd_def raw_parts_def tone_ok_def hda_read_reg16_def volatile_read16_def Let_def
        t_def [symmetric] wp_def [symmetric] i_def [symmetric] u_def del: of_nat_mult)
  with hda_keeps_trans [OF hda_keeps_trans [OF kt ku] s'(2)] tr lt
  show "\<exists>s' w. send_corb_cmd e h cmd s = Some s' \<and> hda_keeps base sz bl s s' \<and> io_trace s' = io_trace s @ w
      \<and> w \<in> {[Mmio16 (hda_bar0 h + 0x48) wp] |wp. wp < 256}"
    by blast
qed

lemma hda_safe_setup:
  assumes "hda_regs base sz h" and "hda_device e base sz h" and "unat off + 0x20 \<le> 0x1000"
  defines "a \<equiv> hda_bar0 h + off"
  shows "hda_safe e base sz h bl {[Mmio8 a 0, Mmio8 a 1, Mmio8 a 0, Mmio32 (a + 0x18) (ucast (bdl AND 0xFFFFFFFF)),
      Mmio32 (a + 0x1C) (ucast (drop_bit 32 bdl)), Mmio32 (a + 0x08) 65536, Mmio16 (a + 0x0C) 0, Mmio16 (a + 0x12) 0x0011]}
    (stream_setup e h off bdl)"
proof -
  have o: "unat (off + of_nat k) + 4 \<le> 0x1000" if "k < 0x1D" for k
  proof -
    have "unat off + k < 2 ^ 64" using assms(3) that by simp
    then have "unat (off + of_nat k) = unat off + k" by (rule unat_add_small)
    then show ?thesis using assms(3) that by simp
  qed
  have "unat off + 4 \<le> 0x1000" "unat (off + 0x18) + 4 \<le> 0x1000" "unat (off + 0x1C) + 4 \<le> 0x1000" "unat (off + 0x08) + 4 \<le> 0x1000"
    "unat (off + 0x0C) + 4 \<le> 0x1000" "unat (off + 0x12) + 4 \<le> 0x1000"
    using o [of 0] o [of "0x18"] o [of "0x1C"] o [of "0x08"] o [of "0x0C"] o [of "0x12"] by simp_all
  note w = hda_safe_write [OF assms(1) this(1)] hda_safe_write [OF assms(1) this(2)] hda_safe_write [OF assms(1) this(3)]
    hda_safe_write [OF assms(1) this(4)] hda_safe_write [OF assms(1) this(5)] hda_safe_write [OF assms(1) this(6)]
    hda_safe_wait [OF assms(1,2) this(1)]
  show ?thesis
    unfolding stream_setup_def a_def
    by (rule hda_safe_mono, (rule hda_safe_bind, rule w)+, rule w) (simp add: add.assoc)
qed

lemma hda_safe_codec:
  assumes "hda_regs base sz h" and "hda_device e base sz h"
  shows "hda_safe e base sz h bl {map (Mmio16 (hda_bar0 h + 0x48)) wps |wps. length wps = length cs \<and> (\<forall>wp\<in>set wps. wp < 256)}
    (foldM (send_corb_cmd e h) cs)"
proof (induction cs)
  case Nil
  then show ?case by (simp add: hda_safe_def hda_keeps_refl)
next
  case (Cons c cs)
  have "foldM (send_corb_cmd e h) (c # cs) = (\<lambda>s. send_corb_cmd e h c s \<bind> foldM (send_corb_cmd e h) cs)"
    by (intro ext) (simp split: option.split)
  moreover have "conc {[Mmio16 a wp] |wp. wp < 256} {map (Mmio16 a) wps |wps. length wps = length cs \<and> (\<forall>wp\<in>set wps. wp < 256)}
      \<subseteq> {map (Mmio16 a) wps |wps. length wps = length (c # cs) \<and> (\<forall>wp\<in>set wps. wp < 256)}" for a
    unfolding conc_def by (clarsimp, rule exI, rule conjI [OF list.simps(9) [symmetric]]) simp
  ultimately show ?case using hda_safe_mono [OF hda_safe_bind [OF hda_safe_corb [OF assms] Cons]] by simp
qed

section \<open>The buffers\<close>

lemma fill_tone_Suc: "fill_tone buf (Suc n) m = store_le (fill_tone buf n m) (buf + of_nat (2 * n)) 2 (tone_sample n)"
  by (simp add: fill_tone_def)

lemma fill_tone_sample:
  assumes "i < n" and "n \<le> 2 ^ 62"
  shows "load_le (fill_tone buf n m) (buf + of_nat (2 * i)) 2 = tone_sample i"
  using assms
proof (induction n)
  case (Suc n)
  show ?case
  proof (cases "i = n")
    case True
    then show ?thesis by (simp add: fill_tone_Suc)
  next
    case False
    then have "i < n" "n \<le> 2 ^ 62" using Suc.prems by simp_all
    moreover have "apart (buf + of_nat (2 * i)) 2 (buf + of_nat (2 * n)) 2"
      using False Suc.prems by (intro apart_offsets) simp_all
    then have "apart (buf + of_nat (2 * n)) 2 (buf + of_nat (2 * i)) 2" by (subst apart_sym)
    ultimately show ?thesis using Suc.IH by (simp add: fill_tone_Suc del: of_nat_mult)
  qed
qed simp

definition bdl_entry :: "u64 \<Rightarrow> u8 list" where
  "bdl_entry buf = to_le 4 (ucast (buf AND 0xFFFFFFFF) :: u32) @ to_le 4 (ucast (drop_bit 32 buf) :: u32)
     @ to_le 4 (65536 :: u32) @ to_le 4 (0 :: u32)"

lemma bdl_store:
  "store_le (store_le (store_le (store_le m a 4 (w0 :: u32)) (a + 4) 4 (w1 :: u32)) (a + 8) 4 (w2 :: u32)) (a + 12) 4 (w3 :: u32)
    = store_bytes m a (to_le 4 w0 @ to_le 4 w1 @ to_le 4 w2 @ to_le 4 w3)"
  using store_bytes_append [of "to_le 4 w0" "to_le 4 w1" m a] store_bytes_append [of "to_le 4 w0 @ to_le 4 w1" "to_le 4 w2" m a]
    store_bytes_append [of "to_le 4 w0 @ to_le 4 w1 @ to_le 4 w2" "to_le 4 w3" m a]
  by (simp add: store_le_def)

lemma tone_buffers_ok:
  assumes "heap_ok e base sz" and "heap_inv e base sz (live s)" and "heap_used (live s) + 77824 \<le> sz"
  shows "\<exists>buf bdl m. tone_buffers e s = Some (bdl, s\<lparr>mem := m, live := (bdl, 4096) # (buf, 65536) # live s\<rparr>)
    \<and> heap_inv e base sz ((bdl, 4096) # (buf, 65536) # live s)
    \<and> (\<forall>i < 32768. load_le m (buf + of_nat (2 * i)) 2 = tone_sample i) \<and> load_bytes m bdl 16 = bdl_entry buf"
proof -
  define buf where "buf = galloc e 65536 4096 (live s)"
  define l1 where "l1 = (buf, 65536 :: nat) # live s"
  have "heap_used (live s) + 65536 + 4096 \<le> sz" using assms(3) by simp
  from heap_extend [OF assms(1,2) this, of 4096] have b: "buf \<noteq> 0" "heap_inv e base sz l1" by (simp_all add: buf_def l1_def)
  define bdl where "bdl = galloc e 4096 128 l1"
  have "heap_used l1 + 4096 + 4096 \<le> sz" using assms(3) by (simp add: l1_def)
  from heap_extend [OF assms(1) b(2) this, of 128] have d: "bdl \<noteq> 0" "heap_inv e base sz ((bdl, 4096) # l1)"
    "apart bdl 4096 buf 65536" by (auto simp: bdl_def l1_def)
  define m1 where "m1 = fill_tone buf 32768 (store_bytes (mem s) buf (replicate 65536 0))"
  define m2 where "m2 = store_bytes m1 bdl (replicate 4096 0)"
  define m where "m = store_bytes m2 bdl (bdl_entry buf)"
  have lb: "length (bdl_entry buf) = 16" by (simp add: bdl_entry_def)
  have "tone_buffers e s = Some (bdl, s\<lparr>mem := m, live := (bdl, 4096) # l1\<rparr>)"
    using b(1) d(1)
    by (simp add: tone_buffers_def alloc_zeroed_def raw_parts_def Let_def bdl_store buf_def [symmetric] l1_def [symmetric]
        bdl_def [symmetric] m1_def [symmetric] m2_def [symmetric] m_def bdl_entry_def)
  moreover have "load_le m (buf + of_nat (2 * i)) 2 = tone_sample i" if "i < 32768" for i
  proof -
    have i: "2 * i + 2 \<le> 65536" using that by linarith
    have "apart bdl 4096 (buf + of_nat (2 * i)) 2" using apart_sub [OF d(3) i] by simp
    moreover from d(3) have "apart buf 65536 bdl 16" using apart_sub [of buf 65536 bdl 4096 0 16] by (simp add: apart_sym)
    then have "apart bdl 16 buf 65536" by (subst apart_sym)
    then have "apart bdl 16 (buf + of_nat (2 * i)) 2" using apart_sub [OF _ i] by simp
    ultimately have "load_le m (buf + of_nat (2 * i)) 2 = (load_le m1 (buf + of_nat (2 * i)) 2 :: u16)"
      by (simp add: m_def m2_def lb del: of_nat_mult)
    also have "\<dots> = tone_sample i" unfolding m1_def using that by (intro fill_tone_sample) simp_all
    finally show ?thesis .
  qed
  moreover have "load_bytes m bdl 16 = bdl_entry buf"
    using load_store_bytes_same [of "bdl_entry buf" m2 bdl] by (simp add: m_def lb)
  ultimately show ?thesis using d(2) by (auto simp: l1_def)
qed

section \<open>Properties\<close>

text \<open>The registers the driver writes to start a stream at \<open>a\<close>, with the write pointers \<open>wps\<close> of the command
  ring and the control byte \<open>c\<close>.\<close>

definition tone_writes :: "u64 \<Rightarrow> u64 \<Rightarrow> u64 \<Rightarrow> u16 list \<Rightarrow> u8 \<Rightarrow> io list" where
  "tone_writes bar a bdl wps c = [Mmio8 a 0, Mmio8 a 1, Mmio8 a 0, Mmio32 (a + 0x18) (ucast (bdl AND 0xFFFFFFFF)),
     Mmio32 (a + 0x1C) (ucast (drop_bit 32 bdl)), Mmio32 (a + 0x08) 65536, Mmio16 (a + 0x0C) 0, Mmio16 (a + 0x12) 0x0011]
     @ map (Mmio16 (bar + 0x48)) wps @ [Mmio8 a (c OR push_bit 4 1), Mmio8 a ((c OR push_bit 4 1) OR push_bit 1 1)]"

lemma stream_offset_bound: "unat (0x80 + ucast ((drop_bit 8 (g :: u32) AND 0x0F) * 0x20) :: u64) \<le> 0x260"
proof -
  define x where "x = drop_bit 8 g AND 0x0F"
  have "x \<le> 0x0F" unfolding x_def by (rule word_and_le1)
  then have x: "unat x \<le> 15" by (simp add: word_le_nat_alt)
  then have "unat (x * 0x20) = unat x * 0x20" by (simp add: unat_mult_lem [THEN iffD1])
  moreover have "unat (ucast (x * 0x20) :: u64) = unat (x * 0x20)"
    using unsigned_less [of "x * 0x20", where ?'a = nat] by (simp add: unsigned_ucast_eq take_bit_nat_eq_self_iff)
  ultimately have u: "unat (ucast (x * 0x20) :: u64) \<le> 0x1E0" using x by simp
  then have "unat (0x80 + ucast (x * 0x20) :: u64) = 0x80 + unat (ucast (x * 0x20) :: u64)"
    by (subst unat_add_lem [THEN iffD1]) simp_all
  with u show ?thesis by (simp add: x_def)
qed

lemma stream_started:
  assumes "hda_regs base sz h" and "hda_device e base sz h" and "tone_ok e base sz h bl s"
  shows "\<exists>s' off wps c. do {
      (gcap, s) \<leftarrow> hda_read_reg e h 0x00 s;
      let iss = drop_bit 8 gcap AND 0x0F;
      let stream_offset = 0x80 + ucast (iss * 0x20);
      s \<leftarrow> stream_setup e h stream_offset bdl s;
      s \<leftarrow> foldM (send_corb_cmd e h) cs s;
      (sdctl, s) \<leftarrow> hda_read_reg8 e h stream_offset s;
      let sdctl = sdctl OR push_bit 4 1;
      s \<leftarrow> hda_write_reg8 h stream_offset sdctl s;
      s \<leftarrow> hda_write_reg8 h stream_offset (sdctl OR push_bit 1 1) s;
      print_str t col s
    } = Some s' \<and> hda_keeps base sz bl s s' \<and> gfx_ok s' \<and> unat off \<le> 0x260 \<and> length wps = length cs \<and> (\<forall>wp\<in>set wps. wp < 256)
    \<and> io_trace s' = io_trace s @ tone_writes (hda_bar0 h) (hda_bar0 h + off) bdl wps c"
proof -
  define s1 where "s1 = hw e s"
  have k1: "hda_keeps base sz bl s s1" "io_trace s1 = io_trace s"
    using tone_ok_hw [OF assms(2,3)] hda_hw_keeps(2) [OF assms(2), of "[]" s] by (simp_all add: s1_def)
  note ok1 = tone_ok_keeps [OF assms(3) k1(1)]
  define off where "off = 0x80 + (ucast ((drop_bit 8 (load_le (mem s1) (hda_bar0 h) 4 :: u32) AND 0x0F) * 0x20) :: u64)"
  have o: "unat off \<le> 0x260" unfolding off_def by (rule stream_offset_bound)
  then have o4: "unat off + 0x20 \<le> 0x1000" "unat off + 4 \<le> 0x1000" by simp_all
  let ?a = "hda_bar0 h + off"
  from hda_safe_bind [OF hda_safe_setup [OF assms(1,2) o4(1), of bl bdl] hda_safe_codec [OF assms(1,2), of bl cs]] ok1
  obtain s2 w where s2: "(stream_setup e h off bdl s1 \<bind> foldM (send_corb_cmd e h) cs) = Some s2" "hda_keeps base sz bl s1 s2"
    "io_trace s2 = io_trace s1 @ w"
    "w \<in> conc {[Mmio8 ?a 0, Mmio8 ?a 1, Mmio8 ?a 0, Mmio32 (?a + 0x18) (ucast (bdl AND 0xFFFFFFFF)),
      Mmio32 (?a + 0x1C) (ucast (drop_bit 32 bdl)), Mmio32 (?a + 0x08) 65536, Mmio16 (?a + 0x0C) 0, Mmio16 (?a + 0x12) 0x0011]}
      {map (Mmio16 (hda_bar0 h + 0x48)) wps |wps. length wps = length cs \<and> (\<forall>wp\<in>set wps. wp < 256)}"
    unfolding hda_safe_def by blast
  note ok2 = tone_ok_keeps [OF ok1 s2(2)]
  define s3 where "s3 = hw e s2"
  have k3: "hda_keeps base sz bl s2 s3" "io_trace s3 = io_trace s2"
    using tone_ok_hw [OF assms(2) ok2] hda_hw_keeps(2) [OF assms(2), of "[]" s2] by (simp_all add: s3_def)
  note ok3 = tone_ok_keeps [OF ok2 k3(1)]
  define c where "c = (load_le (mem s3) ?a 1 :: u8)"
  from hda_safe_bind [OF hda_safe_bind [OF hda_safe_write(3) [OF assms(1) o4(2), of e bl "c OR push_bit 4 1"]
      hda_safe_write(3) [OF assms(1) o4(2), of e bl "(c OR push_bit 4 1) OR push_bit 1 1"]] hda_safe_print [of e base sz h bl t col]] ok3
  obtain s4 where s4: "((hda_write_reg8 h off (c OR push_bit 4 1) s3 \<bind> hda_write_reg8 h off ((c OR push_bit 4 1) OR push_bit 1 1))
      \<bind> print_str t col) = Some s4" "hda_keeps base sz bl s3 s4"
    "io_trace s4 = io_trace s3 @ [Mmio8 ?a (c OR push_bit 4 1), Mmio8 ?a ((c OR push_bit 4 1) OR push_bit 1 1)]"
    unfolding hda_safe_def by auto
  have keep: "hda_keeps base sz bl s s4" using hda_keeps_trans [OF hda_keeps_trans [OF hda_keeps_trans [OF k1(1) s2(2)] k3(1)] s4(2)] .
  have g: "gfx_ok s4" using tone_ok_keeps [OF ok3 s4(2)] by (simp add: tone_ok_def)
  have r: "hda_read_reg e h 0x00 s = Some (load_le (mem s1) (hda_bar0 h) 4, s1)" "hda_read_reg8 e h off s2 = Some (c, s3)"
    using hda_addr [OF assms(1), of 0] hda_addr [OF assms(1) o4(2)]
    by (simp_all add: hda_read_reg_def hda_read_reg8_def volatile_read32_def volatile_read8_def Let_def s1_def s3_def c_def)
  obtain wps where wps: "length wps = length cs" "\<forall>wp\<in>set wps. wp < 256"
    "io_trace s4 = io_trace s @ tone_writes (hda_bar0 h) ?a bdl wps c"
    using s2(3,4) s4(3) k1(2) k3(2) by (auto simp: tone_writes_def)
  show ?thesis
    using s2(1) s4(1) keep g o wps
    by (intro exI [of _ s4] exI [of _ off] exI [of _ wps] exI [of _ c])
      (auto simp: r(1) Let_def off_def [symmetric] bind_eq_Some_conv r(2))
qed


text \<open>A controller whose command ring is always drained.\<close>

definition hda_env :: "('a machine_scheme) env" where
  "hda_env = bump_env\<lparr>hw := \<lambda>s. s\<lparr>mem := store_le (mem s) (0xFEB00000 + of_nat 0x48) 2 (0 :: u16)\<rparr>\<rparr>"

definition demo_hda :: intel_hda where
  "demo_hda = \<lparr>hda_bar0 = 0xFEB00000, corb_ptr = 0x100000, rirb_ptr = 0x102000\<rparr>"

lemma demo_hda_regs: "hda_regs 0x100000 0x200000 demo_hda"
  by (simp add: hda_regs_def demo_hda_def mmio_region_def off_heap_def)

lemma demo_hda_device: "hda_device hda_env 0x100000 0x200000 demo_hda"
proof -
  have r: "mmio_region 0x100000 0x200000 (0xFEB00000 :: u64) 0x1000" by (simp add: mmio_region_def off_heap_def)
  have "load_bytes (store_le m (0xFEB00000 + of_nat 0x48) 2 (0 :: u16)) b k = load_bytes m b k"
    if "in_heap 0x100000 0x200000 (b, k)" "0 < k" for m b k
    using mmio_keeps [OF r, of "0x48" "to_le 2 (0 :: u16)" b k 0 k m] that by (simp add: store_le_def)
  moreover have "(load_le (store_le m (0xFEB00000 + of_nat 0x48) 2 (0 :: u16)) (0xFEB00000 + of_nat 0x48) 2 :: u16) \<le> 255" for m
    by simp
  ultimately show ?thesis by (simp add: hda_device_def hda_env_def demo_hda_def hw_mem_only_def)
qed

lemma demo_hda_heap:
  "heap_ok hda_env 0x100000 0x200000" "heap_inv hda_env 0x100000 0x200000 [(0x102000, 4096), (0x100000, 4096)]"
proof -
  show "heap_ok hda_env 0x100000 0x200000" unfolding hda_env_def heap_hw by (rule bump_heap_ok)
  have "galloc bump_env 4096 1 [] = (0x100000 :: u64)" "galloc bump_env 4096 1 [(0x100000, 4096)] = (0x102000 :: u64)"
    by (simp_all add: bump_env_def)
  then show "heap_inv hda_env 0x100000 0x200000 [(0x102000, 4096), (0x100000, 4096)]"
    unfolding hda_env_def heap_hw by (auto simp: heap_inv_def in_heap_def apart_def intro!: exI [of _ 1])
qed


text \<open>When the controller never leaves reset, \<open>init\<close> gives up after ten million looks, without a
  panic but also without rings; \<open>_start\<close> calls \<open>play_tone\<close> all the same, which then panics, whatever
  state it is called in: a silent sound card halts the boot.\<close>

lemma hda_timeout_halts:
  assumes "hw_mem_only e" and "gfx_ok s" and "unat bar0 + 0x1000 < 2 ^ 64"
    and "\<And>s. (load_le (mem (hw e s)) (bar0 + 8) 4 :: u32) AND 1 = 0"
  shows "\<exists>s'. hda_init e (hda_new bar0) s = Some (hda_new bar0, s') \<and> gfx_ok s' \<and> play_tone e (hda_new bar0) s'' = None"
proof -
  have a: "wadd bar0 0 = Some bar0" "wadd bar0 8 = Some (bar0 + 8)"
    using wadd_small [of bar0 0] wadd_small [of bar0 8] assms(3) by simp_all
  have hg: "gfx_ok (hw e s)" if "gfx_ok s" for s
  proof -
    obtain m where "hw e s = s\<lparr>mem := m\<rparr>" using assms(1) unfolding hw_mem_only_def by blast
    with that show ?thesis by (simp add: gfx_ok_def)
  qed
  from print_str_ok [OF hg [OF assms(2)]] obtain s1 where
    s1: "print_str (10 # lit ''> HDA: AUDIO SILICON DETECTED AND MAPPED.'' @ [10]) 0x3B82F6 (hw e s) = Some s1" "gfx_ok s1" by blast
  let ?t = "\<lambda>s. let (v, s) = volatile_read32 e (bar0 + 8) s in (v AND 1 \<noteq> 0, s)"
  let ?s1 = "volatile_write32 (bar0 + 8) 1 s1"
  have "gfx_ok ?s1" using s1(2) by (simp add: volatile_write32_def gfx_ok_def)
  then have "\<not> fst (spin 10000000 ?t ?s1) \<and> gfx_ok (snd (spin 10000000 ?t ?s1))"
    by (rule spin_timeout) (simp add: volatile_read32_def Let_def assms(4) hg)
  then obtain s2 where s2: "spin 10000000 ?t ?s1 = (False, s2)" "gfx_ok s2" by (cases "spin 10000000 ?t ?s1") auto
  from print_str_ok [OF s2(2)] obtain s3 where
    s3: "print_str (lit ''> HDA ERROR: CONTROLLER RESET TIMEOUT!'' @ [10]) 0xEF4444 s2 = Some s3" "gfx_ok s3" by blast
  have "hda_init e (hda_new bar0) s = Some (hda_new bar0, s3)"
    using s1(1) s2(1) s3(1) by (simp add: hda_init_def hda_new_def hda_read_reg_def hda_write_reg_def a volatile_read32_def Let_def)
  moreover have "foldM (send_corb_cmd e (hda_new bar0)) codec_cmds t = None" for t
    by (simp add: codec_cmds_def send_corb_cmd_def hda_new_def raw_parts_def)
  then have "play_tone e (hda_new bar0) s'' = None"
    unfolding play_tone_def Let_def by (auto simp: bind_eq_None_conv split: prod.splits)
  ultimately show ?thesis using s3(2) by blast
qed

end
