(* ===== verification/Smp.thy ===== *)
theory Smp
  imports Paging Terminal
begin

text \<open>
  Starting the other processors (\<open>src/src/smp.rs\<close> and the wake-up sequence of \<open>_start\<close> in
  \<open>src/src/main.rs\<close>): the trampoline and its parameters in low memory, the identity map of the first
  two megabytes, the INIT and SIPI messages, and what the 64-bit part of the trampoline does on an
  application processor. Addresses the linker chooses are parameters, gathered in \<open>statics\<close>.
\<close>

section \<open>The trampoline\<close>

record statics =
  SMP_PDPT :: u64
  SMP_PD :: u64
  AP_STACKS :: u64
  ap_main :: u64

definition trampoline :: "u8 list" where
  "trampoline = [
     0xFA, 0x0F, 0x09, 0x31, 0xC0, 0x8E, 0xD8, 0x8E, 0xC0, 0x8E, 0xD0,
     0x0F, 0x01, 0x16, 0x00, 0x81,
     0x0F, 0x20, 0xC0, 0x66, 0x83, 0xC8, 0x01,
     0x0F, 0x22, 0xC0, 0x66, 0xEA, 0x22, 0x80, 0x00, 0x00, 0x08, 0x00,
     0xB8, 0x10, 0x00, 0x00, 0x00, 0x8E, 0xD8, 0x8E, 0xC0, 0x8E, 0xD0,
     0x8E, 0xE0, 0x8E, 0xE8, 0x0F, 0x20, 0xE0, 0x83, 0xC8, 0x20, 0x0F,
     0x22, 0xE0, 0xA1, 0x00, 0x85, 0x00, 0x00, 0x0F, 0x22, 0xD8, 0xB9,
     0x80, 0x00, 0x00, 0xC0, 0x0F, 0x32, 0x0D, 0x00, 0x01, 0x00, 0x00,
     0x0F, 0x30, 0x0F, 0x20, 0xC0, 0x0D, 0x00, 0x00, 0x00, 0x80, 0x0F,
     0x22, 0xC0, 0xEA, 0x62, 0x80, 0x00, 0x00, 0x18, 0x00,
     0xB8, 0x10, 0x00, 0x00, 0x00, 0x8E, 0xD8, 0x8E, 0xC0, 0x8E, 0xD0, 0x8E, 0xE0, 0x8E, 0xE8,
     0xB8, 0x00, 0x00, 0x00, 0x00,
     0xF0, 0x0F, 0xC1, 0x04, 0x25, 0x00, 0x86, 0x00, 0x00,
     0xC1, 0xE0, 0x0E,
     0x48, 0x8B, 0x1C, 0x25, 0x08, 0x86, 0x00, 0x00,
     0x48, 0x29, 0xC3,
     0x48, 0x89, 0xDC,
     0x48, 0x31, 0xED,
     0x48, 0x8B, 0x04, 0x25, 0x10, 0x86, 0x00, 0x00,
     0xFF, 0xD0,
     0xFA, 0xF4, 0xEB, 0xFD]"

text \<open>The parameters the trampoline reads: its descriptor table and the table's limit and base, CR3, the
  stack counter, the top of the stacks and the entry point.\<close>

definition inject_config :: "statics \<Rightarrow> u64 \<Rightarrow> memory \<Rightarrow> memory option" where
  "inject_config st cr3 m = do {
     let m = store_le m 0x8120 8 (0 :: u64);
     let m = store_le m 0x8128 8 (0x00CF9A000000FFFF :: u64);
     let m = store_le m 0x8130 8 (0x00CF92000000FFFF :: u64);
     let m = store_le m 0x8138 8 (0x00AF9A000000FFFF :: u64);
     let m = store_le m 0x8100 2 (31 :: u16);
     let m = store_le m 0x8102 4 (0x8120 :: u32);
     let m = store_le m 0x8500 4 (ucast cr3 :: u32);
     let m = store_le m 0x8600 4 (0 :: u32);
     stack_top \<leftarrow> wadd (AP_STACKS st) (16384 * 4);
     let m = store_le m 0x8608 8 stack_top;
     Some (store_le m 0x8610 8 (ap_main st))
   }"

section \<open>Installing it\<close>

text \<open>A missing first entry of a table is filled with a static table; the value is read back.\<close>

definition ensure_entry :: "rstr \<Rightarrow> u64 \<Rightarrow> u64 \<Rightarrow> 'a gfx_scheme \<Rightarrow> (u64 \<times> 'a gfx_scheme) option" where
  "ensure_entry msg table static s =
     (if read_entry (mem s) table 0 AND 1 = 0 then do {
        s \<leftarrow> print_str msg 0xF59E0B s;
        let s = s\<lparr>mem := write_entry (mem s) table 0 (static OR 0b11)\<rparr>;
        Some (read_entry (mem s) table 0, s)
      } else Some (read_entry (mem s) table 0, s))"

definition map_low :: "u64 \<Rightarrow> 'a gfx_scheme \<Rightarrow> 'a gfx_scheme option" where
  "map_low pdpte s =
     (if pdpte AND push_bit 7 1 = 0 then do {
        s \<leftarrow> print_str (lit ''   -> [DIAG] Forcing Surgical 2MB Map for AP Trampoline...'' @ [10]) 0x3B82F6 s;
        let pd = pdpte AND ADDR_MASK;
        Some (s\<lparr>mem := write_entry (mem s) pd 0 0x83\<rparr>)
      } else Some s)"

text \<open>CR0 has its write-protect bit cleared in between and is restored at the end; the result holds the
  values written to it.\<close>

definition copy_trampoline :: "statics \<Rightarrow> u64 \<Rightarrow> u64 \<Rightarrow> 'a gfx_scheme \<Rightarrow> (u64 list \<times> 'a gfx_scheme) option" where
  "copy_trampoline st cr0 cr3 s = do {
     s \<leftarrow> print_str (lit ''   -> [DIAG] Disabling CR0.WP...'' @ [10]) 0x3B82F6 s;
     let old_cr0 = cr0;
     s \<leftarrow> print_str (lit ''   -> [DIAG] Resolving Hardware CR3...'' @ [10]) 0x3B82F6 s;
     let pml4 = cr3 AND ADDR_MASK;
     (pml4e, s) \<leftarrow> ensure_entry (lit ''   -> [DIAG] PML4[0] Missing! Injecting Static PDPT...'' @ [10]) pml4 (SMP_PDPT st) s;
     let pdpt = pml4e AND ADDR_MASK;
     (pdpte, s) \<leftarrow> ensure_entry (lit ''   -> [DIAG] PDPT[0] Missing! Injecting Static PD...'' @ [10]) pdpt (SMP_PD st) s;
     s \<leftarrow> map_low pdpte s;
     s \<leftarrow> print_str (lit ''   -> [DIAG] Copying 161-Byte Infallible Trampoline...'' @ [10]) 0x3B82F6 s;
     let s = s\<lparr>mem := store_bytes (mem s) 0x8000 trampoline\<rparr>;
     s \<leftarrow> print_str (lit ''   -> [DIAG] Injecting Safe Configurations...'' @ [10]) 0x3B82F6 s;
     m \<leftarrow> inject_config st cr3 (mem s);
     s \<leftarrow> print_str (lit ''   -> [DIAG] Restoring Protections...'' @ [10]) 0x3B82F6 (s\<lparr>mem := m\<rparr>);
     s \<leftarrow> print_str (lit ''   -> [DIAG] DONE. Proceeding to INIT-SIPI.'' @ [10]) 0x10B981 s;
     Some ([cr0 AND NOT (push_bit 16 1), old_cr0], s)
   }"

text \<open>What an application processor does in \<open>ap_main\<close> to the counter \<open>AP_COUNT\<close> before it halts for good.\<close>

definition ap_main_count :: "usize \<Rightarrow> usize" where
  "ap_main_count AP_COUNT = (AP_COUNT + 1) mod 2 ^ 64"

text \<open>The wake-up sequence of \<open>_start\<close>; \<open>aps\<close> is the number of processors that have reached \<open>ap_main\<close> when the
  counter \<open>AP_COUNT\<close>, initially zero, is read after the waiting loops.\<close>

definition wake_aps :: "statics \<Rightarrow> u64 \<Rightarrow> u64 \<Rightarrow> u64 \<Rightarrow> nat \<Rightarrow> 'a gfx_scheme \<Rightarrow> 'a gfx_scheme option" where
  "wake_aps st cr0 cr3 local_apic_base aps s =
     (if local_apic_base \<noteq> 0 then do {
        s \<leftarrow> print_str (lit ''SMP: Copying AP Trampoline to Safe Zone 0x8000...'' @ [10]) 0xF59E0B s;
        (_, s) \<leftarrow> copy_trampoline st cr0 cr3 s;
        icr_low \<leftarrow> wadd local_apic_base 0x300;
        icr_high \<leftarrow> wadd local_apic_base 0x310;
        s \<leftarrow> print_str (lit ''SMP: Firing INIT IPI to all Application Processors...'' @ [10]) 0xF59E0B s;
        let s = volatile_write32 icr_high 0 s;
        let s = volatile_write32 icr_low 0x000C4500 s;
        s \<leftarrow> print_str (lit ''SMP: Firing SIPI (Vector 0x08) to awaken APs...'' @ [10]) 0x10B981 s;
        let s = volatile_write32 icr_low 0x000C4608 s;
        print_str (lit ''> SMP: '' @ dec_digits ((ap_main_count ^^ aps) 0) @ lit '' APPLICATION PROCESSORS SUCCESSFULLY AWAKENED!'' @ [10]) 0x10B981 s
      } else Some s)"

section \<open>An application processor\<close>

text \<open>The instructions of the 64-bit part, decoded from the machine code.\<close>

datatype ap_instr =
    Mov_Eax u32
  | Mov_Sreg u8
  | Lock_Xadd_Eax u64
  | Shl_Eax nat
  | Mov_Rbx_Mem u64
  | Sub_Rbx_Rax
  | Mov_Rsp_Rbx
  | Xor_Rbp_Rbp
  | Mov_Rax_Mem u64
  | Call_Rax

definition disp32 :: "u8 list \<Rightarrow> u64" where
  "disp32 bs = ucast (of_le (take 4 bs) :: u32)"

definition decode1 :: "u8 list \<Rightarrow> (ap_instr \<times> u8 list) option" where
  "decode1 bs =
     (if take 1 bs = [0xB8] then Some (Mov_Eax (of_le (take 4 (drop 1 bs))), drop 5 bs)
      else if take 1 bs = [0x8E] then Some (Mov_Sreg (bs ! 1), drop 2 bs)
      else if take 5 bs = [0xF0, 0x0F, 0xC1, 0x04, 0x25] then Some (Lock_Xadd_Eax (disp32 (drop 5 bs)), drop 9 bs)
      else if take 2 bs = [0xC1, 0xE0] then Some (Shl_Eax (unat (bs ! 2)), drop 3 bs)
      else if take 4 bs = [0x48, 0x8B, 0x1C, 0x25] then Some (Mov_Rbx_Mem (disp32 (drop 4 bs)), drop 8 bs)
      else if take 3 bs = [0x48, 0x29, 0xC3] then Some (Sub_Rbx_Rax, drop 3 bs)
      else if take 3 bs = [0x48, 0x89, 0xDC] then Some (Mov_Rsp_Rbx, drop 3 bs)
      else if take 3 bs = [0x48, 0x31, 0xED] then Some (Xor_Rbp_Rbp, drop 3 bs)
      else if take 4 bs = [0x48, 0x8B, 0x04, 0x25] then Some (Mov_Rax_Mem (disp32 (drop 4 bs)), drop 8 bs)
      else if take 2 bs = [0xFF, 0xD0] then Some (Call_Rax, drop 2 bs)
      else None)"

fun decode :: "nat \<Rightarrow> u8 list \<Rightarrow> ap_instr list option" where
  "decode 0 bs = Some []"
| "decode (Suc n) bs = do { (i, bs) \<leftarrow> decode1 bs; is \<leftarrow> decode n bs; Some (i # is) }"

record ap =
  ap_rax :: u64
  ap_rbx :: u64
  ap_rsp :: u64
  ap_rbp :: u64

text \<open>A 32-bit result clears the upper half of its register. \<open>call\<close> leaves the trampoline: it pushes the
  return address, which matters to nobody as \<open>ap_main\<close> does not return.\<close>

fun ap_step :: "ap_instr \<Rightarrow> ap \<times> memory \<Rightarrow> ap \<times> memory" where
  "ap_step (Mov_Eax v) (c, m) = (c\<lparr>ap_rax := ucast v\<rparr>, m)"
| "ap_step (Mov_Sreg r) (c, m) = (c, m)"
| "ap_step (Lock_Xadd_Eax a) (c, m) =
     (let old = (load_le m a 4 :: u32) in (c\<lparr>ap_rax := ucast old\<rparr>, store_le m a 4 (old + ucast (ap_rax c))))"
| "ap_step (Shl_Eax n) (c, m) = (c\<lparr>ap_rax := ucast (push_bit n (ucast (ap_rax c) :: u32))\<rparr>, m)"
| "ap_step (Mov_Rbx_Mem a) (c, m) = (c\<lparr>ap_rbx := load_le m a 8\<rparr>, m)"
| "ap_step Sub_Rbx_Rax (c, m) = (c\<lparr>ap_rbx := ap_rbx c - ap_rax c\<rparr>, m)"
| "ap_step Mov_Rsp_Rbx (c, m) = (c\<lparr>ap_rsp := ap_rbx c\<rparr>, m)"
| "ap_step Xor_Rbp_Rbp (c, m) = (c\<lparr>ap_rbp := 0\<rparr>, m)"
| "ap_step (Mov_Rax_Mem a) (c, m) = (c\<lparr>ap_rax := load_le m a 8\<rparr>, m)"
| "ap_step Call_Rax (c, m) = (c, m)"

text \<open>An application processor from the 64-bit entry, at offset 0x62 as the far jump before it says, to the
  call: fifteen instructions. The result is the address called, and the registers and memory then.\<close>

definition ap_boot :: "ap \<Rightarrow> memory \<Rightarrow> (u64 \<times> ap \<times> memory) option" where
  "ap_boot c m = do {
     is \<leftarrow> decode 15 (load_bytes m 0x8062 63);
     let (c, m) = fold ap_step is (c, m);
     Some (ap_rax c, c, m)
   }"

section \<open>The processors' side\<close>

lemma trampoline_code:
  "decode 15 (field trampoline 98 63) = Some [Mov_Eax 16, Mov_Sreg 0xD8, Mov_Sreg 0xC0, Mov_Sreg 0xD0, Mov_Sreg 0xE0, Mov_Sreg 0xE8,
     Mov_Eax 0, Lock_Xadd_Eax 0x8600, Shl_Eax 14, Mov_Rbx_Mem 0x8608, Sub_Rbx_Rax, Mov_Rsp_Rbx, Xor_Rbp_Rbp, Mov_Rax_Mem 0x8610, Call_Rax]"
  by code_simp

lemma length_trampoline: "length trampoline = 161"
  by (simp add: trampoline_def)

lemma store_load_bytes: "store_bytes m a (load_bytes m a n) = m"
proof
  fix x
  show "store_bytes m a (load_bytes m a n) x = m x"
    by (auto simp: store_bytes_def load_bytes_def)
qed

lemma ap_boot_shared:
  assumes "load_bytes m 0x8000 161 = trampoline" and "load_le m 0x8600 4 = (0 :: u32)"
  shows "ap_boot c m = Some (load_le m 0x8610 8, \<lparr>ap_rax = load_le m 0x8610 8, ap_rbx = load_le m 0x8608 8,
    ap_rsp = load_le m 0x8608 8, ap_rbp = 0\<rparr>, m)"
proof -
  have b: "load_bytes m 0x8062 63 = field trampoline 98 63"
    using load_bytes_field [OF assms(1), of 98 63] by simp
  have "to_le 4 (of_le (load_bytes m 0x8600 4) :: u32) = load_bytes m 0x8600 4"
    using to_le_of_le [of "load_bytes m 0x8600 4", where ?'a = 32] by simp
  then have z: "store_le m 0x8600 4 (0 :: u32) = m"
    using assms(2) store_load_bytes [of m "0x8600" 4] by (simp add: store_le_def load_le_def)
  show ?thesis
    by (cases c) (simp add: ap_boot_def b trampoline_code assms(2) z Let_def)
qed

section \<open>What is installed\<close>

definition ensure_mem :: "u64 \<Rightarrow> u64 \<Rightarrow> memory \<Rightarrow> memory" where
  "ensure_mem table static m = (if read_entry m table 0 AND 1 = 0 then write_entry m table 0 (static OR 0b11) else m)"

text \<open>The tables that serve the first two megabytes, and memory once they are complete.\<close>

definition smp_pdpt :: "statics \<Rightarrow> u64 \<Rightarrow> memory \<Rightarrow> u64" where
  "smp_pdpt st cr3 m = read_entry (ensure_mem (cr3 AND ADDR_MASK) (SMP_PDPT st) m) (cr3 AND ADDR_MASK) 0 AND ADDR_MASK"

definition smp_complete :: "statics \<Rightarrow> u64 \<Rightarrow> memory \<Rightarrow> memory" where
  "smp_complete st cr3 m = ensure_mem (smp_pdpt st cr3 m) (SMP_PD st) (ensure_mem (cr3 AND ADDR_MASK) (SMP_PDPT st) m)"

definition smp_pdpte :: "statics \<Rightarrow> u64 \<Rightarrow> memory \<Rightarrow> u64" where
  "smp_pdpte st cr3 m = read_entry (smp_complete st cr3 m) (smp_pdpt st cr3 m) 0"

definition low_mapped :: "statics \<Rightarrow> u64 \<Rightarrow> memory \<Rightarrow> memory" where
  "low_mapped st cr3 m = (if smp_pdpte st cr3 m AND push_bit 7 1 = 0
     then write_entry (smp_complete st cr3 m) (smp_pdpte st cr3 m AND ADDR_MASK) 0 0x83 else smp_complete st cr3 m)"

lemma print_step_mem:
  "gfx_ok s \<Longrightarrow> \<exists>s'. print_str t c s = Some s' \<and> gfx_ok s' \<and> mem s' = mem s"
  using print_str_ok [of s t c] same_but_terminal_fields(1) by blast

lemma ensure_entry_ok:
  assumes "gfx_ok s"
  shows "\<exists>s'. ensure_entry msg table static s = Some (read_entry (ensure_mem table static (mem s)) table 0, s')
    \<and> gfx_ok s' \<and> mem s' = ensure_mem table static (mem s)"
proof (cases "read_entry (mem s) table 0 AND 1 = 0")
  case True
  from print_step_mem [OF assms, of msg "0xF59E0B"] obtain s' where
    "print_str msg 0xF59E0B s = Some s'" "gfx_ok s'" "mem s' = mem s" by blast
  with True show ?thesis by (simp add: ensure_entry_def ensure_mem_def gfx_ok_def)
next
  case False
  with assms show ?thesis by (simp add: ensure_entry_def ensure_mem_def)
qed

lemma map_low_ok:
  assumes "gfx_ok s"
  shows "\<exists>s'. map_low pdpte s = Some s' \<and> gfx_ok s'
    \<and> mem s' = (if pdpte AND push_bit 7 1 = 0 then write_entry (mem s) (pdpte AND ADDR_MASK) 0 0x83 else mem s)"
proof -
  from print_step_mem [OF assms, of "lit ''   -> [DIAG] Forcing Surgical 2MB Map for AP Trampoline...'' @ [10]" "0x3B82F6"] obtain s' where
    "print_str (lit ''   -> [DIAG] Forcing Surgical 2MB Map for AP Trampoline...'' @ [10]) 0x3B82F6 s = Some s'" "gfx_ok s'" "mem s' = mem s"
    by blast
  with assms show ?thesis by (auto simp: map_low_def Let_def gfx_ok_def)
qed

lemma gfx_ok_mem: "gfx_ok s \<Longrightarrow> gfx_ok (s\<lparr>mem := m\<rparr>)"
  by (simp add: gfx_ok_def)

lemma copy_trampoline_eq:
  assumes "gfx_ok s" and "inject_config st cr3 (store_bytes (low_mapped st cr3 (mem s)) 0x8000 trampoline) = Some m"
  shows "\<exists>s'. copy_trampoline st cr0 cr3 s = Some ([cr0 AND NOT (push_bit 16 1), cr0], s') \<and> gfx_ok s' \<and> mem s' = m"
proof -
  obtain s1 where s1: "print_str (lit ''   -> [DIAG] Disabling CR0.WP...'' @ [10]) 0x3B82F6 s = Some s1" "gfx_ok s1" "mem s1 = mem s"
    using print_step_mem [OF assms(1)] by blast
  obtain s2 where s2: "print_str (lit ''   -> [DIAG] Resolving Hardware CR3...'' @ [10]) 0x3B82F6 s1 = Some s2" "gfx_ok s2" "mem s2 = mem s"
    using print_step_mem [OF s1(2)] s1(3) by metis
  obtain s3 where s3: "ensure_entry (lit ''   -> [DIAG] PML4[0] Missing! Injecting Static PDPT...'' @ [10]) (cr3 AND ADDR_MASK) (SMP_PDPT st) s2
      = Some (read_entry (ensure_mem (cr3 AND ADDR_MASK) (SMP_PDPT st) (mem s)) (cr3 AND ADDR_MASK) 0, s3)" "gfx_ok s3"
    "mem s3 = ensure_mem (cr3 AND ADDR_MASK) (SMP_PDPT st) (mem s)"
    using ensure_entry_ok [OF s2(2)] unfolding s2(3) by blast
  obtain s4 where s4: "ensure_entry (lit ''   -> [DIAG] PDPT[0] Missing! Injecting Static PD...'' @ [10]) (smp_pdpt st cr3 (mem s)) (SMP_PD st) s3
      = Some (smp_pdpte st cr3 (mem s), s4)" "gfx_ok s4" "mem s4 = smp_complete st cr3 (mem s)"
    using ensure_entry_ok [OF s3(2)] unfolding s3(3) smp_pdpte_def smp_complete_def by blast
  obtain s5 where s5: "map_low (smp_pdpte st cr3 (mem s)) s4 = Some s5" "gfx_ok s5" "mem s5 = low_mapped st cr3 (mem s)"
    using map_low_ok [OF s4(2)] unfolding s4(3) low_mapped_def by blast
  obtain s6 where s6: "print_str (lit ''   -> [DIAG] Copying 161-Byte Infallible Trampoline...'' @ [10]) 0x3B82F6 s5 = Some s6" "gfx_ok s6"
    "mem s6 = low_mapped st cr3 (mem s)"
    using print_step_mem [OF s5(2)] s5(3) by metis
  let ?s6 = "s6\<lparr>mem := store_bytes (mem s6) 0x8000 trampoline\<rparr>"
  obtain s7 where s7: "print_str (lit ''   -> [DIAG] Injecting Safe Configurations...'' @ [10]) 0x3B82F6 ?s6 = Some s7" "gfx_ok s7"
    "mem s7 = store_bytes (low_mapped st cr3 (mem s)) 0x8000 trampoline"
    using print_step_mem [OF gfx_ok_mem [OF s6(2)]] s6(3) by fastforce
  obtain s8 where s8: "print_str (lit ''   -> [DIAG] Restoring Protections...'' @ [10]) 0x3B82F6 (s7\<lparr>mem := m\<rparr>) = Some s8" "gfx_ok s8" "mem s8 = m"
    using print_step_mem [OF gfx_ok_mem [OF s7(2)]] by fastforce
  obtain s9 where s9: "print_str (lit ''   -> [DIAG] DONE. Proceeding to INIT-SIPI.'' @ [10]) 0x10B981 s8 = Some s9" "gfx_ok s9" "mem s9 = m"
    using print_step_mem [OF s8(2)] s8(3) by metis
  have "copy_trampoline st cr0 cr3 s = Some ([cr0 AND NOT (push_bit 16 1), cr0], s9)"
    unfolding copy_trampoline_def Let_def s1(1) s2(1) s3(1) bind.bind_lunit prod.case smp_pdpt_def [symmetric] s4(1) s5(1) s6(1) s7(1) s7(3)
      assms(2) s8(1) s9(1) ..
  with s9 show ?thesis by blast
qed

lemma low_part:
  assumes "apart 0x8000 0x618 t 8" and "i + n \<le> 0x618" and "0 < n"
  shows "apart (0x8000 + of_nat i) n t 8"
  using apart_sub [of t 8 "0x8000" "0x618" i n] assms by (simp add: apart_sym)

lemma low_keep:
  assumes "apart 0x8000 0x618 t 8" and "i + n \<le> 0x618" and "0 < n"
  shows "load_bytes (store_le x (0x8000 + of_nat i) n (v :: 'b::len word)) t 8 = load_bytes x t 8"
  using low_part [OF assms] by (simp add: store_le_def)

text \<open>The parameters as one view, and that they leave everything outside the low area alone.\<close>

lemma config_installed:
  assumes "unat (AP_STACKS st) + 65536 < 2 ^ 64"
  shows "\<exists>m'. inject_config st cr3 (store_bytes m 0x8000 trampoline) = Some m' \<and> load_bytes m' 0x8000 161 = trampoline
    \<and> load_le m' 0x8600 4 = (0 :: u32) \<and> load_le m' 0x8608 8 = AP_STACKS st + 65536 \<and> load_le m' 0x8610 8 = ap_main st
    \<and> load_le m' 0x8500 4 = (ucast cr3 :: u32) \<and> load_le m' 0x8100 2 = (31 :: u16) \<and> load_le m' 0x8102 4 = (0x8120 :: u32)
    \<and> (\<forall>t. apart 0x8000 0x618 t 8 \<longrightarrow> load_bytes m' t 8 = load_bytes m t 8)"
proof -
  have w: "wadd (AP_STACKS st) 65536 = Some (AP_STACKS st + 65536)"
    using wadd_small [of "AP_STACKS st" 65536] assms by simp
  have tr: "load_bytes (store_bytes m 0x8000 trampoline) 0x8000 161 = trampoline"
    using load_store_bytes_same [of trampoline m "0x8000"] by (simp add: length_trampoline)
  have ap: "apart 0x8100 2 0x8000 161" "apart 0x8102 4 0x8000 161" "apart 0x8120 8 0x8000 161" "apart 0x8128 8 0x8000 161"
    "apart 0x8130 8 0x8000 161" "apart 0x8138 8 0x8000 161" "apart 0x8500 4 0x8000 161" "apart 0x8600 4 0x8000 161"
    "apart 0x8608 8 0x8000 161" "apart 0x8610 8 0x8000 161"
    by (simp_all add: apart_def)
  have keep_tr: "load_bytes (store_bytes m 0x8000 trampoline) t 8 = load_bytes m t 8" if "apart 0x8000 0x618 t 8" for t
    using low_part [OF that, of 0 161] by (simp add: length_trampoline)
  define m' where "m' = store_le (store_le (store_le (store_le (store_le (store_le (store_le (store_le (store_le (store_le
    (store_bytes m 0x8000 trampoline) 0x8120 8 (0 :: u64)) 0x8128 8 (0x00CF9A000000FFFF :: u64)) 0x8130 8 (0x00CF92000000FFFF :: u64))
    0x8138 8 (0x00AF9A000000FFFF :: u64)) 0x8100 2 (31 :: u16)) 0x8102 4 (0x8120 :: u32)) 0x8500 4 (ucast cr3 :: u32))
    0x8600 4 (0 :: u32)) 0x8608 8 (AP_STACKS st + 65536)) 0x8610 8 (ap_main st)"
  have "inject_config st cr3 (store_bytes m 0x8000 trampoline) = Some m'"
    unfolding inject_config_def Let_def using w by (simp add: m'_def)
  moreover have "load_bytes m' 0x8000 161 = trampoline" by (simp add: m'_def tr ap)
  moreover have "load_le m' 0x8600 4 = (0 :: u32)" "load_le m' 0x8608 8 = AP_STACKS st + 65536" "load_le m' 0x8610 8 = ap_main st"
    "load_le m' 0x8500 4 = (ucast cr3 :: u32)" "load_le m' 0x8100 2 = (31 :: u16)" "load_le m' 0x8102 4 = (0x8120 :: u32)"
    by (simp_all add: m'_def apart_def)
  moreover have "load_bytes m' t 8 = load_bytes m t 8" if "apart 0x8000 0x618 t 8" for t
    using low_keep [OF that, of "0x120" 8, where ?'b = 64] low_keep [OF that, of "0x128" 8, where ?'b = 64] low_keep [OF that, of "0x130" 8, where ?'b = 64]
      low_keep [OF that, of "0x138" 8, where ?'b = 64] low_keep [OF that, of "0x100" 2, where ?'b = 16] low_keep [OF that, of "0x102" 4, where ?'b = 32]
      low_keep [OF that, of "0x500" 4, where ?'b = 32] low_keep [OF that, of "0x600" 4, where ?'b = 32] low_keep [OF that, of "0x608" 8, where ?'b = 64]
      low_keep [OF that, of "0x610" 8, where ?'b = 64] keep_tr [OF that]
    by (simp add: m'_def)
  ultimately show ?thesis by blast
qed

text \<open>Through the completed tables every address of the first two megabytes is itself.\<close>

lemma drop_bit_small: "unat (w :: u64) < 2 ^ n \<Longrightarrow> drop_bit n w = 0"
proof -
  assume w: "unat w < 2 ^ n"
  have "unat (drop_bit n w) = drop_bit n (unat w)"
    using unsigned_less [of w, where ?'a = nat] by (simp add: unsigned_drop_bit_eq take_bit_nat_eq_self)
  with w have "unat (drop_bit n w) = 0" by (simp add: drop_bit_eq_div [where ?'a = nat])
  then show ?thesis by (simp only: unat_eq_0)
qed

lemma low_index: "unat va < 2 ^ 21 \<Longrightarrow> level \<in> {0, 1, 2} \<Longrightarrow> pt_index level va = 0"
proof -
  assume va: "unat va < 2 ^ 21" and l: "level \<in> {0, 1, 2}"
  have "drop_bit n va = 0" if "21 \<le> n" for n
  proof -
    have "unat va < 2 ^ n" using va that power_increasing [of 21 n "2 :: nat"] by simp
    then show ?thesis by (rule drop_bit_small)
  qed
  with l show ?thesis by (auto simp: pt_index_def)
qed

lemma ensure_present: "read_entry (ensure_mem t st m) t 0 AND 1 \<noteq> 0"
proof -
  have "(st OR 3) AND 1 = (1 :: u64)" by (rule bit_word_eqI) (auto simp: bit_simps bit_numeral_rec)
  then show ?thesis by (simp add: ensure_mem_def)
qed

lemma ensure_other:
  assumes "aligned8 t" and "aligned8 t'" and "t \<noteq> t'"
  shows "read_entry (ensure_mem t st m) t' 0 = read_entry m t' 0"
  using aligned8_apart [OF assms] by (simp add: ensure_mem_def read_entry_def write_entry_def entry_addr_def)

lemma low_identity:
  fixes cr3 :: u64
  defines "pml4 \<equiv> cr3 AND ADDR_MASK"
  assumes "distinct [pml4, smp_pdpt st cr3 m, smp_pdpte st cr3 m AND ADDR_MASK]" and "smp_pdpte st cr3 m AND push_bit 7 1 = 0"
    and "\<forall>t\<in>{pml4, smp_pdpt st cr3 m, smp_pdpte st cr3 m AND ADDR_MASK}. load_bytes m' t 8 = load_bytes (low_mapped st cr3 m) t 8"
    and "unat va < 2 ^ 21"
  shows "walk_page_table pml4 m' va = Some (Some va)"
proof -
  let ?pdpt = "smp_pdpt st cr3 m" and ?pd = "smp_pdpte st cr3 m AND ADDR_MASK"
  have al: "aligned8 pml4" "aligned8 ?pdpt" "aligned8 ?pd" by (simp_all add: pml4_def smp_pdpt_def aligned8_mask)
  have rd: "read_entry m' t 0 = read_entry (low_mapped st cr3 m) t 0" if "t \<in> {pml4, ?pdpt, ?pd}" for t
    using assms(4) that by (auto simp: read_entry_def entry_addr_def load_le_def)
  have lm: "low_mapped st cr3 m = write_entry (smp_complete st cr3 m) ?pd 0 0x83" using assms(3) by (simp add: low_mapped_def)
  have w: "read_entry (write_entry x ?pd 0 v) t 0 = read_entry x t 0" if "aligned8 t" "t \<noteq> ?pd" for x v t
    using aligned8_apart [OF al(3) that(1)] that(2) by (simp add: read_entry_def write_entry_def entry_addr_def)
  have p3: "read_entry m' ?pd 0 = 0x83" using rd [of ?pd] by (simp add: lm)
  have p2: "read_entry m' ?pdpt 0 = smp_pdpte st cr3 m" using rd [of ?pdpt] w [OF al(2)] assms(2) by (simp add: lm smp_pdpte_def)
  have "read_entry m' pml4 0 = read_entry (smp_complete st cr3 m) pml4 0" using rd [of pml4] w [OF al(1)] assms(2) by (simp add: lm)
  also have "\<dots> = read_entry (ensure_mem pml4 (SMP_PDPT st) m) pml4 0"
    unfolding smp_complete_def pml4_def by (rule ensure_other) (use al assms(2) in \<open>auto simp: pml4_def\<close>)
  finally have p1: "read_entry m' pml4 0 AND 1 \<noteq> 0" "read_entry m' pml4 0 AND ADDR_MASK = ?pdpt"
    using ensure_present [of pml4 "SMP_PDPT st" m] by (simp_all add: smp_pdpt_def pml4_def)
  have pr: "smp_pdpte st cr3 m AND 1 \<noteq> 0" unfolding smp_pdpte_def smp_complete_def by (rule ensure_present)
  have va: "va AND 0x1FFFFF = va"
  proof -
    have "(0x1FFFFF :: u64) = mask 21" by (simp add: mask_eq_exp_minus_1)
    moreover have "take_bit 21 va = va" using drop_bit_small [OF assms(5)] by (simp add: take_bit_eq_self_iff_drop_bit_eq_0)
    ultimately show ?thesis by (simp add: take_bit_eq_mask)
  qed
  have i: "pt_index 0 va = 0" "pt_index (Suc 0) va = 0" "pt_index 2 va = 0"
    using low_index [OF assms(5), of 0] low_index [OF assms(5), of 1] low_index [OF assms(5), of 2] by simp_all
  have z: "0x83 AND ADDR_MASK = 0" "wadd 0 va = Some va"
    using assms(5) by (simp_all add: ADDR_MASK_def wadd_def)
  show ?thesis
    using p1 pr assms(3) by (simp add: walk_page_table_def i p2 p3 va z Let_def)
qed

section \<open>Properties\<close>


text \<open>A machine whose top-level table is empty.\<close>

definition demo_statics :: statics where
  "demo_statics = \<lparr>SMP_PDPT = 0x200000, SMP_PD = 0x201000, AP_STACKS = 0x210000, ap_main = 0x180000\<rparr>"

lemma zero_entry: "read_entry (\<lambda>_. 0) t i = 0"
  by (simp add: read_entry_def load_le_def load_bytes_def numeral_eq_Suc)

lemma demo_smp:
  "smp_pdpt demo_statics 0x1000 (\<lambda>_. 0) = 0x200000" "smp_pdpte demo_statics 0x1000 (\<lambda>_. 0) = 0x201003"
proof -
  show p: "smp_pdpt demo_statics 0x1000 (\<lambda>_. 0) = 0x200000"
    by (simp add: smp_pdpt_def ensure_mem_def zero_entry demo_statics_def ADDR_MASK_def)
  have "read_entry (write_entry (\<lambda>_. 0) 0x1000 0 v) 0x200000 0 = 0" for v
    using zero_entry [of "0x200000" 0] by (simp add: read_entry_def write_entry_def entry_addr_def apart_def)
  then show "smp_pdpte demo_statics 0x1000 (\<lambda>_. 0) = 0x201003"
    unfolding smp_pdpte_def smp_complete_def p by (simp add: ensure_mem_def zero_entry demo_statics_def ADDR_MASK_def)
qed


end
