(* ===== verification/Vga.thy ===== *)
theory Vga
  imports BootTypes Machine
begin

text \<open>
  The early text console (\<open>src/src/vga.rs\<close>), used by \<open>println!\<close> before the compositor is up: a cursor
  and glyphs written to the framebuffer byte by byte. The font is that of the crate \<open>font8x8\<close>, a
  parameter from characters to rows of eight pixels, the lowest bit leftmost.
\<close>

section \<open>The writer\<close>

record vga_writer =
  vg_framebuffer :: u64
  vg_width :: usize
  vg_height :: usize
  vg_stride :: usize
  x_pos :: usize
  y_pos :: usize

type_synonym font8x8 = "rchar \<Rightarrow> u8 list option"

definition vga_new :: "boot_info \<Rightarrow> vga_writer" where
  "vga_new info = \<lparr>vg_framebuffer = framebuffer_base info, vg_width = bi_width info, vg_height = bi_height info,
     vg_stride = bi_stride info, x_pos = 10, y_pos = 10\<rparr>"

definition put_pixel :: "vga_writer \<Rightarrow> usize \<Rightarrow> usize \<Rightarrow> u8 \<Rightarrow> memory \<Rightarrow> memory option" where
  "put_pixel w x y color m = do {
     r \<leftarrow> umul y (vg_stride w);
     r \<leftarrow> umul r 4;
     c \<leftarrow> umul x 4;
     offset \<leftarrow> uadd r c;
     o1 \<leftarrow> uadd offset 1;
     o2 \<leftarrow> uadd offset 2;
     o3 \<leftarrow> uadd offset 3;
     let p = vg_framebuffer w;
     Some (m(p + of_nat offset := color, p + of_nat o1 := color, p + of_nat o2 := color, p + of_nat o3 := 0))
   }"

definition newline :: "vga_writer \<Rightarrow> vga_writer option" where
  "newline w = do {
     y \<leftarrow> uadd (y_pos w) 10;
     Some (w\<lparr>y_pos := y, x_pos := 10\<rparr>)
   }"

definition glyph_pixel :: "vga_writer \<Rightarrow> u8 list \<Rightarrow> nat \<times> nat \<Rightarrow> memory \<Rightarrow> memory option" where
  "glyph_pixel w glyph = (\<lambda>(y, x) m. do {
     px \<leftarrow> uadd (x_pos w) x;
     py \<leftarrow> uadd (y_pos w) y;
     put_pixel w px py (if glyph ! y AND push_bit x 1 \<noteq> 0 then 0xFF else 0x00) m
   })"

definition write_char :: "font8x8 \<Rightarrow> rchar \<Rightarrow> vga_writer \<times> memory \<Rightarrow> (vga_writer \<times> memory) option" where
  "write_char font c = (\<lambda>(w, m). do {
     right \<leftarrow> uadd (x_pos w) 8;
     w \<leftarrow> (if right \<ge> vg_width w then newline w else Some w);
     m \<leftarrow> (case font c of
         None \<Rightarrow> Some m
       | Some glyph \<Rightarrow> foldM (glyph_pixel w glyph) (List.product [0..<length glyph] [0..<8]) m);
     x \<leftarrow> uadd (x_pos w) 8;
     Some (w\<lparr>x_pos := x\<rparr>, m)
   })"

definition write_byte :: "font8x8 \<Rightarrow> u8 \<Rightarrow> vga_writer \<times> memory \<Rightarrow> (vga_writer \<times> memory) option" where
  "write_byte font b = (\<lambda>(w, m).
     if b = 10 then do { w \<leftarrow> newline w; Some (w, m) } else write_char font (unat b) (w, m))"

definition write_string :: "font8x8 \<Rightarrow> rstr \<Rightarrow> vga_writer \<times> memory \<Rightarrow> (vga_writer \<times> memory) option" where
  "write_string font s = foldM (write_byte font) s"

text \<open>\<open>_print\<close>: text is lost while there is no writer. \<open>println!\<close> adds a line feed.\<close>

definition vga_print :: "font8x8 \<Rightarrow> rstr \<Rightarrow> vga_writer option \<times> memory \<Rightarrow> (vga_writer option \<times> memory) option" where
  "vga_print font text = (\<lambda>(writer, m). case writer of
       None \<Rightarrow> Some (None, m)
     | Some w \<Rightarrow> map_option (\<lambda>(w, m). (Some w, m)) (write_string font text (w, m)))"

definition vga_println :: "font8x8 \<Rightarrow> rstr \<Rightarrow> vga_writer option \<times> memory \<Rightarrow> (vga_writer option \<times> memory) option" where
  "vga_println font text = vga_print font (text @ [10])"

section \<open>Where pixels go\<close>

definition pixel_bytes :: "vga_writer \<Rightarrow> usize \<Rightarrow> usize \<Rightarrow> u64 set" where
  "pixel_bytes w x y = (\<lambda>k. vg_framebuffer w + of_nat (4 * (y * vg_stride w + x) + k)) ` {..<4}"

text \<open>A step that keeps the screen's geometry and touches only pixels of columns below the width and rows
  from \<open>y0\<close> to eight below the cursor.\<close>

definition same_screen :: "vga_writer \<Rightarrow> vga_writer \<Rightarrow> bool" where
  "same_screen w w' \<longleftrightarrow> vg_framebuffer w' = vg_framebuffer w \<and> vg_width w' = vg_width w \<and> vg_height w' = vg_height w
     \<and> vg_stride w' = vg_stride w"

definition touched :: "vga_writer \<Rightarrow> nat \<Rightarrow> nat \<Rightarrow> u64 set" where
  "touched w y0 y1 = (\<Union>x\<in>{..<vg_width w}. \<Union>y\<in>{y0..<y1}. pixel_bytes w x y)"

definition row_fits :: "vga_writer \<Rightarrow> nat \<Rightarrow> bool" where
  "row_fits w y \<longleftrightarrow> (y + 8) * vg_stride w * 4 < 2 ^ 64"

lemma put_pixel_ok:
  assumes "x < vg_width w" and "vg_width w \<le> vg_stride w" and "Suc y * vg_stride w * 4 < 2 ^ 64"
  shows "\<exists>m'. put_pixel w x y c m = Some m' \<and> (\<forall>a. a \<notin> pixel_bytes w x y \<longrightarrow> m' a = m a)"
proof -
  let ?o = "4 * (y * vg_stride w + x)"
  have "?o + 4 \<le> Suc y * vg_stride w * 4" using assms(1,2) by simp
  then have b: "?o + 4 < 2 ^ 64" using assms(3) by linarith
  then have u: "umul y (vg_stride w) = Some (y * vg_stride w)" "umul (y * vg_stride w) 4 = Some (y * vg_stride w * 4)" "umul x 4 = Some (x * 4)"
    "uadd (y * vg_stride w * 4) (x * 4) = Some ?o" "uadd ?o 1 = Some (?o + 1)" "uadd ?o 2 = Some (?o + 2)" "uadd ?o 3 = Some (?o + 3)"
    by simp_all
  have pb: "vg_framebuffer w + of_nat (?o + k) \<in> pixel_bytes w x y" if "k < 4" for k
    using that by (auto simp: pixel_bytes_def)
  have "vg_framebuffer w + of_nat ?o \<in> pixel_bytes w x y" "vg_framebuffer w + of_nat (?o + 1) \<in> pixel_bytes w x y"
    "vg_framebuffer w + of_nat (?o + 2) \<in> pixel_bytes w x y" "vg_framebuffer w + of_nat (?o + 3) \<in> pixel_bytes w x y"
    using pb [of 0] pb [of 1] pb [of 2] pb [of 3] by (simp_all del: of_nat_add of_nat_mult)
  then show ?thesis
    unfolding put_pixel_def u bind.bind_lunit Let_def by (auto simp del: of_nat_add of_nat_mult)
qed

lemma row_fits_small:
  assumes "row_fits w y" and "0 < vg_stride w"
  shows "y + 8 < 2 ^ 64" and "vg_stride w < 2 ^ 60"
proof -
  have b: "(y + 8) * (vg_stride w * 4) < 2 ^ 64" using assms(1) by (simp add: row_fits_def mult.assoc)
  have "(y + 8) * 1 \<le> (y + 8) * (vg_stride w * 4)" using assms(2) by (intro mult_le_mono2) simp
  from le_less_trans [OF this b] show "y + 8 < 2 ^ 64" by simp
  have "8 * (vg_stride w * 4) \<le> (y + 8) * (vg_stride w * 4)" by (intro mult_le_mono1) simp
  from le_less_trans [OF this b] show "vg_stride w < 2 ^ 60" by simp
qed

lemma glyph_ok:
  assumes "x_pos w + 8 \<le> vg_width w" and "vg_width w \<le> vg_stride w" and "row_fits w (y_pos w)"
    and "set ps \<subseteq> {..<8} \<times> {..<8}"
  shows "\<exists>m'. foldM (glyph_pixel w glyph) ps m = Some m' \<and> (\<forall>a. a \<notin> touched w (y_pos w) (y_pos w + 8) \<longrightarrow> m' a = m a)"
  using assms(4)
proof (induction ps arbitrary: m)
  case (Cons p ps)
  obtain y x where p: "p = (y, x)" "y < 8" "x < 8" using Cons.prems by (cases p) auto
  have "Suc (y_pos w + y) * vg_stride w * 4 \<le> (y_pos w + 8) * vg_stride w * 4"
    using p(2) by (intro mult_le_mono1) simp
  also have "\<dots> < 2 ^ 64" using assms(3) by (simp add: row_fits_def)
  finally have r: "Suc (y_pos w + y) * vg_stride w * 4 < 2 ^ 64" .
  have "0 < vg_stride w" using assms(1,2) by simp
  from row_fits_small [OF assms(3) this] have yb: "y_pos w + y < 2 ^ 64" and xb: "x_pos w + x < 2 ^ 64"
    using p assms(1,2) by simp_all
  have "x_pos w + x < vg_width w" using assms(1) p(3) by simp
  from put_pixel_ok [OF \<open>x_pos w + x < vg_width w\<close> assms(2) r] obtain m1 where
    m1: "put_pixel w (x_pos w + x) (y_pos w + y) (if glyph ! y AND push_bit x 1 \<noteq> 0 then 0xFF else 0x00) m = Some m1"
    "\<forall>a. a \<notin> pixel_bytes w (x_pos w + x) (y_pos w + y) \<longrightarrow> m1 a = m a" by blast
  have s: "pixel_bytes w (x_pos w + x) (y_pos w + y) \<subseteq> touched w (y_pos w) (y_pos w + 8)"
    using \<open>x_pos w + x < vg_width w\<close> p(2) by (force simp: touched_def simp del: of_nat_add of_nat_mult)
  have "glyph_pixel w glyph p m = Some m1" using m1(1) xb yb by (simp add: glyph_pixel_def p uadd_def)
  moreover from Cons.IH [of m1] Cons.prems obtain m2 where
    "foldM (glyph_pixel w glyph) ps m1 = Some m2" "\<forall>a. a \<notin> touched w (y_pos w) (y_pos w + 8) \<longrightarrow> m2 a = m1 a" by auto
  ultimately show ?case using m1(2) s by (intro exI [of _ m2]) auto
qed simp

text \<open>The cursor is at least ten pixels from the left edge and never beyond the right one.\<close>

definition cursor_ok :: "vga_writer \<Rightarrow> bool" where
  "cursor_ok w \<longleftrightarrow> 10 \<le> x_pos w \<and> x_pos w \<le> vg_width w \<and> 18 < vg_width w \<and> vg_width w \<le> vg_stride w"

lemma write_byte_ok:
  assumes "cursor_ok w" and "row_fits w (y_pos w + 10)" and "\<forall>c g. font c = Some g \<longrightarrow> length g = 8"
  shows "\<exists>w' m'. write_byte font b (w, m) = Some (w', m') \<and> cursor_ok w' \<and> same_screen w w'
    \<and> y_pos w \<le> y_pos w' \<and> y_pos w' \<le> y_pos w + 10
    \<and> (\<forall>a. a \<notin> touched w (y_pos w) (y_pos w' + 8) \<longrightarrow> m' a = m a)"
proof -
  have st: "0 < vg_stride w" "vg_width w \<le> vg_stride w" using assms(1) by (simp_all add: cursor_ok_def)
  note small = row_fits_small [OF assms(2) st(1)]
  have x: "x_pos w + 8 < 2 ^ 64" using assms(1) small(2) by (simp add: cursor_ok_def)
  have nl: "newline w = Some (w\<lparr>y_pos := y_pos w + 10, x_pos := 10\<rparr>)" using small(1) by (simp add: newline_def uadd_def)
  show ?thesis
  proof (cases "b = 10")
    case True
    with assms(1) show ?thesis by (simp add: write_byte_def nl cursor_ok_def same_screen_def)
  next
    case False
    define w1 where "w1 = (if vg_width w \<le> x_pos w + 8 then w\<lparr>y_pos := y_pos w + 10, x_pos := 10\<rparr> else w)"
    have w1: "same_screen w w1" "x_pos w1 + 8 \<le> vg_width w" "10 \<le> x_pos w1" "y_pos w \<le> y_pos w1" "y_pos w1 \<le> y_pos w + 10"
      "vg_width w1 = vg_width w" "vg_stride w1 = vg_stride w" "vg_framebuffer w1 = vg_framebuffer w"
      using assms(1) by (auto simp: w1_def same_screen_def cursor_ok_def)
    have "(y_pos w1 + 8) * vg_stride w * 4 \<le> (y_pos w + 10 + 8) * vg_stride w * 4" using w1(5) by (intro mult_le_mono1) simp
    also have "\<dots> < 2 ^ 64" using assms(2) by (simp add: row_fits_def)
    finally have r1: "row_fits w1 (y_pos w1)" using w1(7) by (simp add: row_fits_def)
    have "\<exists>m'. (case font (unat b) of None \<Rightarrow> Some m
        | Some glyph \<Rightarrow> foldM (glyph_pixel w1 glyph) (List.product [0..<length glyph] [0..<8]) m) = Some m'
        \<and> (\<forall>a. a \<notin> touched w1 (y_pos w1) (y_pos w1 + 8) \<longrightarrow> m' a = m a)"
    proof (cases "font (unat b)")
      case (Some g)
      with assms(3) have "set (List.product [0..<length g] [0..<8]) \<subseteq> {..<8} \<times> {..<8}" by auto
      from glyph_ok [OF _ _ r1 this] w1(2,6,7) st(2) Some show ?thesis by simp
    qed simp
    then obtain m' where m': "(case font (unat b) of None \<Rightarrow> Some m
        | Some glyph \<Rightarrow> foldM (glyph_pixel w1 glyph) (List.product [0..<length glyph] [0..<8]) m) = Some m'"
      "\<forall>a. a \<notin> touched w1 (y_pos w1) (y_pos w1 + 8) \<longrightarrow> m' a = m a" by blast
    have x1: "uadd (x_pos w1) 8 = Some (x_pos w1 + 8)" using w1(2) st(2) small(2) by (simp add: uadd_def)
    have "(if vg_width w \<le> x_pos w + 8 then newline w else Some w) = Some w1" by (simp add: nl w1_def)
    then have "write_byte font b (w, m) = Some (w1\<lparr>x_pos := x_pos w1 + 8\<rparr>, m')"
      using False m'(1) x x1 by (simp add: write_byte_def write_char_def uadd_def [of "x_pos w"] del: uadd_Some_iff)
    moreover have "touched w1 (y_pos w1) (y_pos w1 + 8) \<subseteq> touched w (y_pos w) (y_pos w1 + 8)"
      using w1(4,6-8) unfolding touched_def pixel_bytes_def by (intro UN_mono) auto
    ultimately show ?thesis
      using w1 m'(2) assms(1) by (intro exI [of _ "w1\<lparr>x_pos := x_pos w1 + 8\<rparr>"] exI [of _ m']) (auto simp: cursor_ok_def same_screen_def)
  qed
qed

lemma same_screen_trans: "same_screen u v \<Longrightarrow> same_screen v w \<Longrightarrow> same_screen u w"
  by (simp add: same_screen_def)

lemma touched_mono:
  assumes "same_screen w w'" and "y0 \<le> y0'" and "y1' \<le> y1"
  shows "touched w' y0' y1' \<subseteq> touched w y0 y1"
  using assms unfolding touched_def pixel_bytes_def same_screen_def by (intro UN_mono) auto

lemma write_string_ok:
  assumes "cursor_ok w" and "row_fits w (y_pos w + 10 * length text)" and "\<forall>c g. font c = Some g \<longrightarrow> length g = 8"
  shows "\<exists>w' m'. write_string font text (w, m) = Some (w', m') \<and> cursor_ok w' \<and> same_screen w w'
    \<and> y_pos w \<le> y_pos w' \<and> y_pos w' \<le> y_pos w + 10 * length text
    \<and> (\<forall>a. a \<notin> touched w (y_pos w) (y_pos w' + 8) \<longrightarrow> m' a = m a)"
  using assms(1,2)
proof (induction "text" arbitrary: w m)
  case (Cons b bs)
  have mono: "row_fits w y" if "y \<le> y_pos w + 10 * length (b # bs)" for y
  proof -
    have "(y + 8) * vg_stride w * 4 \<le> (y_pos w + 10 * length (b # bs) + 8) * vg_stride w * 4" using that by (intro mult_le_mono1) simp
    also have "\<dots> < 2 ^ 64" using Cons.prems(2) by (simp add: row_fits_def)
    finally show ?thesis by (simp add: row_fits_def)
  qed
  from write_byte_ok [OF Cons.prems(1) mono assms(3), of b m] obtain w1 m1 where
    w1: "write_byte font b (w, m) = Some (w1, m1)" "cursor_ok w1" "same_screen w w1" "y_pos w \<le> y_pos w1" "y_pos w1 \<le> y_pos w + 10"
    "\<forall>a. a \<notin> touched w (y_pos w) (y_pos w1 + 8) \<longrightarrow> m1 a = m a" by auto
  have "row_fits w1 (y_pos w1 + 10 * length bs)"
    using mono [of "y_pos w1 + 10 * length bs"] w1(3,5) by (simp add: row_fits_def same_screen_def)
  from Cons.IH [OF w1(2) this] obtain w2 m2 where
    w2: "write_string font bs (w1, m1) = Some (w2, m2)" "cursor_ok w2" "same_screen w1 w2" "y_pos w1 \<le> y_pos w2"
    "y_pos w2 \<le> y_pos w1 + 10 * length bs" "\<forall>a. a \<notin> touched w1 (y_pos w1) (y_pos w2 + 8) \<longrightarrow> m2 a = m1 a" by blast
  have "touched w (y_pos w) (y_pos w1 + 8) \<subseteq> touched w (y_pos w) (y_pos w2 + 8)"
    "touched w1 (y_pos w1) (y_pos w2 + 8) \<subseteq> touched w (y_pos w) (y_pos w2 + 8)"
    using touched_mono [of w w] touched_mono [OF w1(3,4)] w2(4) by (simp_all add: same_screen_def)
  moreover have "write_string font (b # bs) (w, m) = Some (w2, m2)" using w1(1) w2(1) by (simp add: write_string_def)
  moreover have "m2 a = m a" if "a \<notin> touched w (y_pos w) (y_pos w2 + 8)" for a
    using that w1(6) w2(6) calculation(1,2) by (metis subsetD)
  ultimately show ?case
    using w1(4,5) w2(2,4,5) same_screen_trans [OF w1(3) w2(3)] by (intro exI [of _ w2] exI [of _ m2]) simp
qed (simp add: write_string_def same_screen_def)

section \<open>Properties\<close>

text \<open>C40. Printing any text on a screen wider than 18 pixels, through any font of eight-row glyphs, never
  panics while the rows stay addressable: the cursor stays between the left margin and the width, it
  moves down by at most ten rows per byte, and only pixels of columns below the width and of the rows
  from the old cursor to eight below the new one are written. Nothing bounds the rows by the screen's
  height, which the writer stores and never reads.\<close>

theorem vga_print_bounds:
  assumes "18 < vg_width w" and "vg_width w \<le> vg_stride w" and "10 \<le> x_pos w" and "x_pos w \<le> vg_width w"
    and "(y_pos w + 10 * length text + 8) * vg_stride w * 4 < 2 ^ 64" and "\<forall>c g. font c = Some g \<longrightarrow> length g = 8"
  shows "\<exists>w' m'. vga_print font text (Some w, m) = Some (Some w', m') \<and> 10 \<le> x_pos w' \<and> x_pos w' \<le> vg_width w
    \<and> y_pos w \<le> y_pos w' \<and> y_pos w' \<le> y_pos w + 10 * length text
    \<and> (\<forall>a. m' a \<noteq> m a \<longrightarrow> (\<exists>x y. x < vg_width w \<and> y_pos w \<le> y \<and> y < y_pos w' + 8 \<and> a \<in> pixel_bytes w x y))"
proof -
  have "cursor_ok w" "row_fits w (y_pos w + 10 * length text)" using assms(1-5) by (simp_all add: cursor_ok_def row_fits_def)
  from write_string_ok [OF this assms(6), of m] obtain w' m' where
    w': "write_string font text (w, m) = Some (w', m')" "cursor_ok w'" "same_screen w w'" "y_pos w \<le> y_pos w'"
    "y_pos w' \<le> y_pos w + 10 * length text" "\<forall>a. a \<notin> touched w (y_pos w) (y_pos w' + 8) \<longrightarrow> m' a = m a" by blast
  have "\<exists>x y. x < vg_width w \<and> y_pos w \<le> y \<and> y < y_pos w' + 8 \<and> a \<in> pixel_bytes w x y" if "m' a \<noteq> m a" for a
  proof -
    from that w'(6) have "a \<in> touched w (y_pos w) (y_pos w' + 8)" by blast
    then show ?thesis unfolding touched_def by force
  qed
  with w' show ?thesis by (intro exI [of _ w'] exI [of _ m']) (simp add: vga_print_def cursor_ok_def same_screen_def)
qed

theorem vga_print_bounds_witness:
  "\<exists>w' m'. vga_print (\<lambda>c. Some (replicate 8 0xFF)) (lit ''Hi'') (Some \<lparr>vg_framebuffer = 0x80000000, vg_width = 30, vg_height = 5,
      vg_stride = 32, x_pos = 10, y_pos = 10\<rparr>, \<lambda>_. 0) = Some (Some w', m') \<and> x_pos w' \<le> 30"
proof -
  let ?w = "\<lparr>vg_framebuffer = 0x80000000, vg_width = 30, vg_height = 5, vg_stride = 32, x_pos = 10, y_pos = 10\<rparr>"
  have "\<exists>w' m'. vga_print (\<lambda>c. Some (replicate 8 0xFF)) (lit ''Hi'') (Some ?w, \<lambda>_. 0) = Some (Some w', m') \<and> 10 \<le> x_pos w' \<and> x_pos w' \<le> vg_width ?w
    \<and> y_pos ?w \<le> y_pos w' \<and> y_pos w' \<le> y_pos ?w + 10 * length (lit ''Hi'')
    \<and> (\<forall>a. m' a \<noteq> (\<lambda>_. 0) a \<longrightarrow> (\<exists>x y. x < vg_width ?w \<and> y_pos ?w \<le> y \<and> y < y_pos w' + 8 \<and> a \<in> pixel_bytes ?w x y))"
    by (rule vga_print_bounds) auto
  then show ?thesis by auto
qed

end
