(* ===== verification/FrameAllocator.thy ===== *)
theory FrameAllocator
  imports BootTypes
begin

text \<open>
  The physical frame allocator (\<open>src/src/frame_allocator.rs\<close>): a bitmap of 65536 frames of
  4 KiB in which a set bit marks a free frame, filled from the UEFI memory map by \<open>init\<close> and
  emptied one frame at a time by \<open>allocate_frame\<close>. What \<open>init\<close> prints is returned as the
  list of its lines.
\<close>

section \<open>State and operations\<close>

definition PAGE_SIZE :: u64 where "PAGE_SIZE = 4096"
definition BITMAP_SIZE :: usize where "BITMAP_SIZE = 1024"

record bitmap_allocator =
  bitmap :: "u64 list"
  highest_frame :: usize
  free_frames :: usize

definition FRAME_ALLOCATOR :: bitmap_allocator where
  "FRAME_ALLOCATOR = \<lparr>bitmap = replicate BITMAP_SIZE 0, highest_frame = 0, free_frames = 0\<rparr>"

text \<open>The body of the inner loop of \<open>init\<close>; \<open>total_free\<close> has type \<open>i32\<close>, the default of
  an unconstrained integer literal.\<close>

definition free_frame ::
  "usize \<Rightarrow> bitmap_allocator \<times> i32 \<Rightarrow> (bitmap_allocator \<times> i32) option" where
  "free_frame frame_idx = (\<lambda>(fa, total_free).
     if frame_idx < BITMAP_SIZE * 64 then do {
       let array_idx = frame_idx div 64;
       let bit_idx = frame_idx mod 64;
       w \<leftarrow> nth_chk (bitmap fa) array_idx;
       bm \<leftarrow> upd_chk (bitmap fa) array_idx (w OR push_bit bit_idx 1);
       ff \<leftarrow> uadd (free_frames fa) 1;
       tf \<leftarrow> iadd total_free 1;
       Some (\<lparr>bitmap = bm,
              highest_frame = (if frame_idx > highest_frame fa then frame_idx
                               else highest_frame fa),
              free_frames = ff\<rparr>, tf)
     } else Some (fa, total_free))"

definition init_entry ::
  "uefi_memory_descriptor \<Rightarrow> bitmap_allocator \<times> i32 \<Rightarrow> (bitmap_allocator \<times> i32) option" where
  "init_entry descriptor acc =
     (if desc_ty descriptor = 7 then do {
        let start_frame = unat (physical_start descriptor div PAGE_SIZE);
        end_frame \<leftarrow> uadd start_frame (unat (number_of_pages descriptor));
        foldM free_frame [start_frame..<end_frame] acc
      } else Some acc)"

definition init_banner :: "i32 \<Rightarrow> i32 \<Rightarrow> rstr list" where
  "init_banner total_free mb =
     [lit ''>>> BITMAP ALLOCATOR ONLINE <<<'',
      lit ''Successfully mapped '' @ dec_int total_free @ lit '' individual Free Frames (''
        @ dec_int mb @ lit '' MB)'',
      lit ''-----------------------------------'']"

definition init :: "memory \<Rightarrow> boot_info \<Rightarrow> bitmap_allocator
    \<Rightarrow> (bitmap_allocator \<times> rstr list) option" where
  "init m info fa =
     (if memory_map_desc_size info = 0 then None
      else do {
        let num_entries = memory_map_size info div memory_map_desc_size info;
        (fa', total_free) \<leftarrow> foldM (\<lambda>i acc. do {
            off \<leftarrow> umul i (memory_map_desc_size info);
            entry_ptr \<leftarrow> uadd (unat (memory_map_addr info)) off;
            init_entry (read_descriptor m (of_nat entry_ptr)) acc
          }) [0..<num_entries] (fa, 0);
        bytes \<leftarrow> (if in_i32 (total_free * 4096) then Some (total_free * 4096) else None);
        Some (fa', lit ''Initializing Physical Frame Bitmap Allocator...''
                   # init_banner total_free (bytes div (1024 * 1024)))
      })"

fun allocate_scan ::
  "bitmap_allocator \<Rightarrow> usize list \<Rightarrow> (u64 option \<times> bitmap_allocator) option" where
  "allocate_scan fa [] = Some (None, fa)"
| "allocate_scan fa (i # is) =
     (let array_idx = i div 64; bit_idx = i mod 64 in do {
        w \<leftarrow> nth_chk (bitmap fa) array_idx;
        if w AND push_bit bit_idx 1 \<noteq> 0 then do {
          bm \<leftarrow> upd_chk (bitmap fa) array_idx (w AND NOT (push_bit bit_idx 1));
          ff \<leftarrow> usub (free_frames fa) 1;
          a \<leftarrow> wmul (of_nat i) PAGE_SIZE;
          Some (Some a, fa\<lparr>bitmap := bm, free_frames := ff\<rparr>)
        } else allocate_scan fa is
      })"

definition allocate_frame :: "bitmap_allocator \<Rightarrow> (u64 option \<times> bitmap_allocator) option" where
  "allocate_frame fa = allocate_scan fa [0..<highest_frame fa + 1]"

section \<open>Abstraction and invariant\<close>

text \<open>The free frames, as a set of frame numbers.\<close>

definition free_set :: "bitmap_allocator \<Rightarrow> nat set" where
  "free_set fa = {i. i < 65536 \<and> bit (bitmap fa ! (i div 64)) (i mod 64)}"

definition fa_inv :: "bitmap_allocator \<Rightarrow> bool" where
  "fa_inv fa \<longleftrightarrow> length (bitmap fa) = 1024 \<and> highest_frame fa < 65536
     \<and> (\<forall>i\<in>free_set fa. i \<le> highest_frame fa) \<and> card (free_set fa) \<le> free_frames fa"

lemma finite_free_set [simp]: "finite (free_set fa)"
  by (rule finite_subset [of _ "{..<65536}"]) (auto simp: free_set_def)

lemma fa_inv_initial: "fa_inv FRAME_ALLOCATOR" "free_set FRAME_ALLOCATOR = {}"
  by (auto simp: fa_inv_def FRAME_ALLOCATOR_def free_set_def BITMAP_SIZE_def)

lemma split_frame: "(i::nat) = j \<longleftrightarrow> i div 64 = j div 64 \<and> i mod 64 = j mod 64"
  by (metis div_mult_mod_eq)

lemma free_set_clear:
  assumes "i < 65536" and "length (bitmap fa) = 1024"
  shows "free_set (fa\<lparr>bitmap := (bitmap fa)[i div 64 := (bitmap fa ! (i div 64)) AND NOT (push_bit (i mod 64) 1)],
           free_frames := ff\<rparr>) = free_set fa - {i}"
  using assms
  by (auto simp: free_set_def nth_list_update bit_simps split_frame [of _ i] split: if_splits)

lemma free_set_set:
  assumes "i < 65536" and "length bm = 1024"
  shows "free_set \<lparr>bitmap = bm[i div 64 := (bm ! (i div 64)) OR push_bit (i mod 64) 1],
           highest_frame = h, free_frames = ff\<rparr> = insert i (free_set \<lparr>bitmap = bm, highest_frame = h', free_frames = ff'\<rparr>)"
  using assms
  by (auto simp: free_set_def nth_list_update bit_simps split_frame [of _ i] split: if_splits)

section \<open>Allocation\<close>

definition take_frame :: "bitmap_allocator \<Rightarrow> nat \<Rightarrow> bitmap_allocator" where
  "take_frame fa i = fa\<lparr>bitmap := (bitmap fa)[i div 64 :=
       (bitmap fa ! (i div 64)) AND NOT (push_bit (i mod 64) 1)],
     free_frames := free_frames fa - 1\<rparr>"

lemma take_frame_inv:
  assumes "fa_inv fa" and "i \<in> free_set fa"
  shows "fa_inv (take_frame fa i)" and "free_set (take_frame fa i) = free_set fa - {i}"
proof -
  from assms have i: "i < 65536" "length (bitmap fa) = 1024"
    by (auto simp: fa_inv_def free_set_def)
  show fs: "free_set (take_frame fa i) = free_set fa - {i}"
    unfolding take_frame_def by (rule free_set_clear [OF i])
  have "card (free_set (take_frame fa i)) = card (free_set fa) - 1"
    using assms(2) by (simp add: fs)
  with assms fs show "fa_inv (take_frame fa i)"
    by (auto simp: fa_inv_def take_frame_def)
qed

lemma allocate_scan_find:
  assumes "fa_inv fa" and "set xs \<subseteq> {..<65536}"
  shows "allocate_scan fa xs =
     (case find (\<lambda>i. i \<in> free_set fa) xs of None \<Rightarrow> Some (None, fa)
      | Some i \<Rightarrow> Some (Some (of_nat i * PAGE_SIZE), take_frame fa i))"
  using assms(2)
proof (induction xs)
  case (Cons i xs)
  then have i: "i < 65536" "i div 64 < length (bitmap fa)"
    using assms(1) by (auto simp: fa_inv_def)
  have free: "bitmap fa ! (i div 64) AND push_bit (i mod 64) 1 \<noteq> 0 \<longleftrightarrow> i \<in> free_set fa"
    using i by (subst bit_test) (auto simp: free_set_def)
  show ?case
  proof (cases "i \<in> free_set fa")
    case True
    then have "0 < card (free_set fa)" by (auto simp: card_gt_0_iff)
    then have ff: "1 \<le> free_frames fa" using assms(1) by (simp add: fa_inv_def)
    have "unat (of_nat i :: u64) = i" using i by (simp add: unat_of_nat)
    then have "wmul (of_nat i) PAGE_SIZE = Some (of_nat i * PAGE_SIZE)"
      using i by (simp add: wmul_def PAGE_SIZE_def)
    with True free i ff show ?thesis
      by (simp add: Let_def nth_chk_def upd_chk_def usub_def take_frame_def)
  next
    case False
    with free i Cons show ?thesis by (simp add: Let_def nth_chk_def)
  qed
qed simp

lemma find_upt_Min:
  assumes "finite A" and "\<forall>i\<in>A. i < n"
  shows "find (\<lambda>i. i \<in> A) [0..<n] = (if A = {} then None else Some (Min A))"
proof (cases "A = {}")
  case True
  then show ?thesis by (simp add: find_None_iff)
next
  case False
  from assms False have "Min A \<in> A" "Min A < n" by simp_all
  moreover have "i \<notin> A" if "i < Min A" for i
    using that Min_le [OF assms(1)] leD by blast
  ultimately show ?thesis
    using False by (auto simp: find_Some_iff)
qed

lemma allocate_frame_eq:
  assumes "fa_inv fa"
  shows "allocate_frame fa =
     (if free_set fa = {} then Some (None, fa)
      else Some (Some (of_nat (Min (free_set fa)) * PAGE_SIZE), take_frame fa (Min (free_set fa))))"
proof -
  have "set [0..<highest_frame fa + 1] \<subseteq> {..<65536}"
    and "\<forall>i\<in>free_set fa. i < highest_frame fa + 1"
    using assms by (auto simp: fa_inv_def)
  then show ?thesis
    by (simp add: allocate_frame_def allocate_scan_find [OF assms] find_upt_Min del: upt_Suc)
qed

section \<open>The interface of a frame source\<close>

text \<open>
  What a client of the allocator relies on: each call either hands out one frame of the
  current free set, which it removes, or reports that there is none.
\<close>

fun alloc_many ::
  "('s \<Rightarrow> (u64 option \<times> 's) option) \<Rightarrow> nat \<Rightarrow> 's \<Rightarrow> (u64 list \<times> 's) option" where
  "alloc_many alloc 0 s = Some ([], s)"
| "alloc_many alloc (Suc n) s =
     (case alloc s of Some (Some a, s') \<Rightarrow>
        map_option (\<lambda>(as, t). (a # as, t)) (alloc_many alloc n s')
      | _ \<Rightarrow> None)"

locale frame_source =
  fixes alloc :: "'s \<Rightarrow> (u64 option \<times> 's) option"
    and frames :: "'s \<Rightarrow> nat set"
    and invar :: "'s \<Rightarrow> bool"
  assumes frames_finite: "invar s \<Longrightarrow> finite (frames s)"
    and frames_bound: "invar s \<Longrightarrow> f \<in> frames s \<Longrightarrow> f < 2 ^ 52"
    and alloc_empty: "invar s \<Longrightarrow> frames s = {} \<Longrightarrow> alloc s = Some (None, s)"
    and alloc_takes: "invar s \<Longrightarrow> frames s \<noteq> {} \<Longrightarrow>
      \<exists>f s'. alloc s = Some (Some (of_nat f * 4096), s') \<and> f \<in> frames s
        \<and> frames s' = frames s - {f} \<and> invar s'"
begin

lemma frame_address_inj:
  assumes "invar s" "f \<in> frames s" "g \<in> frames s" "of_nat f * 4096 = (of_nat g * 4096 :: u64)"
  shows "f = g"
proof -
  have "unat (of_nat h * 4096 :: u64) = h * 4096" if "h \<in> frames s" for h
    using frames_bound [OF assms(1) that] by (simp add: unat_word_ariths unat_of_nat)
  with assms show ?thesis by (metis mult_right_cancel zero_neq_numeral)
qed

lemma alloc_many_ok:
  assumes "invar s" and "n \<le> card (frames s)"
  shows "\<exists>fs s'. alloc_many alloc n s = Some (map (\<lambda>f. of_nat f * 4096) fs, s')
    \<and> length fs = n \<and> distinct fs \<and> set fs \<subseteq> frames s \<and> frames s' = frames s - set fs \<and> invar s'"
  using assms
proof (induction n arbitrary: s)
  case 0
  then show ?case by (intro exI [of _ "[]"] exI [of _ s]) simp
next
  case (Suc n)
  then have "frames s \<noteq> {}" by auto
  from alloc_takes [OF Suc.prems(1) this] obtain f s' where f:
    "alloc s = Some (Some (of_nat f * 4096), s')" "f \<in> frames s"
    "frames s' = frames s - {f}" "invar s'" by blast
  have "n \<le> card (frames s')"
    using Suc.prems f frames_finite [OF Suc.prems(1)] by simp
  from Suc.IH [OF f(4) this] obtain fs t where
    "alloc_many alloc n s' = Some (map (\<lambda>f. of_nat f * 4096) fs, t)" "length fs = n"
    "distinct fs" "set fs \<subseteq> frames s'" "frames t = frames s' - set fs" "invar t" by blast
  with f show ?case by (intro exI [of _ "f # fs"] exI [of _ t]) auto
qed

lemma alloc_many_distinct:
  assumes "invar s" and "n \<le> card (frames s)"
  shows "\<exists>as s'. alloc_many alloc n s = Some (as, s') \<and> length as = n \<and> distinct as"
proof -
  from alloc_many_ok [OF assms] obtain fs s' where fs:
    "alloc_many alloc n s = Some (map (\<lambda>f. of_nat f * 4096) fs, s')" "length fs = n"
    "distinct fs" "set fs \<subseteq> frames s" by blast
  then have "inj_on (\<lambda>f. of_nat f * 4096 :: u64) (set fs)"
    by (auto intro!: inj_onI frame_address_inj [OF assms(1)])
  with fs show ?thesis by (auto simp: distinct_map)
qed

end

interpretation bitmap: frame_source allocate_frame free_set fa_inv
proof unfold_locales
  fix fa assume inv: "fa_inv fa"
  show "finite (free_set fa)" by simp
  show "f < 2 ^ 52" if "f \<in> free_set fa" for f
    using that by (simp add: free_set_def)
  show "allocate_frame fa = Some (None, fa)" if "free_set fa = {}"
    using that by (simp add: allocate_frame_eq [OF inv])
  assume "free_set fa \<noteq> {}"
  then show "\<exists>f s'. allocate_frame fa = Some (Some (of_nat f * 4096), s') \<and> f \<in> free_set fa
      \<and> free_set s' = free_set fa - {f} \<and> fa_inv s'"
    by (intro exI [of _ "Min (free_set fa)"] exI [of _ "take_frame fa (Min (free_set fa))"])
      (simp add: allocate_frame_eq [OF inv] PAGE_SIZE_def take_frame_inv [OF inv])
qed

section \<open>Initialisation\<close>

text \<open>The frames a descriptor makes available, within the bitmap's reach.\<close>

definition desc_frames :: "uefi_memory_descriptor \<Rightarrow> nat set" where
  "desc_frames d = (if desc_ty d = 7
     then {i. unat (physical_start d div PAGE_SIZE) \<le> i
            \<and> i < unat (physical_start d div PAGE_SIZE) + unat (number_of_pages d) \<and> i < 65536}
     else {})"

definition descriptors :: "memory \<Rightarrow> boot_info \<Rightarrow> uefi_memory_descriptor list" where
  "descriptors m info =
     map (\<lambda>i. read_descriptor m (memory_map_addr info + of_nat (i * memory_map_desc_size info)))
       [0..<memory_map_size info div memory_map_desc_size info]"

lemma free_frame_Some:
  assumes "free_frame i (fa, tf) = Some (fa', tf')" and "fa_inv fa"
  shows "fa_inv fa' \<and> free_set fa' = free_set fa \<union> ({i} \<inter> {..<65536})"
proof (cases "i < 65536")
  case False
  with assms show ?thesis by (auto simp: free_frame_def BITMAP_SIZE_def)
next
  case True
  from assms(2) have len: "length (bitmap fa) = 1024" by (simp add: fa_inv_def)
  from assms(1) True have fa': "fa' = \<lparr>bitmap = (bitmap fa)[i div 64 :=
        (bitmap fa ! (i div 64)) OR push_bit (i mod 64) 1],
      highest_frame = (if i > highest_frame fa then i else highest_frame fa),
      free_frames = free_frames fa + 1\<rparr>"
    by (auto simp: free_frame_def BITMAP_SIZE_def Let_def bind_eq_Some_conv)
  have fs: "free_set fa' = insert i (free_set fa)"
    unfolding fa' using free_set_set [OF True len] by (cases fa) simp
  have "card (insert i (free_set fa)) \<le> card (free_set fa) + 1"
    by (simp add: card_insert_if)
  with assms(2) True fs show ?thesis by (auto simp: fa_inv_def fa')
qed

lemma free_frame_total:
  assumes "fa_inv fa" and "free_frames fa = card (free_set fa)"
    and "tf = int (card (free_set fa))" and "i \<notin> free_set fa"
  shows "\<exists>fa'. free_frame i (fa, tf) = Some (fa', int (card (free_set fa')))
    \<and> free_frames fa' = card (free_set fa')"
proof (cases "i < 65536")
  case False
  with assms show ?thesis by (auto simp: free_frame_def BITMAP_SIZE_def)
next
  case True
  have "card (free_set fa) \<le> card {..<65536::nat}"
    by (rule card_mono) (auto simp: free_set_def)
  then have c: "card (free_set fa) \<le> 65536" by simp
  have "length (bitmap fa) = 1024" using assms(1) by (simp add: fa_inv_def)
  then have len: "i div 64 < length (bitmap fa)" using True by simp
  with True assms(2,3) c obtain fa' where
    fa': "free_frame i (fa, tf) = Some (fa', tf + 1)" and ff: "free_frames fa' = free_frames fa + 1"
    by (auto simp: free_frame_def BITMAP_SIZE_def Let_def rust_defs)
  from free_frame_Some [OF fa' assms(1)] True have "free_set fa' = insert i (free_set fa)"
    by auto
  with fa' ff assms show ?thesis by (intro exI [of _ fa']) simp
qed

text \<open>A run of the inner loop over pairwise different frames that are not yet free.\<close>

definition exact :: "bitmap_allocator \<times> i32 \<Rightarrow> nat set \<Rightarrow> bool" where
  "exact = (\<lambda>(fa, tf) S. fa_inv fa \<and> free_set fa = S \<and> free_frames fa = card S \<and> tf = int (card S))"

lemma free_frames_run:
  assumes "exact acc S" and "distinct xs" and "set xs \<inter> S = {}"
  shows "\<exists>acc'. foldM free_frame xs acc = Some acc' \<and> exact acc' (S \<union> (set xs \<inter> {..<65536}))"
  using assms
proof (induction xs arbitrary: acc S)
  case (Cons i xs)
  obtain fa tf where acc: "acc = (fa, tf)" by (cases acc)
  with Cons.prems have "fa_inv fa" "free_frames fa = card (free_set fa)"
    "tf = int (card (free_set fa))" "i \<notin> free_set fa" by (auto simp: exact_def)
  from free_frame_total [OF this] obtain fa' where
    f: "free_frame i (fa, tf) = Some (fa', int (card (free_set fa')))"
    and "free_frames fa' = card (free_set fa')" by blast
  with free_frame_Some [OF f \<open>fa_inv fa\<close>] Cons.prems(1)
  have "exact (fa', int (card (free_set fa'))) (S \<union> ({i} \<inter> {..<65536}))"
    by (auto simp: exact_def acc)
  from Cons.IH [OF this] Cons.prems obtain acc' where
    "foldM free_frame xs (fa', int (card (free_set fa'))) = Some acc'"
    "exact acc' (S \<union> ({i} \<inter> {..<65536}) \<union> (set xs \<inter> {..<65536}))" by auto
  moreover have "S \<union> ({i} \<inter> {..<65536}) \<union> (set xs \<inter> {..<65536}) = S \<union> (set (i # xs) \<inter> {..<65536})"
    by auto
  ultimately show ?case by (auto simp: acc f)
qed simp

lemma init_entry_total:
  assumes "exact acc S" and "desc_frames d \<inter> S = {}" and "S \<subseteq> {..<65536}"
    and "desc_ty d = 7 \<longrightarrow> unat (physical_start d div PAGE_SIZE) + unat (number_of_pages d) < 2 ^ 64"
  shows "\<exists>acc'. init_entry d acc = Some acc' \<and> exact acc' (S \<union> desc_frames d)"
proof (cases "desc_ty d = 7")
  case True
  let ?lo = "unat (physical_start d div PAGE_SIZE)" and ?n = "unat (number_of_pages d)"
  have "set [?lo..<?lo + ?n] \<inter> {..<65536} = desc_frames d"
    using True by (auto simp: desc_frames_def)
  moreover have "set [?lo..<?lo + ?n] \<inter> S = {}"
    using assms(2,3) True by (fastforce simp: desc_frames_def)
  ultimately show ?thesis
    using free_frames_run [OF assms(1), of "[?lo..<?lo + ?n]"] True assms(4)
    by (simp add: init_entry_def uadd_def Let_def)
next
  case False
  with assms show ?thesis by (simp add: init_entry_def desc_frames_def)
qed

lemma init_entries_total:
  assumes "exact acc S" and "S \<subseteq> {..<65536}"
    and "\<forall>d\<in>set ds. desc_ty d = 7 \<longrightarrow>
      unat (physical_start d div PAGE_SIZE) + unat (number_of_pages d) < 2 ^ 64"
    and "\<forall>d\<in>set ds. desc_frames d \<inter> S = {}"
    and "sorted_wrt (\<lambda>d e. desc_frames d \<inter> desc_frames e = {}) ds"
  shows "\<exists>acc'. foldM init_entry ds acc = Some acc' \<and> exact acc' (S \<union> (\<Union>d\<in>set ds. desc_frames d))"
  using assms
proof (induction ds arbitrary: acc S)
  case (Cons d ds)
  from init_entry_total [OF Cons.prems(1) _ Cons.prems(2), of d] Cons.prems(3,4)
  obtain acc' where a: "init_entry d acc = Some acc'" "exact acc' (S \<union> desc_frames d)" by auto
  have sub: "S \<union> desc_frames d \<subseteq> {..<65536}" using Cons.prems(2) by (auto simp: desc_frames_def)
  have disj: "\<forall>e\<in>set ds. desc_frames e \<inter> (S \<union> desc_frames d) = {}"
    using Cons.prems(4,5) by (auto simp: Int_Un_distrib Int_commute)
  have ov: "\<forall>d\<in>set ds. desc_ty d = 7 \<longrightarrow>
      unat (physical_start d div PAGE_SIZE) + unat (number_of_pages d) < 2 ^ 64"
    using Cons.prems(3) by (simp del: power_numeral)
  have "sorted_wrt (\<lambda>d e. desc_frames d \<inter> desc_frames e = {}) ds" using Cons.prems(5) by simp
  from Cons.IH [OF a(2) sub ov disj this] obtain acc'' where
    "foldM init_entry ds acc' = Some acc''"
    "exact acc'' (S \<union> desc_frames d \<union> (\<Union>d\<in>set ds. desc_frames d))" by blast
  with a show ?case by (simp add: Un_assoc)
qed simp

text \<open>The loop of \<open>init\<close> over entry numbers is the loop over the descriptors they name.\<close>

lemma init_loop:
  assumes "0 < memory_map_desc_size info" and "unat (memory_map_addr info) + memory_map_size info < 2 ^ 64"
  shows "foldM (\<lambda>i acc. do {
            off \<leftarrow> umul i (memory_map_desc_size info);
            entry_ptr \<leftarrow> uadd (unat (memory_map_addr info)) off;
            init_entry (read_descriptor m (of_nat entry_ptr)) acc
          }) [0..<memory_map_size info div memory_map_desc_size info] acc
     = foldM init_entry (descriptors m info) acc"
  unfolding descriptors_def foldM_map
proof (rule foldM_cong [OF refl refl])
  fix i acc assume "i \<in> set [0..<memory_map_size info div memory_map_desc_size info]"
  then have "i \<le> memory_map_size info div memory_map_desc_size info" by simp
  then have "i * memory_map_desc_size info \<le> memory_map_size info"
    using assms(1) by (simp add: less_eq_div_iff_mult_less_eq)
  with assms(2) show "(do { off \<leftarrow> umul i (memory_map_desc_size info);
      entry_ptr \<leftarrow> uadd (unat (memory_map_addr info)) off;
      init_entry (read_descriptor m (of_nat entry_ptr)) acc }) =
    init_entry (read_descriptor m (memory_map_addr info + of_nat (i * memory_map_desc_size info))) acc"
    by (simp add: umul_def uadd_def)
qed

section \<open>Properties\<close>

text \<open>
  C5. Under the allocator's invariant, \<open>allocate_frame\<close> never panics.
  With no free frame it returns \<open>None\<close> and changes nothing; otherwise it returns the address
  of the lowest free frame, takes exactly that frame out of the free set, and keeps the
  invariant.
\<close>

theorem allocate_frame_refines:
  assumes "fa_inv fa"
  shows "allocate_frame fa = Some (None, fa) \<and> free_set fa = {}
    \<or> (\<exists>f fa'. allocate_frame fa = Some (Some (of_nat f * PAGE_SIZE), fa') \<and> f \<in> free_set fa
        \<and> (\<forall>g\<in>free_set fa. f \<le> g) \<and> free_set fa' = free_set fa - {f} \<and> fa_inv fa')"
proof (cases "free_set fa = {}")
  case True
  then show ?thesis by (simp add: allocate_frame_eq [OF assms])
next
  case False
  then have "Min (free_set fa) \<in> free_set fa" "\<forall>g\<in>free_set fa. Min (free_set fa) \<le> g" by simp_all
  with False take_frame_inv [OF assms, of "Min (free_set fa)"] show ?thesis
    by (intro disjI2 exI [of _ "Min (free_set fa)"] exI [of _ "take_frame fa (Min (free_set fa))"])
      (simp add: allocate_frame_eq [OF assms])
qed

definition demo_allocator :: bitmap_allocator where
  "demo_allocator = \<lparr>bitmap = (replicate 1024 0)[1 := 2], highest_frame = 65, free_frames = 1\<rparr>"

lemma demo_free_set: "free_set demo_allocator = {65}"
  using free_set_set [of 65 "replicate 1024 0" 65 1 0 0] fa_inv_initial(2)
  by (simp add: demo_allocator_def FRAME_ALLOCATOR_def BITMAP_SIZE_def)

lemma demo_inv: "fa_inv demo_allocator"
  by (simp add: fa_inv_def demo_free_set) (simp add: demo_allocator_def)

theorem allocate_frame_refines_witness:
  "\<exists>fa'. allocate_frame demo_allocator = Some (Some (65 * PAGE_SIZE), fa') \<and> free_set fa' = {}"
  using allocate_frame_refines [OF demo_inv] by (auto simp: demo_free_set)

text \<open>
  A client that asks for \<open>n\<close> frames, with at least \<open>n\<close> free, gets
  \<open>n\<close> pairwise different addresses: no frame is handed out twice.
\<close>

lemma allocate_frames_distinct:
  assumes "fa_inv fa" and "n \<le> card (free_set fa)"
  shows "\<exists>as fa'. alloc_many allocate_frame n fa = Some (as, fa') \<and> length as = n \<and> distinct as"
  by (rule bitmap.alloc_many_distinct [OF assms])

lemma init_run:
  assumes "0 < memory_map_desc_size info"
    and "unat (memory_map_addr info) + memory_map_size info < 2 ^ 64"
    and "\<forall>d\<in>set (descriptors m info). desc_ty d = 7 \<longrightarrow>
      unat (physical_start d div PAGE_SIZE) + unat (number_of_pages d) < 2 ^ 64"
    and "sorted_wrt (\<lambda>d e. desc_frames d \<inter> desc_frames e = {}) (descriptors m info)"
  shows "\<exists>fa. init m info FRAME_ALLOCATOR = Some (fa, lit ''Initializing Physical Frame Bitmap Allocator...''
      # init_banner (int (free_frames fa)) (int (free_frames fa) * 4096 div (1024 * 1024)))
    \<and> fa_inv fa \<and> free_set fa = (\<Union>d\<in>set (descriptors m info). desc_frames d)
    \<and> free_frames fa = card (free_set fa) \<and> free_frames fa \<le> 65536"
proof -
  let ?U = "\<Union>d\<in>set (descriptors m info). desc_frames d"
  have "exact (FRAME_ALLOCATOR, 0) {}"
    using fa_inv_initial by (simp add: exact_def) (simp add: FRAME_ALLOCATOR_def)
  from init_entries_total [OF this _ assms(3) _ assms(4)] obtain fa tf where
    f: "foldM init_entry (descriptors m info) (FRAME_ALLOCATOR, 0) = Some (fa, tf)"
    and e: "exact (fa, tf) ?U" by auto
  have c: "card ?U \<le> card {..<65536::nat}" by (rule card_mono) (auto simp: desc_frames_def)
  with e have "in_i32 (tf * 4096)" by (simp add: exact_def in_i32_def)
  with f e c assms(1) show ?thesis
    unfolding init_def Let_def init_loop [OF assms(1,2)] by (auto simp: exact_def)
qed

text \<open>
  C22. For a memory map whose conventional regions are pairwise disjoint,
  \<open>init\<close> returns, and afterwards the free frames are exactly the frames of type 7 below the
  65536-frame limit, the counter \<open>free_frames\<close> is their number, and the invariant holds.
\<close>

theorem init_from_memory_map:
  assumes "0 < memory_map_desc_size info"
    and "unat (memory_map_addr info) + memory_map_size info < 2 ^ 64"
    and "\<forall>d\<in>set (descriptors m info). desc_ty d = 7 \<longrightarrow>
      unat (physical_start d div PAGE_SIZE) + unat (number_of_pages d) < 2 ^ 64"
    and "sorted_wrt (\<lambda>d e. desc_frames d \<inter> desc_frames e = {}) (descriptors m info)"
  shows "\<exists>fa out. init m info FRAME_ALLOCATOR = Some (fa, out) \<and> fa_inv fa
    \<and> free_set fa = (\<Union>d\<in>set (descriptors m info). desc_frames d)
    \<and> free_frames fa = card (free_set fa)"
  using init_run [OF assms] by blast

text \<open>One conventional region of two pages at frame 3.\<close>

definition demo_map :: memory where
  "demo_map = store_le (store_le (store_le (\<lambda>_. 0) 0 4 (7::u32)) 8 8 (0x3000::u64)) 24 8 (2::u64)"

definition demo_info :: boot_info where
  "demo_info = \<lparr>framebuffer_base = 0, framebuffer_size = 0, bi_width = 0, bi_height = 0,
     bi_stride = 0, memory_map_size = 40, acpi2_rsdp_addr = 0, memory_map_addr = 0,
     memory_map_desc_size = 40\<rparr>"

lemma demo_descriptors: "descriptors demo_map demo_info = [read_descriptor demo_map 0]"
  by (simp add: descriptors_def demo_info_def)

lemma demo_desc_frames: "desc_frames (read_descriptor demo_map 0) = {3, 4}"
proof -
  have "desc_ty (read_descriptor demo_map 0) = 7"
    "physical_start (read_descriptor demo_map 0) = 0x3000"
    "number_of_pages (read_descriptor demo_map 0) = 2"
    by (simp_all add: read_descriptor_def demo_map_def apart_def)
  then show ?thesis by (auto simp: desc_frames_def PAGE_SIZE_def)
qed

theorem init_from_memory_map_witness:
  "\<exists>fa out. init demo_map demo_info FRAME_ALLOCATOR = Some (fa, out)
     \<and> free_set fa = {3, 4} \<and> free_frames fa = 2"
proof -
  have "\<exists>fa out. init demo_map demo_info FRAME_ALLOCATOR = Some (fa, out) \<and> fa_inv fa
    \<and> free_set fa = (\<Union>d\<in>set (descriptors demo_map demo_info). desc_frames d)
    \<and> free_frames fa = card (free_set fa)"
    by (rule init_from_memory_map)
      (simp_all add: demo_descriptors, simp_all add: demo_info_def read_descriptor_def demo_map_def
        apart_def PAGE_SIZE_def)
  then show ?thesis by (auto simp: demo_descriptors demo_desc_frames)
qed

end
