(* ===== verification/Startup.thy ===== *)
theory Startup
  imports Preempt Boot Cpu Hda Smp Vga FrameAllocator
begin

text \<open>
  From the bootloader's jump to the main loop: \<open>_start\<close> of \<open>src/src/main.rs\<close>, lines 99 to 382, with
  \<open>src/src/allocator.rs\<close>, \<open>memory::init\<close> and the task state segment of \<open>src/src/gdt.rs\<close>. The parts are the operations of the
  component theories in the order the code runs them. The framebuffer is memory of its own, as it is
  for the compositor: the early console writes bytes into it.
\<close>

section \<open>Early messages\<close>

text \<open>The format \<open>{:#X}\<close>: upper-case hexadecimal digits without leading zeros after \<open>0x\<close>.\<close>

fun hex_digits :: "nat \<Rightarrow> rstr" where
  "hex_digits n = (if n < 16 then [hex_digit n] else hex_digits (n div 16) @ [hex_digit (n mod 16)])"

declare hex_digits.simps [simp del]

definition hex_alt :: "u64 \<Rightarrow> rstr" where
  "hex_alt w = lit ''0x'' @ hex_digits (unat w)"

definition HEAP_SIZE :: usize where
  "HEAP_SIZE = 32 * 1024 * 1024"

text \<open>\<open>init_heap\<close> hands the static array to the allocator; what the allocator does with it is a
  parameter.\<close>

definition init_heap_line :: rstr where
  "init_heap_line = lit ''>>> VOLATILE HEAP ALLOCATOR ONLINE: '' @ dec_digits (HEAP_SIZE div 1024 div 1024) @ lit '' MB Reserved <<<''"

text \<open>\<open>memory::init\<close> only reports; \<open>flags\<close> is the text of CR3's flags.\<close>

definition memory_init_lines :: "u64 \<Rightarrow> rstr \<Rightarrow> rstr list" where
  "memory_init_lines cr3 flags =
     [lit ''Initializing Memory Management Unit (MMU)...'',
      lit ''>>> PAGING HIERARCHY SECURED <<<'',
      lit ''Active PML4 Table located at Physical Address: '' @ hex_alt (cr3 AND ADDR_MASK),
      lit ''CR3 Hardware Flags: '' @ flags,
      lit ''-----------------------------------'']"

type_synonym console = "vga_writer option \<times> memory"

definition say :: "font8x8 \<Rightarrow> rstr list \<Rightarrow> console \<Rightarrow> console option" where
  "say ft = foldM (vga_println ft)"

section \<open>The task state segment\<close>

text \<open>The two stacks of the segment, given where the linker put their arrays.\<close>

record tss =
  privilege_stack_table :: "u64 list"
  interrupt_stack_table :: "u64 list"

definition TSS :: "u64 \<Rightarrow> u64 \<Rightarrow> tss option" where
  "TSS ist_stack rsp0_stack = do {
     ist \<leftarrow> wadd ist_stack (4096 * 5);
     rsp0 \<leftarrow> wadd rsp0_stack (4096 * 5);
     Some \<lparr>privilege_stack_table = (replicate 3 0)[0 := rsp0],
       interrupt_stack_table = (replicate 7 0)[unat DOUBLE_FAULT_IST_INDEX := ist]\<rparr>
   }"

section \<open>The stages\<close>

text \<open>What the linker, the firmware and the processor decide.\<close>

record platform =
  pf_statics :: statics
  pf_selectors :: selectors
  pf_syscall_entry :: u64
  pf_cr0 :: u64
  pf_cr3 :: u64
  pf_cr3_flags :: rstr
  pf_font :: font8x8
  pf_ist_stack :: u64
  pf_rsp0_stack :: u64
  pf_aps :: nat

text \<open>Memory, tables, system calls, the network card, the interrupt controller and the mouse. Loading the
  descriptor tables (\<open>Cpu.gdt_init\<close>, \<open>Interrupts.IDT\<close>) acts on the processor's registers only.\<close>

definition bring_up_core ::
  "('a kernel_scheme) env \<Rightarrow> platform \<Rightarrow> boot_info \<Rightarrow> devices \<Rightarrow> u64 \<Rightarrow> u64 \<Rightarrow> console \<times> 'a kernel_scheme
     \<Rightarrow> (bitmap_allocator \<times> console \<times> 'a kernel_scheme) option" where
  "bring_up_core e pf info d lapic ioapic = (\<lambda>(con, s). do {
     con \<leftarrow> say (pf_font pf) [init_heap_line] con;
     (fa, out) \<leftarrow> FrameAllocator.init (mem s) info FRAME_ALLOCATOR;
     con \<leftarrow> say (pf_font pf) out con;
     con \<leftarrow> say (pf_font pf) (memory_init_lines (pf_cr3 pf) (pf_cr3_flags pf)) con;
     _ \<leftarrow> TSS (pf_ist_stack pf) (pf_rsp0_stack pf);
     let sel = pf_selectors pf;
     s \<leftarrow> syscall_init (pf_syscall_entry pf) (code_selector sel) (data_selector sel) (user_code sel) (user_data sel) s;
     s \<leftarrow> nic_setup e (e1000_bar0 d) s;
     s \<leftarrow> init_apic e lapic ioapic s;
     let s = port_write 0x64 0xAE s;
     s \<leftarrow> mouse_init e s;
     Some (fa, con, s)
   })"

text \<open>The screen and the first lines on the terminal.\<close>

definition bring_up_screen :: "boot_info \<Rightarrow> 'a kernel_scheme \<Rightarrow> 'a kernel_scheme option" where
  "bring_up_screen info s = do {
     s \<leftarrow> compositor_init info s;
     s \<leftarrow> draw_rect 0 0 (sv_width (server s)) (sv_height (server s)) 0xFFFFFF s;
     s \<leftarrow> draw_rect 0 0 (sv_width (server s)) 40 0x1E293B s;
     s \<leftarrow> draw_text 20 10 (lit ''QOREOS UNIKERNEL SECURE CONSOLE'') 0xFFFFFF 2 s;
     s \<leftarrow> print_str (lit ''INIT: Core 0 (BSP) Online.'' @ [10]) 0x10B981 s;
     print_str (lit ''INIT: APIC Interrupt Routing Established.'' @ [10]) 0x10B981 s
   }"

text \<open>The drive, and the file it holds.\<close>

definition bring_up_nvme :: "('a kernel_scheme) env \<Rightarrow> devices \<Rightarrow> 'a kernel_scheme \<Rightarrow> (rstr \<times> 'a kernel_scheme) option" where
  "bring_up_nvme e d s =
     (if nvme_found d \<and> nvme_bar0 d \<noteq> 0 then do {
        s \<leftarrow> print_str (lit ''ECAM: NVMe Direct Storage Controller Found!'' @ [10]) 0x3B82F6 s;
        (drive, s) \<leftarrow> nvme_init e (nvme_new (nvme_bar0 d)) s;
        s \<leftarrow> identify_controller e drive s;
        (sector_data_str, drive, s) \<leftarrow> load_payload (read_sector e) drive s;
        Some (sector_data_str, s\<lparr>nvme_drive := Some drive\<rparr>)
      } else Some ([], s))"

definition bring_up_hda :: "('a kernel_scheme) env \<Rightarrow> devices \<Rightarrow> 'a kernel_scheme \<Rightarrow> (intel_hda option \<times> 'a kernel_scheme) option" where
  "bring_up_hda e d s =
     (if hda_found d \<and> Boot.hda_bar0 d \<noteq> 0 then do {
        (hda, s) \<leftarrow> hda_init e (hda_new (Boot.hda_bar0 d)) s;
        s \<leftarrow> play_tone e hda s;
        Some (Some hda, s)
      } else Some (None, s))"

text \<open>\<open>if let Some(ref mut nic) = NET_CARD { nic.arp_request([10, 0, 2, 2]); }\<close>\<close>

definition first_arp :: "('a kernel_scheme) env \<Rightarrow> 'a kernel_scheme \<Rightarrow> 'a kernel_scheme option" where
  "first_arp e s =
     (case net_card s of
        None \<Rightarrow> Some s
      | Some nic \<Rightarrow> do {
          (nic, s) \<leftarrow> arp_request e [10, 0, 2, 2] nic s;
          Some (s\<lparr>net_card := Some nic\<rparr>)
        })"

text \<open>The rest, from the other processors to the first ARP request. The result is what the diagnostics
  window will show and the audio driver.\<close>

definition bring_up_devices ::
  "('a kernel_scheme) env \<Rightarrow> platform \<Rightarrow> devices \<Rightarrow> u64 \<Rightarrow> 'a kernel_scheme \<Rightarrow> ((diagnostics \<times> intel_hda option) \<times> 'a kernel_scheme) option" where
  "bring_up_devices e pf d lapic s = do {
     s \<leftarrow> wake_aps (pf_statics pf) (pf_cr0 pf) (pf_cr3 pf) lapic (pf_aps pf) s;
     s \<leftarrow> (if e1000_bar0 d \<noteq> None
           then print_str (lit ''ECAM: E1000 Network Card Found & Bus Master Enabled!'' @ [10]) 0x3B82F6 s else Some s);
     (sector_data_str, s) \<leftarrow> bring_up_nvme e d s;
     let s = s\<lparr>http_payload := Some sector_data_str\<rparr>;
     (audio, s) \<leftarrow> bring_up_hda e d s;
     s \<leftarrow> (if xhci_found d
           then print_str (lit ''ECAM: xHCI Extensible Host Controller Found!'' @ [10]) 0x3B82F6 s else Some s);
     s \<leftarrow> print_str (10 # lit ''> READY: WAITING FOR INCOMING TCP CONNECTIONS'' @ [10] @ lit ''> '') 0x1E293B s;
     s \<leftarrow> first_arp e s;
     Some ((\<lparr>dg_nvme = nvme_found d, dg_hda = hda_found d, dg_sector = sector_data_str\<rparr>, audio), s)
   }"

section \<open>The whole\<close>

text \<open>\<open>Parked\<close>: a processor other than the first halts. \<open>Looping\<close>: the MADT walk never ends.\<close>

datatype 'r boot_result = Parked | Looping | Panicked | Up 'r

definition of_option :: "'r option \<Rightarrow> 'r boot_result" where
  "of_option x = (case x of None \<Rightarrow> Panicked | Some r \<Rightarrow> Up r)"

definition bring_up ::
  "('a kernel_scheme) env \<Rightarrow> platform \<Rightarrow> boot_info \<Rightarrow> devices \<Rightarrow> u64 \<Rightarrow> u64 \<Rightarrow> console \<times> 'a kernel_scheme
     \<Rightarrow> ((diagnostics \<times> intel_hda option) \<times> bitmap_allocator \<times> console \<times> 'a kernel_scheme) option" where
  "bring_up e pf info d lapic ioapic cs = do {
     (fa, con, s) \<leftarrow> bring_up_core e pf info d lapic ioapic cs;
     s \<leftarrow> bring_up_screen info s;
     (r, s) \<leftarrow> bring_up_devices e pf d lapic s;
     Some (r, fa, con, s)
   }"

text \<open>\<open>fb\<close> is the framebuffer's memory; \<open>ebx\<close> what CPUID leaf 1 leaves in EBX.\<close>

definition kernel_start ::
  "('a kernel_scheme) env \<Rightarrow> platform \<Rightarrow> u32 \<Rightarrow> boot_info \<Rightarrow> memory \<Rightarrow> 'a kernel_scheme
     \<Rightarrow> ((diagnostics \<times> intel_hda option) \<times> bitmap_allocator \<times> console \<times> 'a kernel_scheme) boot_result" where
  "kernel_start e pf ebx info fb s =
     (let apic_id = drop_bit 24 ebx AND 0xFF in
      if apic_id \<noteq> 0 then Parked
      else
        let fb = store_bytes fb (framebuffer_base info) (replicate (framebuffer_size info) 0);
            con = (Some (vga_new info), fb)
        in case discover e (acpi2_rsdp_addr info) s of
             None \<Rightarrow> Looping
           | Some None \<Rightarrow> Panicked
           | Some (Some (d, lapic, ioapic, s)) \<Rightarrow> of_option (bring_up e pf info d lapic ioapic (con, s)))"

end
