(* ===== verification/Bringup.thy ===== *)
theory Bringup
  imports Startup
begin

text \<open>
  Why the start of the kernel (theory \<open>Startup\<close>) does not panic: a small logic of operations on the
  kernel's state that keep its invariant and use a bounded amount of heap, the operations of the
  start-up proved in it, and the state the main loop begins in.
\<close>

section \<open>Steps of the start-up\<close>

definition up_step :: "('a kernel_scheme) env \<Rightarrow> nat \<Rightarrow> nat \<Rightarrow> nat \<Rightarrow> 'a kernel_scheme \<Rightarrow> 'a kernel_scheme \<Rightarrow> bool" where
  "up_step e base sz n s s' \<longleftrightarrow> kernel_ok e base sz s' \<and> heap_used (live s') \<le> heap_used (live s) + n
     \<and> set (live s) \<subseteq> set (live s') \<and> http_payload s' = http_payload s \<and> mouse_state s' = mouse_state s
     \<and> (net_card s' = None \<longleftrightarrow> net_card s = None)
     \<and> sv_width (server s') = sv_width (server s) \<and> sv_height (server s') = sv_height (server s)"

text \<open>\<open>boots st e base sz n P f Q\<close>: from a state with the invariant, on a roomy screen and with room for \<open>n\<close> in the heap, that
  satisfies \<open>P\<close>, the operation \<open>f\<close> succeeds with a result that satisfies \<open>Q\<close>; \<open>st\<close> is the state in the
  result.\<close>

definition boots :: "('r \<Rightarrow> 'a kernel_scheme) \<Rightarrow> ('a kernel_scheme) env \<Rightarrow> nat \<Rightarrow> nat \<Rightarrow> nat \<Rightarrow> ('a kernel_scheme \<Rightarrow> bool)
    \<Rightarrow> ('a kernel_scheme \<Rightarrow> 'r option) \<Rightarrow> ('r \<Rightarrow> bool) \<Rightarrow> bool" where
  "boots st e base sz n P f Q \<longleftrightarrow> (\<forall>s. kernel_ok e base sz s \<and> roomy (server s) \<and> heap_used (live s) + n \<le> sz \<and> P s \<longrightarrow>
     (\<exists>r. f s = Some r \<and> up_step e base sz n s (st r) \<and> Q r))"

lemma up_step_refl: "kernel_ok e base sz s \<Longrightarrow> up_step e base sz n s s"
  by (simp add: up_step_def)

lemma up_step_trans: "up_step e base sz n s t \<Longrightarrow> up_step e base sz k t u \<Longrightarrow> up_step e base sz (n + k) s u"
  by (auto simp: up_step_def)

lemma up_step_roomy: "up_step e base sz n s t \<Longrightarrow> roomy (server t) = roomy (server s)"
  by (simp add: up_step_def roomy_def)

lemma bootsI:
  assumes "\<And>s. kernel_ok e base sz s \<Longrightarrow> roomy (server s) \<Longrightarrow> heap_used (live s) + n \<le> sz \<Longrightarrow> P s
    \<Longrightarrow> \<exists>r. f s = Some r \<and> up_step e base sz n s (st r) \<and> Q r"
  shows "boots st e base sz n P f Q"
  using assms by (simp add: boots_def)

lemma bootsD:
  assumes "boots st e base sz n P f Q" and "kernel_ok e base sz s" and "roomy (server s)" and "heap_used (live s) + n \<le> sz" and "P s"
  shows "\<exists>r. f s = Some r \<and> up_step e base sz n s (st r) \<and> Q r"
  using assms by (simp add: boots_def)

lemma boots_mono:
  assumes "boots st e base sz n P f Q" and "n \<le> k" and "\<And>s. P' s \<Longrightarrow> P s" and "\<And>r. Q r \<Longrightarrow> Q' r"
  shows "boots st e base sz k P' f Q'"
proof (rule bootsI)
  fix s assume s: "kernel_ok e base sz s" "roomy (server s)" "heap_used (live s) + k \<le> sz" "P' s"
  with assms(2,3) have "heap_used (live s) + n \<le> sz" "P s" by simp_all
  from bootsD [OF assms(1) s(1,2) this] assms(2,4) show "\<exists>r. f s = Some r \<and> up_step e base sz k s (st r) \<and> Q' r"
    by (force simp: up_step_def)
qed

lemma boots_pre: "boots st e base sz n P f Q \<Longrightarrow> (\<And>s. P' s \<Longrightarrow> P s) \<Longrightarrow> boots st e base sz n P' f Q"
  unfolding boots_def by blast

lemma boots_post: "boots st e base sz n P f Q \<Longrightarrow> (\<And>r. Q r \<Longrightarrow> Q' r) \<Longrightarrow> boots st e base sz n P f Q'"
  unfolding boots_def by blast

text \<open>An operation that looks at the state first.\<close>

lemma boots_of: "(\<And>x. boots st e base sz n P (f x) Q) \<Longrightarrow> boots st e base sz n P (\<lambda>s. f (h s) s) Q"
  unfolding boots_def by blast

text \<open>Sequencing: after an operation on the state, and after one with a result.\<close>

lemma boots_seq:
  assumes "boots (\<lambda>s. s) e base sz n P f Q" and "boots st e base sz k Q g R"
  shows "boots st e base sz (n + k) P (\<lambda>s. f s \<bind> g) R"
proof (rule bootsI)
  fix s assume s: "kernel_ok e base sz s" "roomy (server s)" "heap_used (live s) + (n + k) \<le> sz" "P s"
  then have "heap_used (live s) + n \<le> sz" by simp
  from bootsD [OF assms(1) s(1,2) this s(4)] obtain t where t: "f s = Some t" "up_step e base sz n s t" "Q t" by blast
  from t(2) s(3) have "heap_used (live t) + k \<le> sz" "kernel_ok e base sz t" by (auto simp: up_step_def)
  from bootsD [OF assms(2) this(2) _ this(1) t(3)] up_step_roomy [OF t(2)] s(2) obtain r where
    r: "g t = Some r" "up_step e base sz k t (st r)" "R r" by blast
  with t up_step_trans [OF t(2) r(2)] show "\<exists>r. f s \<bind> g = Some r \<and> up_step e base sz (n + k) s (st r) \<and> R r" by simp
qed

lemma boots_val:
  assumes "boots snd e base sz n P f Q" and "\<And>x. boots st e base sz k (\<lambda>s. Q (x, s)) (g x) R"
  shows "boots st e base sz (n + k) P (\<lambda>s. f s \<bind> (\<lambda>(x, s). g x s)) R"
proof (rule bootsI)
  fix s assume s: "kernel_ok e base sz s" "roomy (server s)" "heap_used (live s) + (n + k) \<le> sz" "P s"
  then have "heap_used (live s) + n \<le> sz" by simp
  from bootsD [OF assms(1) s(1,2) this s(4)] obtain x t where t: "f s = Some (x, t)" "up_step e base sz n s t" "Q (x, t)" by force
  from t(2) s(3) have "heap_used (live t) + k \<le> sz" "kernel_ok e base sz t" by (auto simp: up_step_def)
  from bootsD [OF assms(2) this(2) _ this(1) t(3)] up_step_roomy [OF t(2)] s(2) obtain r where
    r: "g x t = Some r" "up_step e base sz k t (st r)" "R r" by blast
  with t up_step_trans [OF t(2) r(2)] show "\<exists>r. f s \<bind> (\<lambda>(x, s). g x s) = Some r \<and> up_step e base sz (n + k) s (st r) \<and> R r" by simp
qed

text \<open>An operation that cannot fail, by its result, and a total update.\<close>

lemma boots_total:
  assumes "boots snd e base sz n P (\<lambda>s. Some (f s)) Q" and "\<And>x. boots st e base sz k (\<lambda>s. Q (x, s)) (g x) R"
  shows "boots st e base sz (n + k) P (\<lambda>s. case f s of (x, s) \<Rightarrow> g x s) R"
  using boots_val [OF assms] by simp

lemma boots_upd:
  assumes "boots (\<lambda>s. s) e base sz 0 P (\<lambda>s. Some (u s)) Q" and "boots st e base sz k Q g R"
  shows "boots st e base sz k P (\<lambda>s. g (u s)) R"
  using boots_seq [OF assms] by simp

lemma boots_return: "boots (\<lambda>s. s) e base sz 0 P Some P"
  by (rule bootsI) (simp add: up_step_refl)

lemma boots_return_val: "(\<And>s. P s \<Longrightarrow> Q (x, s)) \<Longrightarrow> boots snd e base sz 0 P (\<lambda>s. Some (x, s)) Q"
  by (rule bootsI) (simp add: up_step_refl)

lemma boots_if:
  assumes "c \<Longrightarrow> boots st e base sz n P f Q" and "\<not> c \<Longrightarrow> boots st e base sz n P g Q"
  shows "boots st e base sz n P (\<lambda>s. if c then f s else g s) Q"
  using assms by (cases c) simp_all

lemma boots_pull: "(c \<Longrightarrow> boots st e base sz n P f Q) \<Longrightarrow> boots st e base sz n (\<lambda>s. c \<and> P s) f Q"
  unfolding boots_def by blast

lemma boots_fact: "(c \<Longrightarrow> boots st e base sz n (\<lambda>s. True) f Q) \<Longrightarrow> boots st e base sz n (\<lambda>s. c) f Q"
  unfolding boots_def by blast

lemma boots_cond:
  assumes "boots st e base sz n P f Q" and "boots st e base sz n P g Q"
  shows "boots st e base sz n P (\<lambda>s. if c s then f s else g s) Q"
  using assms unfolding boots_def by auto

lemma boots_get: "boots snd e base sz 0 P (\<lambda>s. Some (f s, s)) (\<lambda>(x, s). P s)"
  by (rule bootsI) (simp add: up_step_refl)

section \<open>Primitives\<close>

text \<open>Conditions on the register writes so far and on the heap blocks.\<close>

abbreviation seen :: "(io list \<Rightarrow> block list \<Rightarrow> bool) \<Rightarrow> 'a kernel_scheme \<Rightarrow> bool" where
  "seen T s \<equiv> T (io_trace s) (live s)"

lemma up_step_machine: "kernel_ok e base sz s \<Longrightarrow> up_step e base sz 0 s (s\<lparr>mem := m, io_trace := tr\<rparr>)"
  by (simp add: up_step_def kernel_ok_def net_ok_def gfx_ok_def)

lemma up_step_mem: "kernel_ok e base sz s \<Longrightarrow> up_step e base sz 0 s (s\<lparr>mem := m\<rparr>)"
  using up_step_machine [of e base sz s "io_trace s" m] by simp

lemma nic_ok_mono: "nic_ok base sz ls nic \<Longrightarrow> set ls \<subseteq> set ls' \<Longrightarrow> nic_ok base sz ls' nic"
  by (auto simp: nic_ok_def nic_mmio_def)

lemma up_step_alloc:
  assumes "kernel_ok e base sz s" and "heap_inv e base sz ((p, n) # live s)"
  shows "up_step e base sz (n + 4096) s (s\<lparr>mem := m, live := (p, n) # live s\<rparr>)"
proof -
  have "nic_ok base sz ((p, n) # live s) nic" if "net_card s = Some nic" for nic
    using assms(1) that by (auto simp: kernel_ok_def net_ok_def intro: nic_ok_mono)
  with assms show ?thesis by (auto simp: up_step_def kernel_ok_def net_ok_def gfx_ok_def)
qed

lemma boots_print: "boots (\<lambda>s. s) e base sz 0 (seen T) (print_str t c) (seen T)"
proof (rule bootsI)
  fix s assume s: "kernel_ok e base sz s" "seen T s"
  from print_step [OF s(1), of t c] obtain s' where s': "print_str t c s = Some s'" "kernel_step e base sz 0 s s'"
    "mouse_state s' = mouse_state s" "io_trace s' = io_trace s" "net_card s' = net_card s" "live s' = live s" by blast
  with s show "\<exists>r. print_str t c s = Some r \<and> up_step e base sz 0 s r \<and> seen T r"
    by (simp add: up_step_def kernel_step_def net_step_def)
qed

lemma boots_draws: "draws f \<Longrightarrow> boots (\<lambda>s. s) e base sz 0 (seen T) f (seen T)"
proof (rule bootsI)
  fix s assume d: "draws f" and s: "kernel_ok e base sz s" "roomy (server s)" "seen T s"
  from draws_kernel [OF d s(1,2)] obtain s' where s': "f s = Some s'" "kernel_step e base sz 0 s s'" "mouse_state s' = mouse_state s" by blast
  have "(net_card s' = None) = (net_card s = None)" using s'(2) by (auto simp: kernel_step_def net_step_def split: option.splits)
  moreover have "gfx_ok s" using s(1) by (simp add: kernel_ok_def net_ok_def)
  with d s(2) s'(1) have "same_but_terminal s s'" by (auto simp: draws_def)
  from same_but_terminal_fields [OF this] s(3) have "seen T s'" by simp
  ultimately show "\<exists>r. f s = Some r \<and> up_step e base sz 0 s r \<and> seen T r"
    using s' by (simp add: up_step_def kernel_step_def net_step_def)
qed

lemma boots_mem: "boots (\<lambda>s. s) e base sz 0 (seen T) (\<lambda>s. Some (s\<lparr>mem := m s\<rparr>)) (seen T)"
  by (rule bootsI) (simp add: up_step_mem)

lemma boots_io:
  assumes "\<And>tr l. T tr l \<Longrightarrow> U (tr @ [i]) l"
  shows "boots (\<lambda>s. s) e base sz 0 (seen T) (\<lambda>s. Some (s\<lparr>mem := m s, io_trace := io_trace s @ [i]\<rparr>)) (seen U)"
  by (rule bootsI) (use assms in \<open>simp add: up_step_machine\<close>)

lemma boots_hw:
  assumes "hw_mem_only e"
  shows "boots snd e base sz 0 (seen T) (\<lambda>s. Some (f (mem (hw e s)), hw e s)) (\<lambda>(v, s). seen T s)"
proof (rule bootsI)
  fix s assume s: "kernel_ok e base sz s" "seen T s"
  obtain m where "hw e s = s\<lparr>mem := m\<rparr>" using assms unfolding hw_mem_only_def by blast
  with s show "\<exists>r. Some (f (mem (hw e s)), hw e s) = Some r \<and> up_step e base sz 0 s (snd r) \<and> (case r of (v, s) \<Rightarrow> seen T s)"
    by (simp add: up_step_mem)
qed

text \<open>A look at memory whose value the condition determines to some extent.\<close>

lemma boots_look:
  assumes "hw_mem_only e" and "\<And>s. seen T s \<Longrightarrow> R (f (mem (hw e s)))"
  shows "boots snd e base sz 0 (seen T) (\<lambda>s. Some (f (mem (hw e s)), hw e s)) (\<lambda>(v, s). R v \<and> seen T s)"
proof (rule bootsI)
  fix s assume s: "kernel_ok e base sz s" "roomy (server s)" "heap_used (live s) + 0 \<le> sz" "seen T s"
  from bootsD [OF boots_hw [OF assms(1), where f = f and T = T] s] assms(2) [OF s(4)]
  show "\<exists>r. Some (f (mem (hw e s)), hw e s) = Some r \<and> up_step e base sz 0 s (snd r) \<and> (case r of (v, s) \<Rightarrow> R v \<and> seen T s)" by simp
qed

lemma boots_spin:
  assumes "hw_mem_only e"
  shows "boots snd e base sz 0 (seen T) (\<lambda>s. Some (spin n (\<lambda>s. (p (mem (hw e s)), hw e s)) s)) (\<lambda>(ok, s). seen T s)"
proof (rule bootsI)
  fix s assume s: "kernel_ok e base sz s" "seen T s"
  obtain ok s' where r: "spin n (\<lambda>s. (p (mem (hw e s)), hw e s)) s = (ok, s')" by force
  have "\<exists>m. s' = s\<lparr>mem := m\<rparr>"
  proof (rule spin_inv [OF r])
    show "\<exists>m. s = s\<lparr>mem := m\<rparr>" by (intro exI [of _ "mem s"]) simp
  next
    fix t ok t' assume a: "\<exists>m. t = s\<lparr>mem := m\<rparr>" "(p (mem (hw e t)), hw e t) = (ok, t')"
    then obtain ma where ma: "t = s\<lparr>mem := ma\<rparr>" by blast
    obtain mb where "hw e t = t\<lparr>mem := mb\<rparr>" using assms unfolding hw_mem_only_def by blast
    with a(2) have "t' = t\<lparr>mem := mb\<rparr>" by simp
    then show "\<exists>m. t' = s\<lparr>mem := m\<rparr>" unfolding ma by auto
  qed
  then obtain m where "s' = s\<lparr>mem := m\<rparr>" by blast
  with r s show "\<exists>r. Some (spin n (\<lambda>s. (p (mem (hw e s)), hw e s)) s) = Some r \<and> up_step e base sz 0 s (snd r) \<and> (case r of (ok, s) \<Rightarrow> seen T s)"
    by (simp add: up_step_mem)
qed

lemma boots_spin_done:
  assumes "hw_mem_only e" and "\<And>s. seen T s \<Longrightarrow> p (mem (hw e s))"
  shows "boots snd e base sz 0 (seen T) (\<lambda>s. Some (spin n (\<lambda>s. (p (mem (hw e s)), hw e s)) s)) (\<lambda>(ok, s). ok \<and> seen T s)"
proof (rule bootsI)
  fix s assume s: "kernel_ok e base sz s" "seen T s"
  obtain m where "hw e s = s\<lparr>mem := m\<rparr>" using assms(1) unfolding hw_mem_only_def by blast
  moreover have "spin n (\<lambda>s. (p (mem (hw e s)), hw e s)) s = (True, hw e s)"
    using assms(2) [OF s(2)] by (intro spin_done) simp
  ultimately show "\<exists>r. Some (spin n (\<lambda>s. (p (mem (hw e s)), hw e s)) s) = Some r \<and> up_step e base sz 0 s (snd r) \<and> (case r of (ok, s) \<Rightarrow> ok \<and> seen T s)"
    using s by (simp add: up_step_mem)
qed

lemma boots_alloc:
  assumes "heap_ok e base sz" and "al \<le> 4096"
  shows "boots snd e base sz (n + 4096) (\<lambda>s. T (io_trace s) \<and> live s = L) (\<lambda>s. Some (alloc_zeroed e n al s))
    (\<lambda>(p, s). p = galloc e n al L \<and> p \<noteq> 0 \<and> (T (io_trace s) \<and> live s = (p, n) # L))"
proof (rule bootsI)
  fix s assume s: "kernel_ok e base sz s" "heap_used (live s) + (n + 4096) \<le> sz" "T (io_trace s) \<and> live s = L"
  then have "heap_inv e base sz (live s)" "heap_used (live s) + n + 4096 \<le> sz" by (simp_all add: kernel_ok_def net_ok_def)
  note h = heap_extend(1,2) [OF assms(1) this assms(2)]
  show "\<exists>r. Some (alloc_zeroed e n al s) = Some r \<and> up_step e base sz (n + 4096) s (snd r)
      \<and> (case r of (p, s) \<Rightarrow> p = galloc e n al L \<and> p \<noteq> 0 \<and> (T (io_trace s) \<and> live s = (p, n) # L))"
    using h s up_step_alloc [OF s(1) h(2)] by (simp add: alloc_zeroed_def Let_def)
qed

lemma boots_alloc_any:
  assumes "heap_ok e base sz" and "al \<le> 4096"
  shows "boots snd e base sz (n + 4096) (\<lambda>s. T (io_trace s)) (\<lambda>s. Some (alloc_zeroed e n al s)) (\<lambda>(p, s). p \<noteq> 0 \<and> T (io_trace s))"
proof (rule bootsI)
  fix s assume s: "kernel_ok e base sz s" "roomy (server s)" "heap_used (live s) + (n + 4096) \<le> sz" "T (io_trace s)"
  then have "T (io_trace s) \<and> live s = live s" by simp
  from bootsD [OF boots_alloc [OF assms, where T = T and n = n and L = "live s"] s(1-3) this]
  show "\<exists>r. Some (alloc_zeroed e n al s) = Some r \<and> up_step e base sz (n + 4096) s (snd r) \<and> (case r of (p, s) \<Rightarrow> p \<noteq> 0 \<and> T (io_trace s))"
    by auto
qed

end
