(* ===== verification/DriverStart.thy ===== *)
theory DriverStart
  imports Bringup
begin

text \<open>
  The start-up of the NVMe and HD Audio drivers (\<open>src/src/nvme.rs\<close>, \<open>src/src/hda.rs\<close>) keeps the kernel's
  invariant, for controllers that answer as their specifications say.
\<close>

section \<open>NVMe\<close>

text \<open>The controller is there (its status does not read as all ones), and its ready bit follows the
  enable bit of the last configuration written.\<close>

definition nvme_answers :: "('a machine_scheme) env \<Rightarrow> u64 \<Rightarrow> bool" where
  "nvme_answers e bar \<longleftrightarrow> (\<forall>s. (load_le (mem (hw e s)) (bar + 0x1C) 4 :: u32) \<noteq> 0xFFFFFFFF
     \<and> (\<forall>v. io_trace s \<noteq> [] \<and> last (io_trace s) = Mmio32 (bar + 0x14) v
          \<longrightarrow> (load_le (mem (hw e s)) (bar + 0x1C) 4 :: u32) AND 1 = v AND 1))"

lemma nvme_reg:
  assumes "mmio_region base sz (nv_bar0 nv) 0x2000" and "unat off + 8 \<le> 0x2000"
  shows "wadd (nv_bar0 nv) off = Some (nv_bar0 nv + off)"
  using mmio_addr(1) [OF assms(1), of "unat off" 8] assms(2) by simp

lemma boots_write_reg:
  assumes "mmio_region base sz (nv_bar0 nv) 0x2000" and "unat off + 8 \<le> 0x2000"
    and "\<And>tr l. T tr l \<Longrightarrow> U (tr @ [Mmio32 (nv_bar0 nv + off) v]) l"
  shows "boots (\<lambda>s. s) e base sz 0 (seen T) (write_reg nv off v) (seen U)"
  unfolding write_reg_def nvme_reg [OF assms(1,2)] bind.bind_lunit volatile_write32_def
  by (rule boots_io) (rule assms(3))

lemma boots_write_reg64:
  assumes "mmio_region base sz (nv_bar0 nv) 0x2000" and "unat off + 8 \<le> 0x2000"
    and "\<And>tr l. T tr l \<Longrightarrow> U (tr @ [Mmio64 (nv_bar0 nv + off) v]) l"
  shows "boots (\<lambda>s. s) e base sz 0 (seen T) (write_reg64 nv off v) (seen U)"
  unfolding write_reg64_def nvme_reg [OF assms(1,2)] bind.bind_lunit volatile_write64_def
  by (rule boots_io) (rule assms(3))

lemma boots_read_reg:
  assumes "hw_mem_only e" and "mmio_region base sz (nv_bar0 nv) 0x2000" and "unat off + 8 \<le> 0x2000"
    and "\<And>s. seen T s \<Longrightarrow> R (load_le (mem (hw e s)) (nv_bar0 nv + off) 4)"
  shows "boots snd e base sz 0 (seen T) (read_reg e nv off) (\<lambda>(v, s). R v \<and> seen T s)"
  unfolding read_reg_def nvme_reg [OF assms(2,3)] bind.bind_lunit volatile_read32_def Let_def
  by (rule boots_look [OF assms(1)]) (rule assms(4))

lemma boots_wait_ready:
  assumes "hw_mem_only e" and "nvme_answers e (nv_bar0 nv)" and "mmio_region base sz (nv_bar0 nv) 0x2000"
    and "\<And>tr l. T tr l \<Longrightarrow> \<exists>v. tr \<noteq> [] \<and> last tr = Mmio32 (nv_bar0 nv + 0x14) v \<and> (v AND 1 \<noteq> 0) = ready"
  shows "boots snd e base sz 0 (seen T) (wait_ready e nv ready) (\<lambda>(ok, s). ok \<and> seen T s)"
proof -
  have "((load_le (mem (hw e s)) (nv_bar0 nv + 0x1C) 4 :: u32) AND 1 \<noteq> 0) = ready" if "seen T s" for s
    using assms(2) assms(4) [OF that] unfolding nvme_answers_def by metis
  then show ?thesis
    unfolding wait_ready_def nvme_reg [OF assms(3), of "0x1C", simplified] bind.bind_lunit volatile_read32_def Let_def prod.case
    by (rule boots_spin_done [OF assms(1)])
qed

lemma boots_wait_completion:
  assumes "hw_mem_only e"
  shows "boots snd e base sz 0 (seen T) (\<lambda>s. Some (wait_completion e n cq i s)) (\<lambda>(ok, s). seen T s)"
  unfolding wait_completion_def Let_def by (rule boots_spin [OF assms])

lemma boots_put_cmd: "i < 16 \<Longrightarrow> boots (\<lambda>s. s) e base sz 0 (seen T) (put_cmd sq i c) (seen T)"
  unfolding put_cmd_def by (simp only: if_True) (rule boots_mem)

text \<open>The queues, as the allocator places them on the given blocks.\<close>

definition nvme_blocks :: "'s env \<Rightarrow> block list \<Rightarrow> block list" where
  "nvme_blocks e L =
     (let L1 = (galloc e 1024 4096 L, 1024) # L;
          L2 = (galloc e 256 4096 L1, 256) # L1;
          L3 = (galloc e 1024 4096 L2, 1024) # L2
      in (galloc e 256 4096 L3, 256) # L3)"

definition nvme_placed :: "'s env \<Rightarrow> u64 \<Rightarrow> block list \<Rightarrow> nvme" where
  "nvme_placed e bar L =
     (let B = map fst (nvme_blocks e L)
      in (nvme_new bar)\<lparr>asq_ptr := B ! 3, acq_ptr := B ! 2, iosq_ptr := B ! 1, iocq_ptr := B ! 0\<rparr>)"

lemma boots_queues:
  assumes "heap_ok e base sz"
  shows "boots snd e base sz 18944 (\<lambda>s. T (io_trace s) \<and> live s = L) (\<lambda>s. Some (nvme_queues e (nvme_new bar) s))
    (\<lambda>(nv, s). nv = nvme_placed e bar L \<and> asq_ptr nv \<noteq> 0 \<and> acq_ptr nv \<noteq> 0 \<and> T (io_trace s) \<and> live s = nvme_blocks e L)"
  unfolding nvme_queues_def Let_def prod.case_distrib [of Some]
  apply (rule boots_mono)
     apply (rule boots_total, rule boots_alloc [OF assms, where T = T], simp)
     apply (unfold prod.case, rule boots_pull, rule boots_pull)
     apply (rule boots_total, rule boots_alloc [OF assms, where T = T], simp)
     apply (unfold prod.case, rule boots_pull, rule boots_pull)
     apply (rule boots_total, rule boots_alloc [OF assms, where T = T], simp)
     apply (unfold prod.case, rule boots_pull, rule boots_pull)
     apply (rule boots_total, rule boots_alloc [OF assms, where T = T], simp)
     apply (unfold prod.case, rule boots_pull, rule boots_pull)
     apply (rule boots_return_val [where Q = "\<lambda>(nv, s). nv = nvme_placed e bar L \<and> asq_ptr nv \<noteq> 0 \<and> acq_ptr nv \<noteq> 0 \<and> T (io_trace s) \<and> live s = nvme_blocks e L"])
     apply (simp add: nvme_placed_def nvme_blocks_def nvme_new_def Let_def)
    apply simp_all
  done

text \<open>The chains of writes below keep the blocks: the rules with that condition filled in.\<close>

abbreviation on :: "block list \<Rightarrow> io list \<Rightarrow> block list \<Rightarrow> bool" where
  "on L \<equiv> \<lambda>tr l. l = L"

lemmas on_write = boots_write_reg [where T = "on L" and U = "on L" for L]
lemmas on_write64 = boots_write_reg64 [where T = "on L" and U = "on L" for L]
lemmas on_put = boots_put_cmd [where T = "on L" for L]
lemmas on_print = boots_print [where T = "on L" for L]
lemmas on_wait = boots_wait_completion [where T = "on L" for L]

lemma boots_create_io:
  assumes "hw_mem_only e" and "mmio_region base sz (nv_bar0 nv) 0x2000" and "asq_ptr nv \<noteq> 0" and "acq_ptr nv \<noteq> 0"
  shows "boots (\<lambda>s. s) e base sz 0 (\<lambda>s. live s = L) (nvme_create_io e nv) (\<lambda>s. live s = L)"
proof -
  have r: "raw_parts (asq_ptr nv) = Some (asq_ptr nv)" "raw_parts (acq_ptr nv) = Some (acq_ptr nv)"
    using assms(3,4) by (simp_all add: raw_parts_def)
  show ?thesis
    unfolding nvme_create_io_def r bind.bind_lunit Let_def
    apply (rule boots_mono)
       apply (rule boots_seq, rule on_put, simp)
       apply (rule boots_seq, rule on_write [OF assms(2)], simp, simp)
       apply (rule boots_total, rule on_wait [OF assms(1)], unfold prod.case)
       apply (rule boots_seq, rule on_write [OF assms(2)], simp, simp)
       apply (rule boots_seq, rule on_put, simp)
       apply (rule boots_seq, rule on_write [OF assms(2)], simp, simp)
       apply (rule boots_total, rule on_wait [OF assms(1)], unfold prod.case)
       apply (rule boots_seq, rule on_write [OF assms(2)], simp, simp)
       apply (rule on_print)
      apply simp_all
    done
qed

lemma boots_nvme_init:
  assumes "heap_ok e base sz" and "hw_mem_only e" and "mmio_region base sz bar 0x2000" and "nvme_answers e bar"
  shows "boots snd e base sz 18944 (\<lambda>s. live s = L) (nvme_init e (nvme_new bar))
    (\<lambda>(nv, s). nv = nvme_placed e bar L \<and> asq_ptr nv \<noteq> 0 \<and> acq_ptr nv \<noteq> 0 \<and> live s = nvme_blocks e L)"
proof -
  let ?nv = "nvme_new bar" and ?Q = "\<lambda>nv. nv = nvme_placed e bar L \<and> asq_ptr nv \<noteq> 0 \<and> acq_ptr nv \<noteq> 0"
  have bar: "nv_bar0 ?nv = bar" "nv_bar0 (nvme_placed e bar L) = bar" by (simp_all add: nvme_new_def nvme_placed_def Let_def)
  have mm: "mmio_region base sz (nv_bar0 ?nv) 0x2000" "mmio_region base sz (nv_bar0 (nvme_placed e bar L)) 0x2000"
    using assms(3) by (simp_all add: bar)
  have io: "boots snd e base sz 0 (\<lambda>s. live s = nvme_blocks e L) (\<lambda>s. nvme_create_io e nv s \<bind> (\<lambda>s. Some (nv, s)))
      (\<lambda>(nv, s). ?Q nv \<and> live s = nvme_blocks e L)" if "?Q nv" for nv
  proof -
    have q: "asq_ptr nv \<noteq> 0" "acq_ptr nv \<noteq> 0" "mmio_region base sz (nv_bar0 nv) 0x2000" using that mm(2) by auto
    have "boots snd e base sz (0 + 0) (\<lambda>s. live s = nvme_blocks e L) (\<lambda>s. nvme_create_io e nv s \<bind> (\<lambda>s. Some (nv, s)))
      (\<lambda>(nv, s). ?Q nv \<and> live s = nvme_blocks e L)"
      by (rule boots_seq, rule boots_create_io [OF assms(2) q(3,1,2)], rule boots_return_val) (use that in auto)
    then show ?thesis by simp
  qed
  have cc: "(cc AND - 2) AND 1 = 0" for cc :: u32
  proof -
    have "(- 2 :: u32) = NOT 1" by simp
    then show ?thesis by (simp only:) (rule bit_word_eqI, auto simp: bit_simps)
  qed
  have csts: "load_le (mem (hw e s)) (nv_bar0 ?nv + 0x1C) 4 \<noteq> (0xFFFFFFFF :: u32)" for s
    using assms(4) by (simp add: bar nvme_answers_def)
  have ans: "nvme_answers e (nv_bar0 ?nv)" "nvme_answers e (nv_bar0 (nvme_placed e bar L))" using assms(4) by (simp_all add: bar)
  show ?thesis
    unfolding nvme_init_def Let_def
    apply (rule boots_mono)
       apply (rule boots_val, rule boots_read_reg [OF assms(2) mm(1), where T = "on L" and R = "\<lambda>v. v \<noteq> 0xFFFFFFFF"], simp, rule csts)
       apply (unfold prod.case, rule boots_pull, simp only: if_False simp_thms)
       apply (rule boots_val, rule boots_read_reg [OF assms(2) mm(1), where T = "on L" and R = "\<lambda>v. True"], simp, simp)
       apply (unfold prod.case, rule boots_pull)
       apply (rule boots_seq)
        apply (rule boots_write_reg [OF mm(1), where T = "on L" and U = "\<lambda>tr l. tr \<noteq> [] \<and> (\<exists>v. last tr = Mmio32 (nv_bar0 ?nv + 0x14) v \<and> v AND 1 = 0) \<and> l = L"], simp, simp add: cc)
       apply (rule boots_val)
        apply (rule boots_wait_ready [OF assms(2) ans(1) mm(1), where T = "\<lambda>tr l. tr \<noteq> [] \<and> (\<exists>v. last tr = Mmio32 (nv_bar0 ?nv + 0x14) v \<and> v AND 1 = 0) \<and> l = L"], blast)
       apply (unfold prod.case, rule boots_pull, simp only: not_not if_False simp_thms)
       apply (rule boots_total, rule boots_pre [OF boots_queues [OF assms(1), where T = "\<lambda>_. True" and L = L]], simp)
       apply (unfold prod.case, rule boots_pull, rule boots_pull, rule boots_pull, simp only: simp_thms)
       apply (rule boots_seq, rule on_write [OF mm(2), where L = "nvme_blocks e L"], simp, simp)
       apply (rule boots_seq, rule on_write64 [OF mm(2)], simp, simp)
       apply (rule boots_seq, rule on_write64 [OF mm(2)], simp, simp)
       apply (rule boots_seq)
        apply (rule boots_write_reg [OF mm(2), where T = "on (nvme_blocks e L)" and U = "\<lambda>tr l. tr \<noteq> [] \<and> (\<exists>v. last tr = Mmio32 (nv_bar0 (nvme_placed e bar L) + 0x14) v \<and> v AND 1 \<noteq> 0) \<and> l = nvme_blocks e L"], simp, simp)
       apply (rule boots_val)
        apply (rule boots_wait_ready [OF assms(2) ans(2) mm(2), where T = "\<lambda>tr l. tr \<noteq> [] \<and> (\<exists>v. last tr = Mmio32 (nv_bar0 (nvme_placed e bar L) + 0x14) v \<and> v AND 1 \<noteq> 0) \<and> l = nvme_blocks e L"], blast)
       apply (unfold prod.case, rule boots_pull, simp only: not_not if_False simp_thms)
       apply (rule boots_pre [OF io])
    apply simp_all
    done
qed

lemma boots_identify:
  assumes "heap_ok e base sz" and "hw_mem_only e" and "mmio_region base sz (nv_bar0 nv) 0x2000" and "asq_ptr nv \<noteq> 0" and "acq_ptr nv \<noteq> 0"
  shows "boots (\<lambda>s. s) e base sz 8192 (\<lambda>s. live s = L) (identify_controller e nv) (\<lambda>s. live s = (galloc e 4096 4096 L, 4096) # L)"
proof -
  have r: "raw_parts (asq_ptr nv) = Some (asq_ptr nv)" "raw_parts (acq_ptr nv) = Some (acq_ptr nv)"
    using assms(4,5) by (simp_all add: raw_parts_def)
  let ?L = "(galloc e 4096 4096 L, 4096) # L"
  have report: "boots (\<lambda>s. s) e base sz 0 (\<lambda>s. live s = ?L) (\<lambda>s. case ms of None \<Rightarrow> Some s | Some model_str \<Rightarrow> (case ns of None \<Rightarrow> Some s | Some serial_str \<Rightarrow> do {
        s \<leftarrow> print_str t1 c1 s;
        s \<leftarrow> print_str model_str c2 s;
        s \<leftarrow> print_str t2 c1 s;
        s \<leftarrow> print_str serial_str c2 s;
        print_str t3 c1 s })) (\<lambda>s. live s = ?L)" for ms ns t1 t2 t3 c1 c2
  proof (cases "ms = None \<or> ns = None")
    case True
    then show ?thesis using boots_return [of e base sz "\<lambda>s. live s = ?L"] by (cases ms) auto
  next
    case False
    then obtain a b where "ms = Some a" "ns = Some b" by auto
    then show ?thesis
      apply (simp only: prod.case option.case)
      apply (rule boots_mono)
      apply (rule boots_seq, rule on_print [where L = ?L], rule boots_seq, rule on_print, rule boots_seq, rule on_print,
          rule boots_seq, rule on_print, rule on_print)
      by simp_all
  qed
  show ?thesis
    unfolding identify_controller_def r bind.bind_lunit Let_def
    apply (rule boots_mono [where Q = "\<lambda>s. live s = ?L"])
       apply (rule boots_total, rule boots_alloc [OF assms(1), where T = "\<lambda>_. True" and L = L], simp)
       apply (unfold prod.case, rule boots_pull, rule boots_pull, simp only: simp_thms raw_parts_def if_False bind.bind_lunit)
       apply (rule boots_seq, rule on_put [where L = ?L], simp)
       apply (rule boots_seq, rule on_write [OF assms(3)], simp, simp)
       apply (rule boots_total, rule on_wait [OF assms(2)], unfold prod.case)
       apply (rule boots_if [where n = 0])
        apply (rule boots_return)
       apply (rule boots_mono)
          apply (rule boots_seq)
           apply (rule boots_of [where h = "\<lambda>s. load_bytes (mem s) (galloc e 4096 4096 L) 4096"], rule report)
          apply (rule on_write [OF assms(3)])
           apply simp_all
    done
qed

text \<open>The drive of a starting kernel: the file is read within three reads.\<close>

definition boot_ready :: "('a kernel_scheme) env \<Rightarrow> nat \<Rightarrow> nat \<Rightarrow> (u64 \<Rightarrow> u8 list) \<Rightarrow> 'a kernel_scheme \<Rightarrow> nat \<Rightarrow> nvme \<Rightarrow> 'a kernel_scheme \<Rightarrow> bool" where
  "boot_ready e base sz disk s0 n nv s \<longleftrightarrow> n \<le> 3 \<and> drive_ready e base sz disk n nv s \<and> kernel_ok e base sz s
     \<and> up_step e base sz ((3 - n) * 8192) s0 s"

interpretation boot_drive: kept_block_device "read_sector e" disk "boot_ready e base sz disk s0" for e base sz disk s0
proof
  fix n d lba and s :: "'a kernel_scheme"
  assume r: "boot_ready e base sz disk s0 (Suc n) d s"
  then have b: "Suc n \<le> 3" "drive_ready e base sz disk (Suc n) d s" "kernel_ok e base sz s" "up_step e base sz ((3 - Suc n) * 8192) s0 s"
    by (simp_all add: boot_ready_def)
  from drive_ready_read [OF b(2), of lba] obtain d' m l t p where
    s': "read_sector e d lba s = Some (disk lba, d', s\<lparr>mem := m, live := l, io_trace := t\<rparr>)"
    "drive_ready e base sz disk n d' (s\<lparr>mem := m, live := l, io_trace := t\<rparr>)" "l = (p, 4096) # live s" by blast
  have "heap_inv e base sz ((p, 4096) # live s)" using s'(2,3) by (simp add: drive_ready_def drive_ok_def)
  from up_step_alloc [OF b(3) this, of m] have u1: "up_step e base sz (4096 + 4096) s (s\<lparr>mem := m, live := (p, 4096) # live s\<rparr>)" .
  then have "kernel_ok e base sz (s\<lparr>mem := m, live := (p, 4096) # live s\<rparr>)" by (simp add: up_step_def)
  from up_step_machine [OF this, of t m] have "up_step e base sz 0 (s\<lparr>mem := m, live := (p, 4096) # live s\<rparr>)
      (s\<lparr>mem := m, live := (p, 4096) # live s, mem := m, io_trace := t\<rparr>)" .
  moreover have "s\<lparr>mem := m, live := (p, 4096) # live s, mem := m, io_trace := t\<rparr> = s\<lparr>mem := m, live := l, io_trace := t\<rparr>"
    by (cases s) (simp add: s'(3))
  ultimately have "up_step e base sz 0 (s\<lparr>mem := m, live := (p, 4096) # live s\<rparr>) (s\<lparr>mem := m, live := l, io_trace := t\<rparr>)" by (simp only:)
  from up_step_trans [OF b(4) up_step_trans [OF u1 this]] have
    "up_step e base sz ((3 - Suc n) * 8192 + 8192) s0 (s\<lparr>mem := m, live := l, io_trace := t\<rparr>)" by simp
  moreover have "(3 - Suc n) * 8192 + 8192 = (3 - n) * 8192" using b(1) by (simp add: diff_mult_distrib)
  ultimately have "boot_ready e base sz disk s0 n d' (s\<lparr>mem := m, live := l, io_trace := t\<rparr>)"
    using s'(2) b(1) by (simp add: boot_ready_def up_step_def)
  with s'(1) show "\<exists>d' s'. read_sector e d lba s = Some (disk lba, d', s') \<and> boot_ready e base sz disk s0 n d' s'" by blast
next
  fix n d t c s' and s :: "'a kernel_scheme"
  assume r: "boot_ready e base sz disk s0 n d s" and p: "print_str t c s = Some s'"
  then have b: "drive_ready e base sz disk n d s" "kernel_ok e base sz s" "up_step e base sz ((3 - n) * 8192) s0 s" "n \<le> 3"
    by (simp_all add: boot_ready_def)
  from print_step [OF b(2), of t c] p have "kernel_step e base sz 0 s s'" "mouse_state s' = mouse_state s" "net_card s' = net_card s" by auto
  then have "up_step e base sz 0 s s'" by (simp add: up_step_def kernel_step_def net_step_def)
  from up_step_trans [OF b(3) this] drive_ready_print [OF b(1) p] b(4) show "boot_ready e base sz disk s0 n d s'"
    by (simp add: boot_ready_def up_step_def)
next
  fix n d and s :: "'a kernel_scheme"
  assume "boot_ready e base sz disk s0 (Suc n) d s"
  then show "boot_ready e base sz disk s0 n d s"
    using drive_ready_less [of e base sz disk n d s] by (auto simp: boot_ready_def up_step_def)
qed (auto simp: boot_ready_def drive_ready_def)

text \<open>What the start asks of the NVMe controller the scan found, given the blocks live by then.\<close>

definition nvme_fit :: "('a kernel_scheme) env \<Rightarrow> nat \<Rightarrow> nat \<Rightarrow> devices \<Rightarrow> block list \<Rightarrow> (u64 \<Rightarrow> u8 list) \<Rightarrow> bool" where
  "nvme_fit e base sz d L disk \<longleftrightarrow> (nvme_found d \<and> Boot.nvme_bar0 d \<noteq> 0 \<longrightarrow>
     (let bar = Boot.nvme_bar0 d; nv = nvme_placed e bar L in
        mmio_region base sz bar 0x2000 \<and> nvme_answers e bar \<and> nvme_serves e bar (iosq_ptr nv) (iocq_ptr nv) disk
        \<and> (\<forall>lba. length (disk lba) = 512) \<and> payload_of disk \<noteq> None))"

definition file_text :: "devices \<Rightarrow> (u64 \<Rightarrow> u8 list) \<Rightarrow> rstr" where
  "file_text d disk = (if nvme_found d \<and> Boot.nvme_bar0 d \<noteq> 0 then the (payload_of disk) else [])"

lemma boots_load:
  assumes "heap_ok e base sz" and "mmio_region base sz bar 0x2000" and "nv = nvme_placed e bar L"
    and "nvme_serves e bar (iosq_ptr nv) (iocq_ptr nv) disk" and "\<forall>lba. length (disk lba) = 512" and "payload_of disk = Some line"
  shows "boots snd e base sz 24576 (\<lambda>s. live s = (p, 4096) # nvme_blocks e L)
    (\<lambda>s. load_payload (read_sector e) nv s \<bind> (\<lambda>(t, drive, s). Some (t, s\<lparr>nvme_drive := Some drive\<rparr>))) (\<lambda>(t, s). t = line)"
proof (rule bootsI)
  fix s assume s: "kernel_ok e base sz s" "heap_used (live s) + 24576 \<le> sz" "live s = (p, 4096) # nvme_blocks e L"
  have "drive_ready e base sz disk 3 nv s"
    using assms s by (simp add: drive_ready_def drive_ok_def kernel_ok_def net_ok_def nvme_placed_def nvme_blocks_def nvme_new_def Let_def)
  then have r: "boot_ready e base sz disk s 3 nv s" using s(1) up_step_refl [OF s(1)] by (simp add: boot_ready_def)
  from boot_drive.load_payload_result [OF r] assms(6) obtain drive s' where
    l: "load_payload (read_sector e) nv s = Some (line, drive, s')" by auto
  from boot_drive.load_payload_ready [OF r l] have "up_step e base sz 24576 s s'" by (simp add: boot_ready_def)
  then have "up_step e base sz 24576 s (s'\<lparr>nvme_drive := Some drive\<rparr>)"
    by (auto simp: up_step_def kernel_ok_def net_ok_def gfx_ok_def)
  with l show "\<exists>r. load_payload (read_sector e) nv s \<bind> (\<lambda>(t, drive, s). Some (t, s\<lparr>nvme_drive := Some drive\<rparr>)) = Some r
      \<and> up_step e base sz 24576 s (snd r) \<and> (case r of (t, s) \<Rightarrow> t = line)" by simp
qed

lemma boots_bring_up_nvme:
  assumes "heap_ok e base sz" and "hw_mem_only e" and "nvme_fit e base sz d L disk"
  shows "boots snd e base sz 51712 (\<lambda>s. live s = L) (bring_up_nvme e d) (\<lambda>(t, s). t = file_text d disk)"
proof (cases "nvme_found d \<and> Boot.nvme_bar0 d \<noteq> 0")
  case False
  then have f: "file_text d disk = []" unfolding file_text_def by (rule if_not_P)
  from False show ?thesis unfolding bring_up_nvme_def f
    by (simp only: if_False) (rule boots_mono [OF boots_return_val], simp_all)
next
  case True
  let ?bar = "Boot.nvme_bar0 d"
  from assms(3) True obtain line where n: "mmio_region base sz ?bar 0x2000" "nvme_answers e ?bar"
    "nvme_serves e ?bar (iosq_ptr (nvme_placed e ?bar L)) (iocq_ptr (nvme_placed e ?bar L)) disk"
    "\<forall>lba. length (disk lba) = 512" "payload_of disk = Some line" by (auto simp: nvme_fit_def Let_def)
  from True n(5) have f: "file_text d disk = line" by (simp add: file_text_def)
  have mm: "mmio_region base sz (nv_bar0 (nvme_placed e ?bar L)) 0x2000" using n(1) by (simp add: nvme_placed_def nvme_new_def Let_def)
  from True show ?thesis unfolding bring_up_nvme_def f
    apply (simp only: if_True simp_thms)
    apply (rule boots_mono)
       apply (rule boots_seq, rule on_print [where L = L])
       apply (rule boots_val, rule boots_nvme_init [OF assms(1,2) n(1,2)])
       apply (unfold prod.case, rule boots_pull, rule boots_pull, rule boots_pull, simp only: simp_thms)
       apply (rule boots_seq, rule boots_identify [OF assms(1,2) mm], simp, simp)
       apply (rule boots_load [OF assms(1) n(1) refl n(3-5)])
      apply simp_all
    done
qed

section \<open>HD Audio\<close>

text \<open>The controller leaves reset when told to, and while it is being spoken to its write pointer
  register counts to 255.\<close>

definition hda_io :: "u64 \<Rightarrow> io list \<Rightarrow> bool" where
  "hda_io bar tr \<longleftrightarrow> tr \<noteq> [] \<and> (\<exists>off. unat off < 0x1000 \<and>
     ((\<exists>v. last tr = Mmio8 (bar + off) v) \<or> (\<exists>v. last tr = Mmio16 (bar + off) v) \<or> (\<exists>v. last tr = Mmio32 (bar + off) v)))"

definition hda_answers :: "('a machine_scheme) env \<Rightarrow> u64 \<Rightarrow> bool" where
  "hda_answers e bar \<longleftrightarrow>
     (\<forall>s. io_trace s \<noteq> [] \<and> last (io_trace s) = Mmio32 (bar + 8) 1 \<longrightarrow> (load_le (mem (hw e s)) (bar + 8) 4 :: u32) AND 1 \<noteq> 0)
     \<and> (\<forall>s. hda_io bar (io_trace s) \<longrightarrow> (load_le (mem (hw e s)) (bar + 0x48) 2 :: u16) \<le> 255)"

abbreviation talk :: "intel_hda \<Rightarrow> io list \<Rightarrow> block list \<Rightarrow> bool" where
  "talk h \<equiv> \<lambda>tr l. hda_io (hda_bar0 h) tr"

lemma boots_hda_write:
  assumes "hda_regs base sz h" and "unat off + 4 \<le> 0x1000"
  shows "boots (\<lambda>s. s) e base sz 0 (seen T) (hda_write_reg8 h off v8) (seen (talk h))"
    "boots (\<lambda>s. s) e base sz 0 (seen T) (hda_write_reg16 h off v16) (seen (talk h))"
    "boots (\<lambda>s. s) e base sz 0 (seen T) (hda_write_reg h off v) (seen (talk h))"
proof -
  have "unat off < 0x1000" using assms(2) by simp
  then have i: "hda_io (hda_bar0 h) (tr @ [Mmio8 (hda_bar0 h + off) v8])" "hda_io (hda_bar0 h) (tr @ [Mmio16 (hda_bar0 h + off) v16])"
    "hda_io (hda_bar0 h) (tr @ [Mmio32 (hda_bar0 h + off) v])" for tr
    unfolding hda_io_def by (auto intro!: exI [of _ off])
  show "boots (\<lambda>s. s) e base sz 0 (seen T) (hda_write_reg8 h off v8) (seen (talk h))"
    unfolding hda_write_reg8_def hda_addr [OF assms] bind.bind_lunit volatile_write8_def by (rule boots_io) (rule i)
  show "boots (\<lambda>s. s) e base sz 0 (seen T) (hda_write_reg16 h off v16) (seen (talk h))"
    unfolding hda_write_reg16_def hda_addr [OF assms] bind.bind_lunit volatile_write16_def by (rule boots_io) (rule i)
  show "boots (\<lambda>s. s) e base sz 0 (seen T) (hda_write_reg h off v) (seen (talk h))"
    unfolding hda_write_reg_def hda_addr [OF assms] bind.bind_lunit volatile_write32_def by (rule boots_io) (rule i)
qed

lemma boots_hda_read:
  assumes "hw_mem_only e" and "hda_regs base sz h" and "unat off + 4 \<le> 0x1000"
  shows "boots snd e base sz 0 (seen T) (hda_read_reg e h off) (\<lambda>(v, s). seen T s)"
    "boots snd e base sz 0 (seen T) (hda_read_reg8 e h off) (\<lambda>(v, s). seen T s)"
    "(\<And>s. seen T s \<Longrightarrow> R (load_le (mem (hw e s)) (hda_bar0 h + off) 2)) \<Longrightarrow>
      boots snd e base sz 0 (seen T) (hda_read_reg16 e h off) (\<lambda>(v, s). R v \<and> seen T s)"
proof -
  show "boots snd e base sz 0 (seen T) (hda_read_reg e h off) (\<lambda>(v, s). seen T s)"
    unfolding hda_read_reg_def hda_addr [OF assms(2,3)] bind.bind_lunit volatile_read32_def Let_def by (rule boots_hw [OF assms(1)])
  show "boots snd e base sz 0 (seen T) (hda_read_reg8 e h off) (\<lambda>(v, s). seen T s)"
    unfolding hda_read_reg8_def hda_addr [OF assms(2,3)] bind.bind_lunit volatile_read8_def Let_def by (rule boots_hw [OF assms(1)])
  assume R: "\<And>s. seen T s \<Longrightarrow> R (load_le (mem (hw e s)) (hda_bar0 h + off) 2)"
  show "boots snd e base sz 0 (seen T) (hda_read_reg16 e h off) (\<lambda>(v, s). R v \<and> seen T s)"
    unfolding hda_read_reg16_def hda_addr [OF assms(2,3)] bind.bind_lunit volatile_read16_def Let_def
    by (rule boots_look [OF assms(1)]) (rule R)
qed

text \<open>A command: the write pointer is at most 255, so that the next one does not overflow.\<close>

lemma boots_corb:
  assumes "hw_mem_only e" and "hda_regs base sz h" and "hda_answers e (hda_bar0 h)" and "corb_ptr h \<noteq> 0"
  shows "boots (\<lambda>s. s) e base sz 0 (seen (talk h)) (send_corb_cmd e h cmd) (seen (talk h))"
proof -
  have wp: "load_le (mem (hw e s)) (hda_bar0 h + 0x48) 2 \<le> (255 :: u16)" if "seen (talk h) s" for s
    using assms(3) that by (simp add: hda_answers_def)
  have w: "wadd v 1 = Some (v + 1)" if "v \<le> 255" for v :: u16
    using that by (simp add: wadd_def word_le_nat_alt)
  have r: "raw_parts (corb_ptr h) = Some (corb_ptr h)" using assms(4) by (simp add: raw_parts_def)
  show ?thesis
    unfolding send_corb_cmd_def r bind.bind_lunit
    apply (rule boots_mono)
       apply (rule boots_val, rule boots_hda_read(3) [OF assms(1,2), where T = "talk h" and R = "\<lambda>v. v \<le> 255"], simp, rule wp, assumption)
       apply (unfold prod.case, rule boots_pull, simp only: w bind.bind_lunit Let_def)
       apply (rule boots_upd [where u = "\<lambda>s. s\<lparr>mem := store_le (mem s) a 4 cmd\<rparr>" for a, OF boots_mem [where T = "talk h"]])
       apply (rule boots_hda_write [OF assms(2)], simp)
      apply simp_all
    done
qed

lemma boots_codec:
  assumes "hw_mem_only e" and "hda_regs base sz h" and "hda_answers e (hda_bar0 h)" and "corb_ptr h \<noteq> 0"
  shows "boots (\<lambda>s. s) e base sz 0 (seen (talk h)) (foldM (send_corb_cmd e h) cs) (seen (talk h))"
proof (induction cs)
  case Nil
  then show ?case using boots_return [of e base sz "seen (talk h)"] by simp
next
  case (Cons c cs)
  have "foldM (send_corb_cmd e h) (c # cs) = (\<lambda>s. send_corb_cmd e h c s \<bind> foldM (send_corb_cmd e h) cs)"
    by (rule ext) (simp split: option.splits)
  with boots_seq [OF boots_corb [OF assms] Cons.IH, of c] show ?case by simp
qed

lemma boots_stream_wait:
  assumes "hw_mem_only e" and "hda_regs base sz h" and "unat off + 4 \<le> 0x1000"
  shows "boots (\<lambda>s. s) e base sz 0 (seen T) (stream_wait e h off up) (seen T)"
proof -
  have "boots (\<lambda>s. s) e base sz (0 + 0) (seen T)
      (\<lambda>s. case spin 10000 (\<lambda>s. ((load_le (mem (hw e s)) (hda_bar0 h + off) 1 AND (1 :: u8) \<noteq> 0) = up, hw e s)) s of (_, s) \<Rightarrow> Some s) (seen T)"
    by (rule boots_total, rule boots_spin [OF assms(1)]) (simp add: boots_return)
  then show ?thesis
    unfolding stream_wait_def hda_addr [OF assms(2,3)] bind.bind_lunit volatile_read8_def Let_def prod.case by simp
qed

lemma boots_stream_setup:
  assumes "hw_mem_only e" and "hda_regs base sz h" and "unat off \<le> 0x260"
  shows "boots (\<lambda>s. s) e base sz 0 (seen T) (stream_setup e h off bdl) (seen (talk h))"
proof -
  have o: "unat off + 4 \<le> 0x1000" "unat (off + 0x18) + 4 \<le> 0x1000" "unat (off + 0x1C) + 4 \<le> 0x1000" "unat (off + 0x08) + 4 \<le> 0x1000"
    "unat (off + 0x0C) + 4 \<le> 0x1000" "unat (off + 0x12) + 4 \<le> 0x1000"
    using assms(3) unat_add_small [of off "0x18"] unat_add_small [of off "0x1C"] unat_add_small [of off 8]
      unat_add_small [of off "0xC"] unat_add_small [of off "0x12"] by simp_all
  note w = boots_hda_write [OF assms(2), where T = "talk h"]
  show ?thesis
    unfolding stream_setup_def
    apply (rule boots_mono)
       apply (rule boots_seq, rule boots_hda_write(1) [OF assms(2) o(1), where T = T])
       apply (rule boots_seq, rule w(1) [OF o(1)])
       apply (rule boots_seq, rule boots_stream_wait [OF assms(1,2) o(1), where T = "talk h"])
       apply (rule boots_seq, rule w(1) [OF o(1)])
       apply (rule boots_seq, rule boots_stream_wait [OF assms(1,2) o(1), where T = "talk h"])
       apply (rule boots_seq, rule w(3) [OF o(2)], rule boots_seq, rule w(3) [OF o(3)], rule boots_seq, rule w(3) [OF o(4)],
         rule boots_seq, rule w(2) [OF o(5)], rule w(2) [OF o(6)])
      apply simp_all
    done
qed

lemma boots_tone_buffers:
  assumes "heap_ok e base sz"
  shows "boots snd e base sz 77824 (seen T) (tone_buffers e) (\<lambda>_. True)"
proof -
  let ?T = "\<lambda>_ _. True"
  have r: "p \<noteq> 0 \<Longrightarrow> raw_parts p = Some p" for p by (simp add: raw_parts_def)
  show ?thesis
    unfolding tone_buffers_def Let_def
    apply (rule boots_mono)
       apply (rule boots_total, rule boots_alloc_any [OF assms, where T = "\<lambda>_. True"], simp)
       apply (unfold prod.case)
       apply (rule boots_pull)
       apply (simp only: r bind.bind_lunit simp_thms)
       apply (rule boots_upd [where u = "\<lambda>s. s\<lparr>mem := fill_tone buf n (mem s)\<rparr>" for buf n, OF boots_mem [where T = ?T]])
       apply (rule boots_total, rule boots_alloc_any [OF assms, where T = "\<lambda>_. True"], simp)
       apply (unfold prod.case, rule boots_pull, simp only: r bind.bind_lunit simp_thms)
       apply (rule boots_upd [OF boots_mem [where T = ?T], where g = "\<lambda>s. Some (b, s)" for b])
       apply (rule boots_return_val)
      apply simp_all
    done
qed

lemma boots_play_tone:
  assumes "heap_ok e base sz" and "hw_mem_only e" and "hda_regs base sz h" and "hda_answers e (hda_bar0 h)" and "corb_ptr h \<noteq> 0"
  shows "boots (\<lambda>s. s) e base sz 77824 (seen T) (play_tone e h) (\<lambda>_. True)"
proof -
  let ?off = "\<lambda>g. 0x80 + ucast ((drop_bit 8 (g :: u32) AND 0x0F) * 0x20) :: u64"
  have o: "unat (?off g) + 4 \<le> 0x1000" for g using stream_offset_bound [of g] by linarith
  note w = boots_hda_write(1) [OF assms(3) o, where T = "talk h"]
  show ?thesis
    unfolding play_tone_def Let_def
    apply (rule boots_mono)
       apply (rule boots_val, rule boots_tone_buffers [OF assms(1), where T = T])
       apply (rule boots_val, rule boots_hda_read(1) [OF assms(2,3), where T = "\<lambda>_ _. True"], simp, unfold prod.case)
       apply (rule boots_seq, rule boots_stream_setup [OF assms(2,3) stream_offset_bound, where T = "\<lambda>_ _. True"])
       apply (rule boots_seq, rule boots_codec [OF assms(2-5)])
       apply (rule boots_val, rule boots_hda_read(2) [OF assms(2,3) o, where T = "talk h"], unfold prod.case)
       apply (rule boots_seq, rule w, rule boots_seq, rule w, rule boots_print [where T = "talk h"])
      apply simp_all
    done
qed

lemma boots_hda_rings:
  assumes "heap_ok e base sz" and "hda_regs base sz h"
  shows "boots snd e base sz 16384 (seen T) (hda_rings e h) (\<lambda>(h', s). (corb_ptr h' \<noteq> 0 \<and> hda_bar0 h' = hda_bar0 h) \<and> True)"
proof -
  have rings: "boots snd e base sz 0 (\<lambda>s. True) (\<lambda>s. do {
      s \<leftarrow> hda_write_reg8 h' 0x4C 0 s;
      s \<leftarrow> hda_write_reg8 h' 0x5C 0 s;
      s \<leftarrow> hda_write_reg h' 0x40 v1 s;
      s \<leftarrow> hda_write_reg h' 0x44 v2 s;
      s \<leftarrow> hda_write_reg h' 0x50 v3 s;
      s \<leftarrow> hda_write_reg h' 0x54 v4 s;
      s \<leftarrow> hda_write_reg8 h' 0x4E 0x02 s;
      s \<leftarrow> hda_write_reg8 h' 0x5E 0x02 s;
      s \<leftarrow> hda_write_reg16 h' 0x4A (push_bit 15 1) s;
      s \<leftarrow> hda_write_reg16 h' 0x4A 0 s;
      s \<leftarrow> hda_write_reg16 h' 0x48 0 s;
      s \<leftarrow> hda_write_reg16 h' 0x58 (push_bit 15 1) s;
      s \<leftarrow> hda_write_reg8 h' 0x4C (push_bit 1 1) s;
      s \<leftarrow> hda_write_reg8 h' 0x5C (push_bit 1 1) s;
      Some (h', s) }) (\<lambda>(x, s). x = h')" if h': "hda_regs base sz h'" for h' v1 v2 v3 v4
  proof -
    have w: "boots (\<lambda>s. s) e base sz 0 (\<lambda>s. True) (hda_write_reg8 h' off v8) (\<lambda>s. True)"
      "boots (\<lambda>s. s) e base sz 0 (\<lambda>s. True) (hda_write_reg16 h' off v16) (\<lambda>s. True)"
      "boots (\<lambda>s. s) e base sz 0 (\<lambda>s. True) (hda_write_reg h' off v) (\<lambda>s. True)" if "unat off + 4 \<le> 0x1000" for off v8 v16 v
      by (rule boots_post [OF boots_hda_write(1) [OF h' that, where T = "\<lambda>_ _. True"]], rule TrueI,
          rule boots_post [OF boots_hda_write(2) [OF h' that, where T = "\<lambda>_ _. True"]], rule TrueI,
          rule boots_post [OF boots_hda_write(3) [OF h' that, where T = "\<lambda>_ _. True"]], rule TrueI)
    show ?thesis
      apply (rule boots_mono)
         apply (rule boots_seq, rule w, simp)+
         apply (rule boots_return_val [where Q = "\<lambda>(x, s). x = h'"])
        apply simp_all
      done
  qed
  have r: "hda_regs base sz (h\<lparr>corb_ptr := c, rirb_ptr := r\<rparr>)" for c r using assms(2) by (simp add: hda_regs_def)
  show ?thesis
    unfolding hda_rings_def Let_def
    apply (rule boots_mono [where Q = "\<lambda>(h', s). corb_ptr h' \<noteq> 0 \<and> hda_bar0 h' = hda_bar0 h"])
       apply (rule boots_total, rule boots_alloc_any [OF assms(1), where T = "\<lambda>_. True"], simp)
       apply (unfold prod.case, rule boots_pull)
       apply (rule boots_total, rule boots_alloc_any [OF assms(1), where T = "\<lambda>_. True"], simp)
       apply (unfold prod.case, rule boots_pull)
       apply (rule boots_post [OF rings [OF r]])
       apply auto
    done
qed

lemma boots_hda_init:
  assumes "heap_ok e base sz" and "hw_mem_only e" and "hda_regs base sz h" and "hda_answers e (hda_bar0 h)"
  shows "boots snd e base sz 16384 (\<lambda>s. True) (hda_init e h) (\<lambda>(h', s). corb_ptr h' \<noteq> 0 \<and> hda_bar0 h' = hda_bar0 h)"
proof -
  let ?woken = "\<lambda>tr l. tr \<noteq> [] \<and> last tr = Mmio32 (hda_bar0 h + 8) 1"
  have a: "wadd (hda_bar0 h) 8 = Some (hda_bar0 h + 8)" by (rule hda_addr [OF assms(3)]) simp
  have up: "(load_le (mem (hw e s)) (hda_bar0 h + 8) 4 :: u32) AND 1 \<noteq> 0" if "seen ?woken s" for s
    using assms(4) that by (simp add: hda_answers_def)
  have wake: "boots (\<lambda>s. s) e base sz 0 (seen T) (hda_write_reg h 8 1) (seen ?woken)" for T
    unfolding hda_write_reg_def a bind.bind_lunit volatile_write32_def by (rule boots_io) simp
  have p0: "boots (\<lambda>s. s) e base sz 0 (\<lambda>s. True) (hda_write_reg h 8 1) (seen ?woken)" using wake [of "\<lambda>_ _. True"] by simp
  note p = boots_print [where T = "\<lambda>_ _. True"]
  have codec: "boots snd e base sz 0 (\<lambda>s. True) (\<lambda>s. do {
      s \<leftarrow> print_str t1 c1 s;
      (statests, s) \<leftarrow> hda_read_reg16 e h' 0x0E s;
      s \<leftarrow> (if statests \<noteq> 0 then print_str t2 c2 s else Some s);
      Some (h', s) }) (\<lambda>(x, s). x = h')" if h': "hda_regs base sz h'" for h' t1 c1 t2 c2
    apply (rule boots_mono [where Q = "\<lambda>(x, s). x = h'"])
       apply (rule boots_seq, rule p)
       apply (rule boots_val, rule boots_hda_read(3) [OF assms(2) h', where T = "\<lambda>_ _. True" and R = "\<lambda>_. True"], simp, simp)
       apply (unfold prod.case, rule boots_pull)
       apply (rule boots_seq, rule boots_if [where Q = "\<lambda>s. True"], rule p, rule boots_return)
       apply (rule boots_return_val)
       apply simp_all
    done
  show ?thesis
    unfolding hda_init_def a bind.bind_lunit volatile_read32_def Let_def prod.case
    apply (rule boots_mono [where Q = "\<lambda>(h', s). corb_ptr h' \<noteq> 0 \<and> hda_bar0 h' = hda_bar0 h"])
       apply (rule boots_val, rule boots_hda_read(1) [OF assms(2,3), where T = "\<lambda>_ _. True"], simp, unfold prod.case)
       apply (rule boots_seq, rule p)
       apply (rule boots_seq, rule p0)
       apply (rule boots_total, rule boots_spin_done [OF assms(2), where T = ?woken], rule up, assumption)
       apply (unfold prod.case, rule boots_pull, simp only: not_not if_False simp_thms)
       apply (rule boots_seq, rule boots_print [where T = ?woken])
       apply (rule boots_val, rule boots_pre [OF boots_hda_rings [OF assms(1,3), where T = "\<lambda>_ _. True"]], simp)
       apply (unfold prod.case, rule boots_pull)
       apply (rule boots_post [OF codec])
        apply (insert assms(3), auto simp: hda_regs_def)
    done
qed

lemma boots_bring_up_hda:
  assumes "heap_ok e base sz" and "hw_mem_only e"
    and "hda_found d \<and> Boot.hda_bar0 d \<noteq> 0 \<longrightarrow> hda_regs base sz (hda_new (Boot.hda_bar0 d)) \<and> hda_answers e (Boot.hda_bar0 d)"
  shows "boots snd e base sz 94208 (\<lambda>s. True) (bring_up_hda e d) (\<lambda>_. True)"
proof (cases "hda_found d \<and> Boot.hda_bar0 d \<noteq> 0")
  case False
  then show ?thesis unfolding bring_up_hda_def
    by (simp only: if_False) (rule boots_mono [OF boots_return_val], simp_all)
next
  case True
  let ?h = "hda_new (Boot.hda_bar0 d)"
  from assms(3) True have h: "hda_regs base sz ?h" "hda_answers e (Boot.hda_bar0 d)" by blast+
  have bar: "Hda.hda_bar0 ?h = Boot.hda_bar0 d" by (simp add: hda_new_def)
  from h(2) have a: "hda_answers e (Hda.hda_bar0 ?h)" by (simp only: bar)
  from True show ?thesis unfolding bring_up_hda_def
    apply (simp only: if_True simp_thms)
    apply (rule boots_mono [where Q = "\<lambda>_. True"])
       apply (rule boots_val, rule boots_hda_init [OF assms(1,2) h(1) a])
       apply (unfold prod.case, rule boots_fact)
       apply (rule boots_seq, rule boots_play_tone [OF assms(1,2), where T = "\<lambda>_ _. True"])
       apply (insert h, auto simp: hda_regs_def hda_new_def intro!: boots_return_val)
    done
qed

end
