(* ===== verification/CoreStart.thy ===== *)
theory CoreStart
  imports Startup NicInit
begin

text \<open>
  The first stage of the start-up (\<open>src/src/main.rs\<close>, lines 243 to 267): the early messages, the frame allocator, the
  system-call registers, the network card, the interrupt controller and the mouse. There is no screen yet, so
  that the kernel's invariant does not hold; the state is the one the statics are initialised to, but for
  the heap blocks and the card.
\<close>

section \<open>Early messages\<close>

lemma digits_length:
  "n < 10 ^ k \<Longrightarrow> 0 < k \<Longrightarrow> length (dec_digits n) \<le> k"
  "n < 16 ^ k \<Longrightarrow> 0 < k \<Longrightarrow> length (hex_digits n) \<le> k"
proof -
  show "n < 10 ^ k \<Longrightarrow> 0 < k \<Longrightarrow> length (dec_digits n) \<le> k"
  proof (induction k arbitrary: n)
    case (Suc k)
    then show ?case by (subst dec_digits.simps) (cases "k = 0", auto simp: less_mult_imp_div_less mult.commute)
  qed simp
  show "n < 16 ^ k \<Longrightarrow> 0 < k \<Longrightarrow> length (hex_digits n) \<le> k"
  proof (induction k arbitrary: n)
    case (Suc k)
    then show ?case by (subst hex_digits.simps) (cases "k = 0", auto simp: less_mult_imp_div_less mult.commute)
  qed simp
qed

lemma hex_alt_length: "length (hex_alt w) \<le> 18"
proof -
  have "unat w < 16 ^ 16" using unsigned_less [of w, where ?'a = nat] by simp
  from digits_length(2) [OF this] show ?thesis by (simp add: hex_alt_def)
qed

lemma dec_int_length: "0 \<le> i \<Longrightarrow> i < 10 ^ k \<Longrightarrow> 0 < k \<Longrightarrow> length (dec_int i) \<le> k"
  using digits_length(1) [of "nat i" k] by (simp add: dec_int_def nat_less_iff)

text \<open>A console with room for \<open>n\<close> more bytes before the addresses of its rows overflow.\<close>

definition console_ok :: "nat \<Rightarrow> vga_writer \<Rightarrow> console \<Rightarrow> bool" where
  "console_ok n w0 con \<longleftrightarrow> (\<exists>w m. con = (Some w, m) \<and> same_screen w0 w \<and> cursor_ok w \<and> row_fits w (y_pos w + 10 * n))"

definition text_size :: "rstr list \<Rightarrow> nat" where
  "text_size ts = sum_list (map (\<lambda>t. Suc (length t)) ts)"

definition font_ok :: "font8x8 \<Rightarrow> bool" where
  "font_ok ft \<longleftrightarrow> (\<forall>c g. ft c = Some g \<longrightarrow> length g = 8)"

lemma row_fits_less: "row_fits w y \<Longrightarrow> x \<le> y \<Longrightarrow> row_fits w x"
proof -
  assume r: "row_fits w y" and "x \<le> y"
  then have "(x + 8) * vg_stride w * 4 \<le> (y + 8) * vg_stride w * 4" by (intro mult_le_mono1) simp
  with r show "row_fits w x" unfolding row_fits_def by linarith
qed

lemma say_ok:
  assumes "font_ok ft" and "console_ok (text_size ts + n) w0 con"
  shows "\<exists>con'. say ft ts con = Some con' \<and> console_ok n w0 con'"
  using assms(2)
proof (induction ts arbitrary: con)
  case Nil
  then show ?case by (simp add: say_def text_size_def)
next
  case (Cons t ts)
  then obtain w m where w: "con = (Some w, m)" "same_screen w0 w" "cursor_ok w" "row_fits w (y_pos w + 10 * (text_size (t # ts) + n))"
    by (auto simp: console_ok_def)
  have f: "\<forall>c g. ft c = Some g \<longrightarrow> length g = 8" using assms(1) by (simp add: font_ok_def)
  have "row_fits w (y_pos w + 10 * length (t @ [10]))" by (rule row_fits_less [OF w(4)]) (simp add: text_size_def)
  from write_string_ok [OF w(3) this f, of m] obtain w' m' where
    w': "write_string ft (t @ [10]) (w, m) = Some (w', m')" "cursor_ok w'" "same_screen w w'" "y_pos w' \<le> y_pos w + 10 * length (t @ [10])"
    by blast
  have "row_fits w (y_pos w' + 10 * (text_size ts + n))"
    by (rule row_fits_less [OF w(4)]) (use w'(4) in \<open>simp add: text_size_def\<close>)
  then have "console_ok (text_size ts + n) w0 (Some w', m')"
    using w' same_screen_trans [OF w(2) w'(3)] by (auto simp: console_ok_def row_fits_def same_screen_def)
  with Cons.IH obtain con' where "say ft ts (Some w', m') = Some con'" "console_ok n w0 con'" by blast
  then show ?case using w(1) w'(1) by (auto simp: say_def vga_println_def vga_print_def)
qed

lemma text_sizes:
  "text_size [init_heap_line] \<le> 60"
  "n \<le> 65536 \<Longrightarrow> text_size (lit ''Initializing Physical Frame Bitmap Allocator...'' # init_banner (int n) (int n * 4096 div (1024 * 1024))) \<le> 200"
  "text_size (memory_init_lines cr3 fl) \<le> 231 + length fl"
proof -
  show "text_size [init_heap_line] \<le> 60" by (simp add: text_size_def init_heap_line_def HEAP_SIZE_def dec_digits.simps)
  show "text_size (memory_init_lines cr3 fl) \<le> 231 + length fl"
    using hex_alt_length [of "cr3 AND ADDR_MASK"] by (simp add: text_size_def memory_init_lines_def)
  assume n: "n \<le> 65536"
  have "length (dec_int (int n)) \<le> 5" "length (dec_int (int n * 4096 div (1024 * 1024))) \<le> 3"
    by (rule dec_int_length, use n in simp_all)+
  then show "text_size (lit ''Initializing Physical Frame Bitmap Allocator...'' # init_banner (int n) (int n * 4096 div (1024 * 1024))) \<le> 200"
    by (simp add: text_size_def init_banner_def)
qed

section \<open>Before the screen\<close>

text \<open>The statics of a kernel before \<open>compositor::init\<close>, with these heap blocks, card and APIC address.\<close>

definition cold :: "block list \<Rightarrow> e1000 option \<Rightarrow> u64 \<Rightarrow> 'a kernel_scheme \<Rightarrow> bool" where
  "cold L nic lapic s \<longleftrightarrow> server s = SERVER \<and> term_x s = 20 \<and> term_y s = 20 \<and> arp_table s = arp_new
     \<and> mouse_state s = mouse_start \<and> live s = L \<and> net_card s = nic \<and> lapic_base s = lapic"

lemma cold_updates:
  assumes "cold L nic lapic s"
  shows "cold L nic lapic (s\<lparr>msr := r\<rparr>)" "cold L nic lapic (s\<lparr>io_trace := tr\<rparr>)" "cold L nic lapic (s\<lparr>mem := m, io_trace := tr\<rparr>)"
    "cold L nic a (s\<lparr>lapic_base := a\<rparr>)" "cold L' nic' lapic (s\<lparr>mem := m, live := L', io_trace := tr, net_card := nic'\<rparr>)"
  using assms by (simp_all add: cold_def)

text \<open>The terminal is not there yet, and printing to it does nothing.\<close>

lemma print_cold: "cold L nic lapic s \<Longrightarrow> print_str t c s = Some s"
  by (simp add: print_str_def terminal_print_def cold_def SERVER_def)

lemma syscall_init_cold:
  assumes "cold L nic lapic s" and "gdt_api add slots g0" and "snd (GDT add g0) = sel"
  shows "\<exists>s'. syscall_init entry (code_selector sel) (data_selector sel) (user_code sel) (user_data sel) s = Some s' \<and> cold L nic lapic s'"
proof -
  have "wsub ((0x2B :: u16) AND 0xFFFC) 16 = Some 0x18" by (simp add: wsub_def)
  then show ?thesis
    using gdt_selectors [OF assms(2), unfolded assms(3)] assms(1)
    by (simp add: syscall_init_def Let_def print_cold [OF cold_updates(1) [OF assms(1)]] cold_updates(1))
qed

text \<open>The heap and the card once the rings are set up.\<close>

definition card_up :: "('a kernel_scheme) env \<Rightarrow> nat \<Rightarrow> nat \<Rightarrow> u64 option \<Rightarrow> e1000 option \<Rightarrow> bool" where
  "card_up e base sz bar nic \<longleftrightarrow> (nic = None \<longleftrightarrow> bar = None)
     \<and> heap_inv e base sz (card_blocks e bar []) \<and> heap_used (card_blocks e bar []) \<le> 205440
     \<and> (\<forall>n. nic = Some n \<longrightarrow> nic_ok base sz (card_blocks e bar []) n)"

lemma nic_setup_cold:
  assumes "heap_ok e base sz" and "hw_mem_only e" and "cold [] None lapic s" and "205440 \<le> sz"
    and "\<forall>b. bar = Some b \<longrightarrow> nic_mmio base sz (e1000_new b)"
  shows "\<exists>s' nic. nic_setup e bar s = Some s' \<and> cold (card_blocks e bar []) nic lapic s' \<and> card_up e base sz bar nic"
proof (cases bar)
  case None
  with assms(3) show ?thesis by (simp add: nic_setup_def card_blocks_def heap_inv_def card_up_def)
next
  case (Some b)
  have l: "live s = []" using assms(3) by (simp add: cold_def)
  have "heap_inv e base sz (live s)" "heap_used (live s) + 205440 \<le> sz" using assms(4) by (simp_all add: l heap_inv_def)
  from nic_setup_run [OF assms(1,2) this, of b] assms(5) Some obtain m ls tr nic where
    r: "nic_setup e bar s = Some (s\<lparr>mem := m, live := ls, io_trace := tr, net_card := Some nic\<rparr>)" "heap_inv e base sz ls"
    "heap_used ls = heap_used (live s) + 205440" "nic_ok base sz ls nic" by blast
  have "ls = card_blocks e bar []" using nic_setup_live [OF r(1) assms(2)] l by simp
  with r l Some cold_updates(5) [OF assms(3)] show ?thesis by (auto simp: card_up_def intro!: exI [of _ "Some nic"])
qed

lemma init_apic_cold:
  assumes "hw_mem_only e" and "cold L nic a s" and "unat lapic + 0xF0 < 2 ^ 64" and "unat ioapic + 0x10 < 2 ^ 64"
  shows "\<exists>s'. init_apic e lapic ioapic s = Some s' \<and> cold L nic lapic s'"
proof -
  have w: "wadd lapic 0xF0 = Some (lapic + 0xF0)" "wadd ioapic 0x10 = Some (ioapic + 0x10)"
    using assms(3,4) by (simp_all add: wadd_def)
  let ?s = "port_write 0xA1 0xFF (port_write 0x21 0xFF (s\<lparr>lapic_base := lapic\<rparr>))"
  have c: "cold L nic lapic ?s" using assms(2) by (simp add: port_write_def cold_def)
  obtain m where m: "hw e ?s = ?s\<lparr>mem := m\<rparr>" using assms(1) unfolding hw_mem_only_def by metis
  show ?thesis
    using c unfolding init_apic_def Let_def w bind.bind_lunit volatile_read32_def m prod.case
    by (simp add: volatile_write32_def cold_def)
qed

lemma port_read_pure: "port_pure e \<Longrightarrow> (case port_in e p s of (v, s) \<Rightarrow> f v s) = f (fst (port_in e p s)) s"
  by (subst port_pureD) simp_all

lemma port_wait_pure: "port_pure e \<Longrightarrow> port_wait n e ready s = s"
  by (induction n) (simp_all add: port_read_pure)

lemma mouse_init_cold:
  assumes "port_pure e" and "cold L nic lapic s"
  shows "\<exists>s'. mouse_init e s = Some s' \<and> cold L nic lapic s'"
proof -
  have w: "cold L nic lapic (port_write p v t)" if "cold L nic lapic t" for p v and t :: "'a kernel_scheme"
    using that by (simp add: port_write_def cold_def)
  show ?thesis
    unfolding mouse_init_def mouse_write_def mouse_read_def wait_write_def wait_read_def port_wait_pure [OF assms(1)] Let_def
      port_read_pure [OF assms(1)]
    by (rule exI, rule conjI, rule print_cold [where L = L and nic = nic and lapic = lapic]) (intro w assms(2))+
qed

text \<open>What this stage asks of the machine: addresses that do not overflow, a memory map whose free regions
  are disjoint, the descriptor table's selectors, and a card whose registers lie outside the heap.\<close>

definition core_fit :: "nat \<Rightarrow> nat \<Rightarrow> platform \<Rightarrow> memory \<Rightarrow> boot_info \<Rightarrow> devices \<Rightarrow> u64 \<Rightarrow> u64 \<Rightarrow> bool" where
  "core_fit base sz pf m info d lapic ioapic \<longleftrightarrow>
     font_ok (pf_font pf) \<and> length (pf_cr3_flags pf) \<le> 100
     \<and> unat (pf_ist_stack pf) + 20480 < 2 ^ 64 \<and> unat (pf_rsp0_stack pf) + 20480 < 2 ^ 64
     \<and> 0 < memory_map_desc_size info \<and> unat (memory_map_addr info) + memory_map_size info < 2 ^ 64
     \<and> (\<forall>d\<in>set (descriptors m info). desc_ty d = 7 \<longrightarrow> unat (physical_start d div PAGE_SIZE) + unat (number_of_pages d) < 2 ^ 64)
     \<and> sorted_wrt (\<lambda>d e. desc_frames d \<inter> desc_frames e = {}) (descriptors m info)
     \<and> (\<forall>b. e1000_bar0 d = Some b \<longrightarrow> nic_mmio base sz (e1000_new b))
     \<and> unat lapic + 0x1000 < 2 ^ 64 \<and> unat ioapic + 0x1000 < 2 ^ 64"

lemma bring_up_core_ok:
  assumes "heap_ok e base sz" and "hw_mem_only e" and "port_pure e" and "205440 \<le> sz"
    and "cold [] None a s" and "console_ok 1000 w0 con" and "core_fit base sz pf (mem s) info d lapic ioapic"
    and "gdt_api add slots g0" and "snd (GDT add g0) = pf_selectors pf"
  shows "\<exists>fa con' s' nic. bring_up_core e pf info d lapic ioapic (con, s) = Some (fa, con', s')
    \<and> fa_inv fa \<and> free_set fa = (\<Union>d\<in>set (descriptors (mem s) info). desc_frames d)
    \<and> console_ok 0 w0 con' \<and> cold (card_blocks e (e1000_bar0 d) []) nic lapic s'
    \<and> card_up e base sz (e1000_bar0 d) nic"
proof -
  let ?ft = "pf_font pf"
  have f: "font_ok ?ft" "length (pf_cr3_flags pf) \<le> 100" "unat (pf_ist_stack pf) + 20480 < 2 ^ 64" "unat (pf_rsp0_stack pf) + 20480 < 2 ^ 64"
    "0 < memory_map_desc_size info" "unat (memory_map_addr info) + memory_map_size info < 2 ^ 64"
    "\<forall>d\<in>set (descriptors (mem s) info). desc_ty d = 7 \<longrightarrow> unat (physical_start d div PAGE_SIZE) + unat (number_of_pages d) < 2 ^ 64"
    "sorted_wrt (\<lambda>d e. desc_frames d \<inter> desc_frames e = {}) (descriptors (mem s) info)"
    "\<forall>b. e1000_bar0 d = Some b \<longrightarrow> nic_mmio base sz (e1000_new b)" "unat lapic + 0x1000 < 2 ^ 64" "unat ioapic + 0x1000 < 2 ^ 64"
    using assms(7) unfolding core_fit_def by blast+
  obtain fa where fa: "FrameAllocator.init (mem s) info FRAME_ALLOCATOR = Some (fa, lit ''Initializing Physical Frame Bitmap Allocator...''
      # init_banner (int (free_frames fa)) (int (free_frames fa) * 4096 div (1024 * 1024)))"
    "fa_inv fa" "free_set fa = (\<Union>d\<in>set (descriptors (mem s) info). desc_frames d)" "free_frames fa \<le> 65536"
    using init_run [of info "mem s", OF f(5-8)] by blast
  have less: "console_ok n w0 c \<Longrightarrow> k \<le> n \<Longrightarrow> console_ok k w0 c" for n k c
    by (auto simp: console_ok_def elim!: row_fits_less)
  note ft = f(1)
  have "console_ok (text_size [init_heap_line] + 900) w0 con" using less [OF assms(6)] text_sizes(1) by simp
  from say_ok [OF ft this] obtain c1 where c1: "say ?ft [init_heap_line] con = Some c1" "console_ok 900 w0 c1" by blast
  let ?out = "lit ''Initializing Physical Frame Bitmap Allocator...''
      # init_banner (int (free_frames fa)) (int (free_frames fa) * 4096 div (1024 * 1024))"
  have "console_ok (text_size ?out + 600) w0 c1" using less [OF c1(2)] text_sizes(2) [OF fa(4)] by simp
  from say_ok [OF ft this] obtain c2 where c2: "say ?ft ?out c1 = Some c2" "console_ok 600 w0 c2" by blast
  have "console_ok (text_size (memory_init_lines (pf_cr3 pf) (pf_cr3_flags pf)) + 0) w0 c2"
    using less [OF c2(2)] text_sizes(3) [of "pf_cr3 pf" "pf_cr3_flags pf"] f(2) by simp
  from say_ok [OF ft this] obtain c3 where
    c3: "say ?ft (memory_init_lines (pf_cr3 pf) (pf_cr3_flags pf)) c2 = Some c3" "console_ok 0 w0 c3" by blast
  obtain ts where ts: "TSS (pf_ist_stack pf) (pf_rsp0_stack pf) = Some ts"
    using f(3,4) by (simp add: TSS_def wadd_def)
  from syscall_init_cold [OF assms(5,8,9)] obtain s1 where
    s1: "syscall_init (pf_syscall_entry pf) (code_selector (pf_selectors pf)) (data_selector (pf_selectors pf))
      (user_code (pf_selectors pf)) (user_data (pf_selectors pf)) s = Some s1" "cold [] None a s1" by blast
  from nic_setup_cold [OF assms(1,2) s1(2) assms(4), OF f(9)] obtain s2 nic where
    s2: "nic_setup e (e1000_bar0 d) s1 = Some s2" "cold (card_blocks e (e1000_bar0 d) []) nic a s2" "card_up e base sz (e1000_bar0 d) nic" by blast
  have "unat lapic + 0xF0 < 2 ^ 64" "unat ioapic + 0x10 < 2 ^ 64" using f(10,11) by simp_all
  from init_apic_cold [OF assms(2) s2(2) this] obtain s3 where
    s3: "init_apic e lapic ioapic s2 = Some s3" "cold (card_blocks e (e1000_bar0 d) []) nic lapic s3" by blast
  have "cold (card_blocks e (e1000_bar0 d) []) nic lapic (port_write 0x64 0xAE s3)" using cold_updates(2) [OF s3(2)] by (simp add: port_write_def)
  from mouse_init_cold [OF assms(3) this] obtain s4 where
    s4: "mouse_init e (port_write 0x64 0xAE s3) = Some s4" "cold (card_blocks e (e1000_bar0 d) []) nic lapic s4" by blast
  have "bring_up_core e pf info d lapic ioapic (con, s) = Some (fa, c3, s4)"
    unfolding bring_up_core_def Let_def prod.case c1(1) c2(1) c3(1) fa(1) ts s1(1) s2(1) s3(1) s4(1) bind.bind_lunit ..
  with fa(2,3) c3(2) s4(2) s2(3) show ?thesis by (intro exI conjI)
qed

end
