(* ===== verification/KernelStart.thy ===== *)
theory KernelStart
  imports DriverStart CoreStart
begin

text \<open>
  The later stages of the start-up (\<open>src/src/main.rs\<close>, lines 269 to 382): the screen, the other processors, the drivers and
  the first ARP request; and the kernel from the bootloader's jump to any number of interrupts and rounds of
  the main loop.
\<close>

definition both_or_none :: "'x option \<Rightarrow> 'y option \<Rightarrow> bool" where
  "both_or_none x y \<longleftrightarrow> (x = None \<longleftrightarrow> y = None)"

section \<open>The screen\<close>

text \<open>The video modes the kernel is made for.\<close>

definition screen_fit :: "boot_info \<Rightarrow> bool" where
  "screen_fit info \<longleftrightarrow> 700 \<le> bi_width info \<and> bi_width info < 2 ^ 30 \<and> 500 \<le> bi_height info \<and> bi_height info < 2 ^ 30
     \<and> bi_width info \<le> bi_stride info \<and> bi_stride info < 2 ^ 30
     \<and> unat (framebuffer_base info) + bi_stride info * bi_height info * 4 < 2 ^ 64"

lemma console_start: "screen_fit info \<Longrightarrow> console_ok 1000 (vga_new info) (Some (vga_new info), fb)"
  unfolding console_ok_def by (intro exI conjI, rule refl) (simp_all add: screen_fit_def same_screen_def cursor_ok_def row_fits_def vga_new_def)

lemma compositor_up:
  assumes "cold (card_blocks e bar []) nic lapic s" and "card_up e base sz bar nic" and "lapic_ok base sz lapic" and "screen_fit info"
  shows "\<exists>s'. compositor_init info s = Some s' \<and> kernel_ok e base sz s' \<and> roomy (server s') \<and> live s' = card_blocks e bar []
    \<and> net_card s' = nic"
proof -
  have f: "700 \<le> bi_width info" "bi_width info < 2 ^ 30" "500 \<le> bi_height info" "bi_height info < 2 ^ 30" "bi_width info \<le> bi_stride info"
    "unat (framebuffer_base info) + bi_stride info * bi_height info * 4 < 2 ^ 64"
    using assms(4) by (simp_all add: screen_fit_def)
  have c: "server s = SERVER" "term_x s = 20" "term_y s = 20" "arp_table s = arp_new" "mouse_state s = mouse_start"
    "live s = card_blocks e bar []" "net_card s = nic" "lapic_base s = lapic"
    using assms(1) by (simp_all add: cold_def)
  have "60 \<le> bi_width info" "90 \<le> bi_height info" using f by simp_all
  from compositor_init_ok [OF this(1) f(5) this(2) f(6) c(2,3)] obtain s' where s': "compositor_init info s = Some s'" "gfx_ok s'" by blast
  from s'(1) obtain sv where sv: "s' = s\<lparr>server := sv\<rparr>" "sv_width sv = bi_width info" "sv_height sv = bi_height info"
    by (auto simp: compositor_init_def bind_eq_Some_conv)
  have "\<forall>en\<in>set arp_new. length (arp_mac en) = 6" by (simp add: arp_new_def)
  with s' sv c f assms(2,3) show ?thesis
    by (simp add: kernel_ok_def net_ok_def roomy_def card_up_def arp_new_ok mouse_start_ok)
qed

lemma draws_screen: "draws (\<lambda>s. draw_rect 0 0 (sv_width (server s)) (sv_height (server s)) c (s :: 'a kernel_scheme))"
  unfolding draws_def
proof (intro allI impI)
  fix s :: "'a kernel_scheme" assume s: "gfx_ok s \<and> roomy (server s)"
  then have "0 + sv_width (server s) < 2 ^ 64" "0 + sv_height (server s) < 2 ^ 64" by (simp_all add: roomy_def)
  from draws_rect [OF this, of c] s show "\<exists>s'. draw_rect 0 0 (sv_width (server s)) (sv_height (server s)) c s = Some s' \<and> gfx_ok s' \<and> same_but_terminal s s'"
    unfolding draws_def by blast
qed

lemma draws_top: "draws (\<lambda>s. draw_rect 0 0 (sv_width (server s)) 40 c (s :: 'a kernel_scheme))"
  unfolding draws_def
proof (intro allI impI)
  fix s :: "'a kernel_scheme" assume s: "gfx_ok s \<and> roomy (server s)"
  then have "0 + sv_width (server s) < 2 ^ 64" "(0 :: nat) + 40 < 2 ^ 64" by (simp_all add: roomy_def)
  from draws_rect [OF this, of c] s show "\<exists>s'. draw_rect 0 0 (sv_width (server s)) 40 c s = Some s' \<and> gfx_ok s' \<and> same_but_terminal s s'"
    unfolding draws_def by blast
qed

lemma boots_screen:
  "boots (\<lambda>s. s) e base sz 0 (\<lambda>s. live s = L) (\<lambda>s. do {
     s \<leftarrow> draw_rect 0 0 (sv_width (server s)) (sv_height (server s)) c1 s;
     s \<leftarrow> draw_rect 0 0 (sv_width (server s)) 40 c2 s;
     s \<leftarrow> draw_text 20 10 (lit ''QOREOS UNIKERNEL SECURE CONSOLE'') c3 2 s;
     s \<leftarrow> print_str t1 c4 s;
     print_str t2 c4 s }) (\<lambda>s. live s = L)"
  apply (rule boots_mono)
     apply (rule boots_seq, rule boots_draws [OF draws_screen, where T = "on L"])
     apply (rule boots_seq, rule boots_draws [OF draws_top, where T = "on L"])
     apply (rule boots_seq, rule boots_draws [OF draws_text, where T = "on L"], simp, simp)
     apply (rule boots_seq, rule on_print [where L = L], rule on_print)
    apply simp_all
  done

lemma bring_up_screen_ok:
  assumes "cold (card_blocks e bar []) nic lapic s" and "card_up e base sz bar nic" and "lapic_ok base sz lapic" and "screen_fit info"
    and "205440 \<le> sz"
  shows "\<exists>s'. bring_up_screen info s = Some s' \<and> kernel_ok e base sz s' \<and> roomy (server s') \<and> live s' = card_blocks e bar []
    \<and> both_or_none (net_card s') bar"
proof -
  from compositor_up [OF assms(1-4)] obtain s1 where
    s1: "compositor_init info s = Some s1" "kernel_ok e base sz s1" "roomy (server s1)" "live s1 = card_blocks e bar []" "net_card s1 = nic" by blast
  have "heap_used (live s1) + 0 \<le> sz" using assms(2,5) s1(4) by (simp add: card_up_def)
  from bootsD [OF boots_screen s1(2,3) this s1(4)] obtain s2 where
    s2: "do { s \<leftarrow> draw_rect 0 0 (sv_width (server s1)) (sv_height (server s1)) 0xFFFFFF s1;
     s \<leftarrow> draw_rect 0 0 (sv_width (server s)) 40 0x1E293B s;
     s \<leftarrow> draw_text 20 10 (lit ''QOREOS UNIKERNEL SECURE CONSOLE'') 0xFFFFFF 2 s;
     s \<leftarrow> print_str (lit ''INIT: Core 0 (BSP) Online.'' @ [10]) 0x10B981 s;
     print_str (lit ''INIT: APIC Interrupt Routing Established.'' @ [10]) 0x10B981 s } = Some s2"
    "up_step e base sz 0 s1 s2" "live s2 = card_blocks e bar []" by blast
  have "roomy (server s2)" using s1(3) up_step_roomy [OF s2(2)] by simp
  with s1 s2 assms(2) show ?thesis
    by (auto simp: bring_up_screen_def up_step_def card_up_def both_or_none_def)
qed

section \<open>The other processors\<close>

lemma boots_ensure: "boots snd e base sz 0 (\<lambda>s. live s = L) (ensure_entry msg table st) (\<lambda>(v, s). live s = L)"
  unfolding ensure_entry_def Let_def
proof (rule boots_cond)
  show "boots snd e base sz 0 (\<lambda>s. live s = L) (\<lambda>s. do {
      s \<leftarrow> print_str msg 0xF59E0B s;
      Some (read_entry (mem (s\<lparr>mem := write_entry (mem s) table 0 (st OR 0b11)\<rparr>)) table 0,
        s\<lparr>mem := write_entry (mem s) table 0 (st OR 0b11)\<rparr>) }) (\<lambda>(v, s). live s = L)"
    apply (rule boots_mono)
       apply (rule boots_seq, rule on_print [where L = L])
       apply (rule boots_upd [OF boots_mem [where T = "on L"], where g = "\<lambda>s. Some (read_entry (mem s) table 0, s)"], rule boots_get)
      apply simp_all
    done
qed (rule boots_get)

lemma boots_map_low: "boots (\<lambda>s. s) e base sz 0 (\<lambda>s. live s = L) (map_low pdpte) (\<lambda>s. live s = L)"
  unfolding map_low_def Let_def
  apply (rule boots_if)
   apply (rule boots_mono)
      apply (rule boots_seq, rule on_print [where L = L], rule boots_mem [where T = "on L"])
     apply simp_all [3]
  apply (rule boots_return)
  done

lemma boots_copy_trampoline:
  assumes "unat (AP_STACKS st) + 65536 < 2 ^ 64"
  shows "boots snd e base sz 0 (\<lambda>s. live s = L) (copy_trampoline st cr0 cr3) (\<lambda>(r, s). live s = L)"
proof -
  have "\<exists>F. inject_config st cr3 = (\<lambda>m. Some (F m))"
    by (intro exI [of _ "\<lambda>m. the (inject_config st cr3 m)"] ext) (use assms in \<open>simp add: inject_config_def wadd_def Let_def\<close>)
  then obtain F where F: "inject_config st cr3 = (\<lambda>m. Some (F m))" by blast
  note p = on_print [where L = L]
  show ?thesis
    unfolding copy_trampoline_def F bind.bind_lunit Let_def
    apply (rule boots_mono)
       apply (rule boots_seq, rule p, rule boots_seq, rule p)
       apply (rule boots_val, rule boots_ensure [where L = L], unfold prod.case)
       apply (rule boots_val, rule boots_ensure [where L = L], unfold prod.case)
       apply (rule boots_seq, rule boots_map_low [where L = L])
       apply (rule boots_seq, rule p)
       apply (rule boots_upd [where u = "\<lambda>s. s\<lparr>mem := store_bytes (mem s) 0x8000 trampoline\<rparr>", OF boots_mem [where T = "on L"]])
       apply (rule boots_seq, rule p)
       apply (rule boots_upd [where u = "\<lambda>s. s\<lparr>mem := F (mem s)\<rparr>", OF boots_mem [where T = "on L"]])
       apply (rule boots_seq, rule p, rule boots_seq, rule p)
       apply (rule boots_return_val [where Q = "\<lambda>(r, s). live s = L"])
       apply simp_all
    done
qed

lemma boots_wake_aps:
  assumes "unat (AP_STACKS st) + 65536 < 2 ^ 64" and "unat lapic + 0x1000 < 2 ^ 64"
  shows "boots (\<lambda>s. s) e base sz 0 (\<lambda>s. live s = L) (wake_aps st cr0 cr3 lapic aps) (\<lambda>s. live s = L)"
proof -
  have w: "wadd lapic 0x300 = Some (lapic + 0x300)" "wadd lapic 0x310 = Some (lapic + 0x310)"
    using assms(2) by (simp_all add: wadd_def)
  note p = on_print [where L = L]
  have io: "boots (\<lambda>s. s) e base sz 0 (\<lambda>s. live s = L) (\<lambda>s. Some (volatile_write32 a v s)) (\<lambda>s. live s = L)" for a v
    unfolding volatile_write32_def by (rule boots_io [where T = "on L" and U = "on L"])
  show ?thesis
    unfolding wake_aps_def w bind.bind_lunit Let_def
    apply (rule boots_if)
     apply (rule boots_mono)
        apply (rule boots_seq, rule p)
        apply (rule boots_val, rule boots_copy_trampoline [OF assms(1), where L = L], unfold prod.case)
        apply (rule boots_seq, rule p)
        apply (rule boots_upd, rule io, rule boots_upd, rule io)
        apply (rule boots_seq, rule p)
        apply (rule boots_upd, rule io, rule p)
       apply simp_all [3]
    apply (rule boots_return)
    done
qed

section \<open>The drivers\<close>

lemma boots_first_arp:
  assumes "heap_ok e base sz"
  shows "boots (\<lambda>s. s) e base sz 4156 (\<lambda>s. True) (first_arp e) (\<lambda>s. True)"
proof (rule bootsI)
  fix s assume s: "kernel_ok e base sz s" "heap_used (live s) + 4156 \<le> sz"
  show "\<exists>r. first_arp e s = Some r \<and> up_step e base sz 4156 s r \<and> True"
  proof (cases "net_card s")
    case None
    with up_step_refl [OF s(1)] show ?thesis by (simp add: first_arp_def)
  next
    case (Some nic)
    have n: "net_ok e base sz s" "heap_used (live s) + 60 + 4096 \<le> sz" using s by (simp_all add: kernel_ok_def)
    from arp_request_step [OF assms n(1) Some n(2), of "[10, 0, 2, 2]"] obtain nic' s' where
      a: "arp_request e [10, 0, 2, 2] nic s = Some (nic', s')" "net_step e base sz 4156 s (s'\<lparr>net_card := Some nic'\<rparr>)" "same_rest s s'" by blast
    with kernel_fields_more [OF a(3)] s(1) Some show ?thesis
      by (auto simp: first_arp_def up_step_def kernel_ok_def net_step_def)
  qed
qed

lemma boots_print_if: "boots (\<lambda>s. s) e base sz 0 (seen T) (\<lambda>s. if c then print_str t k s else Some s) (seen T)"
  by (rule boots_if, rule boots_print, rule boots_return)

definition devices_fit :: "('a kernel_scheme) env \<Rightarrow> nat \<Rightarrow> nat \<Rightarrow> platform \<Rightarrow> devices \<Rightarrow> u64 \<Rightarrow> block list \<Rightarrow> (u64 \<Rightarrow> u8 list) \<Rightarrow> bool" where
  "devices_fit e base sz pf d lapic L disk \<longleftrightarrow>
     unat (AP_STACKS (pf_statics pf)) + 65536 < 2 ^ 64 \<and> unat lapic + 0x1000 < 2 ^ 64 \<and> nvme_fit e base sz d L disk
     \<and> (hda_found d \<and> Boot.hda_bar0 d \<noteq> 0 \<longrightarrow> hda_regs base sz (hda_new (Boot.hda_bar0 d)) \<and> hda_answers e (Boot.hda_bar0 d))"

lemma bring_up_devices_ok:
  assumes "heap_ok e base sz" and "hw_mem_only e" and "devices_fit e base sz pf d lapic L disk"
    and "kernel_ok e base sz s" and "roomy (server s)" and "live s = L" and "heap_used L + 150076 \<le> sz"
  shows "\<exists>audio s'. bring_up_devices e pf d lapic s
      = Some ((\<lparr>dg_nvme = nvme_found d, dg_hda = hda_found d, dg_sector = file_text d disk\<rparr>, audio), s')
    \<and> kernel_ok e base sz s' \<and> roomy (server s') \<and> http_payload s' = Some (file_text d disk)
    \<and> both_or_none (net_card s') (net_card s) \<and> heap_used (live s') \<le> heap_used L + 150076"
proof -
  let ?t = "file_text d disk"
  let ?dg = "\<lparr>dg_nvme = nvme_found d, dg_hda = hda_found d, dg_sector = ?t\<rparr>"
  note fit = assms(3) [unfolded devices_fit_def]
  have ap: "unat (AP_STACKS (pf_statics pf)) + 65536 < 2 ^ 64" "unat lapic + 0x1000 < 2 ^ 64" "nvme_fit e base sz d L disk"
    and hda: "hda_found d \<and> Boot.hda_bar0 d \<noteq> 0 \<longrightarrow> hda_regs base sz (hda_new (Boot.hda_bar0 d)) \<and> hda_answers e (Boot.hda_bar0 d)"
    using fit by blast+
  have first: "boots snd e base sz 51712 (\<lambda>s. live s = L) (\<lambda>s. do {
      s \<leftarrow> wake_aps (pf_statics pf) (pf_cr0 pf) (pf_cr3 pf) lapic (pf_aps pf) s;
      s \<leftarrow> (if e1000_bar0 d \<noteq> None
            then print_str (lit ''ECAM: E1000 Network Card Found & Bus Master Enabled!'' @ [10]) 0x3B82F6 s else Some s);
      bring_up_nvme e d s }) (\<lambda>(t, s). t = ?t)"
    apply (rule boots_mono)
       apply (rule boots_seq, rule boots_wake_aps [OF ap(1,2), where L = L])
       apply (rule boots_seq, rule boots_print_if [where T = "on L"])
       apply (rule boots_bring_up_nvme [OF assms(1,2) ap(3)])
      apply simp_all
    done
  have rest: "boots snd e base sz 98364 (\<lambda>s. True) (\<lambda>s. do {
      (audio, s) \<leftarrow> bring_up_hda e d s;
      s \<leftarrow> (if xhci_found d
            then print_str (lit ''ECAM: xHCI Extensible Host Controller Found!'' @ [10]) 0x3B82F6 s else Some s);
      s \<leftarrow> print_str (10 # lit ''> READY: WAITING FOR INCOMING TCP CONNECTIONS'' @ [10] @ lit ''> '') 0x1E293B s;
      s \<leftarrow> first_arp e s;
      Some ((?dg, audio), s) }) (\<lambda>((g, audio), s). g = ?dg)"
    apply (rule boots_mono)
       apply (rule boots_val, rule boots_bring_up_hda [OF assms(1,2) hda])
       apply (rule boots_seq, rule boots_print_if [where T = "\<lambda>_ _. True"])
       apply (rule boots_seq, rule boots_print [where T = "\<lambda>_ _. True"])
       apply (rule boots_seq, rule boots_first_arp [OF assms(1)])
       apply (rule boots_return_val [where Q = "\<lambda>((g, audio), s). g = ?dg"])
       apply simp_all
    done
  have "heap_used (live s) + 51712 \<le> sz" using assms(6,7) by simp
  from bootsD [OF first assms(4,5) this assms(6)] obtain s1 where
    s1: "do { s \<leftarrow> wake_aps (pf_statics pf) (pf_cr0 pf) (pf_cr3 pf) lapic (pf_aps pf) s;
      s \<leftarrow> (if e1000_bar0 d \<noteq> None
            then print_str (lit ''ECAM: E1000 Network Card Found & Bus Master Enabled!'' @ [10]) 0x3B82F6 s else Some s);
      bring_up_nvme e d s } = Some (?t, s1)" "up_step e base sz 51712 s s1" by auto
  let ?s = "s1\<lparr>http_payload := Some ?t\<rparr>"
  have k: "kernel_ok e base sz ?s" "roomy (server ?s)" "heap_used (live ?s) + 98364 \<le> sz"
    using s1(2) assms(5-7) up_step_roomy [OF s1(2)] by (auto simp: up_step_def kernel_ok_def net_ok_def gfx_ok_def)
  from bootsD [OF rest k TrueI] obtain audio s2 where
    s2: "do { (audio, s) \<leftarrow> bring_up_hda e d ?s;
      s \<leftarrow> (if xhci_found d
            then print_str (lit ''ECAM: xHCI Extensible Host Controller Found!'' @ [10]) 0x3B82F6 s else Some s);
      s \<leftarrow> print_str (10 # lit ''> READY: WAITING FOR INCOMING TCP CONNECTIONS'' @ [10] @ lit ''> '') 0x1E293B s;
      s \<leftarrow> first_arp e s;
      Some ((?dg, audio), s) } = Some ((?dg, audio), s2)" "up_step e base sz 98364 ?s s2" by auto
  have "bring_up_devices e pf d lapic s = do { (t, s) \<leftarrow> do {
        s \<leftarrow> wake_aps (pf_statics pf) (pf_cr0 pf) (pf_cr3 pf) lapic (pf_aps pf) s;
        s \<leftarrow> (if e1000_bar0 d \<noteq> None
            then print_str (lit ''ECAM: E1000 Network Card Found & Bus Master Enabled!'' @ [10]) 0x3B82F6 s else Some s);
        bring_up_nvme e d s };
      (audio, s) \<leftarrow> bring_up_hda e d (s\<lparr>http_payload := Some t\<rparr>);
      s \<leftarrow> (if xhci_found d
            then print_str (lit ''ECAM: xHCI Extensible Host Controller Found!'' @ [10]) 0x3B82F6 s else Some s);
      s \<leftarrow> print_str (10 # lit ''> READY: WAITING FOR INCOMING TCP CONNECTIONS'' @ [10] @ lit ''> '') 0x1E293B s;
      s \<leftarrow> first_arp e s;
      Some ((\<lparr>dg_nvme = nvme_found d, dg_hda = hda_found d, dg_sector = t\<rparr>, audio), s) }"
    unfolding bring_up_devices_def Let_def bind_assoc ..
  also have "\<dots> = Some ((?dg, audio), s2)" unfolding s1(1) bind.bind_lunit prod.case by (rule s2(1))
  finally show ?thesis
    using s1(2) s2(2) k(2) up_step_roomy [OF s2(2)] assms(6) by (auto simp: up_step_def both_or_none_def)
qed

section \<open>Discovery\<close>

text \<open>The scan for devices changes memory and writes registers, nothing else.\<close>

definition machine_only :: "'a kernel_scheme \<Rightarrow> 'a kernel_scheme \<Rightarrow> bool" where
  "machine_only s s' \<longleftrightarrow> (\<exists>m tr. s' = s\<lparr>mem := m, io_trace := tr\<rparr>)"

lemma machine_only_refl: "machine_only s s"
  unfolding machine_only_def by (intro exI [of _ "mem s"] exI [of _ "io_trace s"]) simp

lemma machine_only_trans: "machine_only s t \<Longrightarrow> machine_only t u \<Longrightarrow> machine_only s u"
proof -
  assume "machine_only s t" and "machine_only t u"
  then obtain m tr m' tr' where "u = s\<lparr>mem := m, io_trace := tr\<rparr>\<lparr>mem := m', io_trace := tr'\<rparr>"
    unfolding machine_only_def by blast
  then have "u = s\<lparr>mem := m', io_trace := tr'\<rparr>" by simp
  then show "machine_only s u" unfolding machine_only_def by blast
qed

lemma hw_machine_only:
  assumes "hw_mem_only e"
  shows "machine_only s (hw e s)"
proof -
  obtain m where "hw e s = s\<lparr>mem := m\<rparr>" using assms unfolding hw_mem_only_def by metis
  then show ?thesis unfolding machine_only_def by (intro exI [of _ m] exI [of _ "io_trace s"]) simp
qed

lemma pci_read_only:
  assumes "hw_mem_only e"
  shows "vread8 e a off s = Some (v8, s') \<Longrightarrow> machine_only s s'" "vread32 e a off s = Some (v32, s') \<Longrightarrow> machine_only s s'"
    "volatile_read16 e a s = (v16, s') \<Longrightarrow> machine_only s s'"
  using hw_machine_only [OF assms, of s]
  by (auto simp: vread8_def vread32_def volatile_read8_def volatile_read16_def volatile_read32_def Let_def split: option.splits)

lemma bus_master_only:
  assumes "hw_mem_only e" and "bus_master e a s = Some s'"
  shows "machine_only s s'"
proof -
  obtain p where p: "wadd a 4 = Some p" using assms(2) by (auto simp: bus_master_def bind_eq_Some_conv)
  obtain v t where r: "volatile_read16 e p s = (v, t)" by force
  have "machine_only t (volatile_write16 p w t)" for w
    unfolding machine_only_def volatile_write16_def by blast
  with assms(2) p r machine_only_trans [OF pci_read_only(3) [OF assms(1) r]] show ?thesis
    by (auto simp: bus_master_def)
qed

lemma read_bar_only:
  assumes "hw_mem_only e" and "read_bar e a s = Some (v, s')"
  shows "machine_only s s'"
  using assms(2)
  by (auto simp: read_bar_def bind_eq_Some_conv split: if_splits dest!: pci_read_only(2) [OF assms(1)] intro: machine_only_trans)

lemma scan_function_only:
  assumes "hw_mem_only e" and "scan_function e base b dv f (d, s) = Some (d', s')"
  shows "machine_only s s'"
proof -
  note r = pci_read_only [OF assms(1)] bus_master_only [OF assms(1)] read_bar_only [OF assms(1)]
  have n: "scan_nic e a cc sc (d, t) = Some (d', t') \<Longrightarrow> machine_only t t'"
    "scan_nvme e a cc sc (d, t) = Some (d', t') \<Longrightarrow> machine_only t t'"
    "scan_hda e a cc sc (d, t) = Some (d', t') \<Longrightarrow> machine_only t t'"
    "scan_xhci e a cc sc pf (d, t) = Some (d', t') \<Longrightarrow> machine_only t t'" for a cc sc pf d d' t t'
    by (auto simp: scan_nic_def scan_nvme_def scan_hda_def scan_xhci_def bind_eq_Some_conv machine_only_refl
        split: if_splits dest!: r intro: machine_only_trans)
  obtain p where p: "pci_address base b dv f = Some p" using assms(2) by (auto simp: scan_function_def bind_eq_Some_conv)
  obtain v t where v: "volatile_read16 e p s = (v, t)" by force
  have "machine_only t s'" using assms(2) p v
    by (auto simp: scan_function_def bind_eq_Some_conv machine_only_refl split: if_splits dest!: r n)
      (blast intro: machine_only_trans)
  with pci_read_only(3) [OF assms(1) v] show ?thesis by (rule machine_only_trans)
qed

lemma foldM_only:
  assumes "\<And>x d s d' s'. f x (d, s) = Some (d', s') \<Longrightarrow> machine_only s s'" and "foldM f xs (d, s) = Some (d', s')"
  shows "machine_only s s'"
  using assms(2)
proof (induction xs arbitrary: d s)
  case (Cons x xs)
  then show ?case by (auto split: option.splits dest!: assms(1) intro: machine_only_trans)
qed (simp add: machine_only_refl)

lemma discover_only:
  assumes "hw_mem_only e" and "discover e rsdp s = Some (Some (d, lapic, ioapic, s'))"
  shows "machine_only s s'"
proof -
  have "machine_only t t'" if "scan_pci e base (d, t) = Some (d', t')" for base d d' t t'
    using that unfolding scan_pci_def by (elim foldM_only [rotated]) (rule scan_function_only [OF assms(1)])
  with assms(2) show ?thesis
    by (auto simp: discover_def bind_eq_Some_conv machine_only_refl split: option.splits if_splits)
qed

section \<open>The whole start\<close>

definition machine_fit ::
  "('a kernel_scheme) env \<Rightarrow> nat \<Rightarrow> nat \<Rightarrow> platform \<Rightarrow> boot_info \<Rightarrow> devices \<Rightarrow> u64 \<Rightarrow> u64 \<Rightarrow> memory \<Rightarrow> (u64 \<Rightarrow> u8 list) \<Rightarrow> bool" where
  "machine_fit e base sz pf info d lapic ioapic m disk \<longleftrightarrow>
     heap_ok e base sz \<and> hw_mem_only e \<and> port_pure e \<and> 355516 \<le> sz \<and> screen_fit info \<and> lapic_ok base sz lapic
     \<and> core_fit base sz pf m info d lapic ioapic
     \<and> devices_fit e base sz pf d lapic (card_blocks e (e1000_bar0 d) []) disk"

definition started :: "('a kernel_scheme) env \<Rightarrow> nat \<Rightarrow> nat \<Rightarrow> devices \<Rightarrow> (u64 \<Rightarrow> u8 list) \<Rightarrow> 'a kernel_scheme \<Rightarrow> bool" where
  "started e base sz d disk s \<longleftrightarrow> kernel_ok e base sz s \<and> roomy (server s) \<and> http_payload s = Some (file_text d disk)
     \<and> both_or_none (net_card s) (e1000_bar0 d) \<and> heap_used (live s) \<le> 355516"

lemma bring_up_run:
  assumes "machine_fit e base sz pf info d lapic ioapic (mem s) disk" and "gdt_api add slots g0" and "snd (GDT add g0) = pf_selectors pf"
    and "cold [] None a s" and "console_ok 1000 w0 con"
  shows "\<exists>audio fa con' s'. bring_up e pf info d lapic ioapic (con, s)
      = Some ((\<lparr>dg_nvme = nvme_found d, dg_hda = hda_found d, dg_sector = file_text d disk\<rparr>, audio), fa, con', s')
    \<and> fa_inv fa \<and> free_set fa = (\<Union>r\<in>set (descriptors (mem s) info). desc_frames r) \<and> started e base sz d disk s'"
proof -
  let ?L = "card_blocks e (e1000_bar0 d) []"
  have f: "heap_ok e base sz" "hw_mem_only e" "port_pure e" "355516 \<le> sz" "screen_fit info" "lapic_ok base sz lapic"
    "core_fit base sz pf (mem s) info d lapic ioapic" "devices_fit e base sz pf d lapic ?L disk"
    using assms(1) unfolding machine_fit_def by blast+
  have sz: "205440 \<le> sz" using f(4) by simp
  from bring_up_core_ok [OF f(1-3) sz assms(4,5) f(7) assms(2,3)] obtain fa con' s1 nic where
    c: "bring_up_core e pf info d lapic ioapic (con, s) = Some (fa, con', s1)" "fa_inv fa"
    "free_set fa = (\<Union>r\<in>set (descriptors (mem s) info). desc_frames r)" "cold ?L nic lapic s1" "card_up e base sz (e1000_bar0 d) nic" by blast
  from bring_up_screen_ok [OF c(4,5) f(6,5) sz] obtain s2 where
    g: "bring_up_screen info s1 = Some s2" "kernel_ok e base sz s2" "roomy (server s2)" "live s2 = ?L"
    "both_or_none (net_card s2) (e1000_bar0 d)" by blast
  have u: "heap_used ?L \<le> 205440" using c(5) by (simp add: card_up_def)
  then have "heap_used ?L + 150076 \<le> sz" using f(4) by simp
  from bring_up_devices_ok [OF f(1,2,8) g(2-4) this] obtain audio s3 where
    v: "bring_up_devices e pf d lapic s2
      = Some ((\<lparr>dg_nvme = nvme_found d, dg_hda = hda_found d, dg_sector = file_text d disk\<rparr>, audio), s3)"
    "kernel_ok e base sz s3" "roomy (server s3)" "http_payload s3 = Some (file_text d disk)"
    "both_or_none (net_card s3) (net_card s2)" "heap_used (live s3) \<le> heap_used ?L + 150076" by blast
  have "heap_used (live s3) \<le> 355516" using v(6) u by simp
  then have "started e base sz d disk s3" using v(2-5) g(5) by (simp add: started_def both_or_none_def)
  moreover have "bring_up e pf info d lapic ioapic (con, s)
      = Some ((\<lparr>dg_nvme = nvme_found d, dg_hda = hda_found d, dg_sector = file_text d disk\<rparr>, audio), fa, con', s3)"
    unfolding bring_up_def c(1) g(1) v(1) bind.bind_lunit prod.case ..
  ultimately show ?thesis using c(2,3) by (intro exI conjI)
qed

lemma kernel_start_run:
  assumes "cold [] None 0 s" and "drop_bit 24 ebx AND 0xFF = 0"
    and "discover e (acpi2_rsdp_addr info) s = Some (Some (d, lapic, ioapic, s1))"
    and "machine_fit e base sz pf info d lapic ioapic (mem s1) disk" and "gdt_api add slots g0" and "snd (GDT add g0) = pf_selectors pf"
  shows "\<exists>audio fa con s'. kernel_start e pf ebx info fb s
      = Up ((\<lparr>dg_nvme = nvme_found d, dg_hda = hda_found d, dg_sector = file_text d disk\<rparr>, audio), fa, con, s')
    \<and> fa_inv fa \<and> free_set fa = (\<Union>r\<in>set (descriptors (mem s1) info). desc_frames r) \<and> started e base sz d disk s'"
proof -
  let ?fb = "store_bytes fb (framebuffer_base info) (replicate (framebuffer_size info) 0)"
  let ?con = "(Some (vga_new info), ?fb)"
  have f: "hw_mem_only e" "screen_fit info" using assms(4) by (simp_all add: machine_fit_def)
  from discover_only [OF f(1) assms(3)] assms(1) have "cold [] None 0 s1" by (auto simp: machine_only_def cold_def)
  from bring_up_run [OF assms(4-6) this console_start [OF f(2), where fb = ?fb]] obtain audio fa con s' where
    b: "bring_up e pf info d lapic ioapic (?con, s1)
      = Some ((\<lparr>dg_nvme = nvme_found d, dg_hda = hda_found d, dg_sector = file_text d disk\<rparr>, audio), fa, con, s')"
    "fa_inv fa" "free_set fa = (\<Union>r\<in>set (descriptors (mem s1) info). desc_frames r)" "started e base sz d disk s'" by blast
  have "kernel_start e pf ebx info fb s
      = Up ((\<lparr>dg_nvme = nvme_found d, dg_hda = hda_found d, dg_sector = file_text d disk\<rparr>, audio), fa, con, s')"
    using assms(2) by (simp add: kernel_start_def Let_def assms(3) b(1) of_option_def)
  with b(2-4) show ?thesis by (intro exI conjI)
qed

lemma file_text_size:
  assumes "nvme_fit e base sz d L disk"
  shows "length (file_text d disk) \<le> 600"
proof (cases "nvme_found d \<and> Boot.nvme_bar0 d \<noteq> 0")
  case True
  with assms obtain t where p: "\<forall>lba. length (disk lba) = 512" "payload_of disk = Some t" by (auto simp: nvme_fit_def Let_def)
  have "length (payload_text sector) \<le> 600" if "length sector = 512" for sector
    using length_takeWhile_le [of "\<lambda>b. b \<noteq> 0 \<and> b \<noteq> 0x0A" sector] that
    by (auto simp: payload_text_def line_of_def from_utf8_def split: option.splits)
  with p have "length t \<le> 600" by (auto simp: payload_of_def Let_def bind_eq_Some_conv split: if_splits)
  with True p(2) show ?thesis by (simp add: file_text_def)
qed (auto simp: file_text_def)

lemma start_event_cost:
  assumes "nvme_fit e base sz d L disk"
  shows "event_cost (Some (file_text d disk)) \<le> 64096"
  using file_text_size [OF assms] dec_digits_length [of "length (file_text d disk)"]
  by (simp add: event_cost_def http_body_def Let_def)

lemma started_runs:
  assumes "machine_fit e base sz pf info d lapic ioapic m disk" and "started e base sz d disk s"
    and "355516 + n * event_cost (Some (file_text d disk)) \<le> sz" and "dg_sector dg = file_text d disk"
    and "reaches (preempt e cr0 cr3 dg) (may_come e) sends n (Polling desktop_start, s) r"
  shows "\<exists>c. r = Some c \<and> loop_ok e base sz (Some (file_text d disk)) c"
proof -
  let ?pl = "Some (file_text d disk)"
  have f: "heap_ok e base sz" "hw_mem_only e" "nvme_fit e base sz d (card_blocks e (e1000_bar0 d) []) disk"
    using assms(1) by (simp_all add: machine_fit_def devices_fit_def)
  have "length (dg_sector dg) < 2 ^ 32" using file_text_size [OF f(3)] assms(4) by simp
  with f(1,2) start_event_cost [OF f(3)] have "sized e base sz ?pl dg" by (simp add: sized_def)
  moreover have "loop_ok e base sz ?pl (Polling desktop_start, s)"
    using assms(2) desktop_start_ok [of "server s"] by (simp add: started_def loop_ok_def)
  moreover have "heap_used (live (snd (Polling desktop_start, s))) + n * event_cost ?pl \<le> sz"
    using assms(2,3) by (simp add: started_def)
  ultimately show ?thesis using preempted.never_halts [OF assms(5), of base sz ?pl] by blast
qed

end
