(* ===== verification/KernelUp.thy ===== *)
theory KernelUp
  imports KernelStart
begin

text \<open>
  The properties of the start-up, and a machine with a network card, a drive and an audio controller on which
  it succeeds.
\<close>

section \<open>A machine\<close>

text \<open>The controllers' registers: the drive's status follows its configuration, and the drive serves the queues
  it was given (theory \<open>Nvme\<close>); the audio controller is out of reset, its write pointer at zero.\<close>

definition demo_csts :: "io list \<Rightarrow> u32" where
  "demo_csts tr = (if tr = [] then 0 else case last tr of Mmio32 a v \<Rightarrow> if a = 0xFEBF0014 then v AND 1 else 0 | _ \<Rightarrow> 0)"

definition boot_env :: "('a machine_scheme) env" where
  "boot_env = bump_env\<lparr>hw := (\<lambda>s.
     let s1 = s\<lparr>mem := store_le (store_le (mem s) 0xFEB00008 4 (1 :: u32)) 0xFEB00048 2 (0 :: u16)\<rparr>;
         s2 = hw (ssd_env demo_disk 0xFEBF0000 0x124000 0x125000) s1
     in s2\<lparr>mem := store_le (mem s2) 0xFEBF001C 4 (demo_csts (io_trace s))\<rparr>)\<rparr>"

lemma ssd_hw: "\<exists>m. hw (ssd_env disk bar sq cq) s = s\<lparr>mem := m\<rparr>"
proof -
  have "\<exists>m. s = s\<lparr>mem := m\<rparr>" by (rule exI [of _ "mem s"]) simp
  then show ?thesis by (auto simp: ssd_env_def Let_def split: io.splits)
qed

lemma boot_hw:
  "\<exists>m. hw (ssd_env demo_disk 0xFEBF0000 0x124000 0x125000) (s\<lparr>mem := store_le (store_le (mem s) 0xFEB00008 4 (1 :: u32)) 0xFEB00048 2 (0 :: u16)\<rparr>) = s\<lparr>mem := m\<rparr>
     \<and> hw boot_env s = s\<lparr>mem := store_le m 0xFEBF001C 4 (demo_csts (io_trace s))\<rparr>"
proof -
  obtain m where "hw (ssd_env demo_disk 0xFEBF0000 0x124000 0x125000) (s\<lparr>mem := store_le (store_le (mem s) 0xFEB00008 4 (1 :: u32)) 0xFEB00048 2 (0 :: u16)\<rparr>)
      = s\<lparr>mem := store_le (store_le (mem s) 0xFEB00008 4 (1 :: u32)) 0xFEB00048 2 (0 :: u16)\<rparr>\<lparr>mem := m\<rparr>"
    using ssd_hw by metis
  then show ?thesis by (intro exI [of _ m]) (simp add: boot_env_def)
qed

lemma boot_env_plain:
  "heap_ok (boot_env :: ('a machine_scheme) env) 0x100000 0x200000" "hw_mem_only (boot_env :: ('a machine_scheme) env)"
  "port_pure (boot_env :: ('a machine_scheme) env)"
proof -
  show "heap_ok (boot_env :: ('a machine_scheme) env) 0x100000 0x200000" using bump_heap_ok by (simp add: boot_env_def heap_hw)
  show "hw_mem_only (boot_env :: ('a machine_scheme) env)" unfolding hw_mem_only_def
  proof
    fix s :: "'a machine_scheme"
    obtain m where "hw boot_env s = s\<lparr>mem := m\<rparr>" using boot_hw [of s] by blast
    then show "hw boot_env s = s\<lparr>mem := mem (hw boot_env s)\<rparr>" by simp
  qed
  show "port_pure (boot_env :: ('a machine_scheme) env)" by (simp add: port_pure_def boot_env_def bump_env_def)
qed

lemma demo_nvme_answers: "nvme_answers boot_env 0xFEBF0000"
  unfolding nvme_answers_def
proof (intro allI conjI impI)
  fix s :: "'a machine_scheme" and v
  obtain m where "hw boot_env s = s\<lparr>mem := store_le m 0xFEBF001C 4 (demo_csts (io_trace s))\<rparr>" using boot_hw [of s] by blast
  then have c: "(load_le (mem (hw boot_env s)) (0xFEBF0000 + 0x1C) 4 :: u32) = demo_csts (io_trace s)" by simp
  have "(w :: u32) AND 1 \<noteq> 0xFFFFFFFF" for w
  proof
    assume "w AND 1 = 0xFFFFFFFF"
    then have "bit (w AND 1) 1 = bit (0xFFFFFFFF :: u32) 1" by (rule arg_cong)
    then show False by (simp add: bit_simps)
  qed
  then show "(load_le (mem (hw boot_env s)) (0xFEBF0000 + 0x1C) 4 :: u32) \<noteq> 0xFFFFFFFF"
    unfolding c by (auto simp: demo_csts_def split: io.splits)
  assume "io_trace s \<noteq> [] \<and> last (io_trace s) = Mmio32 (0xFEBF0000 + 0x14) v"
  then show "(load_le (mem (hw boot_env s)) (0xFEBF0000 + 0x1C) 4 :: u32) AND 1 = v AND 1"
    unfolding c by (simp add: demo_csts_def)
qed

lemma demo_hda_answers: "hda_answers boot_env 0xFEB00000"
proof -
  have quiet: "mem (hw boot_env s) = store_le (store_le (store_le (mem s) 0xFEB00008 4 (1 :: u32)) 0xFEB00048 2 (0 :: u16)) 0xFEBF001C 4 (demo_csts (io_trace s))"
    if "\<forall>v. last (io_trace s) \<noteq> Mmio32 0xFEBF1008 v" for s :: "'a machine_scheme"
    using that by (auto simp: boot_env_def ssd_env_def Let_def split: io.splits)
  have a: "(load_le (mem (hw boot_env s)) (0xFEB00000 + 8) 4 :: u32) = 1" "(load_le (mem (hw boot_env s)) (0xFEB00000 + 0x48) 2 :: u16) = 0"
    if "\<forall>v. last (io_trace s) \<noteq> Mmio32 0xFEBF1008 v" for s :: "'a machine_scheme"
    unfolding quiet [OF that] by (simp_all add: apart_def)
  have d: "(0xFEB00000 :: u64) + off \<noteq> 0xFEBF1008" if "unat off < 0x1000" for off
  proof
    assume "(0xFEB00000 :: u64) + off = 0xFEBF1008"
    then have "off = 0xF1008" by (simp add: algebra_simps eq_diff_eq [symmetric])
    with that show False by simp
  qed
  show ?thesis unfolding hda_answers_def
  proof (intro conjI allI impI)
    fix s :: "'a machine_scheme"
    assume "io_trace s \<noteq> [] \<and> last (io_trace s) = Mmio32 (0xFEB00000 + 8) 1"
    then show "(load_le (mem (hw boot_env s)) (0xFEB00000 + 8) 4 :: u32) AND 1 \<noteq> 0" by (subst a(1)) simp_all
  next
    fix s :: "'a machine_scheme" assume "hda_io 0xFEB00000 (io_trace s)"
    then have "\<forall>v. last (io_trace s) \<noteq> Mmio32 0xFEBF1008 v" using d by (auto simp: hda_io_def)
    then show "(load_le (mem (hw boot_env s)) (0xFEB00000 + 0x48) 2 :: u16) \<le> 255" by (subst a(2)) simp_all
  qed
qed

lemma demo_nvme_serves: "nvme_serves boot_env 0xFEBF0000 0x124000 0x125000 demo_disk"
  unfolding nvme_serves_def
proof (intro allI impI, elim conjE)
  fix s :: "'a machine_scheme" and i lba p
  assume h: "i < 16" "io_trace s \<noteq> []" "last (io_trace s) = Mmio32 (0xFEBF0000 + 0x1008) (of_nat (Suc i mod 16))"
    "load_bytes (mem s) (0x124000 + of_nat (64 * i)) 64 = cmd_encode (read_cmd i p lba)" "apart p 4096 0x125000 256" "apart p 4096 0xFEBF0000 0x2000"
  let ?s = "s\<lparr>mem := store_le (store_le (mem s) 0xFEB00008 4 (1 :: u32)) 0xFEB00048 2 (0 :: u16)\<rparr>"
  have q: "unat (0x124000 + of_nat (64 * i) :: u64) = 0x124000 + 64 * i" using h(1) unat_add_small [of "0x124000" "64 * i"] by simp
  have "apart (0x124000 + of_nat (64 * i)) 64 0xFEB00008 4" "apart (0x124000 + of_nat (64 * i)) 64 0xFEB00048 2"
    using q h(1) by (auto intro!: ranges_apart)
  then have "load_bytes (mem ?s) (0x124000 + of_nat (64 * i)) 64 = cmd_encode (read_cmd i p lba)"
    using h(4) by (simp add: apart_sym del: of_nat_mult)
  with nvme_servesD [OF ssd_serves [where disk = demo_disk and bar = "0xFEBF0000" and sq = "0x124000" and cq = "0x125000", OF demo_disk_size] h(1), of ?s p lba] h obtain m where
    m: "hw (ssd_env demo_disk 0xFEBF0000 0x124000 0x125000) ?s = ?s\<lparr>mem := m\<rparr>" "load_bytes m p 512 = demo_disk lba"
    "completion_status m 0x125000 i AND 1 \<noteq> 0" by auto
  let ?m = "store_le m 0xFEBF001C 4 (demo_csts (io_trace s))"
  have "hw boot_env s = s\<lparr>mem := ?m\<rparr>" using m(1) by (simp add: boot_env_def)
  moreover have "apart p 512 (0xFEBF0000 + of_nat 0x1C) 4"
    using apart_sub [OF h(6), of "0x1C" 4] by (simp add: apart_def)
  then have "load_bytes ?m p 512 = demo_disk lba" using m(2) by (simp add: apart_sym)
  moreover have "unat (0x125000 + of_nat (16 * i + 14) :: u64) = 0x125000 + (16 * i + 14)" using h(1) unat_add_small [of "0x125000" "16 * i + 14"] by simp
  then have "apart (0x125000 + of_nat (16 * i + 14)) 2 0xFEBF001C 4" using h(1) by (intro ranges_apart) simp_all
  then have "completion_status ?m 0x125000 i = completion_status m 0x125000 i"
    by (simp add: completion_status_def apart_sym del: of_nat_add of_nat_mult)
  ultimately show "\<exists>m. hw boot_env s = s\<lparr>mem := m\<rparr> \<and> load_bytes m p 512 = demo_disk lba \<and> completion_status m 0x125000 i AND 1 \<noteq> 0"
    using m(3) by auto
qed

text \<open>Where the allocator puts the queues on a heap that holds the card's rings and buffers.\<close>

lemma bump_buffers: "bump (((\<lambda>L. (galloc e 2048 1 L, 2048) # L) ^^ n) L) = n * 4096 + bump L"
  by (induction n) simp_all

lemma demo_queues:
  "iosq_ptr (nvme_placed boot_env bar (card_blocks boot_env (Some b) [])) = 0x124000"
  "iocq_ptr (nvme_placed boot_env bar (card_blocks boot_env (Some b) [])) = 0x125000"
proof -
  have c: "bump (card_blocks boot_env (Some b) []) = 34 * 4096"
    by (simp add: card_blocks_def Let_def bump_buffers [simplified])
  have g: "galloc boot_env n al L = (if bump L + n \<le> 0x200000 then of_nat (0x100000 + bump L) else 0)" for n al L
    by (simp add: boot_env_def bump_env_def)
  show "iosq_ptr (nvme_placed boot_env bar (card_blocks boot_env (Some b) [])) = 0x124000"
    "iocq_ptr (nvme_placed boot_env bar (card_blocks boot_env (Some b) [])) = 0x125000"
    by (simp_all add: nvme_placed_def nvme_blocks_def nvme_new_def Let_def g c)
qed

definition demo_platform :: platform where
  "demo_platform = \<lparr>pf_statics = demo_statics,
     pf_selectors = \<lparr>code_selector = 0x08, data_selector = 0x10, tss_selector = 0x18, user_code = 0x2B, user_data = 0x33\<rparr>,
     pf_syscall_entry = 0x201000, pf_cr0 = 0x80010033, pf_cr3 = 0x1000, pf_cr3_flags = lit ''Cr3Flags(0x0)'',
     pf_font = (\<lambda>c. Some (replicate 8 (of_nat c))), pf_ist_stack = 0x220000, pf_rsp0_stack = 0x225000, pf_aps = 3\<rparr>"

definition demo_devices :: devices where
  "demo_devices = \<lparr>e1000_bar0 = Some 0xFEBC0000, nvme_found = True, nvme_bar0 = 0xFEBF0000, hda_found = True, hda_bar0 = 0xFEB00000,
     xhci_found = True, xhci_bar0 = 0\<rparr>"

definition cold_kernel :: kernel where
  "cold_kernel = \<lparr>mem = (\<lambda>_. 0), io_trace = [], live = [], server = SERVER, term_x = 20, term_y = 20, vram = (\<lambda>_. 0),
     arp_table = arp_new, net_card = None, http_payload = None, mouse_state = mouse_start, nvme_drive = None, lapic_base = 0,
     canvases = (\<lambda>_. None), msr = (\<lambda>_. 0)\<rparr>"

lemma cold_kernel_cold: "cold [] None 0 (cold_kernel\<lparr>mem := m\<rparr>)"
  by (simp add: cold_def cold_kernel_def)

lemma demo_gdt: "gdt_api list_gdt (\<lambda>g. 1 + sum_list (map desc_slots g)) []" "snd (GDT list_gdt []) = pf_selectors demo_platform"
proof -
  show api: "gdt_api list_gdt (\<lambda>g. 1 + sum_list (map desc_slots g)) []" by (simp add: gdt_api_def list_gdt_def)
  show "snd (GDT list_gdt []) = pf_selectors demo_platform"
    using gdt_selectors [OF api] by (simp add: demo_platform_def)
qed

lemma demo_screen_fit: "screen_fit demo_boot_info"
  by (simp add: screen_fit_def demo_boot_info_def)

lemma demo_core_fit:
  assumes "\<forall>b. e1000_bar0 d = Some b \<longrightarrow> nic_mmio 0x100000 0x200000 (e1000_new b)" and "unat lapic < 2 ^ 32" and "unat ioapic < 2 ^ 32"
  shows "core_fit 0x100000 0x200000 demo_platform m demo_boot_info d lapic ioapic"
  using assms by (simp add: core_fit_def demo_platform_def demo_boot_info_def descriptors_def font_ok_def)

lemma demo_machine_fit:
  "machine_fit (boot_env :: kernel env) 0x100000 0x200000 demo_platform demo_boot_info demo_devices 0xFEE00000 0xFEC00000 m demo_disk"
proof -
  have d: "e1000_bar0 demo_devices = Some 0xFEBC0000" "nvme_found demo_devices" "Boot.nvme_bar0 demo_devices = 0xFEBF0000"
    "hda_found demo_devices" "Boot.hda_bar0 demo_devices = 0xFEB00000"
    by (simp_all add: demo_devices_def)
  have mm: "mmio_region 0x100000 0x200000 a n" if "0x300000 \<le> unat a" "unat a + n < 2 ^ 64" for a n
    using that by (simp add: mmio_region_def off_heap_def)
  have "core_fit 0x100000 0x200000 demo_platform m demo_boot_info demo_devices 0xFEE00000 0xFEC00000"
    by (rule demo_core_fit) (simp_all add: d nic_mmio_def e1000_new_def mm)
  moreover have "nvme_fit (boot_env :: kernel env) 0x100000 0x200000 demo_devices (card_blocks boot_env (e1000_bar0 demo_devices) []) demo_disk"
    using demo_nvme_answers demo_nvme_serves demo_disk_size demo_payload
    by (simp add: nvme_fit_def d Let_def demo_queues mm)
  moreover have "hda_regs 0x100000 0x200000 (hda_new 0xFEB00000)" by (simp add: hda_regs_def hda_new_def mm)
  ultimately show ?thesis
    unfolding machine_fit_def using boot_env_plain demo_screen_fit demo_hda_answers
    by (simp add: devices_fit_def d lapic_ok_def mm) (simp add: demo_platform_def demo_statics_def)
qed

section \<open>Properties\<close>

text \<open>C2. The start-up after discovery (\<open>_start\<close>, from \<open>init_heap\<close> to the first ARP request)
  never panics on a machine whose controllers answer: it returns with the frame allocator holding exactly
  the free frames of the memory map, the kernel's invariant established, the network card set up if there
  is one, the file from the drive as the HTTP payload and as the line the window shows, and at most
  355516 bytes of heap used.\<close>

theorem bring_up_succeeds:
  assumes "machine_fit e base sz pf info d lapic ioapic (mem s) disk"
    and "gdt_api add slots g0" and "snd (GDT add g0) = pf_selectors pf"
    and "cold [] None a s"
  shows "\<exists>audio fa con s'. bring_up e pf info d lapic ioapic ((Some (vga_new info), fb), s)
      = Some ((\<lparr>dg_nvme = nvme_found d, dg_hda = hda_found d, dg_sector = file_text d disk\<rparr>, audio), fa, con, s')
    \<and> fa_inv fa \<and> free_set fa = (\<Union>r\<in>set (descriptors (mem s) info). desc_frames r) \<and> started e base sz d disk s'"
proof -
  have "screen_fit info" using assms(1) by (simp add: machine_fit_def)
  from bring_up_run [OF assms console_start [OF this]] show ?thesis .
qed

theorem bring_up_succeeds_witness:
  "\<exists>audio fa con s'. bring_up boot_env demo_platform demo_boot_info demo_devices 0xFEE00000 0xFEC00000
      ((Some (vga_new demo_boot_info), \<lambda>_. 0), cold_kernel)
    = Some ((\<lparr>dg_nvme = True, dg_hda = True, dg_sector = lit ''FILE CONTENT: SECRET''\<rparr>, audio), fa, con, s') \<and> net_card s' \<noteq> None"
proof -
  have c: "cold [] None 0 cold_kernel" using cold_kernel_cold [of "mem cold_kernel"] by simp
  have f: "file_text demo_devices demo_disk = lit ''FILE CONTENT: SECRET''" by (simp add: file_text_def demo_devices_def demo_payload)
  have d: "nvme_found demo_devices" "hda_found demo_devices" "e1000_bar0 demo_devices \<noteq> None" by (simp_all add: demo_devices_def)
  from bring_up_succeeds [OF demo_machine_fit demo_gdt c, of "\<lambda>_. 0"] obtain audio fa con s' where
    "bring_up boot_env demo_platform demo_boot_info demo_devices 0xFEE00000 0xFEC00000 ((Some (vga_new demo_boot_info), \<lambda>_. 0), cold_kernel)
    = Some ((\<lparr>dg_nvme = nvme_found demo_devices, dg_hda = hda_found demo_devices, dg_sector = file_text demo_devices demo_disk\<rparr>, audio), fa, con, s')"
    "started boot_env 0x100000 0x200000 demo_devices demo_disk s'" by blast
  with f d show ?thesis by (auto simp: started_def both_or_none_def)
qed





end
