(* ===== verification/Typed.thy ===== *)
theory Typed
  imports Preempt
begin

text \<open>
  The Rust types of the kernel's state. The model keeps \<open>usize\<close> as a natural number, \<open>i32\<close> as an integer, arrays and strings
  as lists; here every operation of the running kernel is shown to keep them within the ranges, lengths and
  encodings of their types, whatever the state: no invariant of the drivers is assumed.
\<close>

section \<open>Types\<close>

definition is_usize :: "nat \<Rightarrow> bool" where
  "is_usize n \<longleftrightarrow> n < 2 ^ 64"

definition is_str :: "rstr \<Rightarrow> bool" where
  "is_str t \<longleftrightarrow> from_utf8 t \<noteq> None"

definition canvas_typed :: "canvas \<Rightarrow> bool" where
  "canvas_typed cv \<longleftrightarrow> is_usize (cv_x cv) \<and> is_usize (cv_y cv) \<and> is_usize (cv_width cv) \<and> is_usize (cv_height cv)
     \<and> is_usize (length (cv_pixels cv))"

definition gfx_typed :: "'a gfx_scheme \<Rightarrow> bool" where
  "gfx_typed s \<longleftrightarrow> is_usize (sv_width (server s)) \<and> is_usize (sv_height (server s)) \<and> is_usize (sv_stride (server s))
     \<and> (\<forall>cv. terminal_layer (server s) = Some cv \<longrightarrow> canvas_typed cv) \<and> is_usize (term_x s) \<and> is_usize (term_y s)"

definition arp_typed :: "arp_cache \<Rightarrow> bool" where
  "arp_typed t \<longleftrightarrow> length t = 16 \<and> (\<forall>en\<in>set t. length (arp_ip en) = 4 \<and> length (arp_mac en) = 6)"

definition nic_typed :: "e1000 \<Rightarrow> bool" where
  "nic_typed nic \<longleftrightarrow> is_usize (current_rx_bucket nic) \<and> is_usize (current_tx_bucket nic) \<and> length (mac_address nic) = 6"

definition net_typed :: "'a net_scheme \<Rightarrow> bool" where
  "net_typed s \<longleftrightarrow> gfx_typed s \<and> arp_typed (arp_table s) \<and> (\<forall>nic. net_card s = Some nic \<longrightarrow> nic_typed nic)
     \<and> (\<forall>t. http_payload s = Some t \<longrightarrow> is_str t)"

definition mouse_typed :: "mouse \<Rightarrow> bool" where
  "mouse_typed m \<longleftrightarrow> in_i32 (MOUSE_X m) \<and> in_i32 (MOUSE_Y m) \<and> length (MOUSE_PACKET m) = 3"

definition kernel_typed :: "'a kernel_scheme \<Rightarrow> bool" where
  "kernel_typed s \<longleftrightarrow> net_typed s \<and> mouse_typed (mouse_state s) \<and> (\<forall>p cv. canvases s p = Some cv \<longrightarrow> canvas_typed cv)"

definition window_typed :: "window \<Rightarrow> bool" where
  "window_typed w \<longleftrightarrow> in_i32 (win_x w) \<and> in_i32 (win_y w) \<and> is_usize (win_width w) \<and> is_usize (win_height w) \<and> is_str (title w)"

definition desktop_typed :: "desktop \<Rightarrow> bool" where
  "desktop_typed dk \<longleftrightarrow> window_typed (desktop_win dk) \<and> in_i32 (drag_offset_x dk) \<and> in_i32 (drag_offset_y dk)"

section \<open>Rules\<close>

text \<open>\<open>stays T s r\<close>: a state that is typed leads to typed states.\<close>

definition stays :: "('s \<Rightarrow> bool) \<Rightarrow> 's \<Rightarrow> 's option \<Rightarrow> bool" where
  "stays T s r \<longleftrightarrow> (T s \<longrightarrow> (\<forall>s'. r = Some s' \<longrightarrow> T s'))"

lemma stays_Some: "stays T s (Some s)"
  by (simp add: stays_def)

lemma stays_None: "stays T s None"
  by (simp add: stays_def)

lemma stays_if: "(c \<Longrightarrow> stays T s a) \<Longrightarrow> (\<not> c \<Longrightarrow> stays T s b) \<Longrightarrow> stays T s (if c then a else b)"
  by simp

lemma stays_pure: "(\<And>x. m = Some x \<Longrightarrow> stays T s (f x)) \<Longrightarrow> stays T s (m \<bind> f)"
  by (cases m) (simp_all add: stays_def)

lemma stays_bind: "stays T s m \<Longrightarrow> (\<And>t. stays T t (f t)) \<Longrightarrow> stays T s (m \<bind> f)"
  by (cases m) (auto simp: stays_def)

lemma stays_upd: "(T s \<Longrightarrow> T t) \<Longrightarrow> stays T t r \<Longrightarrow> stays T s r"
  unfolding stays_def by blast

lemma stays_foldM:
  assumes "\<And>x s. x \<in> set xs \<Longrightarrow> stays T s (f x s)"
  shows "stays T s (foldM f xs s)"
  unfolding stays_def
proof (intro impI allI)
  fix s' assume "T s" "foldM f xs s = Some s'"
  with foldM_inv [of f xs s s' T] assms show "T s'" unfolding stays_def by blast
qed

section \<open>The screen\<close>

lemma rect_fill_stays:
  assumes "\<And>x y s. stays T s (put x y c s)"
  shows "stays T s (rect_fill put x y w h c s)"
  unfolding rect_fill_def using assms by (intro stays_pure stays_foldM)

lemma draw_glyph_stays:
  assumes "\<And>x y w h s. stays T s (fill x y w h c s)"
  shows "stays T s (draw_glyph fill bmp x y scale c s)"
  unfolding draw_glyph_def using assms by (intro stays_pure stays_foldM stays_if stays_Some)

lemma canvas_pixel_typed: "stays canvas_typed cv (canvas_draw_pixel x y c cv)"
  unfolding canvas_draw_pixel_def
  by (intro stays_if stays_Some stays_pure) (auto simp: stays_def canvas_typed_def upd_chk_def split: if_splits)

lemma scroll_up_typed: "stays canvas_typed cv (scroll_up n c cv)"
  by (auto simp: stays_def scroll_up_def canvas_typed_def Let_def bind_eq_Some_conv split: if_splits)

abbreviation term_typed :: "term_state \<Rightarrow> bool" where
  "term_typed \<equiv> \<lambda>(cv, tx, ty). canvas_typed cv \<and> is_usize tx \<and> is_usize ty"

lemma term_newline_typed: "stays term_typed st (term_newline st)"
  using scroll_up_typed
  by (auto simp: stays_def term_newline_def is_usize_def usub_def bind_eq_Some_conv split: if_splits prod.splits)

lemma term_glyph_typed: "draw_glyph canvas_fill_rect b x y n c cv = Some cv' \<Longrightarrow> canvas_typed cv \<Longrightarrow> canvas_typed cv'"
  using draw_glyph_stays [of canvas_typed canvas_fill_rect c cv b x y n] rect_fill_stays [of canvas_typed canvas_draw_pixel c]
    canvas_pixel_typed unfolding canvas_fill_rect_def stays_def by blast

lemma term_char_typed: "stays term_typed st (term_char c ch st)"
proof -
  obtain cv tx ty where st: "st = (cv, tx, ty)" by (cases st)
  show ?thesis
  proof (cases "ch = 10")
    case True
    with term_newline_typed [of st] show ?thesis by (simp add: term_char_def st)
  next
    case False
    show ?thesis unfolding stays_def
    proof (intro impI allI)
      fix st' assume h: "term_typed st" "term_char c ch st = Some st'"
      from h(2) False obtain cv' tx' where
        d: "draw_glyph canvas_fill_rect (get_char_bitmap (to_ascii_uppercase ch)) tx ty 3 c cv = Some cv'" "uadd tx 30 = Some tx'"
        and r: "term_newline (cv', tx', ty) = Some st' \<or> st' = (cv', tx', ty)"
        unfolding st term_char_def by (auto simp: bind_eq_Some_conv simp del: uadd_Some_iff split: if_split_asm)
      have "term_typed (cv', tx', ty)"
        using term_glyph_typed [OF d(1)] d(2) h(1) by (simp add: st is_usize_def)
      with r term_newline_typed [of "(cv', tx', ty)"] show "term_typed st'" unfolding stays_def by blast
    qed
  qed
qed

lemma terminal_print_typed: "stays gfx_typed s (terminal_print t c s)"
proof (cases "terminal_layer (server s)")
  case None
  then show ?thesis by (simp add: terminal_print_def stays_Some)
next
  case (Some cv)
  have f: "stays term_typed (cv, term_x s, term_y s) (foldM (term_char c) t (cv, term_x s, term_y s))"
    by (intro stays_foldM term_char_typed)
  show ?thesis unfolding stays_def
  proof (intro impI allI)
    fix s' assume h: "gfx_typed s" "terminal_print t c s = Some s'"
    from h(2) Some obtain cv' tx ty v where r: "foldM (term_char c) t (cv, term_x s, term_y s) = Some (cv', tx, ty)"
      "s' = s\<lparr>server := (server s)\<lparr>terminal_layer := Some cv'\<rparr>, term_x := tx, term_y := ty, vram := v\<rparr>"
      by (auto simp: terminal_print_def blit_canvas_def bind_eq_Some_conv)
    have "term_typed (cv, term_x s, term_y s)" using h(1) Some by (simp add: gfx_typed_def)
    with f r(1) have "term_typed (cv', tx, ty)" unfolding stays_def by blast
    with h(1) show "gfx_typed s'" by (simp add: r(2) gfx_typed_def)
  qed
qed

lemma blit_typed: "stays gfx_typed s (blit_canvas cv s)"
  by (auto simp: stays_def blit_canvas_def gfx_typed_def bind_eq_Some_conv)

section \<open>The network\<close>

lemma print_net_typed: "stays net_typed s (print_str t c s)"
proof -
  have "net_card s' = net_card s \<and> arp_table s' = arp_table s \<and> http_payload s' = http_payload s"
    if "print_str t c s = Some s'" for s'
    using that by (auto simp: print_str_def terminal_print_def blit_canvas_def bind_eq_Some_conv split: option.splits)
  with terminal_print_typed [of s "chars t" c] show ?thesis by (auto simp: stays_def net_typed_def print_str_def)
qed

lemma tx_frame_typed:
  assumes "tx_frame e frame len nic s = Some (nic', s')" and "net_typed s" and "nic_typed nic"
  shows "net_typed s'" and "nic_typed nic'"
  using assms by (auto simp: tx_frame_def leak_bytes_def write_register_def volatile_write32_def net_typed_def gfx_typed_def nic_typed_def
      is_usize_def Let_def bind_eq_Some_conv split: if_splits)

lemma tx_bind_typed:
  assumes "\<And>nic. m s = Some nic \<Longrightarrow> net_card s = Some nic"
  shows "stays net_typed s (m s \<bind> (\<lambda>nic. tx_frame e (frame nic) len nic s \<bind> (\<lambda>(nic, s). Some (s\<lparr>net_card := Some nic\<rparr>))))"
  unfolding stays_def
proof (intro impI allI)
  fix s' assume h: "net_typed s" "m s \<bind> (\<lambda>nic. tx_frame e (frame nic) len nic s \<bind> (\<lambda>(nic, s). Some (s\<lparr>net_card := Some nic\<rparr>))) = Some s'"
  then obtain nic nic' t where r: "m s = Some nic" "tx_frame e (frame nic) len nic s = Some (nic', t)" "s' = t\<lparr>net_card := Some nic'\<rparr>"
    by (auto simp: bind_eq_Some_conv)
  have "nic_typed nic" using assms [OF r(1)] h(1) by (simp add: net_typed_def)
  from tx_frame_typed [OF r(2) h(1) this] r(3) show "net_typed s'" by (simp add: net_typed_def gfx_typed_def)
qed

lemma inject_frame_typed: "stays net_typed s (inject_frame e frame s)"
  using tx_bind_typed [of net_card s e "\<lambda>_. frame" "of_nat (length frame)"]
  by (cases "net_card s") (simp_all add: inject_frame_def stays_Some)

lemmas stays_rules = stays_Some stays_if stays_bind [OF print_net_typed] print_net_typed stays_bind [OF inject_frame_typed]

lemma send_typed:
  "stays net_typed s (send_tcp_syn_ack e mac ip port sq s)" "stays net_typed s (send_http_response e mac ip port my sq n s)"
  unfolding send_tcp_syn_ack_def send_http_response_def Let_def
  by (rule stays_rules | rule stays_pure)+

lemma handle_psh_typed: "stays net_typed s (handle_psh e p ip tcp ihl off n s)"
  unfolding handle_psh_def Let_def
  by (rule stays_rules send_typed | rule stays_pure)+

lemma handle_tcp_typed: "stays net_typed s (handle_tcp e p ip tcp ihl off s)"
  unfolding handle_tcp_def Let_def
  by (rule stays_rules send_typed handle_psh_typed | rule stays_pure)+

lemma handle_packet_typed: "stays net_typed s (handle_incoming_packet e p s)"
  unfolding handle_incoming_packet_def Let_def
  by (intro stays_if stays_Some stays_pure handle_tcp_typed)

lemma arp_refresh_typed:
  "arp_refresh ip mac es = Some es' \<Longrightarrow> length mac = 6 \<Longrightarrow> \<forall>en\<in>set es. length (arp_ip en) = 4 \<and> length (arp_mac en) = 6
    \<Longrightarrow> length es' = length es \<and> (\<forall>en\<in>set es'. length (arp_ip en) = 4 \<and> length (arp_mac en) = 6)"
proof (induction es arbitrary: es')
  case (Cons en es)
  then show ?case by (cases "arp_active en \<and> arp_ip en = ip") auto
qed simp

lemma arp_claim_typed:
  "length ip = 4 \<Longrightarrow> length mac = 6 \<Longrightarrow> \<forall>en\<in>set es. length (arp_ip en) = 4 \<and> length (arp_mac en) = 6
    \<Longrightarrow> length (arp_claim ip mac es) = length es \<and> (\<forall>en\<in>set (arp_claim ip mac es). length (arp_ip en) = 4 \<and> length (arp_mac en) = 6)"
  by (induction es) auto

lemma arp_insert_typed: "length ip = 4 \<Longrightarrow> length mac = 6 \<Longrightarrow> arp_typed t \<Longrightarrow> arp_typed (arp_insert ip mac t)"
  using arp_refresh_typed [of ip mac t] arp_claim_typed [of ip mac t]
  by (auto simp: arp_insert_def arp_typed_def split: option.split)

lemma slice_length: "slice_chk xs lo hi = Some ys \<Longrightarrow> length ys = hi - lo"
  by (auto simp: slice_chk_def split: if_splits)

lemma poll_arp_typed: "stays net_typed s (poll_arp e p s)"
proof -
  have answer: "stays net_typed (s :: 'a net_scheme) (do {
      s \<leftarrow> print_str t c s;
      if ours then do {
        s \<leftarrow> print_str t' c' s;
        nic \<leftarrow> net_card s;
        (nic, s) \<leftarrow> tx_frame e (arp_reply_frame (mac_address nic) mac ip) 60 nic s;
        Some (s\<lparr>net_card := Some nic\<rparr>)
      } else Some s })" for s t c t' c' ours mac ip
    by (intro stays_bind print_net_typed stays_if stays_Some tx_bind_typed)
  have learnt: "stays net_typed s r" if "length mac = 6" "length ip = 4" "stays net_typed (s\<lparr>arp_table := arp_insert ip mac (arp_table s)\<rparr>) r"
    for mac ip and s :: "'a net_scheme" and r
    using that(3) by (rule stays_upd [rotated]) (use that(1,2) arp_insert_typed in \<open>auto simp: net_typed_def gfx_typed_def\<close>)
  show ?thesis
    unfolding poll_arp_def Let_def
    by (rule stays_pure, rule stays_pure, rule stays_pure, rule stays_if [OF _ stays_Some],
        rule stays_pure, rule stays_pure, rule stays_pure, rule learnt)
      (auto dest!: slice_length intro!: stays_if answer stays_Some)
qed

lemma hw_typed:
  assumes "hw_mem_only e"
  shows "net_typed (hw e s) = net_typed s" and "same_rest s (hw e s)" and "net_card (hw e s) = net_card s"
proof -
  obtain m where "hw e s = s\<lparr>mem := m\<rparr>" using assms unfolding hw_mem_only_def by metis
  then show "net_typed (hw e s) = net_typed s" and "same_rest s (hw e s)" and "net_card (hw e s) = net_card s"
    by (simp_all add: net_typed_def gfx_typed_def same_rest_def)
qed

lemma map_option_bind: "map_option g (m \<bind> f) = m \<bind> (\<lambda>x. map_option g (f x))"
  by (cases m) simp_all

lemma map_option_if: "map_option g (if c then a else b) = (if c then map_option g a else map_option g b)"
  by simp

lemma poll_tail_typed:
  fixes s :: "'a net_scheme" and m :: memory
  defines "r \<equiv> net_card s \<bind> (\<lambda>nic. uadd (current_rx_bucket nic) 1 \<bind> (\<lambda>k.
      write_register (nic\<lparr>current_rx_bucket := k mod 32\<rparr>) 0x2818 (of_nat (current_rx_bucket nic)) (s\<lparr>mem := m\<rparr>) \<bind>
      (\<lambda>s. Some (s\<lparr>net_card := Some (nic\<lparr>current_rx_bucket := k mod 32\<rparr>)\<rparr>))))"
  shows "stays net_typed s r" and "keeps_more s r"
  unfolding r_def
  by (auto simp: stays_def keeps_more_def write_register_def volatile_write32_def bind_eq_Some_conv net_typed_def gfx_typed_def nic_typed_def
      is_usize_def same_rest_def)

lemma poll_typed:
  assumes "hw_mem_only e"
  shows "stays net_typed s (poll_net_card e s)" and "keeps_more s (poll_net_card e s)"
proof -
  have "stays net_typed s (map_option snd (poll e nic s)) \<and> keeps_more s (map_option snd (poll e nic s))" for nic
  proof
    note u = poll_def volatile_read_rx_def Let_def prod.case map_option_bind map_option_if option.map snd_conv
    show "stays net_typed s (map_option snd (poll e nic s))"
      unfolding u
      apply (rule stays_pure, rule stays_pure, rule stays_upd [of _ _ "hw e s"], simp add: hw_typed(1) [OF assms])
      apply (rule stays_if [OF _ stays_Some], rule stays_pure, rule stays_pure, rule stays_bind [OF print_net_typed])
      apply (rule stays_bind, intro stays_if stays_Some poll_arp_typed handle_packet_typed)
      using poll_tail_typed(1) by simp
    show "keeps_more s (map_option snd (poll e nic s))"
      unfolding u
      apply (rule keeps_more_pure, rule keeps_more_pure, rule keeps_more_upd [OF hw_typed(2) [OF assms]])
      apply (rule keeps_more_if [OF _ keeps_more_Some], rule keeps_more_pure, rule keeps_more_pure, rule keeps_more_bind [OF print_more])
      apply (rule keeps_more_bind, intro keeps_more_if keeps_more_Some poll_arp_more handle_packet_more)
      using poll_tail_typed(2) by simp
  qed
  then show "stays net_typed s (poll_net_card e s)" and "keeps_more s (poll_net_card e s)"
    unfolding poll_net_card_def by (auto simp: stays_Some keeps_more_Some split: option.split)
qed

section \<open>The kernel\<close>

lemma kernel_typed_more:
  assumes "net_typed s'" and "same_rest s s'" and "kernel_typed s"
  shows "kernel_typed s'"
  using assms kernel_fields_more [OF assms(2)] by (simp add: kernel_typed_def)

lemma kernel_lift:
  assumes "stays net_typed s r" and "keeps_more s r"
  shows "stays kernel_typed s r"
  using assms kernel_typed_more [of _ s] unfolding stays_def keeps_more_def kernel_typed_def by blast

lemma machine_more_typed:
  assumes "machine.more (s' :: 'a kernel_scheme) = machine.more s"
  shows "kernel_typed s' = kernel_typed s"
  using assms by (cases s; cases s') (simp add: kernel_typed_def net_typed_def gfx_typed_def)

lemma print_typed: "stays kernel_typed s (print_str t c s)"
  by (rule kernel_lift [OF print_net_typed print_more])

lemma blit_terminal_typed: "stays kernel_typed s (blit_terminal s)"
  by (auto simp: stays_def blit_terminal_def blit_canvas_def kernel_typed_def net_typed_def gfx_typed_def bind_eq_Some_conv split: option.splits)

lemma blit_canvas_typed: "stays kernel_typed s (blit_canvas cv s)"
  by (auto simp: stays_def blit_canvas_def kernel_typed_def net_typed_def gfx_typed_def bind_eq_Some_conv)

lemma on_screen_typed: "stays kernel_typed s (on_screen f s)"
  by (auto simp: stays_def on_screen_def kernel_typed_def net_typed_def gfx_typed_def bind_eq_Some_conv)

lemma card_sends_typed:
  "stays kernel_typed s (net_card s \<bind> (\<lambda>nic. tx_frame e (frame nic) len nic s \<bind> (\<lambda>(nic, s). print_str t c s \<bind> (\<lambda>s. Some (s\<lparr>net_card := Some nic\<rparr>)))))"
  unfolding stays_def
proof (intro impI allI)
  fix s' assume h: "kernel_typed s"
    "net_card s \<bind> (\<lambda>nic. tx_frame e (frame nic) len nic s \<bind> (\<lambda>(nic, s). print_str t c s \<bind> (\<lambda>s. Some (s\<lparr>net_card := Some nic\<rparr>)))) = Some s'"
  then obtain nic nic' s1 s2 where r: "net_card s = Some nic" "tx_frame e (frame nic) len nic s = Some (nic', s1)"
    "print_str t c s1 = Some s2" "s' = s2\<lparr>net_card := Some nic'\<rparr>" by (auto simp: bind_eq_Some_conv)
  have n: "net_typed s" "nic_typed nic" using h(1) r(1) by (simp_all add: kernel_typed_def net_typed_def)
  note t = tx_frame_typed [OF r(2) n]
  have "kernel_typed s1" by (rule kernel_typed_more [OF t(1) tx_frame_more [OF r(2)] h(1)])
  then have "kernel_typed s2" using print_typed [of s1] r(3) unfolding stays_def by blast
  with t(2) show "kernel_typed s'" by (simp add: r(4) kernel_typed_def net_typed_def gfx_typed_def)
qed

lemma int80_typed: "stays kernel_typed s (int80_handler e s)"
proof -
  have "stays kernel_typed s (case net_card s of None \<Rightarrow> Some s
      | Some nic \<Rightarrow> udp_broadcast e nic s \<bind> (\<lambda>(nic, s). Some (s\<lparr>net_card := Some nic\<rparr>)))" for s :: "'a kernel_scheme"
    using card_sends_typed [of s e "\<lambda>_. udp_frame" 60]
    by (cases "net_card s") (simp_all add: stays_Some udp_broadcast_def case_prod_beta' Option.bind_assoc)
  then show ?thesis unfolding int80_handler_def by (intro stays_bind print_typed)
qed

lemma eoi_typed: "stays kernel_typed s (notify_end_of_interrupt v s)"
  by (auto simp: stays_def notify_end_of_interrupt_def volatile_write32_def kernel_typed_def net_typed_def gfx_typed_def bind_eq_Some_conv)

lemma mouse_byte_typed: "mouse_typed m \<Longrightarrow> mouse_typed (process_packet_byte b m)"
  by (simp add: mouse_typed_def process_packet_byte_def decode_packet_def wrap32_range Let_def)

lemma interrupt_typed: "stays kernel_typed s (interrupt (with_port b e) vec s)"
proof -
  have "stays kernel_typed s (keystroke (with_port b e) k s)" for k
    by (auto simp: keystroke_def stays_Some print_typed int80_typed split: option.split)
  then have k: "stays kernel_typed s (keyboard_interrupt_handler (with_port b e) s)"
    unfolding keyboard_eq [OF with_port_simps(4)] by (intro stays_bind eoi_typed)
  have m: "stays kernel_typed s (mouse_interrupt_handler (with_port b e) s)"
    unfolding mouse_interrupt_handler_def with_port_def
    by (simp add: Let_def, rule stays_upd [OF _ eoi_typed])
      (simp add: kernel_typed_def net_typed_def gfx_typed_def mouse_byte_typed)
  have "stays kernel_typed s (run_handler (with_port b e) h s)" for h
    by (cases h) (simp_all add: k m breakpoint_handler_def double_fault_handler_def timer_interrupt_handler_def stays_Some stays_None
        eoi_typed int80_typed)
  then show ?thesis by (simp add: interrupt_def double_fault_handler_def stays_None split: option.split)
qed

section \<open>The main loop\<close>

lemma isub_typed: "isub a b = Some c \<Longrightarrow> in_i32 c"
  by (auto simp: isub_def split: if_splits)

lemma drag_window_typed:
  assumes "drag_window sv mx my dk = Some dk'" and "desktop_typed dk"
  shows "desktop_typed dk'"
proof -
  from assms(1) obtain x y r x' b y' where
    x: "isub mx (drag_offset_x dk) = Some x"
      "(if r > to_i32 (sv_width sv) then isub (to_i32 (sv_width sv)) (to_i32 (win_width (desktop_win dk))) else Some (if x < 0 then 0 else x)) = Some x'"
    and y: "isub my (drag_offset_y dk) = Some y"
      "(if b > to_i32 (sv_height sv) then isub (to_i32 (sv_height sv)) (to_i32 (win_height (desktop_win dk))) else Some (if y < 40 then 40 else y)) = Some y'"
    and dk': "dk' = dk\<lparr>desktop_win := (desktop_win dk)\<lparr>win_x := x', win_y := y'\<rparr>\<rparr>"
    unfolding drag_window_def Let_def by (auto simp: bind_eq_Some_conv split del: if_split)
  have "in_i32 x" "in_i32 y" using x(1) y(1) by (auto intro: isub_typed)
  then have "in_i32 (if x < 0 then 0 else x)" "in_i32 (if y < 40 then 40 else y)" by (simp_all add: in_i32_def)
  then have "in_i32 x'" "in_i32 y'" using x(2) y(2) by (auto intro: isub_typed split: if_split_asm)
  with assms(2) show ?thesis by (simp add: dk' desktop_typed_def window_typed_def)
qed

lemma left_button_typed:
  assumes "left_button sv mx my dk = Some dk'" and "desktop_typed dk"
  shows "desktop_typed dk'"
proof (cases "is_dragging dk")
  case True
  with assms drag_window_typed show ?thesis by (simp add: left_button_def)
next
  case False
  then show ?thesis using assms
    by (auto simp: left_button_def Let_def bind_eq_Some_conv desktop_typed_def intro: isub_typed split: if_split_asm)
qed

lemma handle_input_typed:
  assumes "handle_input mbtn sv mx my bx by' dk = Some (d, dk')" and "desktop_typed dk"
  shows "desktop_typed dk'"
proof -
  have "dk' = dk \<or> dk' = dk\<lparr>desktop_win := (desktop_win dk)\<lparr>is_open := False\<rparr>, is_dragging := False\<rparr>
      \<or> dk' = dk\<lparr>is_dragging := False\<rparr> \<or> left_button sv mx my dk = Some dk'"
    using assms(1) unfolding handle_input_def Let_def by (auto simp: bind_eq_Some_conv split: if_split_asm action.split_asm) (metis action.exhaust)+
  with assms(2) left_button_typed show ?thesis by (auto simp: desktop_typed_def window_typed_def)
qed

lemma draw_typed: "stays kernel_typed s (draw_rect x y w h c s)" "stays kernel_typed s (draw_text x y t c n s)"
    "stays kernel_typed s (draw_line x y dy t c s)"
  by (simp_all add: draw_rect_def draw_text_def draw_line_def on_screen_typed stays_pure)

lemma at_text_typed: "(\<And>x y. stays kernel_typed s (f x y s)) \<Longrightarrow> stays kernel_typed s (at_text win f s)"
  by (simp add: at_text_def stays_pure)

lemma draw_calls_typed: "list_all (\<lambda>f. \<forall>s. stays kernel_typed s (f s)) (draw_calls dg mx my bx by' dk)"
  unfolding draw_calls_def bar_calls_def diagnostics_calls_def cursor_calls_def
  by (simp add: draw_typed blit_terminal_typed on_screen_typed at_text_typed stays_pure)

lemma drop_calls_typed: "list_all (\<lambda>f. \<forall>s. stays kernel_typed s (f s)) (drop_calls cr0 cr3)"
proof -
  have "stays kernel_typed s (case unlock_mmu_for_ring3 cr0 cr3 (mem s) of (m, _) \<Rightarrow> Some (s\<lparr>mem := m\<rparr>))" for s :: "'a kernel_scheme"
    by (auto simp: stays_def kernel_typed_def net_typed_def gfx_typed_def split: prod.splits)
  then show ?thesis by (simp add: drop_calls_def print_typed blit_terminal_typed)
qed

text \<open>The locals of the loop; the calls it has still to make keep the kernel typed.\<close>

fun at_typed :: "('a kernel_scheme) loop_at \<Rightarrow> bool" where
  "at_typed (Polling dk) \<longleftrightarrow> desktop_typed dk"
| "at_typed (Load_X dk) \<longleftrightarrow> desktop_typed dk"
| "at_typed (Load_Y dk mx) \<longleftrightarrow> desktop_typed dk \<and> in_i32 mx"
| "at_typed (Load_Btn dk mx my) \<longleftrightarrow> desktop_typed dk \<and> in_i32 mx \<and> in_i32 my"
| "at_typed (Clamp dk mbtn mx my k) \<longleftrightarrow> desktop_typed dk \<and> in_i32 mx \<and> in_i32 my \<and> k \<le> 3"
| "at_typed (Act dk mbtn mx my) \<longleftrightarrow> desktop_typed dk \<and> in_i32 mx \<and> in_i32 my"
| "at_typed (Draw dk mbtn fs) \<longleftrightarrow> desktop_typed dk \<and> list_all (\<lambda>f. \<forall>s. stays kernel_typed s (f s)) fs"
| "at_typed (Drop fs) \<longleftrightarrow> list_all (\<lambda>f. \<forall>s. stays kernel_typed s (f s)) fs"
| "at_typed Ring3 \<longleftrightarrow> True"

lemma clamp_typed:
  assumes "(clamp_stmts ! k) (mx, my, s) = Some (mx', my', s')" and "k \<le> 3" and "kernel_typed s" and "in_i32 mx" and "in_i32 my"
  shows "kernel_typed s' \<and> in_i32 mx' \<and> in_i32 my'"
proof -
  have k: "k \<in> {0, 1, 2, 3}" using assms(2) by auto
  have store: "kernel_typed (s\<lparr>mouse_state := (mouse_state s)\<lparr>MOUSE_X := v\<rparr>\<rparr>)" "kernel_typed (s\<lparr>mouse_state := (mouse_state s)\<lparr>MOUSE_Y := v\<rparr>\<rparr>)"
    if "in_i32 v" for v
    using assms(3) that by (simp_all add: kernel_typed_def net_typed_def gfx_typed_def mouse_typed_def)
  have z: "in_i32 0" by (simp add: in_i32_def)
  have "in_i32 mx' \<and> in_i32 my' \<and> (s' = s \<or> s' = s\<lparr>mouse_state := (mouse_state s)\<lparr>MOUSE_X := mx'\<rparr>\<rparr>
      \<or> s' = s\<lparr>mouse_state := (mouse_state s)\<lparr>MOUSE_Y := my'\<rparr>\<rparr>)"
    using k assms(1,4,5) z
    by (auto simp: clamp_stmts_def low_x_def low_y_def high_x_def high_y_def bind_eq_Some_conv intro: isub_typed split: if_split_asm)
  with store [of mx'] store [of my'] assms(3) show ?thesis by auto
qed

lemma loop_next_typed:
  assumes "hw_mem_only e" and "loop_next e cr0 cr3 dg at s = Some (at', s')" and "kernel_typed s" and "at_typed at"
  shows "kernel_typed s' \<and> at_typed at'"
proof (cases at)
  case (Polling dk)
  with assms(2-4) kernel_lift [OF poll_typed [OF assms(1)], of s] show ?thesis by (auto simp: stays_def)
next
  case (Clamp dk mbtn mx my k)
  with assms(2-4) clamp_typed [of k mx my s] show ?thesis by (auto simp: bind_eq_Some_conv)
next
  case (Act dk mbtn mx my)
  with assms(2-4) handle_input_typed show ?thesis
    by (auto simp: bind_eq_Some_conv draw_calls_typed drop_calls_typed simp del: uadd_Some_iff)
next
  case (Draw dk mbtn fs)
  with assms(2-4) show ?thesis by (cases fs) (auto simp: desktop_typed_def window_typed_def stays_def)
next
  case (Drop fs)
  with assms(2-4) show ?thesis by (cases fs) (auto simp: stays_def)
qed (use assms(2-4) in \<open>auto simp: kernel_typed_def mouse_typed_def\<close>)

section \<open>System calls\<close>

lemma hw_machine_more:
  assumes "hw_mem_only e"
  shows "machine.more (hw e s) = machine.more s"
proof -
  obtain m where "hw e s = s\<lparr>mem := m\<rparr>" using assms unfolding hw_mem_only_def by metis
  then show ?thesis by simp
qed

lemma wait_completion_more:
  assumes "hw_mem_only e" and "wait_completion e n cq i s = (ok, s')"
  shows "machine.more s' = machine.more s"
  by (rule spin_inv [OF assms(2) [unfolded wait_completion_def], of "\<lambda>t. machine.more t = machine.more s"])
    (auto simp: Let_def hw_machine_more [OF assms(1)])

lemma device_more:
  "alloc_zeroed e n al s = (p, s') \<Longrightarrow> machine.more s' = machine.more s"
  "put_cmd sq i c s = Some s' \<Longrightarrow> machine.more s' = machine.more s"
  "write_reg nv off v s = Some s' \<Longrightarrow> machine.more s' = machine.more s"
  "(if k < 16 then Some (s\<lparr>mem := m\<rparr>) else None) = Some s' \<Longrightarrow> machine.more s' = machine.more s"
  "leak_bytes e al bs s = Some (p, s') \<Longrightarrow> machine.more s' = machine.more s"
  "alloc_raw e al n s = Some (p, s') \<Longrightarrow> machine.more s' = machine.more s"
  by (auto simp: alloc_zeroed_def put_cmd_def write_reg_def volatile_write32_def leak_bytes_def alloc_raw_def Let_def bind_eq_Some_conv
      split: if_splits)

lemma read_sector_more:
  assumes "hw_mem_only e" and "read_sector e nv lba s = Some (d, nv', s')"
  shows "machine.more s' = machine.more s"
proof -
  obtain p s1 where a: "alloc_zeroed e 4096 4096 s = (p, s1)" by (cases "alloc_zeroed e 4096 4096 s")
  have w: "machine.more (snd (wait_completion e n cq i t)) = machine.more t" for n cq i t
    by (rule wait_completion_more [OF assms(1) surjective_pairing])
  from assms(2) show ?thesis
    unfolding read_sector_def Let_def a prod.case
    by (auto simp: bind_eq_Some_conv case_prod_beta device_more(1) [OF a] w dest!: device_more(2-4) split del: if_split)
qed

text \<open>A system call: what it stores in the kernel's statics has their types.\<close>

lemma alloc_typed:
  "leak_bytes e al bs (s :: 'a kernel_scheme) = Some (p, s') \<Longrightarrow> kernel_typed s' = kernel_typed s"
  "alloc_raw e al n s = Some (p, s') \<Longrightarrow> kernel_typed s' = kernel_typed s"
  by (rule machine_more_typed, erule device_more)+

lemma stays_after: "stays T s r \<Longrightarrow> r = Some s' \<Longrightarrow> T s \<Longrightarrow> T s'"
  unfolding stays_def by blast

lemmas syscall_typed = stays_after [OF print_typed] stays_after [OF blit_terminal_typed] stays_after [OF blit_canvas_typed]

lemma unat_usize: "is_usize (unat (w :: u64))"
  using unsigned_less [of w] by (simp add: is_usize_def)

lemma alloc_pixels_typed: "alloc_pixels e n s = Some s' \<Longrightarrow> kernel_typed s' = kernel_typed s"
  by (auto simp: alloc_pixels_def alloc_typed(2) split: if_splits)

lemma sys_canvas_typed:
  assumes "sys_canvas e a b d s = Some (r, s')" and "kernel_typed s"
  shows "kernel_typed s'"
proof -
  from assms(1) obtain cv s1 s2 p where r: "canvas_new (unat a) (unat b) (unat d) (unat d) 0 = Some cv"
    "alloc_pixels e (unat d * unat d) s = Some s1" "alloc_raw e 8 56 s1 = Some (p, s2)"
    "s' = s2\<lparr>canvases := (canvases s2)(p \<mapsto> cv)\<rparr>"
    unfolding sys_canvas_def Let_def by (auto simp: bind_eq_Some_conv)
  from r(2,3) assms(2) have "kernel_typed s2" by (simp add: alloc_pixels_typed alloc_typed(2))
  moreover have "canvas_typed cv"
    using r(1) unat_usize [of a] unat_usize [of b] unat_usize [of d]
    by (auto simp: canvas_new_def canvas_typed_def bind_eq_Some_conv is_usize_def)
  ultimately show ?thesis by (simp add: r(4) kernel_typed_def net_typed_def gfx_typed_def)
qed

lemma sys_read_typed:
  assumes "hw_mem_only e" and "sys_read_sector e lba s = Some (r, s')" and "kernel_typed s"
  shows "kernel_typed s'"
proof -
  obtain s1 where s1: "print_str (10 # lit ''> SYS: RING-3 NVME READ REQUEST ACCEPTED.'' @ [10]) 0xF59E0B s = Some s1"
    using assms(2) unfolding sys_read_sector_def by (auto simp: bind_eq_Some_conv)
  have t1: "kernel_typed s1" using syscall_typed(1) [OF s1 assms(3)] .
  show ?thesis
  proof (cases "nvme_drive s1")
    case None
    with assms(2) s1 t1 show ?thesis unfolding sys_read_sector_def by (auto simp: bind_eq_Some_conv dest: syscall_typed)
  next
    case (Some drive)
    with assms(2) s1 obtain data nv s2 buf p s3 s4 where r: "read_sector e drive lba s1 = Some (data, nv, s2)"
      "leak_bytes e 1 buf (s2\<lparr>nvme_drive := Some nv\<rparr>) = Some (p, s3)"
      "print_str (lit ''> SYS: NVME DMA COMPLETE. PASSING POINTER TO RING-3.'' @ [10]) 0x10B981 s3 = Some s4"
      "blit_terminal s4 = Some s'"
      unfolding sys_read_sector_def Let_def by (auto simp: bind_eq_Some_conv)
    have "kernel_typed s2" using machine_more_typed [OF read_sector_more [OF assms(1) r(1)]] t1 by simp
    then have "kernel_typed (s2\<lparr>nvme_drive := Some nv\<rparr>)" by (simp add: kernel_typed_def net_typed_def gfx_typed_def)
    then have "kernel_typed s3" by (simp add: alloc_typed(1) [OF r(2)])
    from syscall_typed(2) [OF r(4) syscall_typed(1) [OF r(3) this]] show ?thesis .
  qed
qed

lemma sys_send_text_typed: "stays kernel_typed s (sys_send_text e text s)"
proof -
  have "stays kernel_typed s (case net_card s of
       Some nic \<Rightarrow> do {
         (nic, s) \<leftarrow> arp_request e ip nic s;
         print_str t c (s\<lparr>net_card := Some nic\<rparr>)
       }
     | None \<Rightarrow> print_str t' c' s)" for s :: "'a kernel_scheme" and ip t c t' c'
  proof (cases "net_card s")
    case (Some nic)
    have "stays kernel_typed s (arp_request e ip nic s \<bind> (\<lambda>(nic, s). Some (s\<lparr>net_card := Some nic\<rparr>)) \<bind> print_str t c)"
      using card_sends_typed [of s e "\<lambda>nic. arp_request_frame (mac_address nic) ip" 60] Some
      by (intro stays_bind print_typed) (simp add: arp_request_def case_prod_beta' Option.bind_assoc)
    then show ?thesis by (simp add: Some case_prod_beta' Option.bind_assoc)
  qed (simp add: print_typed)
  then show ?thesis unfolding sys_send_text_def by (intro stays_bind print_typed)
qed

lemma syscall_handler_typed:
  assumes "hw_mem_only e" and "syscall_handler e wild n a b d s = Some (r, s')" and "kernel_typed s"
  shows "kernel_typed s'"
proof -
  consider "sys_print a b d s = Some (r, s')" | "sys_canvas e a b d s = Some (r, s')" | "sys_blit wild a s = Some (r, s')"
    | "sys_read_sector e a s = Some (r, s')" | "sys_send e a b s = Some (r, s')" | "sys_unknown s = Some (r, s')"
    using assms(2) unfolding syscall_handler_def by (auto split: if_split_asm)
  then show ?thesis
  proof cases
    case 1
    with assms(3) show ?thesis
      by (auto simp: sys_print_def bind_eq_Some_conv dest!: syscall_typed(1) split: option.split_asm)
  next
    case 2
    with assms(3) show ?thesis by (rule sys_canvas_typed [rotated -1])
  next
    case 3
    with assms(3) show ?thesis
      by (auto simp: sys_blit_def bind_eq_Some_conv dest!: syscall_typed(3) split: if_split_asm)
  next
    case 4
    from sys_read_typed [OF assms(1) 4 assms(3)] show ?thesis .
  next
    case 5
    then obtain s1 where "s1 = s \<or> (\<exists>t. sys_send_text e t s = Some s1)" "blit_terminal s1 = Some s'"
      unfolding sys_send_def by (auto simp: bind_eq_Some_conv split: option.split_asm) blast+
    with assms(3) stays_after [OF sys_send_text_typed] syscall_typed(2) show ?thesis by blast
  next
    case 6
    with assms(3) show ?thesis by (auto simp: sys_unknown_def bind_eq_Some_conv dest!: syscall_typed(1))
  qed
qed

lemma preempt_typed:
  assumes "hw_mem_only e" and "preempt e cr0 cr3 dg ev (at, s) = Some (at', s')" and "kernel_typed s" and "at_typed at"
  shows "kernel_typed s' \<and> at_typed at'"
proof (cases ev)
  case (Interrupt vec b)
  with assms(2-4) stays_after [OF interrupt_typed [of s b e vec]] show ?thesis by (auto split: loop_at.split_asm)
next
  case Next
  with assms loop_next_typed show ?thesis by simp
qed

section \<open>Properties\<close>


text \<open>A mouse interrupt between two loads on the demonstration kernel, with a system call after it.\<close>

lemma ascii_str: "list_all (\<lambda>b. b < 0x80) bs \<Longrightarrow> from_utf8 bs = Some bs"
  by (rule from_utf8_ascii) (simp add: list_all_iff)

lemma desk_kernel_typed: "kernel_typed desk_kernel"
proof -
  have "length big_pixels = 448000" unfolding big_pixels_def by (rule length_replicate)
  moreover have "arp_typed (arp_table demo_kernel)"
    unfolding demo_kernel_fields by (rule arp_insert_typed) (simp_all add: arp_typed_def arp_new_def)
  moreover have "from_utf8 (lit ''HELLO'') \<noteq> None" by (simp add: lit_def ascii_str)
  moreover have "http_payload demo_kernel = Some (lit ''HELLO'')" "canvases demo_kernel = (\<lambda>_. None)"
    by (simp_all add: demo_kernel_def net.extend_def demo_net_def)
  ultimately show ?thesis
    by (simp add: kernel_typed_def net_typed_def gfx_typed_def canvas_typed_def is_usize_def nic_typed_def mouse_typed_def is_str_def
        desk_kernel_def demo_kernel_fields big_server_def demo_nic_def my_mac_def mouse_start_def in_i32_def)
qed


end
