(* ===== verification/Backlog.thy ===== *)
theory Backlog
  imports Poll
begin

text \<open>
  The network card's receive ring (\<open>src/src/e1000.rs\<close>, \<open>poll\<close>, called once in every round of the main
  loop): frames the card has filled in are taken in order, one per call.
\<close>

section \<open>Waiting frames\<close>

text \<open>The next \<open>k\<close> descriptors from the driver's position on hold frames the driver accepts.\<close>

definition rx_at :: "e1000 \<Rightarrow> nat \<Rightarrow> memory \<Rightarrow> rx_descriptor" where
  "rx_at nic i m = rx_decode (load_bytes m (rx_ring_ptr nic + of_nat (16 * ((current_rx_bucket nic + i) mod 32))) 16)"

definition acceptable :: "rx_descriptor \<Rightarrow> bool" where
  "acceptable d \<longleftrightarrow> rx_status d AND 1 \<noteq> 0 \<and> 42 \<le> unat (rx_length d) \<and> rx_buffer_address d \<noteq> 0"

definition waiting :: "nat \<Rightarrow> e1000 \<Rightarrow> memory \<Rightarrow> bool" where
  "waiting k nic m \<longleftrightarrow> (\<forall>i<k. acceptable (rx_at nic i m))"

text \<open>The card's side of the ring protocol: a filled descriptor is left alone until it is handed back.\<close>

definition card_waits :: "('a machine_scheme) env \<Rightarrow> bool" where
  "card_waits e \<longleftrightarrow> (\<forall>s nic k. waiting k nic (mem s) \<longrightarrow> waiting k nic (mem (hw e s)))"

lemma rx_at_head: "current_rx_bucket nic < 32 \<Longrightarrow> rx_at nic 0 m = rx_head nic m"
  by (simp add: rx_at_def rx_head_def rx_slot_def)

text \<open>One call takes the first frame and leaves the others waiting.\<close>

lemma poll_takes_one:
  assumes "heap_ok e base sz" and "hw_mem_only e" and "card_waits e" and "net_ok e base sz s" and "reply_room sz s"
    and "net_card s = Some nic" and "waiting (Suc k) nic (mem s)" and "k < 32"
  shows "\<exists>s' nic'. poll_net_card e s = Some s' \<and> net_ok e base sz s' \<and> net_card s' = Some nic' \<and> waiting k nic' (mem s')
    \<and> current_rx_bucket nic' = Suc (current_rx_bucket nic) mod 32 \<and> reply_size s' = reply_size s
    \<and> heap_used (live s') \<le> heap_used (live s) + (reply_size s + 4096)"
proof -
  have b: "current_rx_bucket nic < 32" using rx_slot_ops(4) [OF assms(4,1,6)] .
  have w: "waiting (Suc k) nic (mem (hw e s))" using assms(3,7) unfolding card_waits_def by blast
  then have "acceptable (rx_at nic 0 (mem (hw e s)))" by (simp add: waiting_def)
  then have h: "acceptable (rx_head nic (mem (hw e s)))" by (simp only: rx_at_head [OF b])
  from poll_step [OF assms(1,2,4,5,6)] h obtain s' nic' where
    s': "poll e nic s = Some (True, s')" "net_ok e base sz s'" "net_card s' = Some nic'"
    "current_rx_bucket nic' = Suc (current_rx_bucket nic) mod 32" "http_payload s' = http_payload s"
    "heap_used (live s') \<le> heap_used (live s) + (reply_size s + 4096)" "rx_ring_ptr nic' = rx_ring_ptr nic"
    "\<forall>i<32. i \<noteq> current_rx_bucket nic \<longrightarrow>
        load_bytes (mem s') (rx_ring_ptr nic + of_nat (16 * i)) 16 = load_bytes (mem (hw e s)) (rx_ring_ptr nic + of_nat (16 * i)) 16"
    by (auto simp: acceptable_def)
  have "rx_at nic' i (mem s') = rx_at nic (Suc i) (mem (hw e s))" if i: "i < k" for i
  proof -
    have p: "(current_rx_bucket nic' + i) mod 32 = (current_rx_bucket nic + Suc i) mod 32" by (simp add: s'(4) mod_simps)
    have "(current_rx_bucket nic + Suc i) mod 32 \<noteq> current_rx_bucket nic"
    proof
      assume "(current_rx_bucket nic + Suc i) mod 32 = current_rx_bucket nic"
      then have "(current_rx_bucket nic + Suc i) mod 32 = current_rx_bucket nic mod 32" using b by simp
      then have "32 dvd Suc i" by (simp add: mod_eq_dvd_iff_nat)
      with i assms(8) show False by (auto dest: dvd_imp_le)
    qed
    then have "load_bytes (mem s') (rx_ring_ptr nic + of_nat (16 * ((current_rx_bucket nic + Suc i) mod 32))) 16
        = load_bytes (mem (hw e s)) (rx_ring_ptr nic + of_nat (16 * ((current_rx_bucket nic + Suc i) mod 32))) 16"
      using s'(8) by simp
    then show ?thesis unfolding rx_at_def p s'(7) by (simp only:)
  qed
  then have "waiting k nic' (mem s')" using w by (auto simp: waiting_def)
  moreover have "reply_size s' = reply_size s" by (simp add: reply_size_def s'(5))
  ultimately show ?thesis using s' assms(6) by (simp add: poll_net_card_def)
qed

end
