(* ===== verification/Progress.thy ===== *)
theory Progress
  imports KernelLoop Backlog
begin

text \<open>
  Progress of the running kernel: while interrupts and rounds of the main loop are interleaved, frames that wait in
  the receive ring (\<open>src/src/e1000.rs\<close>) are taken in order, one in every round (\<open>src/src/main.rs\<close>).
\<close>

section \<open>The ring between two polls\<close>

text \<open>Everything but \<open>poll\<close> leaves the descriptors and the driver's position alone.\<close>

lemma rx_at_step:
  assumes "net_ok e base sz s" and "net_card s = Some nic" and "net_step e base sz n s s'"
  shows "rx_at nic i (mem s') = rx_at nic i (mem s)"
proof -
  have blk: "(rx_ring_ptr nic, 512) \<in> set (live s)" using assms(1,2) by (auto simp: net_ok_def nic_ok_def)
  then have "load_bytes (mem s') (rx_ring_ptr nic) 512 = load_bytes (mem s) (rx_ring_ptr nic) 512"
    using assms(2,3) by (auto simp: net_step_def)
  note load_bytes_field [OF this, of "16 * ((current_rx_bucket nic + i) mod 32)" 16]
    load_bytes_field [OF refl, of "16 * ((current_rx_bucket nic + i) mod 32)" 16 512 "mem s" "rx_ring_ptr nic"]
  moreover have "16 * ((current_rx_bucket nic + i) mod 32) + 16 \<le> 512"
    using mod_less_divisor [of 32 "current_rx_bucket nic + i"] by linarith
  ultimately show ?thesis unfolding rx_at_def by (simp only:)
qed

lemma waiting_step:
  assumes "net_ok e base sz s" and "net_card s = Some nic" and "net_step e base sz n s s'" and "waiting k nic (mem s)"
  shows "\<exists>nic'. net_card s' = Some nic' \<and> waiting k nic' (mem s') \<and> current_rx_bucket nic' = current_rx_bucket nic"
proof -
  from assms(2,3) obtain c where c: "net_card s' = Some (nic\<lparr>current_tx_bucket := c\<rparr>)" by (auto simp: net_step_def)
  have "rx_at (nic\<lparr>current_tx_bucket := c\<rparr>) i m = rx_at nic i m" for i m by (simp add: rx_at_def)
  then have "waiting k (nic\<lparr>current_tx_bucket := c\<rparr>) (mem s')" using assms(4) rx_at_step [OF assms(1-3)] by (simp add: waiting_def)
  with c show ?thesis by simp
qed

lemma waiting_sane:
  assumes "heap_ok e base sz" and "card_waits e" and "kernel_ok e base sz s" and "net_card s = Some nic" and "waiting (Suc k) nic (mem s)"
  shows "rx_sane e s"
proof -
  have b: "current_rx_bucket nic < 32" using rx_slot_ops(4) [of e base sz s nic] assms(1,3,4) by (simp add: kernel_ok_def)
  have "waiting (Suc k) nic (mem (hw e s))" using assms(2,5) unfolding card_waits_def by blast
  then have "acceptable (rx_at nic 0 (mem (hw e s)))" by (simp add: waiting_def)
  then show ?thesis using assms(4) by (simp add: rx_at_head [OF b] rx_sane_def acceptable_def Let_def)
qed

section \<open>Rounds among events\<close>

definition rounds :: "event list \<Rightarrow> nat" where
  "rounds evs = length (filter (\<lambda>ev. ev = Round) evs)"

lemma rounds_simps [simp]: "rounds [] = 0" "rounds (Irq v b # evs) = rounds evs" "rounds (Round # evs) = Suc (rounds evs)"
  by (simp_all add: rounds_def)

definition routed :: "event list \<Rightarrow> bool" where
  "routed evs \<longleftrightarrow> (\<forall>v b. Irq v b \<in> set evs \<longrightarrow> v \<in> {TIMER_INT, KEYBOARD_INT, MOUSE_INT, SYSCALL_INT})"

definition run_events :: "('a kernel_scheme) env \<Rightarrow> u64 \<Rightarrow> u64 \<Rightarrow> diagnostics \<Rightarrow> event list \<Rightarrow> ('a kernel_scheme) outcome
    \<Rightarrow> ('a kernel_scheme) outcome option" where
  "run_events e cr0 cr3 dg = foldM (on_event e cr0 cr3 dg)"

lemma run_ring3: "run_events e cr0 cr3 dg evs (In_Ring3 s) = Some (In_Ring3 s)"
proof (induction evs)
  case (Cons ev evs)
  then show ?case by (cases ev) (simp_all add: run_events_def)
qed (simp add: run_events_def)

text \<open>Nobody touches the mouse: its left button is up and it raises no interrupt.\<close>

definition button_up :: "'a kernel_scheme \<Rightarrow> bool" where
  "button_up s \<longleftrightarrow> \<not> bit (MOUSE_BTN (mouse_state s)) 0"

definition hands_off :: "event list \<Rightarrow> bool" where
  "hands_off evs \<longleftrightarrow> (\<forall>b. Irq MOUSE_INT b \<notin> set evs)"

lemma button_up_spec: "button_up s \<Longrightarrow> \<not> fst (desktop_spec dk s)"
  by (simp add: button_up_def desktop_spec_def input_spec_def Let_def)

text \<open>One round takes the first waiting frame, unless it enters ring 3.\<close>

lemma round_takes_one:
  assumes "sized e base sz pl dg" and "card_waits e" and "loop_inv e base sz pl (Running dk s)"
    and "heap_used (live s) + event_cost pl \<le> sz"
    and "net_card s = Some nic" and "waiting (Suc k) nic (mem s)" and "k < 32"
  shows "\<exists>out. desktop_iter e cr0 cr3 dg dk s = Some out \<and> loop_inv e base sz pl out \<and> heap_of out \<le> heap_used (live s) + event_cost pl
    \<and> (\<forall>dk' t. out = Running dk' t \<longrightarrow> (\<exists>nic'. net_card t = Some nic' \<and> waiting k nic' (mem t)
         \<and> current_rx_bucket nic' = Suc (current_rx_bucket nic) mod 32))
    \<and> (button_up s \<longrightarrow> (\<exists>dk' t. out = Running dk' t \<and> button_up t))"
proof -
  have z: "heap_ok e base sz" "hw_mem_only e" "event_cost pl \<le> 64096" "length (dg_sector dg) < 2 ^ 32"
    using assms(1) by (simp_all add: sized_def)
  have k: "kernel_ok e base sz s" "roomy (server s)" "desk_ok (server s) dk" "http_payload s = pl" using assms(3) by simp_all
  have sane: "rx_sane e s" by (rule waiting_sane [OF z(1) assms(2) k(1) assms(5,6)])
  have r: "reply_room sz s" using z(3) assms(4) reply_size_cost [of s] k(4) by (simp add: reply_room_def)
  from round_safe [OF z(1,2) assms(3,4) z(3) sane z(4), of cr0 cr3] obtain out where
    out: "desktop_iter e cr0 cr3 dg dk s = Some out" "loop_inv e base sz pl out" "heap_of out \<le> heap_used (live s) + event_cost pl" by blast
  have n: "net_ok e base sz s" using k(1) by (simp add: kernel_ok_def)
  from poll_takes_one [OF z(1,2) assms(2) n r assms(5-7)] obtain s1 nic1 where
    s1: "poll_net_card e s = Some s1" "net_ok e base sz s1" "net_card s1 = Some nic1" "waiting k nic1 (mem s1)"
    "current_rx_bucket nic1 = Suc (current_rx_bucket nic) mod 32" by blast
  have "\<exists>nic'. net_card t = Some nic' \<and> waiting k nic' (mem t) \<and> current_rx_bucket nic' = Suc (current_rx_bucket nic) mod 32"
    if t: "out = Running dk' t" for dk' t
  proof -
    from desktop_iter_step [OF z(1,2) k(1) r sane k(2,3) z(4), of cr0 cr3] out(1) t s1(1) have "net_step e base sz 0 s1 t"
      by (auto split: if_splits)
    from waiting_step [OF s1(2,3) this s1(4)] s1(5) show ?thesis by simp
  qed
  moreover have "\<exists>dk' t. out = Running dk' t \<and> button_up t" if "button_up s"
    using desktop_iter_step [OF z(1,2) k(1) r sane k(2,3) z(4), of cr0 cr3] out(1) button_up_spec [OF that, of dk] that
    by (auto simp: button_up_def)
  ultimately show ?thesis using out by blast
qed

lemma irq_leaves_waiting:
  assumes "heap_ok e base sz" and "loop_inv e base sz pl (Running dk s)" and "heap_used (live s) + event_cost pl \<le> sz"
    and "v \<in> {TIMER_INT, KEYBOARD_INT, MOUSE_INT, SYSCALL_INT}" and "net_card s = Some nic" and "waiting k nic (mem s)"
  shows "\<exists>s' nic'. interrupt (with_port b e) v s = Some s' \<and> loop_inv e base sz pl (Running dk s')
    \<and> heap_used (live s') \<le> heap_used (live s) + event_cost pl
    \<and> net_card s' = Some nic' \<and> waiting k nic' (mem s') \<and> current_rx_bucket nic' = current_rx_bucket nic
    \<and> (v \<noteq> MOUSE_INT \<longrightarrow> button_up s' = button_up s)"
proof -
  from irq_safe [OF assms(1-4), of b] obtain s' where
    s': "interrupt (with_port b e) v s = Some s'" "loop_inv e base sz pl (Running dk s')"
    "heap_used (live s') \<le> heap_used (live s) + event_cost pl" "net_step e base sz 4156 s s'"
    "v \<noteq> MOUSE_INT \<longrightarrow> mouse_state s' = mouse_state s" by blast
  have "net_ok e base sz s" using assms(2) by (simp add: kernel_ok_def)
  from waiting_step [OF this assms(5) s'(4) assms(6)] s'(1-3,5) show ?thesis by (auto simp: button_up_def)
qed

lemma run_events_serve:
  assumes "sized e base sz pl dg" and "card_waits e"
    and "loop_inv e base sz pl (Running dk s)" and "heap_used (live s) + length evs * event_cost pl \<le> sz"
    and "net_card s = Some nic" and "waiting (rounds evs) nic (mem s)" and "rounds evs \<le> 32" and "routed evs"
  shows "\<exists>out. run_events e cr0 cr3 dg evs (Running dk s) = Some out \<and> loop_inv e base sz pl out
    \<and> (\<forall>dk' t. out = Running dk' t \<longrightarrow> (\<exists>nic'. net_card t = Some nic'
         \<and> current_rx_bucket nic' = (current_rx_bucket nic + rounds evs) mod 32))
    \<and> (button_up s \<and> hands_off evs \<longrightarrow> (\<exists>dk' t. out = Running dk' t))"
  using assms(3-8)
proof (induction evs arbitrary: dk s nic)
  case Nil
  then have "current_rx_bucket nic < 32" using rx_slot_ops(4) [of e base sz s nic] assms(1) by (simp add: sized_def kernel_ok_def)
  with Nil show ?case by (simp add: run_events_def)
next
  case (Cons ev evs)
  have h: "heap_ok e base sz" using assms(1) by (simp add: sized_def)
  have room: "heap_used (live s) + event_cost pl \<le> sz" and rest: "routed evs"
    using Cons.prems(2,6) by (auto simp: routed_def)
  show ?case
  proof (cases ev)
    case (Irq v b)
    have "v \<in> {TIMER_INT, KEYBOARD_INT, MOUSE_INT, SYSCALL_INT}" using Cons.prems(6) Irq by (auto simp: routed_def)
    from irq_leaves_waiting [OF h Cons.prems(1) room this Cons.prems(3), of "rounds evs" b] Cons.prems(4) Irq obtain s' nic' where
      s': "interrupt (with_port b e) v s = Some s'" "loop_inv e base sz pl (Running dk s')"
      "heap_used (live s') \<le> heap_used (live s) + event_cost pl"
      "net_card s' = Some nic'" "waiting (rounds evs) nic' (mem s')" "current_rx_bucket nic' = current_rx_bucket nic"
      "v \<noteq> MOUSE_INT \<longrightarrow> button_up s' = button_up s" by auto
    have off: "button_up s \<and> hands_off (ev # evs) \<Longrightarrow> button_up s' \<and> hands_off evs" using s'(7) Irq by (auto simp: hands_off_def)
    have "heap_used (live s') + length evs * event_cost pl \<le> sz" using s'(3) Cons.prems(2) by simp
    from Cons.IH [OF s'(2) this s'(4,5) _ rest] Cons.prems(5) Irq s'(1,6) off show ?thesis by (simp add: run_events_def) blast
  next
    case Round
    have k: "rounds evs < 32" using Cons.prems(5) Round by simp
    from round_takes_one [OF assms(1,2) Cons.prems(1) room Cons.prems(3) _ k, of cr0 cr3] Cons.prems(4) Round obtain out where
      out: "desktop_iter e cr0 cr3 dg dk s = Some out" "loop_inv e base sz pl out" "heap_of out \<le> heap_used (live s) + event_cost pl"
      "\<forall>dk' t. out = Running dk' t \<longrightarrow> (\<exists>nic'. net_card t = Some nic' \<and> waiting (rounds evs) nic' (mem t)
         \<and> current_rx_bucket nic' = Suc (current_rx_bucket nic) mod 32)"
      "button_up s \<longrightarrow> (\<exists>dk' t. out = Running dk' t \<and> button_up t)" by auto
    have run: "run_events e cr0 cr3 dg (ev # evs) (Running dk s) = run_events e cr0 cr3 dg evs out"
      using out(1) Round by (simp add: run_events_def)
    show ?thesis
    proof (cases out)
      case (In_Ring3 t)
      with out(2,5) run show ?thesis by (simp add: run_ring3)
    next
      case (Running dk' t)
      with out(4) obtain nic' where n: "net_card t = Some nic'" "waiting (rounds evs) nic' (mem t)"
        "current_rx_bucket nic' = Suc (current_rx_bucket nic) mod 32" by blast
      have "heap_used (live t) + length evs * event_cost pl \<le> sz" using out(3) Cons.prems(2) Running by (simp add: heap_of_def)
      from Cons.IH [OF out(2) [unfolded Running] this n(1,2) _ rest] k n(3) Running Round run out(5) show ?thesis
        by (simp add: mod_simps hands_off_def) blast
    qed
  qed
qed

section \<open>Rounds take frames\<close>

text \<open>Frames do not starve: if \<open>k\<close> frames wait in the receive ring (up to all 32 descriptors), and the card
  leaves filled descriptors alone until they are handed back, then any sequence of events with \<open>k\<close> rounds of the main loop,
  and between the rounds any timer, keyboard, mouse and \<open>int 0x80\<close> interrupts, runs without a panic and takes all \<open>k\<close>
  of them, whatever is in them: the ring position has moved on by \<open>k\<close>. The exception is a user who leaves for ring 3 on the way,
  which needs the mouse. The kernel's invariant holds at the end.\<close>

lemma waiting_frames_served:
  assumes "heap_ok e base sz" and "hw_mem_only e" and "card_waits e"
    and "kernel_ok e base sz s" and "roomy (server s)" and "desk_ok (server s) dk" and "length (dg_sector dg) < 2 ^ 32"
    and "event_cost (http_payload s) \<le> 64096" and "heap_used (live s) + length evs * event_cost (http_payload s) \<le> sz"
    and "net_card s = Some nic" and "waiting (rounds evs) nic (mem s)" and "rounds evs \<le> 32" and "routed evs"
  shows "(\<exists>dk' s' nic'. run_events e cr0 cr3 dg evs (Running dk s) = Some (Running dk' s') \<and> kernel_ok e base sz s'
      \<and> net_card s' = Some nic' \<and> current_rx_bucket nic' = (current_rx_bucket nic + rounds evs) mod 32)
    \<or> (\<exists>s'. run_events e cr0 cr3 dg evs (Running dk s) = Some (In_Ring3 s') \<and> kernel_ok e base sz s'
      \<and> \<not> (button_up s \<and> hands_off evs))"
proof -
  have "sized e base sz (http_payload s) dg" "loop_inv e base sz (http_payload s) (Running dk s)"
    using assms(1,2,4-8) by (simp_all add: sized_def)
  from run_events_serve [OF this(1) assms(3) this(2) assms(9-13), of cr0 cr3] obtain out where
    out: "run_events e cr0 cr3 dg evs (Running dk s) = Some out" "loop_inv e base sz (http_payload s) out"
    "\<forall>dk' t. out = Running dk' t \<longrightarrow> (\<exists>nic'. net_card t = Some nic'
         \<and> current_rx_bucket nic' = (current_rx_bucket nic + rounds evs) mod 32)"
    "button_up s \<and> hands_off evs \<longrightarrow> (\<exists>dk' t. out = Running dk' t)" by blast
  then show ?thesis by (cases out) auto
qed

section \<open>A full ring\<close>

lemma full_ring_waiting: "waiting k demo_nic (mem (desk_kernel\<lparr>mem := \<lambda>_. 1\<rparr>))"
proof -
  have "load_bytes (\<lambda>_. 1) a 16 = replicate 16 1" for a by (simp add: load_bytes_def map_replicate_const)
  moreover have "acceptable (rx_decode (replicate 16 1))" by code_simp
  ultimately have "acceptable (rx_decode (load_bytes (\<lambda>_. 1) a 16))" for a by simp
  then show ?thesis by (simp add: waiting_def rx_at_def)
qed

lemma desk_kernel_cost: "event_cost (http_payload (desk_kernel\<lparr>mem := m\<rparr>)) \<le> 16384"
proof -
  have "http_payload (desk_kernel\<lparr>mem := m\<rparr>) = http_payload demo_net"
    by (simp add: desk_kernel_def demo_kernel_def net.extend_def demo_net_def)
  moreover have "event_cost (http_payload demo_net) \<le> 16384"
    by (simp add: event_cost_def http_body_def demo_net_def Let_def dec_digits.simps)
  ultimately show ?thesis by simp
qed

end
