(* ===== verification/Served.thy ===== *)
theory Served
  imports Preempt Progress
begin

text \<open>
  Liveness of the main loop (\<open>src/src/main.rs\<close>) under interrupts at every cut: a bound on the steps to the next poll, and
  the frames that wait in the receive ring taken one by one.
\<close>

section \<open>Steps to the next poll\<close>

text \<open>At most 25 steps make a round: the poll, three loads, four clamping stores, the decision, fifteen drawing calls, and the end.\<close>

fun to_poll :: "'s loop_at \<Rightarrow> nat" where
  "to_poll (Load_X dk) = 24"
| "to_poll (Load_Y dk mx) = 23"
| "to_poll (Load_Btn dk mx my) = 22"
| "to_poll (Clamp dk mbtn mx my k) = 21 - k"
| "to_poll (Act dk mbtn mx my) = 17"
| "to_poll (Draw dk mbtn fs) = Suc (length fs)"
| "to_poll _ = 0"

text \<open>The loop has not left for ring 3, and still has drawing calls to make at most.\<close>

fun at_desk :: "('a kernel_scheme) loop_at \<Rightarrow> bool" where
  "at_desk (Draw dk mbtn fs) \<longleftrightarrow> list_all draws fs"
| "at_desk (Drop fs) \<longleftrightarrow> False"
| "at_desk Ring3 \<longleftrightarrow> False"
| "at_desk _ \<longleftrightarrow> True"

text \<open>The button state the loop has read.\<close>

fun released :: "'s loop_at \<Rightarrow> bool" where
  "released (Clamp dk mbtn mx my k) \<longleftrightarrow> \<not> bit mbtn 0"
| "released (Act dk mbtn mx my) \<longleftrightarrow> \<not> bit mbtn 0"
| "released _ \<longleftrightarrow> True"

definition nexts :: "moment list \<Rightarrow> nat" where
  "nexts ms = length (filter (\<lambda>m. m = Next) ms)"

definition irqs :: "moment list \<Rightarrow> nat" where
  "irqs ms = length (filter (\<lambda>m. m \<noteq> Next) ms)"

lemma moment_counts [simp]: "nexts [] = 0" "nexts (Next # ms) = Suc (nexts ms)" "nexts (Interrupt v b # ms) = nexts ms"
  "irqs [] = 0" "irqs (Next # ms) = irqs ms" "irqs (Interrupt v b # ms) = Suc (irqs ms)"
  by (simp_all add: nexts_def irqs_def)

definition wired :: "moment list \<Rightarrow> bool" where
  "wired ms \<longleftrightarrow> (\<forall>v b. Interrupt v b \<in> set ms \<longrightarrow> v \<in> {TIMER_INT, KEYBOARD_INT, MOUSE_INT, SYSCALL_INT})"

definition mouse_still :: "moment list \<Rightarrow> bool" where
  "mouse_still ms \<longleftrightarrow> (\<forall>b. Interrupt MOUSE_INT b \<notin> set ms)"

section \<open>One step\<close>

lemma clamp_stores:
  assumes "(clamp_stmts ! k) (mx, my, s) = Some (mx', my', s')" and "k \<le> 3"
  shows "s' = s\<lparr>mouse_state := mouse_state s'\<rparr>" and "MOUSE_BTN (mouse_state s') = MOUSE_BTN (mouse_state s)"
proof -
  have "k \<in> {0, 1, 2, 3}" using assms(2) by auto
  with assms(1) show "s' = s\<lparr>mouse_state := mouse_state s'\<rparr>" and "MOUSE_BTN (mouse_state s') = MOUSE_BTN (mouse_state s)"
    by (auto simp: clamp_stmts_def low_x_def low_y_def high_x_def high_y_def bind_eq_Some_conv split: if_split_asm)
qed

lemma net_step_mouse: "net_ok e base sz s \<Longrightarrow> net_step e base sz 0 s (s\<lparr>mouse_state := m\<rparr>)"
  using net_step_refl [of e base sz s 0]
  by (cases "net_card s") (auto simp: net_step_def net_ok_def gfx_ok_def)

lemma draw_calls_draw:
  assumes "roomy sv" and "desk_ok sv dk" and "on_pointer sv mx my" and "length (dg_sector dg) < 2 ^ 32"
    and "bx < 2 ^ 31" and "by' < 2 ^ 31"
  shows "list_all draws (draw_calls dg mx my bx by' dk)"
  using bar_calls_draw diagnostics_calls_draw [OF assms] cursor_calls_draw [OF assms(1,3)]
  by (auto simp: list_all_iff draw_calls_def)

text \<open>What a step other than a poll does: the ring is left alone, and the loop comes nearer to its next poll, unless the user leaves.\<close>

lemma next_effect:
  assumes "sized e base sz pl dg" and "loop_ok e base sz pl (at, s)" and "at_desk at" and "\<And>dk. at \<noteq> Polling dk"
    and "loop_next e cr0 cr3 dg at s = Some (at', s')"
  shows "net_step e base sz 0 s s'
    \<and> (at_desk at' \<and> Suc (to_poll at') \<le> to_poll at \<and> (released at \<and> button_up s \<longrightarrow> released at' \<and> button_up s')
       \<or> (\<exists>fs. at' = Drop fs) \<and> \<not> released at)"
proof -
  have k: "kernel_ok e base sz s" "roomy (server s)" "at_ok e base sz (server s) at" and z: "length (dg_sector dg) < 2 ^ 32"
    using assms(1,2) by (simp_all add: loop_ok_def sized_def)
  have n: "net_ok e base sz s" using k(1) by (simp add: kernel_ok_def)
  note r = net_step_refl [OF n, of 0]
  show ?thesis
  proof (cases at)
    case (Clamp dk mbtn mx my i)
    with assms(5) obtain mx' my' where c: "(clamp_stmts ! i) (mx, my, s) = Some (mx', my', s')"
      "at' = (if i < 3 then Clamp dk mbtn mx' my' (Suc i) else Act dk mbtn mx' my')" by (auto simp: bind_eq_Some_conv)
    have i: "i \<le> 3" using k(3) Clamp by simp
    have "net_step e base sz 0 s s'" using net_step_mouse [OF n, of "mouse_state s'"] clamp_stores(1) [OF c(1) i] by simp
    with c(2) i Clamp clamp_stores(2) [OF c(1) i] show ?thesis by (auto simp: button_up_def)
  next
    case (Act dk mbtn mx my)
    have d: "desk_ok (server s) dk" "on_pointer (server s) mx my" using k(3) Act by simp_all
    have "nat (win_x (desktop_win dk)) + 20 < 2 ^ 31" "nat (win_y (desktop_win dk)) + 240 < 2 ^ 31"
      using d(1) k(2) by (auto simp: desk_ok_def roomy_def)
    note ds = draw_calls_draw [OF k(2) input_spec_ok [OF k(2) d(1)] d(2) z this]
    obtain b dk' where i: "input_spec mbtn (server s) mx my dk = (b, dk')" by (cases "input_spec mbtn (server s) mx my dk")
    have s': "s' = s" "at' = (if b then Drop (drop_calls cr0 cr3)
        else Draw dk' mbtn (draw_calls dg mx my (nat (win_x (desktop_win dk)) + 20) (nat (win_y (desktop_win dk)) + 240) dk'))"
      using assms(5) Act by (auto simp: drop_button_pos [OF k(2) d(1)] handle_input_eq [OF k(2) d] i simp del: uadd_Some_iff)
    have "b \<Longrightarrow> bit mbtn 0" using i by (auto simp: input_spec_def Let_def split: if_split_asm)
    moreover have "list_all draws (draw_calls dg mx my (nat (win_x (desktop_win dk)) + 20) (nat (win_y (desktop_win dk)) + 240) dk')"
      using ds [of mbtn mx my] i by simp
    ultimately show ?thesis using s' r Act call_counts(1) by auto
  next
    case (Draw dk mbtn fs)
    show ?thesis
    proof (cases fs)
      case Nil
      with Draw assms(5) r show ?thesis by auto
    next
      case (Cons f gs)
      with Draw assms(3) have f: "draws f" "list_all draws gs" by simp_all
      from draws_kernel [OF f(1) k(1,2)] Cons Draw assms(5) have "kernel_step e base sz 0 s s'" "mouse_state s' = mouse_state s" "at' = Draw dk mbtn gs"
        by auto
      with f(2) Cons Draw show ?thesis by (simp add: kernel_step_def button_up_def)
    qed
  qed (use assms(3-5) r in \<open>auto simp: button_up_def\<close>)
qed

lemma poll_effect:
  assumes "sized e base sz pl dg" and "card_waits e" and "loop_ok e base sz pl (Polling dk, s)"
    and "heap_used (live s) + event_cost pl \<le> sz" and "net_card s = Some nic" and "waiting (Suc k) nic (mem s)" and "k < 32"
  shows "\<exists>s' nic'. loop_next e cr0 cr3 dg (Polling dk) s = Some (Load_X dk, s') \<and> loop_ok e base sz pl (Load_X dk, s')
    \<and> heap_used (live s') \<le> heap_used (live s) + event_cost pl \<and> net_card s' = Some nic' \<and> waiting k nic' (mem s')
    \<and> current_rx_bucket nic' = Suc (current_rx_bucket nic) mod 32 \<and> button_up s' = button_up s"
proof -
  have z: "heap_ok e base sz" "hw_mem_only e" "event_cost pl \<le> 64096" using assms(1) by (simp_all add: sized_def)
  have k: "kernel_ok e base sz s" "net_ok e base sz s" "http_payload s = pl" using assms(3) by (simp_all add: loop_ok_def kernel_ok_def)
  have sane: "rx_sane e s" by (rule waiting_sane [OF z(1) assms(2) k(1) assms(5,6)])
  have r: "reply_room sz s" using z(3) assms(4) reply_size_cost [of s] k(3) by (simp add: reply_room_def)
  from next_safe [OF assms(1,3), of cr0 cr3] sane assms(4) obtain s' where
    s': "poll_net_card e s = Some s'" "loop_ok e base sz pl (Load_X dk, s')" "heap_used (live s') \<le> heap_used (live s) + event_cost pl"
    by auto
  from poll_takes_one [OF z(1,2) assms(2) k(2) r assms(5-7)] s'(1) obtain nic' where
    n: "net_card s' = Some nic'" "waiting k nic' (mem s')" "current_rx_bucket nic' = Suc (current_rx_bucket nic) mod 32" by auto
  have "mouse_state s' = mouse_state s" using poll_kernel [OF z(1,2) k(1) r sane] s'(1) by auto
  with s' n show ?thesis by (simp add: button_up_def)
qed

lemma interrupt_effect:
  assumes "heap_ok e base sz" and "loop_ok e base sz pl (at, s)" and "heap_used (live s) + event_cost pl \<le> sz"
    and "v \<in> {TIMER_INT, KEYBOARD_INT, MOUSE_INT, SYSCALL_INT}" and "at_desk at" and "net_card s = Some nic" and "waiting k nic (mem s)"
  shows "\<exists>s' nic'. preempt e cr0 cr3 dg (Interrupt v b) (at, s) = Some (at, s') \<and> loop_ok e base sz pl (at, s')
    \<and> heap_used (live s') \<le> heap_used (live s) + event_cost pl \<and> net_card s' = Some nic' \<and> waiting k nic' (mem s')
    \<and> current_rx_bucket nic' = current_rx_bucket nic \<and> (v \<noteq> MOUSE_INT \<longrightarrow> button_up s' = button_up s)"
proof -
  have k: "kernel_ok e base sz s" "net_ok e base sz s" "http_payload s = pl" using assms(2) by (simp_all add: loop_ok_def kernel_ok_def)
  have "heap_used (live s) + 4156 \<le> sz" using event_cost_min [of s] k(3) assms(3) by simp
  from irq_step [OF assms(1) k(1) this assms(4), of b] interrupt_safe [OF assms(1-4), of b] obtain s' where
    s': "interrupt (with_port b e) v s = Some s'" "kernel_step e base sz 4156 s s'" "v \<noteq> MOUSE_INT \<longrightarrow> mouse_state s' = mouse_state s"
    "loop_ok e base sz pl (at, s')" "heap_used (live s') \<le> heap_used (live s) + event_cost pl" by auto
  from waiting_step [OF k(2) assms(6) _ assms(7), of 4156 s'] s'(2) obtain nic' where
    "net_card s' = Some nic'" "waiting k nic' (mem s')" "current_rx_bucket nic' = current_rx_bucket nic" by (auto simp: kernel_step_def)
  moreover have "preempt e cr0 cr3 dg (Interrupt v b) (at, s) = Some (at, s')"
    using s'(1) assms(5) by (auto split: loop_at.split)
  ultimately show ?thesis using s'(3-5) by (auto simp: button_up_def)
qed

text \<open>The steps that take \<open>k\<close> frames.\<close>

fun steps_for :: "'s loop_at \<Rightarrow> nat \<Rightarrow> nat" where
  "steps_for at 0 = 0"
| "steps_for at (Suc k) = to_poll at + 25 * k + 1"

text \<open>The state of affairs when the moments \<open>ms\<close> are still to come: enough heap and enough steps for the frames
  that still wait, after which the ring position is \<open>pos\<close>; \<open>still\<close> when nobody touches the mouse.\<close>

definition serving :: "('a kernel_scheme) env \<Rightarrow> nat \<Rightarrow> nat \<Rightarrow> rstr option \<Rightarrow> nat \<Rightarrow> bool \<Rightarrow> moment list
    \<Rightarrow> ('a kernel_scheme) loop_at \<times> 'a kernel_scheme \<Rightarrow> bool" where
  "serving e base sz pl pos still ms = (\<lambda>(at, s). loop_ok e base sz pl (at, s) \<and> at_desk at \<and> wired ms
     \<and> (still \<longrightarrow> released at \<and> button_up s \<and> mouse_still ms)
     \<and> (\<exists>nic k. net_card s = Some nic \<and> waiting k nic (mem s) \<and> k < 32 \<and> (current_rx_bucket nic + k) mod 32 = pos
          \<and> heap_used (live s) + (irqs ms + k) * event_cost pl \<le> sz \<and> steps_for at k \<le> nexts ms))"

lemma servingI:
  assumes "loop_ok e base sz pl (at, s)" and "at_desk at" and "wired ms" and "still \<Longrightarrow> released at \<and> button_up s \<and> mouse_still ms"
    and "net_card s = Some nic" and "waiting k nic (mem s)" and "k < 32" and "(current_rx_bucket nic + k) mod 32 = pos"
    and "heap_used (live s) + (irqs ms + k) * event_cost pl \<le> sz" and "steps_for at k \<le> nexts ms"
  shows "serving e base sz pl pos still ms (at, s)"
  using assms unfolding serving_def by blast

text \<open>One moment: an interrupt, a poll, another step.\<close>

lemma serving_interrupt:
  assumes "heap_ok e base sz" and "serving e base sz pl pos still (Interrupt v b # ms) (at, s)"
  shows "\<exists>c'. preempt e cr0 cr3 dg (Interrupt v b) (at, s) = Some c' \<and> serving e base sz pl pos still ms c'"
proof -
  from assms(2) obtain nic k where s: "loop_ok e base sz pl (at, s)" "at_desk at" "wired (Interrupt v b # ms)"
    "still \<Longrightarrow> released at \<and> button_up s \<and> mouse_still (Interrupt v b # ms)" "net_card s = Some nic" "waiting k nic (mem s)" "k < 32"
    "(current_rx_bucket nic + k) mod 32 = pos" "heap_used (live s) + (Suc (irqs ms) + k) * event_cost pl \<le> sz" "steps_for at k \<le> nexts ms"
    unfolding serving_def by auto
  have v: "v \<in> {TIMER_INT, KEYBOARD_INT, MOUSE_INT, SYSCALL_INT}" and w: "wired ms" using s(3) by (auto simp: wired_def)
  have "heap_used (live s) + event_cost pl \<le> sz" using s(9) by simp
  from interrupt_effect [OF assms(1) s(1) this v s(2,5,6), of cr0 cr3 dg b] obtain s' nic' where
    s': "preempt e cr0 cr3 dg (Interrupt v b) (at, s) = Some (at, s')" "loop_ok e base sz pl (at, s')"
    "heap_used (live s') \<le> heap_used (live s) + event_cost pl" "net_card s' = Some nic'" "waiting k nic' (mem s')"
    "current_rx_bucket nic' = current_rx_bucket nic" "v \<noteq> MOUSE_INT \<longrightarrow> button_up s' = button_up s" by blast
  have "serving e base sz pl pos still ms (at, s')"
  proof (rule servingI [OF s'(2) s(2) w _ s'(4,5) s(7) _ _ s(10)])
    show "still \<Longrightarrow> released at \<and> button_up s' \<and> mouse_still ms" using s(4) s'(7) by (auto simp: mouse_still_def)
    show "(current_rx_bucket nic' + k) mod 32 = pos" using s(8) s'(6) by simp
    show "heap_used (live s') + (irqs ms + k) * event_cost pl \<le> sz" using s(9) s'(3) by (simp add: algebra_simps)
  qed
  with s'(1) show ?thesis by blast
qed

lemma serving_poll:
  assumes "sized e base sz pl dg" and "card_waits e" and "loop_ok e base sz pl (Polling dk, s)" and "wired ms"
    and "still \<Longrightarrow> button_up s \<and> mouse_still ms" and "net_card s = Some nic" and "waiting (Suc k) nic (mem s)" and "Suc k < 32"
    and "heap_used (live s) + (irqs ms + Suc k) * event_cost pl \<le> sz" and "25 * k \<le> nexts ms"
  shows "\<exists>c'. loop_next e cr0 cr3 dg (Polling dk) s = Some c' \<and> serving e base sz pl ((current_rx_bucket nic + Suc k) mod 32) still ms c'"
proof -
  have "heap_used (live s) + event_cost pl \<le> sz" "k < 32" using assms(8,9) by simp_all
  from poll_effect [OF assms(1-3) this(1) assms(6,7) this(2), of cr0 cr3] obtain s' nic' where
    s': "loop_next e cr0 cr3 dg (Polling dk) s = Some (Load_X dk, s')" "loop_ok e base sz pl (Load_X dk, s')"
    "heap_used (live s') \<le> heap_used (live s) + event_cost pl" "net_card s' = Some nic'" "waiting k nic' (mem s')"
    "current_rx_bucket nic' = Suc (current_rx_bucket nic) mod 32" "button_up s' = button_up s" by blast
  have "serving e base sz pl ((current_rx_bucket nic + Suc k) mod 32) still ms (Load_X dk, s')"
  proof (rule servingI [OF s'(2) _ assms(4) _ s'(4,5)])
    show "(current_rx_bucket nic' + k) mod 32 = (current_rx_bucket nic + Suc k) mod 32" by (simp add: s'(6) mod_simps)
    show "heap_used (live s') + (irqs ms + k) * event_cost pl \<le> sz" using assms(9) s'(3) by (simp add: algebra_simps)
    show "steps_for (Load_X dk :: ('a kernel_scheme) loop_at) k \<le> nexts ms" using assms(10) by (cases k) simp_all
  qed (use assms(5,8) s'(7) in simp_all)
  with s'(1) show ?thesis by blast
qed

lemma serving_other:
  assumes "sized e base sz pl dg" and "loop_ok e base sz pl (at, s)" and "at_desk at" and "\<And>dk. at \<noteq> Polling dk" and "wired ms"
    and "still \<Longrightarrow> released at \<and> button_up s \<and> mouse_still ms" and "net_card s = Some nic" and "waiting (Suc k) nic (mem s)" and "Suc k < 32"
    and "heap_used (live s) + (irqs ms + Suc k) * event_cost pl \<le> sz" and "to_poll at + 25 * k \<le> nexts ms"
  shows "\<exists>at' s'. loop_next e cr0 cr3 dg at s = Some (at', s') \<and> (serving e base sz pl ((current_rx_bucket nic + Suc k) mod 32) still ms (at', s')
    \<or> kernel_ok e base sz s' \<and> (\<exists>fs. at' = Drop fs) \<and> \<not> still)"
proof -
  have "heap_used (live s) + sends Next (at, s) * event_cost pl \<le> sz" "may_come e Next (at, s)" "sends Next (at, s) = 0"
    using assms(4,10) by (auto split: loop_at.split)
  from next_safe [OF assms(1,2) this(2,1), of cr0 cr3] this(3) obtain at' s' where
    s': "loop_next e cr0 cr3 dg at s = Some (at', s')" "loop_ok e base sz pl (at', s')" "heap_used (live s') \<le> heap_used (live s)"
    by auto
  have ok: "net_ok e base sz s" "kernel_ok e base sz s'" using assms(2) s'(2) by (simp_all add: loop_ok_def kernel_ok_def)
  note f = next_effect [OF assms(1-4) s'(1)]
  from waiting_step [OF ok(1) assms(7) _ assms(8)] f obtain nic' where
    n: "net_card s' = Some nic'" "waiting (Suc k) nic' (mem s')" "current_rx_bucket nic' = current_rx_bucket nic" by blast
  have room: "heap_used (live s') + (irqs ms + Suc k) * event_cost pl \<le> sz" using assms(10) s'(3) by simp
  have "serving e base sz pl ((current_rx_bucket nic + Suc k) mod 32) still ms (at', s')"
    if "at_desk at'" "Suc (to_poll at') \<le> to_poll at" "released at \<and> button_up s \<longrightarrow> released at' \<and> button_up s'"
    by (rule servingI [OF s'(2) that(1) assms(5) _ n(1,2) assms(9) _ room]) (use assms(6,11) that n(3) in simp_all)
  with f assms(6) s'(1) ok(2) show ?thesis by blast
qed

lemma serving_moment:
  assumes "sized e base sz pl dg" and "card_waits e" and "serving e base sz pl pos still (m # ms) (at, s)"
    and "\<not> (\<exists>nic. net_card s = Some nic \<and> current_rx_bucket nic = pos)"
  shows "\<exists>at' s'. preempt e cr0 cr3 dg m (at, s) = Some (at', s')
    \<and> (serving e base sz pl pos still ms (at', s') \<or> kernel_ok e base sz s' \<and> (\<exists>fs. at' = Drop fs) \<and> \<not> still)"
proof (cases m)
  case (Interrupt v b)
  have "heap_ok e base sz" using assms(1) by (simp add: sized_def)
  from serving_interrupt [OF this assms(3) [unfolded Interrupt], of cr0 cr3 dg] show ?thesis unfolding Interrupt by auto
next
  case Next
  from assms(3) Next obtain nic k where s: "loop_ok e base sz pl (at, s)" "at_desk at" "wired ms"
    "still \<Longrightarrow> released at \<and> button_up s \<and> mouse_still ms" "net_card s = Some nic" "waiting k nic (mem s)" "k < 32"
    "(current_rx_bucket nic + k) mod 32 = pos" "heap_used (live s) + (irqs ms + k) * event_cost pl \<le> sz" "steps_for at k \<le> Suc (nexts ms)"
    unfolding serving_def by (auto simp: wired_def mouse_still_def)
  have "current_rx_bucket nic < 32"
    using rx_slot_ops(4) [of e base sz s nic] assms(1) s(1,5) by (simp add: sized_def loop_ok_def kernel_ok_def)
  then obtain j where k: "k = Suc j" using assms(4) s(5,8) by (cases k) auto
  note s' = s(6-10) [unfolded k]
  show ?thesis
  proof (cases "\<exists>dk. at = Polling dk")
    case True
    then obtain dk where at: "at = Polling dk" by blast
    from serving_poll [OF assms(1,2) s(1) [unfolded at] s(3) _ s(5) s'(1,2,4), of still cr0 cr3] s(4) s'(5) show ?thesis
      unfolding Next s'(3) by (auto simp: at)
  next
    case False
    with serving_other [OF assms(1) s(1,2) _ s(3,4,5) s'(1,2,4), of still cr0 cr3] s'(5) show ?thesis
      unfolding Next s'(3) by auto
  qed
qed

lemma frames_taken:
  assumes "sized e base sz pl dg" and "card_waits e" and "serving e base sz pl pos still ms (at, s)"
  shows "\<exists>pre suf at' s'. ms = pre @ suf \<and> foldM (preempt e cr0 cr3 dg) pre (at, s) = Some (at', s') \<and> kernel_ok e base sz s'
    \<and> ((\<exists>nic. net_card s' = Some nic \<and> current_rx_bucket nic = pos) \<or> (\<exists>fs. at' = Drop fs) \<and> \<not> still)"
  using assms(3)
proof (induction ms arbitrary: at s)
  case Nil
  then obtain nic k where "loop_ok e base sz pl (at, s)" "net_card s = Some nic" "(current_rx_bucket nic + k) mod 32 = pos" "steps_for at k \<le> 0"
    unfolding serving_def by auto
  then show ?case using rx_slot_ops(4) [of e base sz s nic] assms(1) by (cases k) (simp_all add: sized_def loop_ok_def kernel_ok_def)
next
  case (Cons m ms)
  show ?case
  proof (cases "\<exists>nic. net_card s = Some nic \<and> current_rx_bucket nic = pos")
    case True
    moreover have "kernel_ok e base sz s" using Cons.prems by (simp add: serving_def loop_ok_def)
    ultimately show ?thesis by (intro exI [of _ "[]"] exI [of _ "m # ms"] exI [of _ at] exI [of _ s]) simp
  next
    case False
    from serving_moment [OF assms(1,2) Cons.prems False, of cr0 cr3] obtain at' s' where
      s': "preempt e cr0 cr3 dg m (at, s) = Some (at', s')"
      "serving e base sz pl pos still ms (at', s') \<or> kernel_ok e base sz s' \<and> (\<exists>fs. at' = Drop fs) \<and> \<not> still" by blast
    have c: "foldM (preempt e cr0 cr3 dg) (m # pre) (at, s) = foldM (preempt e cr0 cr3 dg) pre (at', s')" for pre
      using s'(1) by simp
    from s'(2) show ?thesis
    proof
      assume "serving e base sz pl pos still ms (at', s')"
      from Cons.IH [OF this] c append_Cons show ?thesis by metis
    next
      assume "kernel_ok e base sz s' \<and> (\<exists>fs. at' = Drop fs) \<and> \<not> still"
      with c [of "[]"] show ?thesis
        by (intro exI [of _ "[m]"] exI [of _ ms] exI [of _ at'] exI [of _ s']) simp
    qed
  qed
qed

section \<open>Property\<close>


text \<open>The A key is pressed every 39 steps while 31 frames of 257 bytes wait.\<close>

definition busy_typing :: "moment list" where
  "busy_typing = concat (replicate 20 (Interrupt KEYBOARD_INT 0x1E # replicate 39 Next))"

lemma busy_typing_counts: "nexts busy_typing = 780" "irqs busy_typing = 20" "wired busy_typing" "mouse_still busy_typing"
proof -
  have c: "nexts (concat xss) = sum_list (map nexts xss)" "irqs (concat xss) = sum_list (map irqs xss)" for xss
    by (induction xss) (simp_all add: nexts_def irqs_def)
  have r: "nexts (replicate n Next) = n" "irqs (replicate n Next) = 0" for n by (simp_all add: nexts_def irqs_def)
  show "nexts busy_typing = 780" "irqs busy_typing = 20" by (simp_all add: busy_typing_def c r sum_list_replicate)
  show "wired busy_typing" "mouse_still busy_typing" by (auto simp: busy_typing_def wired_def mouse_still_def vectors)
qed


end
