(* ===== verification/Pcie.thy ===== *)
theory Pcie
  imports Startup
begin

text \<open>
  The older scanner of bus 0 (\<open>src/src/pcie.rs\<close>), which the kernel keeps beside the scan of \<open>_start\<close> (theory
  \<open>Boot\<close>) and does not call. What it prints is part of its result, as a list of lines.
\<close>

section \<open>Class names\<close>

definition get_device_type :: "u8 \<Rightarrow> u8 \<Rightarrow> rstr" where
  "get_device_type class_code subclass =
     (if (class_code, subclass) = (0x01, 0x01) then lit ''Storage: IDE Controller''
      else if (class_code, subclass) = (0x01, 0x06) then lit ''Storage: SATA Controller''
      else if (class_code, subclass) = (0x01, 0x08) then lit ''Storage: NVMe Controller''
      else if (class_code, subclass) = (0x02, 0x00) then lit ''Network: Ethernet Controller''
      else if (class_code, subclass) = (0x03, 0x00) then lit ''Display: VGA Compatible Controller''
      else if (class_code, subclass) = (0x04, 0x03) then lit ''Multimedia: High Definition Audio''
      else if (class_code, subclass) = (0x06, 0x00) then lit ''Bridge: Host Bridge''
      else if (class_code, subclass) = (0x06, 0x01) then lit ''Bridge: ISA Bridge''
      else if (class_code, subclass) = (0x06, 0x04) then lit ''Bridge: PCI-to-PCI Bridge''
      else if (class_code, subclass) = (0x0C, 0x03) then lit ''Serial Bus: USB Controller''
      else lit ''Unknown Device Class'')"

section \<open>Formats\<close>

text \<open>\<open>{:02}\<close> of a number below 100, \<open>{:#06X}\<close> of 16 bits and \<open>{:02X}\<close> of 8 bits.\<close>

definition dec2 :: "nat \<Rightarrow> rstr" where
  "dec2 n = (if n < 10 then 48 # dec_digits n else dec_digits n)"

definition hex_alt4 :: "u16 \<Rightarrow> rstr" where
  "hex_alt4 w = lit ''0x'' @ hex4 w"

definition hex2 :: "u8 \<Rightarrow> rstr" where
  "hex2 b = [hex_digit (unat b div 16), hex_digit (unat b mod 16)]"

definition mac_line :: "u32 \<Rightarrow> u32 \<Rightarrow> rstr" where
  "mac_line ral rah =
     lit ''          >>> HARDWARE MAC ADDRESS: '' @ hex2 (ucast (ral AND 0xFF)) @ lit '':''
       @ hex2 (ucast (drop_bit 8 ral AND 0xFF)) @ lit '':'' @ hex2 (ucast (drop_bit 16 ral AND 0xFF)) @ lit '':''
       @ hex2 (ucast (drop_bit 24 ral AND 0xFF)) @ lit '':'' @ hex2 (ucast (rah AND 0xFF)) @ lit '':''
       @ hex2 (ucast (drop_bit 8 rah AND 0xFF)) @ lit '' <<<''"

section \<open>The scan\<close>

record bus_scan =
  devices_found :: i32
  found_bar0 :: "u64 option"
  printed :: "rstr list"

text \<open>The network card's part: its registers hold its hardware address.\<close>

definition scan_ethernet ::
  "('a machine_scheme) env \<Rightarrow> u64 \<Rightarrow> u16 \<Rightarrow> u16 \<Rightarrow> bus_scan \<times> 'a machine_scheme \<Rightarrow> (bus_scan \<times> 'a machine_scheme) option" where
  "scan_ethernet e device_addr vendor_id device_id = (\<lambda>(b, s).
     if vendor_id = 0x8086 \<and> device_id = 0x10D3 then do {
       (bar0, s) \<leftarrow> vread32 e device_addr 0x10 s;
       let control_panel_addr = bar0 AND 0xFFFFFFF0;
       let panel = lit ''          >>> ETHERNET CONTROL PANEL (BAR0) FOUND AT: '' @ hex_alt (ucast control_panel_addr) @ lit '' <<<'';
       (ral, s) \<leftarrow> vread32 e (ucast control_panel_addr) 0x5400 s;
       (rah, s) \<leftarrow> vread32 e (ucast control_panel_addr) 0x5404 s;
       Some (b\<lparr>printed := printed b @ [panel, mac_line ral rah], found_bar0 := Some (ucast control_panel_addr)\<rparr>, s)
     } else Some (b, s))"

definition scan_slot ::
  "('a machine_scheme) env \<Rightarrow> u64 \<Rightarrow> nat \<Rightarrow> bus_scan \<times> 'a machine_scheme \<Rightarrow> (bus_scan \<times> 'a machine_scheme) option" where
  "scan_slot e pcie_base_addr device = (\<lambda>(b, s). do {
     device_addr \<leftarrow> wadd pcie_base_addr (push_bit 15 (of_nat device));
     let (vendor_and_device, s) = volatile_read32 e device_addr s;
     let vendor_id = (ucast (vendor_and_device AND 0xFFFF) :: u16);
     let device_id = (ucast (drop_bit 16 vendor_and_device) :: u16);
     if vendor_id \<noteq> 0xFFFF then do {
       (class_info, s) \<leftarrow> vread32 e device_addr 0x08 s;
       let class_code = ucast (drop_bit 24 class_info AND 0xFF);
       let subclass = ucast (drop_bit 16 class_info AND 0xFF);
       let device_type = get_device_type class_code subclass;
       let b = b\<lparr>printed := printed b
         @ [lit '' -> SLOT '' @ dec2 device @ lit '': ['' @ device_type @ lit '']'',
            lit ''          Vendor: '' @ hex_alt4 vendor_id @ lit '' | Device: '' @ hex_alt4 device_id]\<rparr>;
       (b, s) \<leftarrow> scan_ethernet e device_addr vendor_id device_id (b, s);
       n \<leftarrow> iadd (devices_found b) 1;
       Some (b\<lparr>devices_found := n\<rparr>, s)
     } else Some (b, s)
   })"

definition scan_bus_zero ::
  "('a machine_scheme) env \<Rightarrow> u64 \<Rightarrow> 'a machine_scheme \<Rightarrow> (u64 option \<times> rstr list \<times> 'a machine_scheme) option" where
  "scan_bus_zero e mcfg_address s = do {
     pcie_base_addr \<leftarrow> peek (mem s) mcfg_address 44 8;
     (b, s) \<leftarrow> foldM (scan_slot e pcie_base_addr) [0..<32]
       (\<lparr>devices_found = 0, found_bar0 = None,
         printed = [lit ''PCIe Configuration Space Base Address: '' @ hex_alt pcie_base_addr,
                    lit ''Scanning Motherboard PCIe Bus 0...'']\<rparr>, s);
     Some (found_bar0 b, printed b @ [lit ''Bus 0 Scan Complete. Found '' @ dec_int (devices_found b) @ lit '' attached hardware devices.''], s)
   }"

section \<open>What it finds\<close>

text \<open>The scanner's view of the header of slot \<open>d\<close>.\<close>

definition slot_ids :: "memory \<Rightarrow> u64 \<Rightarrow> nat \<Rightarrow> u16 \<times> u16" where
  "slot_ids m base d =
     (let v = (load_le m (cfg_addr base (8 * d)) 4 :: u32) in (ucast (v AND 0xFFFF), ucast (drop_bit 16 v)))"

definition slot_bar :: "memory \<Rightarrow> u64 \<Rightarrow> nat \<Rightarrow> u64" where
  "slot_bar m base d = ucast ((load_le m (cfg_addr base (8 * d) + 0x10) 4 :: u32) AND 0xFFFFFFF0)"

definition present :: "memory \<Rightarrow> u64 \<Rightarrow> nat \<Rightarrow> bool" where
  "present m base d \<longleftrightarrow> fst (slot_ids m base d) \<noteq> 0xFFFF"

definition is_e1000 :: "memory \<Rightarrow> u64 \<Rightarrow> nat \<Rightarrow> bool" where
  "is_e1000 m base d \<longleftrightarrow> slot_ids m base d = (0x8086, 0x10D3)"

lemma slot_reads:
  assumes "ecam_fits base" and "ecam_quiet e base" and "ecam_inv base s0 s" and "d < 32"
  shows "wadd base (push_bit 15 (of_nat d)) = Some (cfg_addr base (8 * d))"
    and "volatile_read32 e (cfg_addr base (8 * d)) s = (load_le (mem s0) (cfg_addr base (8 * d)) 4, hw e s)"
    and "\<exists>c. vread32 e (cfg_addr base (8 * d)) 0x08 s = Some (c, hw e s)"
    and "vread32 e (cfg_addr base (8 * d)) 0x10 s = Some (load_le (mem s0) (cfg_addr base (8 * d) + 0x10) 4, hw e s)"
proof -
  have i: "8 * d < 65536" using assms(4) by simp
  have same: "cfg_same base (mem s0) (mem (hw e s))"
    using ecam_hw(1) [OF assms(2,3)] by (auto simp: ecam_inv_def)
  have u: "unat base + 32768 * d < 2 ^ 64" using assms(1,4) by (simp add: ecam_fits_def)
  have "push_bit 15 (of_nat d :: u64) = of_nat (32768 * d)" by (simp add: push_bit_eq_mult mult.commute)
  moreover have "wadd base (of_nat (32768 * d)) = Some (base + of_nat (32768 * d))" by (rule wadd_small) (use u in simp)
  ultimately show "wadd base (push_bit 15 (of_nat d)) = Some (cfg_addr base (8 * d))" by (simp add: cfg_addr_def)
  show "volatile_read32 e (cfg_addr base (8 * d)) s = (load_le (mem s0) (cfg_addr base (8 * d)) 4, hw e s)"
    using cfg_load [OF same i, of 0 4] by (simp add: volatile_read32_def Let_def)
  show "\<exists>c. vread32 e (cfg_addr base (8 * d)) 0x08 s = Some (c, hw e s)"
    using cfg_offset [OF assms(1) i, of 8] by (simp add: vread32_def volatile_read32_def Let_def)
  show "vread32 e (cfg_addr base (8 * d)) 0x10 s = Some (load_le (mem s0) (cfg_addr base (8 * d) + 0x10) 4, hw e s)"
    using cfg_offset [OF assms(1) i, of 16] cfg_load [OF same i, of 16 4] by (simp add: vread32_def volatile_read32_def Let_def)
qed

lemma panel_read:
  assumes "ecam_quiet e base" and "ecam_inv base s0 s" and "off \<le> 0x10000"
  shows "\<exists>w. vread32 e (ucast (p :: u32)) off s = Some (w, hw e s)" and "ecam_inv base s0 (hw e s)"
proof -
  have "unat (ucast p :: u64) < 2 ^ 32" using unsigned_less [of p, where ?'a = nat] by (simp add: unsigned_ucast_eq) (rule le_less_trans [OF take_bit_nat_less_eq_self])
  moreover have "unat off \<le> 0x10000" using assms(3) by (simp add: word_le_nat_alt)
  ultimately have "wadd (ucast p) off = Some (ucast p + off)" by (simp add: wadd_def)
  then show "\<exists>w. vread32 e (ucast p) off s = Some (w, hw e s)" by (simp add: vread32_def volatile_read32_def Let_def)
  show "ecam_inv base s0 (hw e s)" by (rule ecam_hw(1) [OF assms(1,2)])
qed

lemma scan_slot_step:
  assumes "ecam_fits base" and "ecam_quiet e base" and "ecam_inv base s0 s" and "d < 32" and "0 \<le> devices_found b" and "devices_found b \<le> 32"
  shows "\<exists>b' s'. scan_slot e base d (b, s) = Some (b', s') \<and> ecam_inv base s0 s'
    \<and> devices_found b' = devices_found b + (if present (mem s0) base d then 1 else 0)
    \<and> found_bar0 b' = (if is_e1000 (mem s0) base d then Some (slot_bar (mem s0) base d) else found_bar0 b)"
proof -
  note r = slot_reads [OF assms(1-4)]
  let ?v = "load_le (mem s0) (cfg_addr base (8 * d)) 4 :: u32"
  have h1: "ecam_inv base s0 (hw e s)" by (rule ecam_hw(1) [OF assms(2,3)])
  show ?thesis
  proof (cases "present (mem s0) base d")
    case False
    then have "\<not> is_e1000 (mem s0) base d" by (auto simp: present_def is_e1000_def)
    with False h1 show ?thesis
      by (simp add: scan_slot_def r(1,2) present_def slot_ids_def Let_def)
  next
    case True
    then have v: "(ucast (?v AND 0xFFFF) :: u16) \<noteq> 0xFFFF" by (simp add: present_def slot_ids_def Let_def)
    obtain c where c: "vread32 e (cfg_addr base (8 * d)) 0x08 (hw e s) = Some (c, hw e (hw e s))"
      using slot_reads(3) [OF assms(1,2) h1 assms(4)] by blast
    have h2: "ecam_inv base s0 (hw e (hw e s))" by (rule ecam_hw(1) [OF assms(2) h1])
    define b1 where "b1 = b\<lparr>printed := printed b @ [lit '' -> SLOT '' @ dec2 d @ lit '': ['' @ get_device_type (ucast (drop_bit 24 c AND 0xFF)) (ucast (drop_bit 16 c AND 0xFF)) @ lit '']'',
            lit ''          Vendor: '' @ hex_alt4 (ucast (?v AND 0xFFFF)) @ lit '' | Device: '' @ hex_alt4 (ucast (drop_bit 16 ?v))]\<rparr>"
    have "\<exists>b2 s2. scan_ethernet e (cfg_addr base (8 * d)) (ucast (?v AND 0xFFFF)) (ucast (drop_bit 16 ?v)) (b1, hw e (hw e s)) = Some (b2, s2)
        \<and> ecam_inv base s0 s2 \<and> devices_found b2 = devices_found b
        \<and> found_bar0 b2 = (if is_e1000 (mem s0) base d then Some (slot_bar (mem s0) base d) else found_bar0 b)"
    proof (cases "is_e1000 (mem s0) base d")
      case False
      with h2 show ?thesis by (auto simp: scan_ethernet_def is_e1000_def slot_ids_def Let_def b1_def)
    next
      case e: True
      let ?p = "(load_le (mem s0) (cfg_addr base (8 * d) + 0x10) 4 :: u32) AND 0xFFFFFFF0"
      note q = slot_reads(4) [OF assms(1,2) h2 assms(4)]
      have h3: "ecam_inv base s0 (hw e (hw e (hw e s)))" by (rule ecam_hw(1) [OF assms(2) h2])
      obtain ral where ral: "vread32 e (ucast ?p) 0x5400 (hw e (hw e (hw e s))) = Some (ral, hw e (hw e (hw e (hw e s))))"
        using panel_read(1) [OF assms(2) h3, of "0x5400" ?p] by auto
      have h4: "ecam_inv base s0 (hw e (hw e (hw e (hw e s))))" by (rule ecam_hw(1) [OF assms(2) h3])
      obtain rah where rah: "vread32 e (ucast ?p) 0x5404 (hw e (hw e (hw e (hw e s)))) = Some (rah, hw e (hw e (hw e (hw e (hw e s)))))"
        using panel_read(1) [OF assms(2) h4, of "0x5404" ?p] by auto
      have "ecam_inv base s0 (hw e (hw e (hw e (hw e (hw e s)))))" by (rule ecam_hw(1) [OF assms(2) h4])
      moreover have "(ucast (?v AND 0xFFFF) :: u16) = 0x8086" "(ucast (drop_bit 16 ?v) :: u16) = 0x10D3"
        using e by (simp_all add: is_e1000_def slot_ids_def Let_def)
      ultimately show ?thesis using e
        unfolding scan_ethernet_def prod.case Let_def q bind.bind_lunit ral rah
        by (simp add: b1_def slot_bar_def)
    qed
    then obtain b2 s2 where e2: "scan_ethernet e (cfg_addr base (8 * d)) (ucast (?v AND 0xFFFF)) (ucast (drop_bit 16 ?v)) (b1, hw e (hw e s)) = Some (b2, s2)"
      "ecam_inv base s0 s2" "devices_found b2 = devices_found b"
      "found_bar0 b2 = (if is_e1000 (mem s0) base d then Some (slot_bar (mem s0) base d) else found_bar0 b)" by blast
    have n: "iadd (devices_found b2) 1 = Some (devices_found b + 1)"
      using assms(5,6) e2(3) by (simp add: iadd_def in_i32_def)
    have "scan_slot e base d (b, s) = Some (b2\<lparr>devices_found := devices_found b + 1\<rparr>, s2)"
      unfolding scan_slot_def prod.case r(1,2) bind.bind_lunit Let_def c using v n e2(1) [unfolded b1_def] by simp
    with e2 True show ?thesis by simp
  qed
qed

definition e1000_slot :: "memory \<Rightarrow> u64 \<Rightarrow> nat \<Rightarrow> nat option" where
  "e1000_slot m base n = List.find (is_e1000 m base) (rev [0..<n])"

lemma scan_slots_bus0:
  assumes "ecam_fits base" and "ecam_quiet e base" and "n \<le> 32" and "devices_found b = 0" and "found_bar0 b = None"
  shows "\<exists>b' s'. foldM (scan_slot e base) [0..<n] (b, s) = Some (b', s') \<and> ecam_inv base s s'
    \<and> devices_found b' = int (card {d. d < n \<and> present (mem s) base d})
    \<and> found_bar0 b' = map_option (slot_bar (mem s) base) (e1000_slot (mem s) base n)"
  using assms(3)
proof (induction n)
  case 0
  have "ecam_inv base s s" unfolding ecam_inv_def by (intro exI [of _ "mem s"] exI [of _ "io_trace s"]) (simp add: cfg_same_def)
  with assms(4,5) show ?case by (simp add: e1000_slot_def)
next
  case (Suc n)
  then obtain b1 s1 where r: "foldM (scan_slot e base) [0..<n] (b, s) = Some (b1, s1)" "ecam_inv base s s1"
    "devices_found b1 = int (card {d. d < n \<and> present (mem s) base d})"
    "found_bar0 b1 = map_option (slot_bar (mem s) base) (e1000_slot (mem s) base n)" by auto
  have "card {d. d < n \<and> present (mem s) base d} \<le> card {..<n}" by (rule card_mono) auto
  then have "0 \<le> devices_found b1" "devices_found b1 \<le> 32" "n < 32" using r(3) Suc.prems by simp_all
  from scan_slot_step [OF assms(1,2) r(2) this(3,1,2)] obtain b2 s2 where
    b2: "scan_slot e base n (b1, s1) = Some (b2, s2)" "ecam_inv base s s2"
    "devices_found b2 = devices_found b1 + (if present (mem s) base n then 1 else 0)"
    "found_bar0 b2 = (if is_e1000 (mem s) base n then Some (slot_bar (mem s) base n) else found_bar0 b1)" by blast
  have "{d. d < Suc n \<and> present (mem s) base d}
      = (if present (mem s) base n then insert n {d. d < n \<and> present (mem s) base d} else {d. d < n \<and> present (mem s) base d})"
    by (auto simp: less_Suc_eq)
  with b2 r show ?case by (simp add: foldM_append e1000_slot_def)
qed

section \<open>Property\<close>

text \<open>On a machine whose configuration space does not change under the scan, \<open>scan_bus_zero\<close> never
  panics: it returns the register address of the last Intel 82574L (8086:10D3) among the 32 slots of bus 0, or
  nothing when there is none, its last line counts the slots that hold a device, and configuration space is left as it was.\<close>

lemma bus_zero_scanned:
  assumes "ecam_fits base" and "ecam_quiet e base" and "peek (mem s) mcfg_address 44 8 = Some base"
  shows "\<exists>out s'. scan_bus_zero e mcfg_address s
      = Some (map_option (slot_bar (mem s) base) (e1000_slot (mem s) base 32), out, s')
    \<and> last out = lit ''Bus 0 Scan Complete. Found '' @ dec_int (int (card {d. d < 32 \<and> present (mem s) base d})) @ lit '' attached hardware devices.''
    \<and> ecam_inv base s s'"
proof -
  let ?b = "\<lparr>devices_found = 0, found_bar0 = None, printed = [lit ''PCIe Configuration Space Base Address: '' @ hex_alt base,
                    lit ''Scanning Motherboard PCIe Bus 0...'']\<rparr>"
  from scan_slots_bus0 [OF assms(1,2), of 32 ?b s] obtain b s' where
    "foldM (scan_slot e base) [0..<32] (?b, s) = Some (b, s')" "ecam_inv base s s'"
    "devices_found b = int (card {d. d < 32 \<and> present (mem s) base d})"
    "found_bar0 b = map_option (slot_bar (mem s) base) (e1000_slot (mem s) base 32)" by auto
  then show ?thesis unfolding scan_bus_zero_def assms(3) bind.bind_lunit by simp
qed

end
