(* ===== verification/Bootloader.thy ===== *)
theory Bootloader
  imports BootTypes Machine
begin

text \<open>
  The UEFI bootloader (\<open>src/bootloader/src/main.rs\<close>): it gathers the boot information, copies the
  kernel's loadable segments to their addresses and jumps to the kernel. The firmware's answers (crate
  \<open>uefi\<close>) and the parsed kernel file (crate \<open>xmas_elf\<close>) are parameters.
\<close>

section \<open>What the firmware and the kernel file provide\<close>

record gop =
  fb_base :: u64
  fb_size :: usize
  resolution :: "usize \<times> usize"
  gop_stride :: usize

text \<open>\<open>memory_map_fn\<close> is the map for a buffer of a given length; \<open>allocate_pool\<close> the address of a new
  buffer. Both can fail.\<close>

record firmware =
  config_table :: "(128 word \<times> u64) list"
  graphics :: "gop option"
  map_size :: usize
  entry_size :: usize
  allocate_pool :: "usize \<Rightarrow> u64 option"
  memory_map_fn :: "usize \<Rightarrow> u8 list option"

record program_header =
  ph_load :: bool
  ph_offset :: usize
  ph_file_size :: usize
  ph_mem_size :: usize
  ph_virtual_addr :: u64

record elf_file =
  program_headers :: "program_header list"
  entry_point :: u64

section \<open>The bootloader\<close>

fun find_acpi :: "128 word \<Rightarrow> (128 word \<times> u64) list \<Rightarrow> u64" where
  "find_acpi guid [] = 0"
| "find_acpi guid ((g, a) # es) = (if g = guid then a else find_acpi guid es)"

definition boot_info_start :: "u64 \<Rightarrow> boot_info" where
  "boot_info_start acpi_address =
     \<lparr>framebuffer_base = 0, framebuffer_size = 0, bi_width = 0, bi_height = 0, bi_stride = 0, memory_map_size = 0,
      acpi2_rsdp_addr = acpi_address, memory_map_addr = 0, memory_map_desc_size = 0\<rparr>"

definition seize_framebuffer :: "gop option \<Rightarrow> boot_info \<Rightarrow> boot_info" where
  "seize_framebuffer g info = (case g of
       None \<Rightarrow> info
     | Some g \<Rightarrow> info\<lparr>framebuffer_base := fb_base g, framebuffer_size := fb_size g, bi_width := fst (resolution g),
         bi_height := snd (resolution g), bi_stride := gop_stride g\<rparr>)"

definition extract_map :: "firmware \<Rightarrow> boot_info \<Rightarrow> memory \<Rightarrow> (boot_info \<times> memory) option" where
  "extract_map fw info m = do {
     mmap_alloc_size \<leftarrow> uadd (map_size fw) 4096;
     mmap_ptr \<leftarrow> allocate_pool fw mmap_alloc_size;
     mmap_ptr \<leftarrow> raw_parts mmap_ptr;
     bytes \<leftarrow> memory_map_fn fw mmap_alloc_size;
     Some (info\<lparr>memory_map_addr := mmap_ptr, memory_map_size := map_size fw, memory_map_desc_size := entry_size fw\<rparr>,
       store_bytes m mmap_ptr bytes)
   }"

text \<open>The kernel file is part of the bootloader's own image, at the address \<open>kernel_bytes\<close>.\<close>

definition load_segment :: "u64 \<Rightarrow> program_header \<Rightarrow> memory \<Rightarrow> memory" where
  "load_segment kernel_bytes ph m =
     (if ph_load ph
      then store_bytes m (ph_virtual_addr ph) (load_bytes m (kernel_bytes + of_nat (ph_offset ph)) (ph_file_size ph))
      else m)"

definition load_kernel :: "u64 \<Rightarrow> elf_file \<Rightarrow> memory \<Rightarrow> memory" where
  "load_kernel kernel_bytes elf m = fold (load_segment kernel_bytes) (program_headers elf) m"

text \<open>The result is what \<open>kernel_main\<close> is called with: the boot information, the entry point and memory.\<close>

definition efi_main ::
  "128 word \<Rightarrow> firmware \<Rightarrow> (u8 list \<Rightarrow> elf_file option) \<Rightarrow> u64 \<Rightarrow> nat \<Rightarrow> memory \<Rightarrow> (boot_info \<times> u64 \<times> memory) option" where
  "efi_main ACPI2_GUID fw parse kernel_bytes kernel_len m = do {
     let info = boot_info_start (find_acpi ACPI2_GUID (config_table fw));
     let info = seize_framebuffer (graphics fw) info;
     (info, m) \<leftarrow> extract_map fw info m;
     elf \<leftarrow> parse (load_bytes m kernel_bytes kernel_len);
     let m = load_kernel kernel_bytes elf m;
     Some (info, entry_point elf, m)
   }"

section \<open>Loading segments\<close>

text \<open>The range a header's copy writes.\<close>

abbreviation ph_range :: "program_header \<Rightarrow> block" where
  "ph_range ph \<equiv> (ph_virtual_addr ph, ph_file_size ph)"

definition loads :: "elf_file \<Rightarrow> program_header list" where
  "loads elf = filter ph_load (program_headers elf)"

text \<open>A well-formed kernel file: the segments lie in the file, are apart from each other and from the
  file's image.\<close>

definition elf_ok :: "u64 \<Rightarrow> nat \<Rightarrow> elf_file \<Rightarrow> bool" where
  "elf_ok kb len elf \<longleftrightarrow> 0 < len
     \<and> (\<forall>ph\<in>set (loads elf). ph_offset ph + ph_file_size ph \<le> len \<and> ph_file_size ph < 2 ^ 64
          \<and> apart (ph_virtual_addr ph) (ph_file_size ph) kb len)
     \<and> sorted_wrt (\<lambda>p q. apart (ph_virtual_addr p) (ph_file_size p) (ph_virtual_addr q) (ph_file_size q)) (loads elf)"

definition put_segments :: "u8 list \<Rightarrow> program_header list \<Rightarrow> memory \<Rightarrow> memory" where
  "put_segments img phs m = fold (\<lambda>ph m. store_bytes m (ph_virtual_addr ph) (field img (ph_offset ph) (ph_file_size ph))) phs m"

lemma length_field_in: "off + n \<le> length f \<Longrightarrow> length (field f off n) = n"
  by (simp add: length_field)

lemma put_segments_simps:
  "put_segments img [] m = m"
  "put_segments img (ph # phs) m = put_segments img phs (store_bytes m (ph_virtual_addr ph) (field img (ph_offset ph) (ph_file_size ph)))"
  by (simp_all add: put_segments_def)

text \<open>Segments copied from the file's image in memory are those of the file, as copying leaves the image
  alone.\<close>

lemma load_segments_put:
  assumes "\<forall>ph\<in>set (filter ph_load phs). ph_offset ph + ph_file_size ph \<le> length img
      \<and> apart (ph_virtual_addr ph) (ph_file_size ph) kb (length img)"
    and "load_bytes m kb (length img) = img"
  shows "fold (load_segment kb) phs m = put_segments img (filter ph_load phs) m"
  using assms
proof (induction phs arbitrary: m)
  case (Cons ph phs)
  show ?case
  proof (cases "ph_load ph")
    case True
    let ?bs = "field img (ph_offset ph) (ph_file_size ph)"
    have b: "load_bytes m (kb + of_nat (ph_offset ph)) (ph_file_size ph) = ?bs"
      using load_bytes_field [OF Cons.prems(2)] Cons.prems(1) True by simp
    have "length ?bs = ph_file_size ph" using Cons.prems(1) True by (intro length_field_in) simp
    then have "load_bytes (store_bytes m (ph_virtual_addr ph) ?bs) kb (length img) = img"
      using Cons.prems True by simp
    with Cons True show ?thesis by (simp add: load_segment_def b put_segments_simps)
  next
    case False
    with Cons show ?thesis by (simp add: load_segment_def)
  qed
qed (simp add: put_segments_simps)

text \<open>Bytes outside all segments keep their values.\<close>

lemma put_segments_outside:
  assumes "\<forall>ph\<in>set phs. ph_file_size ph \<le> unat (x - ph_virtual_addr ph)"
  shows "put_segments img phs m x = m x"
  using assms
  by (induction phs arbitrary: m) (auto simp: put_segments_simps store_bytes_def length_field)

lemma put_segments_other:
  assumes "\<forall>q\<in>set phs. apart (ph_virtual_addr q) (ph_file_size q) a n" and "\<forall>q\<in>set phs. ph_offset q + ph_file_size q \<le> length img"
  shows "load_bytes (put_segments img phs m) a n = load_bytes m a n"
  using assms by (induction phs arbitrary: m) (simp_all add: put_segments_simps length_field_in)

lemma put_segments_loaded:
  assumes "sorted_wrt (\<lambda>p q. apart (ph_virtual_addr p) (ph_file_size p) (ph_virtual_addr q) (ph_file_size q)) phs"
    and "\<forall>q\<in>set phs. ph_offset q + ph_file_size q \<le> length img \<and> ph_file_size q < 2 ^ 64" and "ph \<in> set phs"
  shows "load_bytes (put_segments img phs m) (ph_virtual_addr ph) (ph_file_size ph) = field img (ph_offset ph) (ph_file_size ph)"
  using assms
proof (induction phs arbitrary: m)
  case (Cons q phs)
  show ?case
  proof (cases "ph \<in> set phs")
    case True
    with Cons show ?thesis by (simp add: put_segments_simps)
  next
    case False
    with Cons.prems have q: "q = ph" by simp
    let ?bs = "field img (ph_offset ph) (ph_file_size ph)"
    have l: "length ?bs = ph_file_size ph" using Cons.prems(2) q by (intro length_field_in) simp
    have "\<forall>r\<in>set phs. apart (ph_virtual_addr r) (ph_file_size r) (ph_virtual_addr ph) (ph_file_size ph)"
      using Cons.prems(1) q by (auto simp: apart_sym [of "ph_virtual_addr ph"])
    then have "load_bytes (put_segments img (q # phs) m) (ph_virtual_addr ph) (ph_file_size ph)
        = load_bytes (store_bytes m (ph_virtual_addr ph) ?bs) (ph_virtual_addr ph) (ph_file_size ph)"
      using put_segments_other [of phs "ph_virtual_addr ph" "ph_file_size ph" img] Cons.prems(2) q by (simp add: put_segments_simps)
    also have "\<dots> = ?bs" using load_store_bytes_same [of ?bs m "ph_virtual_addr ph"] Cons.prems(2) q by (simp add: l)
    finally show ?thesis .
  qed
qed simp

section \<open>Properties\<close>


text \<open>A machine without graphics and a kernel of one four-byte segment with four more bytes of zeroes.\<close>

definition demo_fw :: firmware where
  "demo_fw = \<lparr>config_table = [(1, 0xE0000), (2, 0xF0000)], graphics = None, map_size = 96, entry_size = 48,
     allocate_pool = (\<lambda>n. Some 0x50000), memory_map_fn = (\<lambda>n. Some (replicate 96 7))\<rparr>"

definition demo_elf :: elf_file where
  "demo_elf = \<lparr>program_headers = [\<lparr>ph_load = True, ph_offset = 2, ph_file_size = 4, ph_mem_size = 8, ph_virtual_addr = 0x200000\<rparr>],
     entry_point = 0x200000\<rparr>"


end
